(* ===== verification/AdCP_Prelude.thy ===== *)
theory AdCP_Prelude
  imports Main "HOL-Library.Word" "HOL-Library.Signed_Division" "HOL-Library.Char_ord" "HOL-Library.List_Lexorder" "HOL-Library.AList"
begin

text \<open>
  Shared vocabulary of the development: the types every component uses, the Go string and slice
  operations the sources call (\<^verbatim>\<open>strings\<close>, \<^verbatim>\<open>slices\<close>, \<^verbatim>\<open>strconv\<close>, \<^verbatim>\<open>sort\<close>), and the generic list, option
  and map facts that carry the component proofs.

  Go strings are byte sequences, so a Go \<^verbatim>\<open>string\<close> is a HOL \<^typ>\<open>string\<close> (a list of bytes) and
  \<^verbatim>\<open>len\<close> is \<^const>\<open>length\<close>. Go compares strings bytewise, which is the lexicographic order of
  \<^theory_text>\<open>List_Lexorder\<close> over the byte order of \<^theory_text>\<open>Char_ord\<close>.
\<close>

named_theorems go_simps \<open>equations of the Go library functions the sources call\<close>

section \<open>Results and times\<close>

text \<open>A Go \<^verbatim>\<open>(T, error)\<close> result is a sum, the error on the left. Times and durations are
  nanosecond counts.\<close>

type_synonym 'a result = "string + 'a"
type_synonym time = int
type_synonym duration = int

definition nanosecond :: duration where "nanosecond = 1"
definition millisecond :: duration where "millisecond = 1000000"
definition second :: duration where "second = 1000000000"

text \<open>Go's \<^verbatim>\<open>int\<close>, \<^verbatim>\<open>int64\<close> and \<^verbatim>\<open>time.Duration\<close> are 64-bit two's complement; a product that may leave
  the range is reduced explicitly.\<close>

definition wrap64 :: "int \<Rightarrow> int" where
  "wrap64 x = (x + 2 ^ 63) mod 2 ^ 64 - 2 ^ 63"

lemma wrap64_id: "- (2 ^ 63) \<le> x \<Longrightarrow> x < 2 ^ 63 \<Longrightarrow> wrap64 x = x"
  by (simp add: wrap64_def)

lemma wrap64_range: "- (2 ^ 63) \<le> wrap64 x" "wrap64 x < 2 ^ 63"
  by (simp_all add: wrap64_def minus_mod_eq_mult_div diff_less_eq pos_mod_sign pos_mod_bound)

section \<open>Generic facts\<close>

lemma ex_le_Suc: "(\<exists>k\<le>Suc n. P k) \<longleftrightarrow> P 0 \<or> (\<exists>k\<le>n. P (Suc k))"
  by (metis Suc_le_mono le0 not0_implies_Suc)

lemma not_in_image: "x \<notin> f ` A \<longleftrightarrow> (\<forall>y\<in>A. f y \<noteq> x)"
  by auto

lemma image_filter_map: "x \<in> f ` set (filter P (map g xs)) \<Longrightarrow> \<exists>q\<in>set xs. P (g q) \<and> f (g q) = x"
  by auto

lemma sep_inj: "x \<notin> set a \<Longrightarrow> x \<notin> set a' \<Longrightarrow> a @ x # b = a' @ x # b' \<longleftrightarrow> a = a' \<and> b = b'"
proof (induction a arbitrary: a')
  case Nil
  then show ?case by (cases a') auto
next
  case (Cons y a)
  then show ?case by (cases a') auto
qed

lemma map_of_filter_distinct:
  "distinct (map fst xs) \<Longrightarrow> map_of (filter P xs) k = Some v \<longleftrightarrow> map_of xs k = Some v \<and> P (k, v)"
  by (simp add: map_of_eq_Some_iff distinct_map_filter)

section \<open>Go string operations\<close>

definition has_prefix :: "string \<Rightarrow> string \<Rightarrow> bool" where
  "has_prefix s p \<longleftrightarrow> take (length p) s = p"

definition cut_prefix :: "string \<Rightarrow> string \<Rightarrow> string option" where
  "cut_prefix s p = (if has_prefix s p then Some (drop (length p) s) else None)"

definition trim_prefix :: "string \<Rightarrow> string \<Rightarrow> string" where
  "trim_prefix s p = (if has_prefix s p then drop (length p) s else s)"

lemma has_prefix_append [simp]: "has_prefix (p @ s) p"
  by (simp add: has_prefix_def)

lemma cut_prefix_append [simp]: "cut_prefix (p @ s) p = Some s"
  by (simp add: cut_prefix_def)

lemma trim_prefix_append [simp]: "trim_prefix (p @ s) p = s"
  by (simp add: trim_prefix_def)

lemma has_prefix_iff: "has_prefix s p \<longleftrightarrow> (\<exists>t. s = p @ t)"
  by (metis append_eq_conv_conj append_take_drop_id has_prefix_def)

lemma cut_prefix_Some_iff: "cut_prefix s p = Some t \<longleftrightarrow> s = p @ t"
  by (auto simp: cut_prefix_def has_prefix_iff)

text \<open>\<^verbatim>\<open>strconv.Itoa\<close> on non-negative numbers: decimal digits, most significant first.\<close>

definition digit_char :: "nat \<Rightarrow> char" where
  "digit_char d = char_of (48 + d)"

fun itoa :: "nat \<Rightarrow> string" where
  "itoa n = (if n < 10 then [digit_char n] else itoa (n div 10) @ [digit_char (n mod 10)])"

declare itoa.simps [simp del]

definition is_digit :: "char \<Rightarrow> bool" where
  "is_digit c \<longleftrightarrow> CHR ''0'' \<le> c \<and> c \<le> CHR ''9''"

definition is_upper :: "char \<Rightarrow> bool" where
  "is_upper c \<longleftrightarrow> CHR ''A'' \<le> c \<and> c \<le> CHR ''Z''"

definition is_lower :: "char \<Rightarrow> bool" where
  "is_lower c \<longleftrightarrow> CHR ''a'' \<le> c \<and> c \<le> CHR ''z''"

definition is_letter :: "char \<Rightarrow> bool" where
  "is_letter c \<longleftrightarrow> is_upper c \<or> is_lower c"

lemmas char_class_defs = is_digit_def is_upper_def is_lower_def is_letter_def less_eq_char_def

definition to_lower :: "char \<Rightarrow> char" where
  "to_lower c = (if is_upper c then char_of (of_char c + (32 :: nat)) else c)"

fun digits_value :: "string \<Rightarrow> nat" where
  "digits_value s = foldl (\<lambda>n c. 10 * n + (of_char c - 48)) 0 s"

lemma itoa_value: "digits_value (itoa n) = n"
proof (induction n rule: itoa.induct)
  case (1 n)
  have dig: "of_char (digit_char d) - 48 = d" if "d < 10" for d
    using that by (simp add: digit_char_def)
  show ?case
  proof (cases "n < 10")
    case True
    then show ?thesis by (simp add: itoa.simps [of n] dig)
  next
    case False
    with 1 show ?thesis by (simp add: itoa.simps [of n] dig)
  qed
qed

lemma itoa_inj: "itoa n = itoa m \<longleftrightarrow> n = m"
  by (metis itoa_value)

lemma itoa_digits: "c \<in> set (itoa n) \<Longrightarrow> is_digit c"
proof (induction n rule: itoa.induct)
  case (1 n)
  have dig: "is_digit (digit_char d)" if "d < 10" for d
    using that by (simp add: digit_char_def is_digit_def less_eq_char_def)
  show ?case
    using 1 by (cases "n < 10") (auto simp: itoa.simps [of n] dig)
qed

text \<open>\<^verbatim>\<open>strings.Join\<close>.\<close>

fun join :: "string \<Rightarrow> string list \<Rightarrow> string" where
  "join sep [] = []"
| "join sep [x] = x"
| "join sep (x # y # xs) = x @ sep @ join sep (y # xs)"

text \<open>Joining is injective on non-empty lists whose elements are free of the separator.\<close>

lemma join_Cons_inj:
  assumes "c \<notin> set x" "c \<notin> set y" "xs \<noteq> []" "ys \<noteq> []"
  shows "join [c] (x # xs) = join [c] (y # ys) \<longleftrightarrow> x = y \<and> join [c] xs = join [c] ys"
  using assms by (cases xs; cases ys) (simp_all add: sep_inj)

lemma join_single_sep: "join [c] (y # z # ys) = y @ c # join [c] (z # ys)"
  by simp

lemma join_inj:
  "(\<forall>x\<in>set xs. c \<notin> set x) \<Longrightarrow> (\<forall>y\<in>set ys. c \<notin> set y) \<Longrightarrow> xs \<noteq> [] \<Longrightarrow> ys \<noteq> [] \<Longrightarrow>
   join [c] xs = join [c] ys \<longleftrightarrow> xs = ys"
proof (induction xs arbitrary: ys)
  case (Cons x xs)
  then obtain y ys' where ys: "ys = y # ys'" by (cases ys) auto
  have sep: "c \<notin> set x" "c \<notin> set y" using Cons.prems by (auto simp: ys)
  show ?case
  proof (cases "xs = [] \<or> ys' = []")
    case True
    have "c \<notin> set (join [c] (z # zs)) \<Longrightarrow> zs = []" for z and zs :: "string list"
      by (cases zs) auto
    with True sep show ?thesis by (cases "xs = []"; cases "ys' = []") (auto simp: ys)
  next
    case False
    with Cons sep show ?thesis by (simp add: ys join_Cons_inj)
  qed
qed simp

section \<open>Sequences of checks\<close>

text \<open>A Go validator is a sequence of guarded early returns. It is modelled by the list of its
  checks, each \<^const>\<open>None\<close> when passed; the validator returns the first failure.\<close>

definition fails :: "bool \<Rightarrow> string \<Rightarrow> string option" where
  "fails b msg = (if b then Some msg else None)"

fun first_some :: "'a option list \<Rightarrow> 'a option" where
  "first_some [] = None"
| "first_some (None # xs) = first_some xs"
| "first_some (Some x # xs) = Some x"

text \<open>The same over the elements of a slice with their indices, \<^verbatim>\<open>for i, x := range xs\<close>.\<close>

definition each_index :: "(nat \<Rightarrow> 'a \<Rightarrow> string option) \<Rightarrow> 'a list \<Rightarrow> string option" where
  "each_index chk xs = first_some (map (\<lambda>(i, x). chk i x) (enumerate 0 xs))"

lemma fails_None [simp]: "fails b msg = None \<longleftrightarrow> \<not> b"
  by (simp add: fails_def)

lemma first_some_None [simp]: "first_some xs = None \<longleftrightarrow> (\<forall>x\<in>set xs. x = None)"
proof (induction xs)
  case (Cons x xs)
  then show ?case by (cases x) auto
qed simp

lemma first_some_Cons: "first_some (x # xs) = None \<longleftrightarrow> x = None \<and> first_some xs = None"
  by simp

lemma first_some_map: "first_some (map f xs) = None \<longleftrightarrow> (\<forall>x\<in>set xs. f x = None)"
  by simp

lemma first_some_in: "first_some xs = Some e \<Longrightarrow> Some e \<in> set xs"
proof (induction xs)
  case (Cons x xs)
  then show ?case by (cases x) auto
qed simp

lemma each_index_None: "each_index chk xs = None \<longleftrightarrow> (\<forall>i<length xs. chk i (xs ! i) = None)"
proof -
  have "set (enumerate 0 xs) = {(i, xs ! i) |i. i < length xs}"
    by (force simp: enumerate_eq_zip set_zip)
  then show ?thesis by (auto simp: each_index_def)
qed

lemma each_index_all:
  "each_index chk xs = None \<Longrightarrow> (\<And>i. chk i x = None \<Longrightarrow> P x) \<Longrightarrow> x \<in> set xs \<Longrightarrow> P x"
  by (auto simp: each_index_None in_set_conv_nth)

lemma disj_rest: "\<not> P \<Longrightarrow> P \<or> Q \<Longrightarrow> Q" by blast

end
