(* ===== verification/TMP_Types.thy ===== *)
theory TMP_Types
  imports AdCP_Prelude
begin

text \<open>
  The wire types of the Trusted Match Protocol the router handles (\<^verbatim>\<open>src/tmproto/types_gen.go\<close>,
  \<^verbatim>\<open>identity.go\<close>, \<^verbatim>\<open>artifact.go\<close>, \<^verbatim>\<open>context_signals.go\<close>, \<^verbatim>\<open>artifact_ref.go\<close>): one record per
  struct, an option for a pointer, an association list for a \<^verbatim>\<open>map[string]any\<close> (its order stands
  for Go's unspecified iteration order). A JSON number is kept as its literal; no modelled code
  computes with one.
\<close>

datatype json =
    JNull
  | JBool bool
  | JNum string
  | JStr string
  | JArr "json list"
  | JObj "(string \<times> json) list"

type_synonym object = "(string \<times> json) list"

section \<open>Identities and credentials\<close>

record attestation =
  att_issuer :: object
  att_scheme :: string
  att_relying_party_id :: string
  att_action :: string
  att_claims :: "string list"
  att_verification_level :: string
  att_signal_binding :: string
  att_proof :: object
  att_expires_at :: string

record identity_token =
  user_token :: string
  uid_type :: string
  attestation_of :: "attestation option"

record sealed_credential =
  audience_kid :: string
  payload :: string

section \<open>Context: artifacts and classifier signals\<close>

record asset_access =
  acc_method :: string
  acc_token :: string
  acc_provider :: string
  acc_credentials :: object

record text_asset =
  txt_role :: string
  txt_content :: string
  txt_content_format :: string
  txt_language :: string
  txt_heading_level :: int
  txt_provenance :: json

record image_asset =
  img_url :: string
  img_access :: "asset_access option"
  img_alt_text :: string
  img_caption :: string
  img_width :: int
  img_height :: int
  img_provenance :: json

record video_asset =
  vid_url :: string
  vid_access :: "asset_access option"
  vid_duration_ms :: int
  vid_transcript :: string
  vid_transcript_format :: string
  vid_transcript_source :: string
  vid_thumbnail_url :: string
  vid_provenance :: json

record audio_asset =
  aud_url :: string
  aud_access :: "asset_access option"
  aud_duration_ms :: int
  aud_transcript :: string
  aud_transcript_format :: string
  aud_transcript_source :: string
  aud_provenance :: json

text \<open>An unknown asset keeps the value of its raw JSON, \<^const>\<open>None\<close> when there are no bytes.\<close>

datatype asset =
    TextAsset text_asset
  | ImageAsset image_asset
  | VideoAsset video_asset
  | AudioAsset audio_asset
  | UnknownAsset string "json option"

text \<open>The descriptive fields of an artifact that no modelled code reads (title, times, provenance,
  metadata, identifiers, \dots) are one JSON value.\<close>

record artifact =
  art_property_rid :: string
  art_artifact_id :: string
  art_url :: string
  art_assets :: "asset list"
  art_description :: json

record artifact_ref =
  ref_type :: string
  ref_value :: string

record context_signals =
  topics :: "string list"
  taxonomy_source :: string
  taxonomy_id :: int
  sentiment :: string
  key_words :: "string list"
  language :: string
  content_policies :: "string list"
  cs_summary :: string
  embedding :: string
  embedding_model :: string
  embedding_dims :: int

section \<open>Requests\<close>

record context_request =
  cm_schema :: string
  cm_adcp_version :: string
  cm_adcp_major_version :: int
  cm_type :: string
  cm_protocol_version :: string
  cm_request_id :: string
  cm_property_rid :: string
  cm_property_id :: string
  cm_property_type :: string
  cm_placement_id :: string
  cm_seller_agent_url :: string
  cm_artifact :: "artifact option"
  cm_artifact_refs :: "artifact_ref list"
  cm_geo :: object
  cm_context_signals :: "context_signals option"
  cm_package_ids :: "string list"

record identity_request =
  im_schema :: string
  im_adcp_version :: string
  im_adcp_major_version :: int
  im_type :: string
  im_protocol_version :: string
  im_request_id :: string
  im_seller_agent_url :: string
  im_identities :: "identity_token list"
  im_country :: string
  im_package_ids :: "string list"
  im_consent :: object
  im_sealed_credentials :: "sealed_credential list"

section \<open>Responses\<close>

text \<open>A signal value is the dynamic type the merger switches on: \<^verbatim>\<open>[]any\<close>, \<^verbatim>\<open>[]string\<close>, anything else.\<close>

datatype signal_value = SList "json list" | SStrings "string list" | SOther json

type_synonym signals = "(string \<times> signal_value) list"

record offer_price =
  price_amount :: string
  price_currency :: string
  price_model :: string

record offer =
  package_id :: string
  seller_agent :: "json option"
  brand :: "json option"
  price :: "offer_price option"
  summary :: string
  creative_manifest :: "json option"
  creative_data :: "(string \<times> string) list"

record provider_context_response =
  pc_adcp_version :: string
  pc_adcp_major_version :: int
  pc_type :: string
  pc_request_id :: string
  pc_offers :: "offer list"
  pc_signals :: signals
  pc_cache_ttl :: "int option"

record context_response =
  cr_adcp_version :: string
  cr_adcp_major_version :: int
  cr_type :: string
  cr_request_id :: string
  cr_offers :: "offer list"
  cr_signals :: "signals option"
  cr_signals_by_provider :: "(string \<times> signals) list option"

record tmpx_chunk =
  slot_id :: string
  chunk_value :: string

record provider_identity_response =
  pi_adcp_version :: string
  pi_adcp_major_version :: int
  pi_type :: string
  pi_request_id :: string
  pi_eligible_package_ids :: "string list"
  pi_serve_window_sec :: int
  pi_tmpx_chunks :: "tmpx_chunk list"

record identity_response =
  ir_adcp_version :: string
  ir_adcp_major_version :: int
  ir_type :: string
  ir_request_id :: string
  ir_eligible_package_ids :: "string list"
  ir_serve_window_sec :: int
  ir_tmpx :: string
  ir_tmpx_providers :: "(string \<times> tmpx_chunk list) list option"

end
