(* ===== verification/Provider_Config.thy ===== *)
theory Provider_Config
  imports TMP_Types
begin

text \<open>
  Provider registrations (\<^verbatim>\<open>src/router/config.go\<close>) and the address checks that keep the router from
  calling into its own network (\<^verbatim>\<open>ValidateProviderEndpoint\<close> there, \<^verbatim>\<open>safeDialContext\<close> in
  \<^verbatim>\<open>src/router/safedial.go\<close>). An IP address is Go's \<^verbatim>\<open>net.IP\<close>, a list of 4 or 16 bytes. The results
  of \<^verbatim>\<open>url.Parse\<close>, \<^verbatim>\<open>net.ParseIP\<close> and the DNS lookup are arguments, so the safety lemmas hold for
  every answer they may give.
\<close>

unbundle bit_operations_syntax

section \<open>Provider records\<close>

datatype provider_status = StatusUnset | StatusActive | StatusInactive | StatusDraining | StatusOther string

record provider_config =
  ID :: string
  Endpoint :: string
  Status :: provider_status
  ContextMatch :: bool
  IdentityMatch :: bool
  WireFormats :: "string list"
  PropertyIDs :: "string list"
  PropertyRIDs :: "string list"
  ExcludePropertyIDs :: "string list"
  PropertyTypes :: "string list"
  PackageIDs :: "string list"
  Countries :: "string list"
  UIDTypes :: "string list"
  TmpxSlots :: "string list"
  AudienceKIDs :: "string list"
  Timeout :: duration
  Priority :: int

record provider_registration =
  pr_provider_id :: string
  pr_endpoint :: string
  pr_context_match :: bool
  pr_identity_match :: bool
  pr_countries :: "string list"
  pr_uid_types :: "string list"
  pr_properties :: "string list"
  pr_timeout_ms :: int
  pr_priority :: int
  pr_tmpx_slots :: "string list"
  pr_status :: provider_status

definition EffectiveStatus :: "provider_config \<Rightarrow> provider_status" where
  "EffectiveStatus p = (if Status p = StatusUnset then StatusActive else Status p)"

text \<open>\<^verbatim>\<open>UnmarshalJSON\<close> decodes into the receiver and then lets the schema's names win: a non-empty
  \<^verbatim>\<open>provider_id\<close> replaces the id, a present \<^verbatim>\<open>timeout_ms\<close> replaces the timeout. \<open>decoded\<close> is the
  receiver after the first pass.\<close>

definition UnmarshalJSON :: "provider_config \<Rightarrow> string \<Rightarrow> int option \<Rightarrow> provider_config" where
  "UnmarshalJSON decoded provider_id timeout_ms =
     (let p = (if provider_id \<noteq> '''' then decoded\<lparr>ID := provider_id\<rparr> else decoded)
      in case timeout_ms of None \<Rightarrow> p | Some ms \<Rightarrow> p\<lparr>Timeout := wrap64 (ms * millisecond)\<rparr>)"

definition ProviderConfigFromRegistration :: "provider_registration \<Rightarrow> provider_config" where
  "ProviderConfigFromRegistration r =
     \<lparr>ID = pr_provider_id r, Endpoint = pr_endpoint r, Status = pr_status r,
      ContextMatch = pr_context_match r, IdentityMatch = pr_identity_match r, WireFormats = [],
      PropertyIDs = [], PropertyRIDs = pr_properties r, ExcludePropertyIDs = [], PropertyTypes = [],
      PackageIDs = [], Countries = pr_countries r, UIDTypes = pr_uid_types r,
      TmpxSlots = pr_tmpx_slots r, AudienceKIDs = [],
      Timeout = wrap64 (pr_timeout_ms r * millisecond), Priority = 0\<rparr>"

section \<open>Registration checks\<close>

definition providerIDMaxLen :: nat where "providerIDMaxLen = 64"
definition providerTimeoutMinMs :: int where "providerTimeoutMinMs = 5"
definition providerTimeoutMaxMs :: int where "providerTimeoutMaxMs = 5000"
definition tmpxSlotsMaxItems :: nat where "tmpxSlotsMaxItems = 2"

definition word_char :: "char \<Rightarrow> bool" where
  "word_char c \<longleftrightarrow> is_letter c \<or> is_digit c \<or> c = CHR ''_''"

definition providerIDPattern :: "string \<Rightarrow> bool" where
  "providerIDPattern s \<longleftrightarrow> s \<noteq> [] \<and> list_all word_char s"

definition tmpxSlotIDPattern :: "string \<Rightarrow> bool" where
  "tmpxSlotIDPattern s \<longleftrightarrow> s \<noteq> [] \<and> is_letter (hd s) \<and> list_all word_char (tl s)"

definition truncateForError :: "string \<Rightarrow> string" where
  "truncateForError s = (if length s \<le> 64 then s else take 64 s @ ''...'')"

definition provider_error :: "string \<Rightarrow> string \<Rightarrow> string" where
  "provider_error pid msg = ''provider '' @ pid @ '': '' @ msg"

fun check_slots :: "string \<Rightarrow> string list \<Rightarrow> string list \<Rightarrow> string option" where
  "check_slots pid seen [] = None"
| "check_slots pid seen (s # ss) = first_some
     [fails (\<not> tmpxSlotIDPattern s) (provider_error pid (''tmpx_slots entry '' @ s @ '' must match'')),
      fails (s \<in> set seen) (provider_error pid (''tmpx_slots entry '' @ s @ '' duplicated'')),
      check_slots pid (s # seen) ss]"

definition validateTmpxSlots :: "string \<Rightarrow> string list \<Rightarrow> string option" where
  "validateTmpxSlots pid slots =
     (if slots = [] then None
      else first_some [fails (length slots > tmpxSlotsMaxItems) (provider_error pid ''tmpx_slots has too many entries''),
                       check_slots pid [] slots])"

text \<open>\<^verbatim>\<open>p.Timeout / time.Millisecond\<close> is Go's division, which truncates towards zero.\<close>

definition ValidateProviderConfig :: "provider_config \<Rightarrow> duration \<Rightarrow> string option" where
  "ValidateProviderConfig p latencyBudget = first_some
     [fails (ID p = '''') ''provider ID must not be empty'',
      fails (length (ID p) > providerIDMaxLen) (provider_error (truncateForError (ID p)) ''ID exceeds maximum length of 64''),
      fails (\<not> providerIDPattern (ID p)) (provider_error (truncateForError (ID p)) ''ID must match the pattern''),
      fails (\<not> ContextMatch p \<and> \<not> IdentityMatch p)
        (provider_error (ID p) ''at least one of context_match or identity_match must be true''),
      fails (IdentityMatch p \<and> Countries p = [])
        (provider_error (ID p) ''countries must be non-empty when identity_match is true''),
      fails (IdentityMatch p \<and> UIDTypes p = [])
        (provider_error (ID p) ''uid_types must be non-empty when identity_match is true''),
      fails (Priority p < 0) (provider_error (ID p) ''priority must be >= 0''),
      fails (Timeout p \<noteq> 0 \<and>
             (Timeout p sdiv millisecond < providerTimeoutMinMs \<or> Timeout p sdiv millisecond > providerTimeoutMaxMs))
        (provider_error (ID p) ''timeout_ms outside schema range [5, 5000]''),
      fails (latencyBudget > 0 \<and> Timeout p > 0 \<and> Timeout p > latencyBudget)
        (provider_error (ID p) ''timeout exceeds latency budget''),
      validateTmpxSlots (ID p) (TmpxSlots p)]"

section \<open>Addresses\<close>

type_synonym ip = "8 word list"

definition To4 :: "ip \<Rightarrow> ip option" where
  "To4 a = (if length a = 4 then Some a
            else if length a = 16 \<and> take 12 a = replicate 10 0 @ [0xff, 0xff] then Some (drop 12 a)
            else None)"

definition IsLoopback :: "ip \<Rightarrow> bool" where
  "IsLoopback a = (case To4 a of Some v4 \<Rightarrow> v4 ! 0 = 127 | None \<Rightarrow> a = replicate 15 0 @ [1])"

definition IsPrivate :: "ip \<Rightarrow> bool" where
  "IsPrivate a = (case To4 a of
      Some v4 \<Rightarrow> v4 ! 0 = 10 \<or> v4 ! 0 = 172 \<and> v4 ! 1 AND 0xf0 = 16 \<or> v4 ! 0 = 192 \<and> v4 ! 1 = 168
    | None \<Rightarrow> length a = 16 \<and> a ! 0 AND 0xfe = 0xfc)"

definition IsLinkLocalUnicast :: "ip \<Rightarrow> bool" where
  "IsLinkLocalUnicast a = (case To4 a of
      Some v4 \<Rightarrow> v4 ! 0 = 169 \<and> v4 ! 1 = 254
    | None \<Rightarrow> length a = 16 \<and> a ! 0 = 0xfe \<and> a ! 1 AND 0xc0 = 0x80)"

definition IsLinkLocalMulticast :: "ip \<Rightarrow> bool" where
  "IsLinkLocalMulticast a = (case To4 a of
      Some v4 \<Rightarrow> v4 ! 0 = 224 \<and> v4 ! 1 = 0 \<and> v4 ! 2 = 0
    | None \<Rightarrow> length a = 16 \<and> a ! 0 = 0xff \<and> a ! 1 AND 0x0f = 0x02)"

definition internal_address :: "ip \<Rightarrow> bool" where
  "internal_address a \<longleftrightarrow> IsLoopback a \<or> IsPrivate a \<or> IsLinkLocalUnicast a \<or> IsLinkLocalMulticast a"

definition unwrap_v4 :: "ip \<Rightarrow> ip" where
  "unwrap_v4 a = (case To4 a of Some v4 \<Rightarrow> v4 | None \<Rightarrow> a)"

record parsed_url =
  url_scheme :: string
  url_host :: string
  url_hostname :: string

text \<open>\<^verbatim>\<open>strings.ToLower\<close> acts bytewise here: the non-ASCII runes with an ASCII lower case give \<^verbatim>\<open>k\<close> or
  \<^verbatim>\<open>i\<close>, which occur neither in \<^verbatim>\<open>localhost\<close> nor in an address literal.\<close>

definition ValidateProviderEndpoint ::
  "(string \<Rightarrow> parsed_url result) \<Rightarrow> (string \<Rightarrow> ip option) \<Rightarrow> string \<Rightarrow> string option" where
  "ValidateProviderEndpoint url_parse parse_ip endpoint =
     (case url_parse endpoint of
        Inl e \<Rightarrow> Some (''invalid endpoint URL: '' @ e)
      | Inr u \<Rightarrow>
          if url_scheme u \<noteq> ''http'' \<and> url_scheme u \<noteq> ''https'' then Some (''endpoint must use http or https scheme: '' @ endpoint)
          else if url_host u = '''' then Some (''endpoint must be an absolute URL with scheme and host: '' @ endpoint)
          else let host = map to_lower (url_hostname u) in
            if host = ''localhost'' then Some (''endpoint must not target localhost: '' @ endpoint)
            else case parse_ip host of
              None \<Rightarrow> None
            | Some a \<Rightarrow> fails (internal_address (unwrap_v4 a)) (''endpoint must not target local/private address: '' @ endpoint))"

text \<open>\<^verbatim>\<open>safeDialContext\<close>: \<open>lookup\<close> is the resolver's answer for the host. The result on the right is the
  address the connection is opened to.\<close>

definition safeDialContext :: "(string \<times> string) result \<Rightarrow> (string \<Rightarrow> ip list result) \<Rightarrow> (ip \<times> string) result" where
  "safeDialContext split lookup =
     (case split of
        Inl e \<Rightarrow> Inl e
      | Inr (host, port) \<Rightarrow>
          (case lookup host of
             Inl e \<Rightarrow> Inl e
           | Inr ips \<Rightarrow>
               if ips = [] then Inl (''no addresses found for '' @ host)
               else if \<exists>a\<in>set ips. internal_address (unwrap_v4 a) then Inl (''resolved address is not allowed for '' @ host)
               else Inr (hd ips, port)))"


section \<open>Lemmas\<close>

lemma To4_v4: "length a = 4 \<Longrightarrow> To4 a = Some a"
  by (simp add: To4_def)

lemma unwrap_v4_mapped:
  "length a = 4 \<Longrightarrow> unwrap_v4 (replicate 10 0 @ [0xff, 0xff] @ a) = a"
  by (simp add: unwrap_v4_def To4_def)

lemma internal_address_unwrap: "internal_address (unwrap_v4 a) = internal_address a"
proof (cases "To4 a")
  case (Some v4)
  then have "length v4 = 4" by (auto simp: To4_def split: if_splits)
  with Some show ?thesis
    by (simp add: internal_address_def unwrap_v4_def IsLoopback_def IsPrivate_def IsLinkLocalUnicast_def
        IsLinkLocalMulticast_def To4_v4)
qed (simp add: unwrap_v4_def)

lemma internal_address_v4:
  "internal_address [a, b, c, d] \<longleftrightarrow>
     a = 127 \<or> a = 10 \<or> (a = 172 \<and> b AND 0xf0 = 16) \<or> (a = 192 \<and> b = 168) \<or> (a = 169 \<and> b = 254) \<or>
     (a = 224 \<and> b = 0 \<and> c = 0)"
  by (simp add: internal_address_def IsLoopback_def IsPrivate_def IsLinkLocalUnicast_def
      IsLinkLocalMulticast_def To4_def)

lemma check_slots_None:
  "check_slots pid seen ss = None \<longleftrightarrow>
     list_all tmpxSlotIDPattern ss \<and> distinct ss \<and> set seen \<inter> set ss = {}"
  by (induction ss arbitrary: seen) auto

lemma validateTmpxSlots_None:
  "validateTmpxSlots pid slots = None \<longleftrightarrow>
     list_all tmpxSlotIDPattern slots \<and> distinct slots \<and> length slots \<le> tmpxSlotsMaxItems"
  by (auto simp: validateTmpxSlots_def check_slots_None)

lemma ValidateProviderConfig_accepts:
  assumes "ValidateProviderConfig p budget = None"
  shows "providerIDPattern (ID p)" "length (ID p) \<le> providerIDMaxLen"
    and "ContextMatch p \<or> IdentityMatch p"
    and "IdentityMatch p \<Longrightarrow> Countries p \<noteq> [] \<and> UIDTypes p \<noteq> []"
    and "Timeout p \<noteq> 0 \<Longrightarrow> providerTimeoutMinMs \<le> Timeout p sdiv millisecond \<and> Timeout p sdiv millisecond \<le> providerTimeoutMaxMs"
    and "0 < budget \<Longrightarrow> Timeout p \<le> budget \<or> Timeout p \<le> 0"
    and "list_all tmpxSlotIDPattern (TmpxSlots p) \<and> distinct (TmpxSlots p) \<and> length (TmpxSlots p) \<le> tmpxSlotsMaxItems"
  using assms unfolding ValidateProviderConfig_def first_some_Cons fails_None not_less not_not validateTmpxSlots_None
  by auto

lemma sdiv_ms_bounds:
  assumes "5 \<le> t sdiv millisecond" "t sdiv millisecond \<le> (5000 :: int)"
  shows "5 * millisecond \<le> t" "t < 5001 * millisecond"
proof -
  have pos: "0 < t"
  proof (rule ccontr)
    assume "\<not> 0 < t"
    then have "t sdiv millisecond \<le> 0"
      by (simp add: signed_divide_int_def millisecond_def sgn_if pos_imp_zdiv_nonneg_iff)
    with assms(1) show False by simp
  qed
  then have "t sdiv millisecond = t div millisecond"
    by (simp add: signed_divide_int_def millisecond_def sgn_if)
  with assms show "5 * millisecond \<le> t" "t < 5001 * millisecond"
    by (simp_all add: millisecond_def)
qed

section \<open>Properties\<close>

text \<open>A registration the router accepts has a metric-safe id of at most 64 bytes, serves at least one
  operation, declares countries and identity types when it serves identity matching, has distinct
  well-formed slot ids, and its timeout is either unset or between 5 ms and 5001 ms and within the
  latency budget when there is one.\<close>

theorem ValidateProviderConfig_guarantees:
  assumes "ValidateProviderConfig p budget = None"
  shows "providerIDPattern (ID p) \<and> length (ID p) \<le> providerIDMaxLen \<and> (ContextMatch p \<or> IdentityMatch p) \<and>
         (IdentityMatch p \<longrightarrow> Countries p \<noteq> [] \<and> UIDTypes p \<noteq> []) \<and>
         distinct (TmpxSlots p) \<and> list_all tmpxSlotIDPattern (TmpxSlots p) \<and> length (TmpxSlots p) \<le> tmpxSlotsMaxItems \<and>
         (Timeout p = 0 \<or> 5 * millisecond \<le> Timeout p \<and> Timeout p < 5001 * millisecond \<and>
            (0 < budget \<longrightarrow> Timeout p \<le> budget))"
proof -
  note acc = ValidateProviderConfig_accepts [OF assms]
  have "5 * millisecond \<le> Timeout p \<and> Timeout p < 5001 * millisecond" if "Timeout p \<noteq> 0"
    using sdiv_ms_bounds [of "Timeout p"] acc(5) [OF that]
    by (simp add: providerTimeoutMinMs_def providerTimeoutMaxMs_def)
  moreover have "Timeout p \<le> budget" if "0 < budget" "5 * millisecond \<le> Timeout p"
    using acc(6) [OF that(1)] that(2) by (auto simp: millisecond_def)
  ultimately show ?thesis using acc by blast
qed

definition sample_provider :: provider_config where
  "sample_provider =
     \<lparr>ID = ''acme_1'', Endpoint = ''https://acme.example/tmp'', Status = StatusUnset, ContextMatch = True,
      IdentityMatch = True, WireFormats = [''json''], PropertyIDs = [], PropertyRIDs = [], ExcludePropertyIDs = [],
      PropertyTypes = [], PackageIDs = [], Countries = [''DE''], UIDTypes = [''uid2''],
      TmpxSlots = [''primary'', ''secondary''], AudienceKIDs = [''kid-1''], Timeout = 30 * millisecond, Priority = 0\<rparr>"

theorem ValidateProviderConfig_guarantees_witness: "Timeout sample_provider \<le> 50 * millisecond"
proof -
  have "ValidateProviderConfig sample_provider (50 * millisecond) = None"
    by code_simp
  from ValidateProviderConfig_guarantees [OF this] show ?thesis
    by (simp add: sample_provider_def millisecond_def)
qed

text \<open>Whatever the resolver answers, the router opens a connection only to one of the answered
  addresses, and only when none of them is loopback, private or link-local, an IPv4 address written
  as an IPv4-mapped IPv6 address included.\<close>

theorem safeDialContext_never_internal:
  assumes "safeDialContext (Inr (host, port)) lookup = Inr (a, port')"
  shows "port' = port \<and> (\<exists>ips. lookup host = Inr ips \<and> a \<in> set ips \<and>
           (\<forall>b\<in>set ips. \<not> internal_address b \<and> (\<forall>v4. To4 b = Some v4 \<longrightarrow> \<not> internal_address v4)))"
proof -
  have mapped: "internal_address b = internal_address v4" if "To4 b = Some v4" for b v4
    using internal_address_unwrap [of b] that by (simp add: unwrap_v4_def)
  from assms show ?thesis
    by (auto simp: safeDialContext_def internal_address_unwrap mapped split: sum.splits if_splits)
qed

theorem safeDialContext_never_internal_witness:
  "\<exists>ips. (\<lambda>_. Inr [[93, 184, 216, 34]]) ''host'' = (Inr ips :: ip list result) \<and> [93, 184, 216, 34] \<in> set ips"
proof -
  have "safeDialContext (Inr (''host'', ''443'')) (\<lambda>_. Inr [[93, 184, 216, 34]]) = Inr ([93, 184, 216, 34], ''443'')"
    by (simp add: safeDialContext_def internal_address_unwrap internal_address_v4)
  from safeDialContext_never_internal [OF this] show ?thesis by simp
qed

end
