(* ===== verification/Provider_Health.thy ===== *)
theory Provider_Health
  imports Provider_Config
begin

text \<open>
  Provider health (\<^verbatim>\<open>src/router/health.go\<close>): call statistics, the circuit breaker and the in-flight
  counter of every provider. Each operation is a function on the table of statistics, with the clock
  reading it makes as an argument; the interleaving of goroutines inside one provider's atomics is a
  step relation over them. The lemmas show when the circuit opens, that it refuses calls for the
  cooldown, that one opening lets at most one goroutine win the probe, and that in-flight counts
  balance; they are stated once for any counter with the interface's laws.
\<close>

section \<open>State and operations\<close>

record provider_stats =
  successes :: int
  failures :: int
  timeouts :: int
  consecutiveFailures :: int
  circuitOpenUntil :: time
  inflight :: int

record provider_health =
  stats :: "string \<rightharpoonup> provider_stats"
  failureThreshold :: int
  cooldownDuration :: duration

definition fresh_stats :: provider_stats where
  "fresh_stats = \<lparr>successes = 0, failures = 0, timeouts = 0, consecutiveFailures = 0, circuitOpenUntil = 0, inflight = 0\<rparr>"

definition NewProviderHealth :: "int \<Rightarrow> duration \<Rightarrow> provider_health" where
  "NewProviderHealth threshold cooldown =
     \<lparr>stats = Map.empty, failureThreshold = threshold, cooldownDuration = cooldown\<rparr>"

text \<open>\<^verbatim>\<open>getOrCreate\<close> returns a pointer; \<open>stats_of\<close> reads through it and \<open>upd_stats\<close> writes through it, both
  creating the zero entry when there is none.\<close>

definition stats_of :: "provider_health \<Rightarrow> string \<Rightarrow> provider_stats" where
  "stats_of h pid = (case stats h pid of Some s \<Rightarrow> s | None \<Rightarrow> fresh_stats)"

definition upd_stats :: "(provider_stats \<Rightarrow> provider_stats) \<Rightarrow> string \<Rightarrow> provider_health \<Rightarrow> provider_health" where
  "upd_stats f pid h = h\<lparr>stats := (stats h)(pid \<mapsto> f (stats_of h pid))\<rparr>"

definition getOrCreate :: "string \<Rightarrow> provider_health \<Rightarrow> provider_health" where
  "getOrCreate pid = upd_stats id pid"

definition RecordSuccess :: "string \<Rightarrow> provider_health \<Rightarrow> provider_health" where
  "RecordSuccess pid = upd_stats (\<lambda>s. s\<lparr>successes := successes s + 1, consecutiveFailures := 0\<rparr>) pid"

text \<open>The tail shared by \<^verbatim>\<open>RecordFailure\<close> and \<^verbatim>\<open>RecordTimeout\<close>.\<close>

definition count_failure :: "int \<Rightarrow> duration \<Rightarrow> time \<Rightarrow> provider_stats \<Rightarrow> provider_stats" where
  "count_failure threshold cooldown now s =
     (let s1 = s\<lparr>failures := failures s + 1, consecutiveFailures := consecutiveFailures s + 1\<rparr>
      in if consecutiveFailures s1 \<ge> threshold then s1\<lparr>circuitOpenUntil := now + cooldown\<rparr> else s1)"

definition RecordFailure :: "time \<Rightarrow> string \<Rightarrow> provider_health \<Rightarrow> provider_health" where
  "RecordFailure now pid h = upd_stats (count_failure (failureThreshold h) (cooldownDuration h) now) pid h"

definition RecordTimeout :: "time \<Rightarrow> string \<Rightarrow> provider_health \<Rightarrow> provider_health" where
  "RecordTimeout now pid h =
     upd_stats (\<lambda>s. count_failure (failureThreshold h) (cooldownDuration h) now (s\<lparr>timeouts := timeouts s + 1\<rparr>)) pid h"

definition IsCircuitOpen :: "time \<Rightarrow> string \<Rightarrow> provider_health \<Rightarrow> bool \<times> provider_health" where
  "IsCircuitOpen now pid h =
     (let h1 = getOrCreate pid h; openUntil = circuitOpenUntil (stats_of h1 pid) in
      if openUntil = 0 then (False, h1)
      else if now < openUntil then (True, h1)
      else (False, upd_stats (\<lambda>s. s\<lparr>circuitOpenUntil := 0, consecutiveFailures := 0\<rparr>) pid h1))"

definition IncrInflight :: "string \<Rightarrow> provider_health \<Rightarrow> provider_health" where
  "IncrInflight pid = upd_stats (\<lambda>s. s\<lparr>inflight := inflight s + 1\<rparr>) pid"

definition DecrInflight :: "string \<Rightarrow> provider_health \<Rightarrow> provider_health" where
  "DecrInflight pid = upd_stats (\<lambda>s. s\<lparr>inflight := inflight s - 1\<rparr>) pid"

definition Inflight :: "provider_health \<Rightarrow> string \<Rightarrow> int" where
  "Inflight h pid = inflight (stats_of h pid)"

record stats_snapshot =
  ss_successes :: int
  ss_failures :: int
  ss_timeouts :: int
  ss_consecutive_failures :: int
  ss_circuit_open :: bool
  ss_inflight :: int

definition Snapshot :: "time \<Rightarrow> provider_health \<Rightarrow> string \<rightharpoonup> stats_snapshot" where
  "Snapshot now h pid = map_option (\<lambda>s.
     \<lparr>ss_successes = successes s, ss_failures = failures s, ss_timeouts = timeouts s,
      ss_consecutive_failures = consecutiveFailures s,
      ss_circuit_open = (circuitOpenUntil s \<noteq> 0 \<and> now < circuitOpenUntil s), ss_inflight = inflight s\<rparr>) (stats h pid)"

lemma stats_of_upd [simp]: "stats_of (upd_stats f p h) q = (if q = p then f (stats_of h p) else stats_of h q)"
  by (simp add: stats_of_def upd_stats_def)

lemma upd_stats_frame [simp]:
  "failureThreshold (upd_stats f p h) = failureThreshold h" "cooldownDuration (upd_stats f p h) = cooldownDuration h"
  by (simp_all add: upd_stats_def)

lemma count_failure_inflight [simp]: "inflight (count_failure th cd now s) = inflight s"
  by (simp add: count_failure_def Let_def)

lemmas health_ops = getOrCreate_def RecordSuccess_def RecordFailure_def RecordTimeout_def IsCircuitOpen_def
  IncrInflight_def DecrInflight_def Let_def

section \<open>In-flight accounting\<close>

text \<open>What the router and the drain loop rely on: the counter moves by one per increment and decrement
  of that provider, and nothing else touches it.\<close>

locale inflight_counter =
  fixes incr decr :: "string \<Rightarrow> 'h \<Rightarrow> 'h" and count :: "'h \<Rightarrow> string \<Rightarrow> int"
  assumes count_incr: "count (incr p h) q = count h q + (if q = p then 1 else 0)"
    and count_decr: "count (decr p h) q = count h q - (if q = p then 1 else 0)"
begin

text \<open>A call bracketed by increment and decrement (Go's \<^verbatim>\<open>defer\<close>) leaves every count as it was,
  whatever count-preserving work runs in between.\<close>

lemma bracket_balanced:
  assumes "\<And>h q. count (work h) q = count h q"
  shows "count (decr p (work (incr p h))) q = count h q"
  by (simp add: count_incr count_decr assms)

text \<open>Any interleaving of starts and finishes: the count is the number of calls begun and not ended.\<close>

lemma run_count:
  "count (fold (\<lambda>(b, p) s. if b then incr p s else decr p s) evs h) q =
   count h q + int (length (filter (\<lambda>e. e = (True, q)) evs)) - int (length (filter (\<lambda>e. e = (False, q)) evs))"
  by (induction evs arbitrary: h) (auto simp: count_incr count_decr split: if_splits)

end

interpretation health: inflight_counter IncrInflight DecrInflight Inflight
  by unfold_locales (simp_all add: health_ops Inflight_def)

lemma Inflight_frame [simp]:
  "Inflight (RecordSuccess p h) q = Inflight h q" "Inflight (RecordFailure now p h) q = Inflight h q"
  "Inflight (RecordTimeout now p h) q = Inflight h q" "Inflight (snd (IsCircuitOpen now p h)) q = Inflight h q"
  "Inflight (getOrCreate p h) q = Inflight h q"
  by (simp_all add: health_ops Inflight_def)


section \<open>When the circuit opens\<close>

datatype outcome = Success | Failure | TimedOut

text \<open>One finished call of a provider, at its clock reading.\<close>

fun record_outcome :: "string \<Rightarrow> time \<times> outcome \<Rightarrow> provider_health \<Rightarrow> provider_health" where
  "record_outcome pid (now, Success) h = RecordSuccess pid h"
| "record_outcome pid (now, Failure) h = RecordFailure now pid h"
| "record_outcome pid (now, TimedOut) h = RecordTimeout now pid h"

text \<open>The meaning of the threshold: at some point the calls that follow start with \<open>k\<close> failures.\<close>

abbreviation leading_failures :: "(time \<times> outcome) list \<Rightarrow> nat" where
  "leading_failures os \<equiv> length (takeWhile (\<lambda>e. snd e \<noteq> Success) os)"

definition failure_streak :: "nat \<Rightarrow> (time \<times> outcome) list \<Rightarrow> bool" where
  "failure_streak k os \<longleftrightarrow> (\<exists>i\<le>length os. k \<le> leading_failures (drop i os))"

text \<open>The same by recursion, \<open>n\<close> failures having just been seen.\<close>

fun failure_run :: "nat \<Rightarrow> (time \<times> outcome) list \<Rightarrow> nat \<Rightarrow> bool" where
  "failure_run k [] n = False"
| "failure_run k ((now, r) # os) n = (if r = Success then failure_run k os 0 else Suc n \<ge> k \<or> failure_run k os (Suc n))"

lemma failure_streak_Nil: "failure_streak k [] \<longleftrightarrow> k = 0"
  by (simp add: failure_streak_def)

lemma failure_streak_Cons:
  "failure_streak k (e # os) \<longleftrightarrow> k \<le> leading_failures (e # os) \<or> failure_streak k os"
  by (simp add: failure_streak_def ex_le_Suc)

lemma failure_run_iff:
  "n < k \<Longrightarrow> failure_run k os n \<longleftrightarrow> k \<le> leading_failures os + n \<or> failure_streak k os"
proof (induction os arbitrary: n)
  case (Cons e os)
  obtain now r where e: "e = (now, r)" by (cases e)
  have head: "k \<le> leading_failures os \<Longrightarrow> failure_streak k os"
    by (auto simp: failure_streak_def)
  show ?case
  proof (cases "r = Success")
    case True
    with Cons.IH [of 0] Cons.prems head show ?thesis
      by (auto simp: e failure_streak_Cons)
  next
    case False
    then show ?thesis
      using Cons.IH [of "Suc n"] Cons.prems head by (cases "Suc n < k") (auto simp: e failure_streak_Cons)
  qed
qed (simp add: failure_streak_Nil)

lemma failure_run_streak: "0 < k \<Longrightarrow> failure_run k os 0 \<longleftrightarrow> failure_streak k os"
  by (auto simp: failure_run_iff failure_streak_def)

lemma record_outcome_frame [simp]:
  "failureThreshold (record_outcome p e h) = failureThreshold h"
  "cooldownDuration (record_outcome p e h) = cooldownDuration h"
  "q \<noteq> p \<Longrightarrow> stats_of (record_outcome p e h) q = stats_of h q"
  by (cases "(p, e, h)" rule: record_outcome.cases; simp add: health_ops)+

lemma record_outcome_stats:
  "circuitOpenUntil (stats_of (record_outcome p (now, r) h) p) =
     (if r \<noteq> Success \<and> consecutiveFailures (stats_of h p) + 1 \<ge> failureThreshold h
      then now + cooldownDuration h else circuitOpenUntil (stats_of h p))"
  "consecutiveFailures (stats_of (record_outcome p (now, r) h) p) =
     (if r = Success then 0 else consecutiveFailures (stats_of h p) + 1)"
  by (cases r; simp add: health_ops count_failure_def)+

lemma outcomes_open:
  assumes "\<forall>(now, r)\<in>set os. now + cooldownDuration h > 0"
    and "consecutiveFailures (stats_of h p) = int n" "failureThreshold h = int k"
  shows "circuitOpenUntil (stats_of (fold (record_outcome p) os h) p) \<noteq> 0 \<longleftrightarrow>
         circuitOpenUntil (stats_of h p) \<noteq> 0 \<or> failure_run k os n"
  using assms
proof (induction os arbitrary: h n)
  case (Cons e os)
  obtain now r where e: "e = (now, r)" by (cases e)
  let ?h = "record_outcome p e h"
  have n: "consecutiveFailures (stats_of ?h p) = int (if r = Success then 0 else Suc n)"
    using Cons.prems(2) by (simp add: e record_outcome_stats)
  have "\<forall>(now, r)\<in>set os. now + cooldownDuration ?h > 0" "failureThreshold ?h = int k"
    using Cons.prems by (auto simp: e)
  from Cons.IH [OF this(1) n this(2)] Cons.prems show ?case
    by (auto simp: e record_outcome_stats)
qed simp


section \<open>Racing goroutines\<close>

text \<open>Any number of goroutines inside \<^verbatim>\<open>IsCircuitOpen\<close>, \<^verbatim>\<open>RecordFailure\<close>/\<^verbatim>\<open>RecordTimeout\<close> and
  \<^verbatim>\<open>RecordSuccess\<close> of one provider, one step per atomic access. A goroutine at \<open>Cas u\<close> has loaded \<open>u\<close>
  and found the cooldown expired; at \<open>Reset\<close> it has won the swap; at \<open>OpenAt\<close> it has counted a failure
  at or above the threshold and is about to store the deadline. The ghost counters count deadlines
  stored and swaps won.\<close>

datatype goroutine = Idle | InIsOpen | Cas time | Reset | InFailure | OpenAt | InSuccess | Answered bool

record breaker =
  open_until :: time
  consecutive :: int
  at :: "nat \<Rightarrow> goroutine"
  opens :: nat
  probes :: nat

inductive breaker_step :: "int \<Rightarrow> duration \<Rightarrow> breaker \<Rightarrow> breaker \<Rightarrow> bool" for threshold cooldown where
  call: "at b g = Idle \<or> at b g = Answered r \<Longrightarrow> c \<in> {InIsOpen, InFailure, InSuccess} \<Longrightarrow>
    breaker_step threshold cooldown b (b\<lparr>at := (at b)(g := c)\<rparr>)"
| load_closed: "at b g = InIsOpen \<Longrightarrow> open_until b = 0 \<Longrightarrow>
    breaker_step threshold cooldown b (b\<lparr>at := (at b)(g := Answered False)\<rparr>)"
| load_open: "at b g = InIsOpen \<Longrightarrow> open_until b \<noteq> 0 \<Longrightarrow> now < open_until b \<Longrightarrow>
    breaker_step threshold cooldown b (b\<lparr>at := (at b)(g := Answered True)\<rparr>)"
| load_expired: "at b g = InIsOpen \<Longrightarrow> open_until b \<noteq> 0 \<Longrightarrow> \<not> now < open_until b \<Longrightarrow>
    breaker_step threshold cooldown b (b\<lparr>at := (at b)(g := Cas (open_until b))\<rparr>)"
| cas_win: "at b g = Cas (open_until b) \<Longrightarrow>
    breaker_step threshold cooldown b (b\<lparr>open_until := 0, at := (at b)(g := Reset), probes := Suc (probes b)\<rparr>)"
| cas_lose: "at b g = Cas u \<Longrightarrow> open_until b \<noteq> u \<Longrightarrow>
    breaker_step threshold cooldown b (b\<lparr>at := (at b)(g := Answered True)\<rparr>)"
| reset: "at b g = Reset \<Longrightarrow>
    breaker_step threshold cooldown b (b\<lparr>consecutive := 0, at := (at b)(g := Answered False)\<rparr>)"
| fail_below: "at b g = InFailure \<Longrightarrow> consecutive b + 1 < threshold \<Longrightarrow>
    breaker_step threshold cooldown b (b\<lparr>consecutive := consecutive b + 1, at := (at b)(g := Idle)\<rparr>)"
| fail_reach: "at b g = InFailure \<Longrightarrow> consecutive b + 1 \<ge> threshold \<Longrightarrow>
    breaker_step threshold cooldown b (b\<lparr>consecutive := consecutive b + 1, at := (at b)(g := OpenAt)\<rparr>)"
| store_deadline: "at b g = OpenAt \<Longrightarrow>
    breaker_step threshold cooldown b (b\<lparr>open_until := now + cooldown, at := (at b)(g := Idle), opens := Suc (opens b)\<rparr>)"
| success: "at b g = InSuccess \<Longrightarrow>
    breaker_step threshold cooldown b (b\<lparr>consecutive := 0, at := (at b)(g := Idle)\<rparr>)"

definition breaker_init :: breaker where
  "breaker_init = \<lparr>open_until = 0, consecutive = 0, at = (\<lambda>_. Idle), opens = 0, probes = 0\<rparr>"

inductive breaker_reach :: "int \<Rightarrow> duration \<Rightarrow> breaker \<Rightarrow> bool" for threshold cooldown where
  init: "breaker_reach threshold cooldown breaker_init"
| step: "breaker_reach threshold cooldown b \<Longrightarrow> breaker_step threshold cooldown b b' \<Longrightarrow> breaker_reach threshold cooldown b'"

text \<open>Each deadline pays for at most one probe, and a loaded deadline is never the closed value.\<close>

definition breaker_inv :: "breaker \<Rightarrow> bool" where
  "breaker_inv b \<longleftrightarrow> probes b + of_bool (open_until b \<noteq> 0) \<le> opens b \<and> (\<forall>g. at b g \<noteq> Cas 0)"

lemma breaker_inv_step:
  assumes "breaker_step threshold cooldown b b'" "breaker_inv b"
  shows "breaker_inv b'"
  using assms by (induction rule: breaker_step.induct) (auto simp: breaker_inv_def of_bool_def split: if_splits)

lemma breaker_inv_reach: "breaker_reach threshold cooldown b \<Longrightarrow> breaker_inv b"
proof (induction rule: breaker_reach.induct)
  case init
  show ?case by (simp add: breaker_inv_def breaker_init_def)
qed (rule breaker_inv_step)

inductive_cases breaker_step_answer: "breaker_step threshold cooldown b b'"

text \<open>A goroutine is only let through (\<^verbatim>\<open>IsCircuitOpen\<close> answers false) when it loaded the closed value or
  won the swap.\<close>

lemma let_through:
  assumes "breaker_step threshold cooldown b b'" "at b' g = Answered False" "at b g \<noteq> Answered False"
  shows "at b g = InIsOpen \<and> open_until b = 0 \<or> at b g = Reset"
  using assms by (cases rule: breaker_step_answer) (auto split: if_splits)

lemma IsCircuitOpen_cases:
  assumes "circuitOpenUntil (stats_of h p) = u" "u \<noteq> 0"
  shows "now < u \<Longrightarrow> fst (IsCircuitOpen now p h)"
    and "now < u \<Longrightarrow> stats_of (snd (IsCircuitOpen now p h)) p = stats_of h p"
    and "u \<le> now \<Longrightarrow> \<not> fst (IsCircuitOpen now p h)"
    and "u \<le> now \<Longrightarrow> stats_of (snd (IsCircuitOpen now p h)) p = (stats_of h p)\<lparr>circuitOpenUntil := 0, consecutiveFailures := 0\<rparr>"
  using assms by (simp_all add: IsCircuitOpen_def getOrCreate_def Let_def)

lemma IsCircuitOpen_other: "q \<noteq> p \<Longrightarrow> stats_of (snd (IsCircuitOpen now p h)) q = stats_of h q"
  by (simp add: IsCircuitOpen_def getOrCreate_def Let_def)

lemma RecordFailure_opens:
  assumes "consecutiveFailures (stats_of h p) + 1 \<ge> failureThreshold h"
  shows "circuitOpenUntil (stats_of (RecordFailure t p h) p) = t + cooldownDuration h"
  using assms by (simp add: RecordFailure_def count_failure_def Let_def)


section \<open>Properties\<close>

text \<open>C15: after any sequence of call outcomes of a provider that started with a closed circuit, the
  circuit has been opened exactly when the sequence contains an uninterrupted run of failures and
  timeouts at least as long as the threshold; a success anywhere breaks the run.\<close>

theorem circuit_opens_iff:
  assumes "\<forall>(now, r)\<in>set os. now + cooldown > 0" "0 < k"
  shows "circuitOpenUntil (stats_of (fold (record_outcome p) os (NewProviderHealth (int k) cooldown)) p) \<noteq> 0 \<longleftrightarrow>
         failure_streak k os"
  using outcomes_open [of os "NewProviderHealth (int k) cooldown" p 0 k] assms
  by (simp add: NewProviderHealth_def stats_of_def fresh_stats_def failure_run_streak)

theorem circuit_opens_iff_witness:
  "circuitOpenUntil (stats_of (fold (record_outcome ''acme'')
     [(1, Failure), (2, Success), (3, TimedOut), (4, Failure)] (NewProviderHealth (int 3) 10)) ''acme'') = 0"
proof -
  have "\<not> failure_streak 3 [(1, Failure), (2, Success), (3, TimedOut), (4, Failure)]"
    by (simp add: failure_streak_Cons failure_streak_Nil)
  with circuit_opens_iff [of "[(1, Failure), (2, Success), (3, TimedOut), (4, Failure)]" 10 3 "''acme''"]
  show ?thesis by simp
qed

text \<open>Once a failure at time \<open>t\<close> opens the circuit, every check before \<open>t\<close> plus the cooldown refuses
  the provider and changes no statistics of it; the first check at or after that instant lets the
  caller through, closes the circuit and restarts the failure count, so that only a fresh full run
  of failures opens it again. Checking one provider never touches another.\<close>

theorem circuit_cooldown:
  assumes "consecutiveFailures (stats_of h p) + 1 \<ge> failureThreshold h" "0 < t + cooldownDuration h"
  defines "h1 \<equiv> RecordFailure t p h"
  shows "(now < t + cooldownDuration h \<longrightarrow>
            fst (IsCircuitOpen now p h1) \<and> stats_of (snd (IsCircuitOpen now p h1)) p = stats_of h1 p) \<and>
         (t + cooldownDuration h \<le> now \<longrightarrow>
            \<not> fst (IsCircuitOpen now p h1) \<and>
            circuitOpenUntil (stats_of (snd (IsCircuitOpen now p h1)) p) = 0 \<and>
            consecutiveFailures (stats_of (snd (IsCircuitOpen now p h1)) p) = 0) \<and>
         (q \<noteq> p \<longrightarrow> stats_of (snd (IsCircuitOpen now p h1)) q = stats_of h q)"
proof -
  from assms have "circuitOpenUntil (stats_of h1 p) = t + cooldownDuration h" "t + cooldownDuration h \<noteq> 0"
    by (simp_all add: RecordFailure_opens)
  note check = IsCircuitOpen_cases [OF this]
  have "stats_of h1 q = stats_of h q" if "q \<noteq> p"
    using that by (simp add: h1_def RecordFailure_def)
  with check IsCircuitOpen_other [of q p now h1] show ?thesis by simp
qed

theorem circuit_cooldown_witness:
  "fst (IsCircuitOpen 14 ''acme'' (RecordFailure 5 ''acme'' (NewProviderHealth 1 10)))"
  using circuit_cooldown [of "NewProviderHealth 1 10" "''acme''" 5 14]
  by (simp add: NewProviderHealth_def stats_of_def fresh_stats_def)

text \<open>However the goroutines of a provider interleave, the number of times the probe swap is won never
  exceeds the number of times the circuit was opened.\<close>

theorem probe_wins_bounded:
  assumes "breaker_reach threshold cooldown b"
  shows "probes b \<le> opens b \<and> (open_until b \<noteq> 0 \<longrightarrow> probes b < opens b)"
  using breaker_inv_reach [OF assms] by (auto simp: breaker_inv_def)


text \<open>One goroutine fails at the threshold, opens the circuit, and another finds the cooldown expired and
  wins the swap.\<close>

lemma probe_run:
  "\<exists>b. breaker_reach 1 10 b \<and> probes b = 1"
proof -
  let ?b1 = "breaker_init\<lparr>at := (\<lambda>_. Idle)(0 := InFailure)\<rparr>"
  let ?b2 = "?b1\<lparr>consecutive := 1, at := (\<lambda>_. Idle)(0 := OpenAt)\<rparr>"
  let ?b3 = "?b2\<lparr>open_until := 5 + 10, at := (\<lambda>_. Idle)(0 := Idle), opens := 1\<rparr>"
  let ?b4 = "?b3\<lparr>at := (\<lambda>_. Idle)(0 := Idle, 1 := InIsOpen)\<rparr>"
  let ?b5 = "?b4\<lparr>at := (\<lambda>_. Idle)(0 := Idle, 1 := Cas 15)\<rparr>"
  let ?b6 = "?b5\<lparr>open_until := 0, at := (\<lambda>_. Idle)(0 := Idle, 1 := Reset), probes := 1\<rparr>"
  note run = breaker_reach.step [of 1 10]
  have "breaker_step 1 10 breaker_init ?b1"
    using breaker_step.call [of breaker_init 0 True InFailure 1 10] by (simp add: breaker_init_def)
  from run [OF breaker_reach.init this] have r1: "breaker_reach 1 10 ?b1" .
  have "breaker_step 1 10 ?b1 ?b2"
    using breaker_step.fail_reach [of ?b1 0 1 10] by (simp add: breaker_init_def)
  from run [OF r1 this] have r2: "breaker_reach 1 10 ?b2" .
  have "breaker_step 1 10 ?b2 ?b3"
    using breaker_step.store_deadline [of ?b2 0 1 10 5] by (simp add: breaker_init_def)
  from run [OF r2 this] have r3: "breaker_reach 1 10 ?b3" .
  have "breaker_step 1 10 ?b3 ?b4"
    using breaker_step.call [of ?b3 1 True InIsOpen 1 10] by (simp add: breaker_init_def)
  from run [OF r3 this] have r4: "breaker_reach 1 10 ?b4" .
  have "breaker_step 1 10 ?b4 ?b5"
    using breaker_step.load_expired [of ?b4 1 20 1 10] by (simp add: breaker_init_def)
  from run [OF r4 this] have r5: "breaker_reach 1 10 ?b5" .
  have "breaker_step 1 10 ?b5 ?b6"
    using breaker_step.cas_win [of ?b5 1 1 10] by (simp add: breaker_init_def)
  from run [OF r5 this] have "breaker_reach 1 10 ?b6" .
  then show ?thesis by (intro exI [of _ ?b6]) simp
qed

theorem probe_wins_bounded_witness: "\<exists>b. breaker_reach 1 10 b \<and> probes b = 1 \<and> 1 \<le> opens b"
  using probe_run probe_wins_bounded by (metis (no_types))

end
