(* ===== verification/Provider_Set.thy ===== *)
theory Provider_Set
  imports Provider_Health
begin

text \<open>
  The set of registered providers and the background loops that change it: the copy-on-write set of
  \<^verbatim>\<open>src/router/providerset.go\<close>, the discovery poll and its reconciliation (\<^verbatim>\<open>discovery.go\<close>), the drain
  loop (\<^verbatim>\<open>drain.go\<close>) and the active health check (\<^verbatim>\<open>healthcheck.go\<close>). The set is the snapshot behind
  Go's \<^verbatim>\<open>atomic.Value\<close>; writers hold the mutex, so each operation is one transition. Network answers
  and clock readings are arguments.
\<close>

section \<open>The snapshot\<close>

record provider_snapshot =
  snap_all :: "provider_config list"
  snap_active :: "provider_config list"

abbreviation is_active :: "provider_config \<Rightarrow> bool" where
  "is_active p \<equiv> EffectiveStatus p = StatusActive"

definition buildSnapshot :: "provider_config list \<Rightarrow> provider_snapshot" where
  "buildSnapshot all = \<lparr>snap_all = all, snap_active = filter is_active all\<rparr>"

definition NewProviderSet :: "provider_config list \<Rightarrow> provider_snapshot" where
  "NewProviderSet initial = buildSnapshot initial"

definition Swap :: "provider_config list \<Rightarrow> provider_snapshot \<Rightarrow> provider_snapshot" where
  "Swap next ps = buildSnapshot next"

text \<open>The first entry with the id is rewritten, if there is one.\<close>

fun set_first_status :: "string \<Rightarrow> provider_status \<Rightarrow> provider_config list \<Rightarrow> provider_config list option" where
  "set_first_status pid st [] = None"
| "set_first_status pid st (p # ps) =
     (if ID p = pid then Some (p\<lparr>Status := st\<rparr> # ps) else map_option ((#) p) (set_first_status pid st ps))"

definition SetStatus :: "string \<Rightarrow> provider_status \<Rightarrow> provider_snapshot \<Rightarrow> bool \<times> provider_snapshot" where
  "SetStatus pid st ps =
     (case set_first_status pid st (snap_all ps) of
        Some next \<Rightarrow> (True, buildSnapshot next)
      | None \<Rightarrow> (False, ps))"

definition Get_provider :: "string \<Rightarrow> provider_snapshot \<Rightarrow> provider_config option" where
  "Get_provider pid ps = find (\<lambda>p. ID p = pid) (snap_all ps)"

definition snapshot_ok :: "provider_snapshot \<Rightarrow> bool" where
  "snapshot_ok ps \<longleftrightarrow> snap_active ps = filter is_active (snap_all ps)"

section \<open>Discovery\<close>

text \<open>Go map built by a loop: the last provider with an id wins.\<close>

definition by_id :: "provider_config list \<Rightarrow> string \<rightharpoonup> provider_config" where
  "by_id ps = map_of (rev (map (\<lambda>p. (ID p, p)) ps))"

definition reconcile_incoming :: "(string \<rightharpoonup> provider_config) \<Rightarrow> provider_config \<Rightarrow> provider_config" where
  "reconcile_incoming currentByID inc =
     (case currentByID (ID inc) of
        Some cur \<Rightarrow> if Status inc = StatusUnset then inc\<lparr>Status := Status cur\<rparr> else inc
      | None \<Rightarrow> if Status inc = StatusUnset then inc\<lparr>Status := StatusActive\<rparr> else inc)"

definition reconcile_removed ::
  "provider_health option \<Rightarrow> (string \<rightharpoonup> provider_config) \<Rightarrow> provider_config \<Rightarrow> provider_config list" where
  "reconcile_removed health incomingByID cur =
     (if incomingByID (ID cur) \<noteq> None then []
      else case health of
        Some h \<Rightarrow> if Inflight h (ID cur) > 0 then [cur\<lparr>Status := StatusDraining\<rparr>] else []
      | None \<Rightarrow> [])"

definition reconcile ::
  "provider_health option \<Rightarrow> provider_config list \<Rightarrow> provider_config list \<Rightarrow> provider_config list" where
  "reconcile health current incoming =
     map (reconcile_incoming (by_id current)) incoming @
     concat (map (reconcile_removed health (by_id incoming)) current)"

definition maxDiscoveredProviders :: nat where "maxDiscoveredProviders = 500"

definition discovered ::
  "(string \<Rightarrow> string option) \<Rightarrow> duration \<Rightarrow> provider_registration list \<Rightarrow> provider_config list" where
  "discovered endpoint_error latencyBudget wire =
     take maxDiscoveredProviders
       (filter (\<lambda>p. endpoint_error (Endpoint p) = None \<and> ValidateProviderConfig p latencyBudget = None)
         (map ProviderConfigFromRegistration wire))"

text \<open>\<^verbatim>\<open>poll\<close>: \<open>reply\<close> is the decoded answer of the discovery endpoint, or the error of the request, the
  status code or the decoding.\<close>

definition poll ::
  "(string \<Rightarrow> string option) \<Rightarrow> duration \<Rightarrow> provider_health option \<Rightarrow> provider_registration list result \<Rightarrow>
   provider_snapshot \<Rightarrow> string option \<times> provider_snapshot" where
  "poll endpoint_error latencyBudget health reply ps =
     (case reply of
        Inl e \<Rightarrow> (Some e, ps)
      | Inr wire \<Rightarrow>
          let valid = discovered endpoint_error latencyBudget wire; current = snap_all ps in
          if valid = [] \<and> current \<noteq> [] then (None, ps)
          else (None, Swap (reconcile health current valid) ps))"

section \<open>Draining\<close>

text \<open>One turn of the drain loop: what the rest of the process did to the set since the last turn, the
  in-flight reading, and whether the context was done at the \<^verbatim>\<open>select\<close>. The result is \<^const>\<open>None\<close>
  while the loop is still waiting after the given turns.\<close>

record drain_turn =
  env_change :: "provider_snapshot \<Rightarrow> provider_snapshot"
  inflight_now :: int
  ctx_done :: "string option"

fun drain_loop :: "string \<Rightarrow> drain_turn list \<Rightarrow> provider_snapshot \<Rightarrow> (string option \<times> provider_snapshot) option" where
  "drain_loop pid [] ps = None"
| "drain_loop pid (t # ts) ps =
     (let ps1 = env_change t ps in
      if inflight_now t = 0 then Some (None, snd (SetStatus pid StatusInactive ps1))
      else case ctx_done t of
        Some e \<Rightarrow> Some (Some e, snd (SetStatus pid StatusInactive ps1))
      | None \<Rightarrow> drain_loop pid ts ps1)"

definition DrainProvider ::
  "bool \<Rightarrow> string \<Rightarrow> drain_turn list \<Rightarrow> provider_snapshot \<Rightarrow> (string option \<times> provider_snapshot) option" where
  "DrainProvider has_health pid turns ps =
     (case SetStatus pid StatusDraining ps of
        (False, ps1) \<Rightarrow> Some (Some (''provider '' @ pid @ '' not found''), ps1)
      | (True, ps1) \<Rightarrow>
          if \<not> has_health then Some (None, snd (SetStatus pid StatusInactive ps1))
          else drain_loop pid turns ps1)"

section \<open>Active health checks\<close>

datatype check_metric = ObserveCheckDuration string | SetHealthStatus string bool | IncRecovered string

text \<open>One provider in \<^verbatim>\<open>checkAll\<close>: \<open>opened_at\<close> and \<open>failed_at\<close> are the clock readings of the circuit check
  and of the failure record, \<open>ok\<close> whether \<^verbatim>\<open>/health\<close> answered 200.\<close>

definition check_one ::
  "(string \<Rightarrow> time \<times> bool \<times> time) \<Rightarrow> provider_config \<Rightarrow> provider_health \<times> check_metric list \<Rightarrow>
   provider_health \<times> check_metric list" where
  "check_one probe p hm =
     (if EffectiveStatus p = StatusInactive then hm
      else let (h, ms) = hm; (opened_at, ok, failed_at) = probe (ID p);
               (wasOpen, h1) = IsCircuitOpen opened_at (ID p) h;
               ms1 = ms @ [ObserveCheckDuration (ID p)] in
        if \<not> ok then (RecordFailure failed_at (ID p) h1, ms1 @ [SetHealthStatus (ID p) False])
        else (RecordSuccess (ID p) h1,
              ms1 @ [SetHealthStatus (ID p) True] @ (if wasOpen then [IncRecovered (ID p)] else [])))"

definition checkAll ::
  "(string \<Rightarrow> time \<times> bool \<times> time) \<Rightarrow> provider_snapshot \<Rightarrow> provider_health \<Rightarrow> provider_health \<times> check_metric list" where
  "checkAll probe ps h = fold (check_one probe) (snap_all ps) (h, [])"

definition Preflight :: "(string \<Rightarrow> bool) \<Rightarrow> provider_snapshot \<Rightarrow> string list" where
  "Preflight healthy ps =
     map ID (filter (\<lambda>p. EffectiveStatus p \<noteq> StatusInactive \<and> \<not> healthy (ID p)) (snap_all ps))"


section \<open>The set as an interface\<close>

text \<open>What the handlers, discovery and the drain loop rely on: the active view is the active part of the
  full view in every state the operations produce, \<open>swap\<close> installs exactly the given list, and
  \<open>set_status\<close> rewrites one entry.\<close>

locale provider_registry =
  fixes ok :: "'s \<Rightarrow> bool" and all active :: "'s \<Rightarrow> provider_config list"
    and swap :: "provider_config list \<Rightarrow> 's \<Rightarrow> 's"
    and set_status :: "string \<Rightarrow> provider_status \<Rightarrow> 's \<Rightarrow> bool \<times> 's"
  assumes active_all: "ok s \<Longrightarrow> active s = filter is_active (all s)"
    and swap_ok: "ok (swap ps s)" and all_swap: "all (swap ps s) = ps"
    and set_status_ok: "ok s \<Longrightarrow> ok (snd (set_status pid st s))"
    and set_status_found: "fst (set_status pid st s) \<longleftrightarrow> pid \<in> set (map ID (all s))"
    and set_status_all: "map ID (all (snd (set_status pid st s))) = map ID (all s)"
    and set_status_new: "\<exists>p. set_first_status pid st (all s) = Some p \<Longrightarrow>
          set_first_status pid st (all s) = Some (all (snd (set_status pid st s)))"
begin

lemma active_after_swap: "active (swap ps s) = filter is_active ps"
  by (simp add: active_all swap_ok all_swap)

end

lemma set_first_status_None: "set_first_status pid st ps = None \<longleftrightarrow> pid \<notin> set (map ID ps)"
  by (induction ps) auto

lemma set_first_status_in: "set_first_status pid st ps = Some qs \<Longrightarrow> pid \<in> ID ` set ps"
  by (induction ps arbitrary: qs) (auto split: if_splits)

lemma set_first_status_ids: "set_first_status pid st ps = Some qs \<Longrightarrow> map ID qs = map ID ps"
  by (induction ps arbitrary: qs) (auto split: if_splits)

lemma set_first_status_distinct:
  "distinct (map ID ps) \<Longrightarrow> set_first_status pid st ps = Some qs \<Longrightarrow>
   qs = map (\<lambda>p. if ID p = pid then p\<lparr>Status := st\<rparr> else p) ps"
proof (induction ps arbitrary: qs)
  case (Cons p ps)
  show ?case
  proof (cases "ID p = pid")
    case True
    with Cons.prems have "\<forall>q\<in>set ps. ID q \<noteq> pid" by (simp add: not_in_image)
    then have "map (\<lambda>p. if ID p = pid then p\<lparr>Status := st\<rparr> else p) ps = ps"
      by (intro map_idI) simp
    with True Cons.prems show ?thesis by simp
  qed (use Cons in auto)
qed simp

interpretation pset: provider_registry snapshot_ok snap_all snap_active Swap SetStatus
  by unfold_locales
    (auto simp: snapshot_ok_def Swap_def SetStatus_def buildSnapshot_def set_first_status_None
      dest: set_first_status_ids set_first_status_in split: option.split)

lemma SetStatus_distinct:
  assumes "distinct (map ID (snap_all ps))"
  shows "snap_all (snd (SetStatus pid st ps)) = map (\<lambda>p. if ID p = pid then p\<lparr>Status := st\<rparr> else p) (snap_all ps)"
proof (cases "set_first_status pid st (snap_all ps)")
  case None
  then have "\<forall>p\<in>set (snap_all ps). ID p \<noteq> pid" by (auto simp: set_first_status_None)
  then have "map (\<lambda>p. if ID p = pid then p\<lparr>Status := st\<rparr> else p) (snap_all ps) = snap_all ps"
    by (auto intro!: map_idI)
  with None show ?thesis by (simp add: SetStatus_def)
next
  case (Some qs)
  with set_first_status_distinct [OF assms] show ?thesis by (simp add: SetStatus_def buildSnapshot_def)
qed

lemma SetStatus_not_active:
  assumes "snapshot_ok ps" "distinct (map ID (snap_all ps))" "st \<in> {StatusInactive, StatusDraining}"
  shows "pid \<notin> ID ` set (snap_active (snd (SetStatus pid st ps)))"
proof
  let ?f = "\<lambda>p. if ID p = pid then p\<lparr>Status := st\<rparr> else p"
  assume "pid \<in> ID ` set (snap_active (snd (SetStatus pid st ps)))"
  also have "snap_active (snd (SetStatus pid st ps)) = filter is_active (snap_all (snd (SetStatus pid st ps)))"
    by (intro pset.active_all pset.set_status_ok assms(1))
  also have "\<dots> = filter is_active (map ?f (snap_all ps))"
    by (simp only: SetStatus_distinct [OF assms(2)])
  finally obtain q where act: "is_active (?f q)" and id: "ID (?f q) = pid"
    by (rule image_filter_map [THEN bexE]) (elim conjE)
  from id have "ID q = pid" by (cases "ID q = pid") simp_all
  with act assms(3) show False by (auto simp: EffectiveStatus_def)
qed

section \<open>Reconciliation\<close>

lemma by_id_None: "by_id ps pid = None \<longleftrightarrow> pid \<notin> ID ` set ps"
  by (force simp: by_id_def map_of_eq_None_iff)

lemma by_id_Some: "by_id ps pid = Some p \<Longrightarrow> p \<in> set ps \<and> ID p = pid"
  by (auto simp: by_id_def dest!: map_of_SomeD)

lemma by_id_distinct: "distinct (map ID ps) \<Longrightarrow> p \<in> set ps \<Longrightarrow> by_id ps (ID p) = Some p"
  unfolding by_id_def by (rule map_of_is_SomeI) (auto simp: rev_map [symmetric] comp_def distinct_map)

lemma reconcile_incoming_frame [simp]: "ID (reconcile_incoming m p) = ID p"
  by (simp add: reconcile_incoming_def split: option.split)

lemma reconcile_removed_set:
  "q \<in> set (reconcile_removed health m cur) \<longleftrightarrow>
   m (ID cur) = None \<and> (\<exists>h. health = Some h \<and> Inflight h (ID cur) > 0) \<and> q = cur\<lparr>Status := StatusDraining\<rparr>"
  by (auto simp: reconcile_removed_def split: option.split)

lemma reconcile_set:
  "q \<in> set (reconcile health current incoming) \<longleftrightarrow>
     q \<in> reconcile_incoming (by_id current) ` set incoming \<or>
     (\<exists>cur\<in>set current. ID cur \<notin> ID ` set incoming \<and> (\<exists>h. health = Some h \<and> Inflight h (ID cur) > 0) \<and>
        q = cur\<lparr>Status := StatusDraining\<rparr>)"
  by (simp add: reconcile_def reconcile_removed_set by_id_None Bex_def)

lemma map_concat_map: "map f (concat (map g xs)) = concat (map (\<lambda>x. map f (g x)) xs)"
  by (induction xs) auto

lemma distinct_concat_removed:
  assumes "distinct (map ID current)"
  shows "distinct (map ID (concat (map (reconcile_removed health m) current)))"
proof -
  have "map ID (concat (map (reconcile_removed health m) current)) =
        map ID (filter (\<lambda>cur. reconcile_removed health m cur \<noteq> []) current)"
    by (induction current) (auto simp: reconcile_removed_def split: option.split)
  with assms show ?thesis by (simp add: distinct_map_filter)
qed

lemma reconcile_distinct:
  assumes "distinct (map ID current)" "distinct (map ID incoming)"
  shows "distinct (map ID (reconcile health current incoming))"
proof -
  have "map ID (map (reconcile_incoming (by_id current)) incoming) = map ID incoming"
    by simp
  moreover have "set (map ID incoming) \<inter> set (map ID (concat (map (reconcile_removed health (by_id incoming)) current))) = {}"
    by (auto simp: disjoint_iff reconcile_removed_set by_id_None not_in_image)
  ultimately show ?thesis
    using assms(2) distinct_concat_removed [OF assms(1)] by (simp add: reconcile_def del: map_map)
qed


lemma reconcile_incoming_status:
  "reconcile_incoming m inc = inc\<lparr>Status := Status (reconcile_incoming m inc)\<rparr>"
  "Status inc \<noteq> StatusUnset \<Longrightarrow> reconcile_incoming m inc = inc"
  "Status inc = StatusUnset \<Longrightarrow> Status (reconcile_incoming m inc) = (case m (ID inc) of Some cur \<Rightarrow> Status cur | None \<Rightarrow> StatusActive)"
  by (simp_all add: reconcile_incoming_def split: option.split)

lemma reconcile_incoming_again:
  assumes "m' (ID inc) = Some (reconcile_incoming m inc)"
  shows "reconcile_incoming m' inc = reconcile_incoming m inc"
  using assms reconcile_incoming_status [where m = m and inc = inc]
  by (cases "Status inc = StatusUnset") (simp_all add: reconcile_incoming_def)

lemma reconcile_removed_again:
  "m (ID cur) = None \<Longrightarrow> q \<in> set (reconcile_removed health m cur) \<Longrightarrow> reconcile_removed health m q = [q]"
  by (auto simp: reconcile_removed_def split: option.splits if_splits)

lemma concat_map_singletons: "(\<And>x. x \<in> set xs \<Longrightarrow> f x = [x]) \<Longrightarrow> concat (map f xs) = xs"
  by (induction xs) auto

lemma reconcile_stable:
  assumes "distinct (map ID current)" "distinct (map ID incoming)"
  shows "reconcile health (reconcile health current incoming) incoming = reconcile health current incoming"
proof -
  let ?res = "reconcile health current incoming"
  let ?R = "concat (map (reconcile_removed health (by_id incoming)) current)"
  have "by_id ?res (ID inc) = Some (reconcile_incoming (by_id current) inc)" if "inc \<in> set incoming" for inc
    using by_id_distinct [OF reconcile_distinct [OF assms], of "reconcile_incoming (by_id current) inc" health] that
    by (simp add: reconcile_set)
  then have first: "map (reconcile_incoming (by_id ?res)) incoming = map (reconcile_incoming (by_id current)) incoming"
    by (simp add: reconcile_incoming_again)
  have "concat (map (reconcile_removed health (by_id incoming)) (map (reconcile_incoming (by_id current)) incoming)) = []"
    by (auto simp: reconcile_removed_def by_id_None)
  moreover have "concat (map (reconcile_removed health (by_id incoming)) ?R) = ?R"
    by (rule concat_map_singletons) (auto simp: reconcile_removed_set intro: reconcile_removed_again)
  ultimately have "concat (map (reconcile_removed health (by_id incoming)) ?res) = ?R"
    by (simp add: reconcile_def)
  with first have "map (reconcile_incoming (by_id ?res)) incoming @
      concat (map (reconcile_removed health (by_id incoming)) ?res) = ?res"
    by (simp only: reconcile_def [of health current])
  then show ?thesis by (simp only: reconcile_def [of health ?res])
qed

lemma reconcile_ids:
  "map ID (reconcile health current incoming) = map ID incoming @ map ID (filter
     (\<lambda>cur. ID cur \<notin> ID ` set incoming \<and> (\<exists>h. health = Some h \<and> Inflight h (ID cur) > 0)) current)"
proof -
  have "map ID (concat (map (reconcile_removed health (by_id incoming)) cs)) = map ID (filter
     (\<lambda>cur. ID cur \<notin> ID ` set incoming \<and> (\<exists>h. health = Some h \<and> Inflight h (ID cur) > 0)) cs)" for cs
    by (induction cs) (auto simp: reconcile_removed_def by_id_None simp flip: by_id_None split: option.split)
  then show ?thesis by (simp add: reconcile_def)
qed

lemma reconcile_distinct_iff:
  "distinct (map ID current) \<Longrightarrow> distinct (map ID (reconcile health current incoming)) \<longleftrightarrow> distinct (map ID incoming)"
  using reconcile_distinct [of current incoming health] reconcile_ids [of health current incoming] by auto

section \<open>Draining\<close>

lemma drain_loop_done:
  assumes "drain_loop pid ts ps = Some (e, ps')" "P ps" "\<And>t s. t \<in> set ts \<Longrightarrow> P s \<Longrightarrow> P (env_change t s)"
  shows "\<exists>s. P s \<and> ps' = snd (SetStatus pid StatusInactive s)"
  using assms
proof (induction ts arbitrary: ps)
  case (Cons t ts)
  have P: "P (env_change t ps)" using Cons.prems(2,3) by simp
  show ?case
  proof (cases "inflight_now t = 0 \<or> ctx_done t \<noteq> None")
    case True
    with Cons.prems(1) have "ps' = snd (SetStatus pid StatusInactive (env_change t ps))"
      by (auto simp: Let_def split: if_splits option.splits)
    with P show ?thesis by blast
  next
    case False
    with Cons.prems(1) have "drain_loop pid ts (env_change t ps) = Some (e, ps')"
      by (simp add: Let_def)
    from Cons.IH [OF this P] Cons.prems(3) show ?thesis by simp
  qed
qed simp

lemma drain_loop_ends:
  "\<exists>t\<in>set ts. inflight_now t = 0 \<or> ctx_done t \<noteq> None \<Longrightarrow> drain_loop pid ts ps \<noteq> None"
proof (induction ts arbitrary: ps)
  case (Cons t ts)
  show ?case
  proof (cases "inflight_now t = 0 \<or> ctx_done t \<noteq> None")
    case False
    with Cons.prems have "\<exists>t\<in>set ts. inflight_now t = 0 \<or> ctx_done t \<noteq> None" by simp
    from Cons.IH [OF this] False show ?thesis by (simp add: Let_def)
  qed (auto simp: Let_def split: option.split)
qed simp

abbreviation set_ok :: "provider_snapshot \<Rightarrow> bool" where
  "set_ok ps \<equiv> snapshot_ok ps \<and> distinct (map ID (snap_all ps))"

lemma SetStatus_set_ok: "set_ok ps \<Longrightarrow> set_ok (snd (SetStatus pid st ps))"
  using pset.set_status_ok [of ps pid st] pset.set_status_all [of pid st ps] by simp

lemma set_first_status_find:
  "set_first_status pid st ps = Some qs \<Longrightarrow>
   find (\<lambda>p. ID p = pid) qs = map_option (\<lambda>p. p\<lparr>Status := st\<rparr>) (find (\<lambda>p. ID p = pid) ps)"
  by (induction ps arbitrary: qs) (auto split: if_splits)

lemma SetStatus_Get:
  "Get_provider pid (snd (SetStatus pid st ps)) = map_option (\<lambda>p. p\<lparr>Status := st\<rparr>) (Get_provider pid ps)"
proof (cases "set_first_status pid st (snap_all ps)")
  case None
  then have "find (\<lambda>p. ID p = pid) (snap_all ps) = None" by (auto simp: set_first_status_None find_None_iff)
  with None show ?thesis by (simp add: SetStatus_def Get_provider_def)
qed (simp add: SetStatus_def Get_provider_def buildSnapshot_def set_first_status_find)

lemma Get_provider_None: "Get_provider pid ps = None \<longleftrightarrow> pid \<notin> ID ` set (snap_all ps)"
  by (auto simp: Get_provider_def find_None_iff)

lemma SetStatus_all_status:
  assumes "distinct (map ID (snap_all ps))" "q \<in> set (snap_all (snd (SetStatus pid st ps)))" "ID q = pid"
  shows "Status q = st"
proof -
  from assms(2) obtain p where q: "q = (if ID p = pid then p\<lparr>Status := st\<rparr> else p)"
    unfolding SetStatus_distinct [OF assms(1)] set_map by (rule imageE)
  with assms(3) have "ID p = pid" by (cases "ID p = pid") simp_all
  with q show ?thesis by simp
qed

lemma drain_loop_reason:
  "drain_loop pid ts ps = Some (e, ps') \<Longrightarrow>
   (case e of None \<Rightarrow> \<exists>t\<in>set ts. inflight_now t = 0 | Some err \<Rightarrow> \<exists>t\<in>set ts. ctx_done t = Some err)"
proof (induction ts arbitrary: ps)
  case (Cons t ts)
  show ?case
  proof (cases "inflight_now t = 0 \<or> ctx_done t \<noteq> None")
    case True
    with Cons.prems show ?thesis by (auto simp: Let_def split: if_splits option.splits)
  next
    case False
    with Cons.prems have "drain_loop pid ts (env_change t ps) = Some (e, ps')" by (simp add: Let_def)
    from Cons.IH [OF this] show ?thesis by (cases e) simp_all
  qed
qed simp

text \<open>What a drain that returned left behind, for any property the rest of the process keeps.\<close>

lemma DrainProvider_ended:
  assumes "pid \<in> ID ` set (snap_all ps)" "DrainProvider has_health pid turns ps = Some (e, ps')"
    and "P (snd (SetStatus pid StatusDraining ps))" "\<And>t s. t \<in> set turns \<Longrightarrow> P s \<Longrightarrow> P (env_change t s)"
  shows "\<exists>s. P s \<and> ps' = snd (SetStatus pid StatusInactive s)"
proof -
  let ?ps1 = "snd (SetStatus pid StatusDraining ps)"
  have drain: "DrainProvider has_health pid turns ps =
      (if \<not> has_health then Some (None, snd (SetStatus pid StatusInactive ?ps1)) else drain_loop pid turns ?ps1)"
    using pset.set_status_found [of pid StatusDraining ps] assms(1)
    by (cases "SetStatus pid StatusDraining ps") (simp add: DrainProvider_def)
  show ?thesis
  proof (cases has_health)
    case True
    with assms(2) drain have "drain_loop pid turns ?ps1 = Some (e, ps')" by simp
    from drain_loop_done [where P = P, OF this assms(3,4)] show ?thesis by blast
  qed (use assms(2,3) drain in auto)
qed

section \<open>Properties\<close>

text \<open>C13: what a discovery poll installs, for any current set and any report. The new set is the reported
  providers in the order of the report, each with exactly its reported configuration and its status
  taken from the report, else from the entry it replaces, else active; followed by the providers that
  are no longer reported but have calls in flight, as draining; and nothing else. Discovery does not
  check that a report names an id once: from a set with unique ids the new ids are unique exactly when
  the report's are, and then the same report applied again changes nothing.\<close>

theorem reconcile_correct:
  fixes health :: "provider_health option" and current incoming :: "provider_config list"
  defines "result \<equiv> reconcile health current incoming"
    and "leftover \<equiv> \<lambda>cur. ID cur \<notin> ID ` set incoming \<and> (\<exists>h. health = Some h \<and> Inflight h (ID cur) > 0)"
  shows "map ID result = map ID incoming @ map ID (filter leftover current) \<and>
         (\<forall>i<length incoming. result ! i = (incoming ! i)\<lparr>Status :=
            if Status (incoming ! i) \<noteq> StatusUnset then Status (incoming ! i)
            else case by_id current (ID (incoming ! i)) of Some cur \<Rightarrow> Status cur | None \<Rightarrow> StatusActive\<rparr>) \<and>
         drop (length incoming) result = map (\<lambda>cur. cur\<lparr>Status := StatusDraining\<rparr>) (filter leftover current) \<and>
         (distinct (map ID current) \<longrightarrow>
            (distinct (map ID result) \<longleftrightarrow> distinct (map ID incoming)) \<and>
            (distinct (map ID incoming) \<longrightarrow> reconcile health result incoming = result))"
proof (intro conjI allI impI)
  show "map ID result = map ID incoming @ map ID (filter leftover current)"
    unfolding result_def leftover_def by (rule reconcile_ids)
next
  fix i assume "i < length incoming"
  then have "result ! i = reconcile_incoming (by_id current) (incoming ! i)"
    by (simp add: result_def reconcile_def nth_append)
  then show "result ! i = (incoming ! i)\<lparr>Status :=
            if Status (incoming ! i) \<noteq> StatusUnset then Status (incoming ! i)
            else case by_id current (ID (incoming ! i)) of Some cur \<Rightarrow> Status cur | None \<Rightarrow> StatusActive\<rparr>"
    by (simp add: reconcile_incoming_def split: option.split)
next
  have "concat (map (reconcile_removed health (by_id incoming)) cs) =
      map (\<lambda>cur. cur\<lparr>Status := StatusDraining\<rparr>) (filter leftover cs)" for cs
    by (induction cs) (auto simp: leftover_def reconcile_removed_def by_id_None simp flip: by_id_None split: option.split)
  then show "drop (length incoming) result = map (\<lambda>cur. cur\<lparr>Status := StatusDraining\<rparr>) (filter leftover current)"
    by (simp add: result_def reconcile_def)
qed (simp_all add: result_def reconcile_distinct_iff reconcile_stable)

theorem reconcile_correct_witness:
  "reconcile None (reconcile None [sample_provider] [sample_provider\<lparr>ID := ''other''\<rparr>]) [sample_provider\<lparr>ID := ''other''\<rparr>] =
   reconcile None [sample_provider] [sample_provider\<lparr>ID := ''other''\<rparr>]"
  using reconcile_correct [of None "[sample_provider]" "[sample_provider\<lparr>ID := ''other''\<rparr>]"] by simp

text \<open>Nothing stops a report from naming an id twice. Both entries are installed, and since a status
  change reaches only the first entry with the id, the second stays active through a drain.\<close>

lemma duplicate_report_stays_active:
  defines "twice \<equiv> Swap (reconcile None [] [sample_provider, sample_provider]) (NewProviderSet [])"
  shows "ID ` set (snap_active (snd (SetStatus (ID sample_provider) StatusInactive twice))) = {ID sample_provider} \<and>
         map ID (snap_all twice) = [ID sample_provider, ID sample_provider]"
  by (simp add: twice_def Swap_def SetStatus_def reconcile_def reconcile_incoming_def by_id_def buildSnapshot_def
      EffectiveStatus_def sample_provider_def)

text \<open>A failed poll, and an answer without a single valid provider, leave a non-empty provider set
  untouched; otherwise every provider in the new set was either reported with an acceptable endpoint
  and configuration, or is a draining leftover of the old set.\<close>

theorem poll_safe:
  "(case reply of Inl e \<Rightarrow> poll endpoint_error budget health reply ps = (Some e, ps)
    | Inr wire \<Rightarrow> discovered endpoint_error budget wire = [] \<and> snap_all ps \<noteq> [] \<longrightarrow>
        poll endpoint_error budget health reply ps = (None, ps)) \<and>
   (snd (poll endpoint_error budget health reply ps) = ps \<or>
    (\<forall>p\<in>set (snap_all (snd (poll endpoint_error budget health reply ps))).
       (\<exists>v. p = v\<lparr>Status := Status p\<rparr> \<and> endpoint_error (Endpoint v) = None \<and> ValidateProviderConfig v budget = None) \<or>
       (Status p = StatusDraining \<and> (\<exists>cur\<in>set (snap_all ps). p = cur\<lparr>Status := StatusDraining\<rparr>))))"
proof (cases reply)
  case (Inr wire)
  let ?valid = "discovered endpoint_error budget wire"
  have "(\<exists>v. p = v\<lparr>Status := Status p\<rparr> \<and> endpoint_error (Endpoint v) = None \<and> ValidateProviderConfig v budget = None) \<or>
       (Status p = StatusDraining \<and> (\<exists>cur\<in>set (snap_all ps). p = cur\<lparr>Status := StatusDraining\<rparr>))"
    if p: "p \<in> set (reconcile health (snap_all ps) ?valid)" for p
  proof (cases "p \<in> reconcile_incoming (by_id (snap_all ps)) ` set ?valid")
    case True
    then obtain v where v: "v \<in> set ?valid" "p = reconcile_incoming (by_id (snap_all ps)) v" by blast
    from v(1) have "endpoint_error (Endpoint v) = None" "ValidateProviderConfig v budget = None"
      by (auto simp: discovered_def dest: in_set_takeD)
    with v(2) reconcile_incoming_status(1) show ?thesis by blast
  next
    case False
    with p show ?thesis by (auto simp: reconcile_set)
  qed
  with Inr show ?thesis by (simp add: poll_def Let_def Swap_def buildSnapshot_def)
qed (simp add: poll_def)

text \<open>C14: draining an unknown provider reports an error and changes nothing. For a known one the loop ends
  as soon as some turn sees no call in flight or a done context, and returns without error only when
  nothing was in flight (or nothing is counted), else with the error of the context. Whenever it ends,
  whatever the rest of the process did to the set meanwhile, the entry of that id, if there still is
  one, has status inactive, and it is there unless something else removed it. As long as ids stay
  unique no entry of that id is anything but inactive, and the provider is not among the active ones.\<close>

theorem DrainProvider_correct:
  fixes ps :: provider_snapshot and turns :: "drain_turn list"
  shows "(pid \<notin> ID ` set (snap_all ps) \<longrightarrow>
            DrainProvider has_health pid turns ps = Some (Some (''provider '' @ pid @ '' not found''), ps)) \<and>
         (\<not> has_health \<or> (\<exists>t\<in>set turns. inflight_now t = 0 \<or> ctx_done t \<noteq> None) \<longrightarrow>
            DrainProvider has_health pid turns ps \<noteq> None) \<and>
         (\<forall>e ps'. pid \<in> ID ` set (snap_all ps) \<and> DrainProvider has_health pid turns ps = Some (e, ps') \<longrightarrow>
            (case e of None \<Rightarrow> \<not> has_health \<or> (\<exists>t\<in>set turns. inflight_now t = 0)
             | Some err \<Rightarrow> has_health \<and> (\<exists>t\<in>set turns. ctx_done t = Some err)) \<and>
            (\<forall>p. Get_provider pid ps' = Some p \<longrightarrow> Status p = StatusInactive) \<and>
            ((\<forall>t\<in>set turns. \<forall>s. Get_provider pid s \<noteq> None \<longrightarrow> Get_provider pid (env_change t s) \<noteq> None) \<longrightarrow>
               Get_provider pid ps' \<noteq> None) \<and>
            (set_ok ps \<and> (\<forall>t\<in>set turns. \<forall>s. set_ok s \<longrightarrow> set_ok (env_change t s)) \<longrightarrow>
               (\<forall>q\<in>set (snap_all ps'). ID q = pid \<longrightarrow> Status q = StatusInactive) \<and> pid \<notin> ID ` set (snap_active ps')))"
proof (intro conjI allI impI)
  assume "pid \<notin> ID ` set (snap_all ps)"
  then show "DrainProvider has_health pid turns ps = Some (Some (''provider '' @ pid @ '' not found''), ps)"
    by (simp add: DrainProvider_def SetStatus_def set_first_status_None [THEN iffD2])
next
  assume "\<not> has_health \<or> (\<exists>t\<in>set turns. inflight_now t = 0 \<or> ctx_done t \<noteq> None)"
  with drain_loop_ends [of turns pid] show "DrainProvider has_health pid turns ps \<noteq> None"
    by (auto simp: DrainProvider_def split: prod.split bool.split)
next
  fix e ps' assume "pid \<in> ID ` set (snap_all ps) \<and> DrainProvider has_health pid turns ps = Some (e, ps')"
  then have known: "pid \<in> ID ` set (snap_all ps)" and run: "DrainProvider has_health pid turns ps = Some (e, ps')" by auto
  have "fst (SetStatus pid StatusDraining ps)" using known pset.set_status_found [of pid StatusDraining ps] by simp
  with run show "case e of None \<Rightarrow> \<not> has_health \<or> (\<exists>t\<in>set turns. inflight_now t = 0)
      | Some err \<Rightarrow> has_health \<and> (\<exists>t\<in>set turns. ctx_done t = Some err)"
    by (auto simp: DrainProvider_def split: prod.splits bool.splits if_splits option.splits dest!: drain_loop_reason)
  have "\<exists>s. True \<and> ps' = snd (SetStatus pid StatusInactive s)" by (rule DrainProvider_ended [OF known run]) simp_all
  then show "Status p = StatusInactive" if "Get_provider pid ps' = Some p" for p
    using that by (auto simp: SetStatus_Get)
  show "Get_provider pid ps' \<noteq> None"
    if keeps: "\<forall>t\<in>set turns. \<forall>s. Get_provider pid s \<noteq> None \<longrightarrow> Get_provider pid (env_change t s) \<noteq> None"
  proof -
    have "\<exists>s. Get_provider pid s \<noteq> None \<and> ps' = snd (SetStatus pid StatusInactive s)"
    proof (rule DrainProvider_ended [OF known run])
      show "Get_provider pid (snd (SetStatus pid StatusDraining ps)) \<noteq> None"
        unfolding SetStatus_Get using known Get_provider_None [of pid ps] by simp
    qed (use keeps in blast)
    then show ?thesis by (auto simp: SetStatus_Get)
  qed
  assume ok: "set_ok ps \<and> (\<forall>t\<in>set turns. \<forall>s. set_ok s \<longrightarrow> set_ok (env_change t s))"
  have "\<exists>s. set_ok s \<and> ps' = snd (SetStatus pid StatusInactive s)"
  proof (rule DrainProvider_ended [OF known run])
    show "set_ok (snd (SetStatus pid StatusDraining ps))" using ok by (intro SetStatus_set_ok) blast
  qed (use ok in blast)
  then obtain s where s: "set_ok s" "ps' = snd (SetStatus pid StatusInactive s)" by blast
  then show "\<forall>q\<in>set (snap_all ps'). ID q = pid \<longrightarrow> Status q = StatusInactive"
    using SetStatus_all_status [of s] by blast
  from s SetStatus_not_active [of s] show "pid \<notin> ID ` set (snap_active ps')" by blast
qed

theorem DrainProvider_correct_witness:
  "\<exists>ps'. DrainProvider True (ID sample_provider) [\<lparr>env_change = id, inflight_now = 0, ctx_done = None\<rparr>]
     (NewProviderSet [sample_provider]) = Some (None, ps') \<and> (\<forall>q\<in>set (snap_all ps'). ID q = ID sample_provider \<longrightarrow> Status q = StatusInactive)"
proof -
  let ?turns = "[\<lparr>env_change = id, inflight_now = 0, ctx_done = None\<rparr>]"
  let ?ps = "NewProviderSet [sample_provider]"
  have ok: "set_ok ?ps" by (simp add: NewProviderSet_def buildSnapshot_def snapshot_ok_def)
  have known: "ID sample_provider \<in> ID ` set (snap_all ?ps)" by (simp add: NewProviderSet_def buildSnapshot_def)
  obtain ps' where run: "DrainProvider True (ID sample_provider) ?turns ?ps = Some (None, ps')"
    by (simp add: DrainProvider_def SetStatus_def NewProviderSet_def buildSnapshot_def)
  with DrainProvider_correct [where ps = ?ps and turns = ?turns and pid = "ID sample_provider" and has_health = True] ok known
  show ?thesis by fastforce
qed

definition sample_registration :: provider_registration where
  "sample_registration =
     \<lparr>pr_provider_id = ''acme_1'', pr_endpoint = ''https://acme.example'', pr_context_match = True,
      pr_identity_match = False, pr_countries = [], pr_uid_types = [], pr_properties = [], pr_timeout_ms = 30,
      pr_priority = 0, pr_tmpx_slots = [], pr_status = StatusUnset\<rparr>"

theorem poll_safe_witness:
  "\<exists>p. p \<in> set (snap_all (snd (poll (\<lambda>_. None) 0 None (Inr [sample_registration]) (NewProviderSet [])))) \<and>
     ((\<exists>v. p = v\<lparr>Status := Status p\<rparr> \<and> ValidateProviderConfig v 0 = None) \<or>
      (Status p = StatusDraining \<and> (\<exists>cur\<in>set (snap_all (NewProviderSet [])). p = cur\<lparr>Status := StatusDraining\<rparr>)))"
proof -
  have ids: "map ID (snap_all (snd (poll (\<lambda>_. None) 0 None (Inr [sample_registration]) (NewProviderSet [])))) = [''acme_1'']"
    by code_simp
  then have "snd (poll (\<lambda>_. None) 0 None (Inr [sample_registration]) (NewProviderSet [])) \<noteq> NewProviderSet []"
    by (auto simp: NewProviderSet_def buildSnapshot_def)
  then have "\<forall>p\<in>set (snap_all (snd (poll (\<lambda>_. None) 0 None (Inr [sample_registration]) (NewProviderSet [])))).
       (\<exists>v. p = v\<lparr>Status := Status p\<rparr> \<and> (\<lambda>_. None) (Endpoint v) = (None :: string option) \<and> ValidateProviderConfig v 0 = None) \<or>
       (Status p = StatusDraining \<and> (\<exists>cur\<in>set (snap_all (NewProviderSet [])). p = cur\<lparr>Status := StatusDraining\<rparr>))"
    using poll_safe [where reply = "Inr [sample_registration]" and endpoint_error = "\<lambda>_. None" and budget = 0 and
        health = None and ps = "NewProviderSet []", THEN conjunct2]
    by (rule disj_rest)
  note this [THEN bspec]
  moreover from ids have "hd (snap_all (snd (poll (\<lambda>_. None) 0 None (Inr [sample_registration]) (NewProviderSet []))))
      \<in> set (snap_all (snd (poll (\<lambda>_. None) 0 None (Inr [sample_registration]) (NewProviderSet []))))"
    by (metis list.set_sel(1) list.simps(8) not_Cons_self2)
  ultimately show ?thesis by blast
qed

end
