(* ===== verification/TMP_Validate.thy ===== *)
theory TMP_Validate
  imports TMP_Types
begin

text \<open>
  Request validation at the wire boundary (\<^verbatim>\<open>src/tmproto/validate.go\<close>, \<^verbatim>\<open>validate_ladder.go\<close>) and the
  credential scrubbing of artifacts (\<^verbatim>\<open>Artifact.StripAccess\<close> in \<^verbatim>\<open>artifact.go\<close>). Each validator is the
  list of its early returns in the source's order; \<^const>\<open>None\<close> is Go's \<^verbatim>\<open>nil\<close> error. The URL rules of
  \<^verbatim>\<open>urlsecurity.go\<close> enter as the two functions \<open>fetchable\<close> and \<open>ref_url\<close>: every result holds
  whatever they accept.

  The lemmas show what an accepted request guarantees to the code behind the validator: identifier
  fields free of control bytes and bounded (the router builds cache keys from them), a normalised
  country, pairwise distinct identity tokens, consent for a declared GDPR request, and a scrubbed
  artifact that carries no access object and no signed URL.
\<close>

section \<open>Identifiers\<close>

definition MaxIDLength :: nat where "MaxIDLength = 256"
definition MaxSellerAgentURLLength :: nat where "MaxSellerAgentURLLength = 2048"

text \<open>The source ranges over runes; a byte of a multi-byte rune is at least 128, so the test is the
  same on bytes.\<close>

definition control_byte :: "char \<Rightarrow> bool" where
  "control_byte c \<longleftrightarrow> of_char c < (0x20 :: nat) \<or> of_char c = (0x7F :: nat)"

definition validateSafeID :: "string \<Rightarrow> string \<Rightarrow> string option" where
  "validateSafeID field value = first_some
     [fails (length value > MaxIDLength) (field @ '' exceeds maximum length of 256''),
      fails (\<exists>c\<in>set value. c \<in> {CHR '':'', CHR ''/'', CHR 0x5C}) (field @ '' contains invalid characters''),
      fails (\<exists>c\<in>set value. control_byte c) (field @ '' contains invalid characters'')]"

definition validateEchoID :: "string \<Rightarrow> string \<Rightarrow> string option" where
  "validateEchoID field value = first_some
     [fails (length value > MaxIDLength) (field @ '' exceeds maximum length of 256''),
      fails (\<exists>c\<in>set value. control_byte c) (field @ '' contains invalid characters'')]"

definition validateSellerAgentURL :: "string \<Rightarrow> string option" where
  "validateSellerAgentURL value = first_some
     [fails (length value > MaxSellerAgentURLLength) ''seller_agent_url exceeds maximum length of 2048'',
      fails (\<exists>c\<in>set value. control_byte c) ''seller_agent_url contains invalid characters'']"

definition SafeRequestIDForEcho :: "string \<Rightarrow> string" where
  "SafeRequestIDForEcho requestID =
     (if requestID = '''' then ''''
      else if validateEchoID ''request_id'' requestID \<noteq> None then '''' else requestID)"

definition validateProtocolVersion :: "string \<Rightarrow> string option" where
  "validateProtocolVersion v = fails (\<not> (v = '''' \<or> v = ''1.0'')) ''unsupported protocol_version''"

section \<open>Geo\<close>

text \<open>The patterns \<^verbatim>\<open>^[A-Z]{2}$\<close> and \<^verbatim>\<open>^[A-Z]{2}-[A-Z0-9]{1,3}$\<close>.\<close>

definition geoCountryPattern :: "string \<Rightarrow> bool" where
  "geoCountryPattern s \<longleftrightarrow> length s = 2 \<and> list_all is_upper s"

definition geoRegionPattern :: "string \<Rightarrow> bool" where
  "geoRegionPattern s \<longleftrightarrow>
     geoCountryPattern (take 2 s) \<and> take 1 (drop 2 s) = ''-'' \<and>
     length (drop 3 s) \<in> {1, 2, 3} \<and> list_all (\<lambda>c. is_upper c \<or> is_digit c) (drop 3 s)"

definition check_string_field :: "object \<Rightarrow> string \<Rightarrow> (string \<Rightarrow> bool) \<Rightarrow> string \<Rightarrow> string option" where
  "check_string_field obj key pat label =
     (case map_of obj key of
        None \<Rightarrow> None
      | Some (JStr s) \<Rightarrow> fails (\<not> pat s) (label @ '': does not match pattern'')
      | Some _ \<Rightarrow> Some (label @ '': must be string''))"

definition validateGeo :: "object \<Rightarrow> string option" where
  "validateGeo geo = (if geo = [] then None else first_some
     [check_string_field geo ''country'' geoCountryPattern ''geo.country'',
      check_string_field geo ''region'' geoRegionPattern ''geo.region'',
      (case map_of geo ''metro'' of
         None \<Rightarrow> None
       | Some (JObj metro) \<Rightarrow> first_some
           [fails (map_of metro ''system'' = None) ''geo.metro.system: required'',
            fails (map_of metro ''value'' = None) ''geo.metro.value: required'']
       | Some _ \<Rightarrow> Some ''geo.metro: must be object'')])"

section \<open>Context ladder: signals, references, artifacts\<close>

definition validSentiment :: "string list" where
  "validSentiment = [''positive'', ''negative'', ''neutral'', ''mixed'']"

definition bcp47TwoLetter :: "string \<Rightarrow> bool" where
  "bcp47TwoLetter s \<longleftrightarrow> length s = 2 \<and> list_all is_lower s"

definition validate_context_signals :: "context_signals option \<Rightarrow> string option" where
  "validate_context_signals cs = (case cs of None \<Rightarrow> None | Some c \<Rightarrow> first_some
     [fails (length (topics c) > 50) ''context_signals.topics: exceeds max 50'',
      fails (length (key_words c) > 50) ''context_signals.keywords: exceeds max 50'',
      each_index (\<lambda>i k. fails (length k > 100)
        (''context_signals.keywords['' @ itoa i @ '']: exceeds max 100'')) (key_words c),
      fails (length (content_policies c) > 20) ''context_signals.content_policies: exceeds max 20'',
      fails (length (cs_summary c) > 500) ''context_signals.summary: exceeds max 500'',
      fails (language c \<noteq> '''' \<and> \<not> bcp47TwoLetter (language c))
        ''context_signals.language: does not match pattern ^[a-z]{2}$'',
      fails (sentiment c \<noteq> '''' \<and> sentiment c \<notin> set validSentiment)
        ''context_signals.sentiment: not in [positive, negative, neutral, mixed]'',
      (if embedding c \<noteq> '''' \<or> embedding_model c \<noteq> '''' \<or> embedding_dims c \<noteq> 0 then first_some
         [fails (embedding c = '''' \<or> embedding_model c = '''' \<or> embedding_dims c = 0)
            ''context_signals: embedding, embedding_model, embedding_dims must all be set together'',
          fails (embedding_dims c < 64 \<or> embedding_dims c > 2048)
            ''context_signals.embedding_dims: outside [64, 2048]'']
       else None)])"

definition validArtifactRefType :: "string list" where
  "validArtifactRefType = [''url'', ''url_hash'', ''eidr'', ''gracenote'', ''isrc'', ''gtin'',
     ''rss_guid'', ''isbn'', ''custom'']"

definition validate_artifact_ref :: "(string \<Rightarrow> string option) \<Rightarrow> artifact_ref \<Rightarrow> string option" where
  "validate_artifact_ref ref_url r = first_some
     [fails (ref_type r \<notin> set validArtifactRefType) ''artifact_ref.type: not a known ArtifactRefType'',
      fails (ref_value r = '''') ''artifact_ref.value: required'',
      (if ref_type r = ''url'' then map_option (\<lambda>e. ''artifact_ref.value: '' @ e) (ref_url (ref_value r)) else None)]"

definition validAssetAccessMethod :: "string list" where
  "validAssetAccessMethod = [''bearer_token'', ''service_account'', ''signed_url'']"

definition validate_asset_access :: "asset_access option \<Rightarrow> string option" where
  "validate_asset_access acc = (case acc of None \<Rightarrow> None | Some a \<Rightarrow> first_some
     [fails (acc_method a = '''') ''asset_access.method: required'',
      fails (acc_method a \<notin> set validAssetAccessMethod) ''asset_access.method: not a known AssetAccessMethod'',
      (if acc_method a = ''bearer_token'' then
         fails (acc_token a = '''') ''asset_access: token required for method=bearer_token''
       else if acc_method a = ''service_account'' then first_some
         [fails (acc_provider a = '''') ''asset_access: provider required for method=service_account'',
          fails (acc_provider a \<noteq> ''gcp'' \<and> acc_provider a \<noteq> ''aws'') ''asset_access.provider: not in [gcp, aws]'']
       else None)])"

definition check_url :: "(string \<Rightarrow> string option) \<Rightarrow> string \<Rightarrow> string \<Rightarrow> string option" where
  "check_url fetchable label u = map_option (\<lambda>e. label @ '': '' @ e) (fetchable u)"

definition validate_text_asset :: "text_asset \<Rightarrow> string option" where
  "validate_text_asset a = first_some
     [fails (txt_content a = '''') ''text_asset.content: required'',
      fails (length (txt_content a) > 100000) ''text_asset.content: exceeds max 100000'',
      fails (txt_heading_level a \<noteq> 0 \<and> (txt_heading_level a < 1 \<or> txt_heading_level a > 6))
        ''text_asset.heading_level: outside [1, 6]'']"

definition validate_image_asset :: "(string \<Rightarrow> string option) \<Rightarrow> image_asset \<Rightarrow> string option" where
  "validate_image_asset fetchable a = first_some
     [fails (img_url a = '''') ''image_asset.url: required'',
      check_url fetchable ''image_asset.url'' (img_url a),
      validate_asset_access (img_access a)]"

definition validate_video_asset :: "(string \<Rightarrow> string option) \<Rightarrow> video_asset \<Rightarrow> string option" where
  "validate_video_asset fetchable a = first_some
     [fails (vid_url a = '''') ''video_asset.url: required'',
      check_url fetchable ''video_asset.url'' (vid_url a),
      (if vid_thumbnail_url a \<noteq> '''' then check_url fetchable ''video_asset.thumbnail_url'' (vid_thumbnail_url a)
       else None),
      fails (length (vid_transcript a) > 200000) ''video_asset.transcript: exceeds max 200000'',
      validate_asset_access (vid_access a)]"

definition validate_audio_asset :: "(string \<Rightarrow> string option) \<Rightarrow> audio_asset \<Rightarrow> string option" where
  "validate_audio_asset fetchable a = first_some
     [fails (aud_url a = '''') ''audio_asset.url: required'',
      check_url fetchable ''audio_asset.url'' (aud_url a),
      fails (length (aud_transcript a) > 200000) ''audio_asset.transcript: exceeds max 200000'',
      validate_asset_access (aud_access a)]"

fun validate_asset :: "(string \<Rightarrow> string option) \<Rightarrow> asset \<Rightarrow> string option" where
  "validate_asset fetchable (TextAsset a) = validate_text_asset a"
| "validate_asset fetchable (ImageAsset a) = validate_image_asset fetchable a"
| "validate_asset fetchable (VideoAsset a) = validate_video_asset fetchable a"
| "validate_asset fetchable (AudioAsset a) = validate_audio_asset fetchable a"
| "validate_asset fetchable (UnknownAsset t r) = None"

definition MaxAssets :: nat where "MaxAssets = 200"

definition validate_artifact :: "(string \<Rightarrow> string option) \<Rightarrow> artifact option \<Rightarrow> string option" where
  "validate_artifact fetchable art = (case art of None \<Rightarrow> None | Some a \<Rightarrow> first_some
     [fails (art_property_rid a = '''') ''artifact.property_rid: required'',
      fails (art_artifact_id a = '''') ''artifact.artifact_id: required'',
      (if art_url a \<noteq> '''' then check_url fetchable ''artifact.url'' (art_url a) else None),
      fails (length (art_assets a) > MaxAssets) ''artifact.assets: exceeds max 200'',
      each_index (\<lambda>i x. map_option (\<lambda>e. ''artifact.assets['' @ itoa i @ '']: '' @ e) (validate_asset fetchable x))
        (art_assets a)])"

section \<open>Context match requests\<close>

definition TypeContextMatchRequest :: string where "TypeContextMatchRequest = ''context_match_request''"
definition TypeContextMatchResponse :: string where "TypeContextMatchResponse = ''context_match_response''"
definition TypeIdentityMatchRequest :: string where "TypeIdentityMatchRequest = ''identity_match_request''"
definition TypeIdentityMatchResponse :: string where "TypeIdentityMatchResponse = ''identity_match_response''"
definition TypeError :: string where "TypeError = ''error''"

definition MaxPackagesPerRequest :: nat where "MaxPackagesPerRequest = 500"
definition MaxArtifactRefsPerRequest :: nat where "MaxArtifactRefsPerRequest = 20"

definition ValidateContextRequest ::
  "(string \<Rightarrow> string option) \<Rightarrow> (string \<Rightarrow> string option) \<Rightarrow> context_request \<Rightarrow> string option" where
  "ValidateContextRequest fetchable ref_url req = first_some
     [fails (cm_type req \<noteq> TypeContextMatchRequest) ''type must be context_match_request'',
      validateProtocolVersion (cm_protocol_version req),
      validateEchoID ''request_id'' (cm_request_id req),
      fails (cm_request_id req = '''') ''request_id is required'',
      fails (cm_property_rid req = '''') ''property_rid is required'',
      validateSafeID ''property_rid'' (cm_property_rid req),
      validateEchoID ''property_id'' (cm_property_id req),
      fails (cm_property_type req = '''') ''property_type is required'',
      fails (cm_placement_id req = '''') ''placement_id is required'',
      validateEchoID ''placement_id'' (cm_placement_id req),
      fails (cm_seller_agent_url req = '''') ''seller_agent_url is required'',
      validateSellerAgentURL (cm_seller_agent_url req),
      fails (length (cm_package_ids req) > MaxPackagesPerRequest) ''package_ids exceeds maximum of 500'',
      fails (length (cm_artifact_refs req) > MaxArtifactRefsPerRequest) ''artifact_refs exceeds maximum of 20'',
      first_some (map (validateEchoID ''package_id'') (cm_package_ids req)),
      validate_context_signals (cm_context_signals req),
      each_index (\<lambda>i r. map_option (\<lambda>e. ''artifact_refs['' @ itoa i @ '']: '' @ e) (validate_artifact_ref ref_url r))
        (cm_artifact_refs req),
      validate_artifact fetchable (cm_artifact req),
      validateGeo (cm_geo req)]"

section \<open>Identity match requests\<close>

text \<open>\<^verbatim>\<open>strings.ToUpper\<close> as far as the country test can see it: ASCII letters, and the two runes whose
  upper case is ASCII (U+0131 gives \<^verbatim>\<open>I\<close>, U+017F gives \<^verbatim>\<open>S\<close>). Every other rune keeps a byte of 128 or
  more, which the test that follows refuses.\<close>

definition upper_byte :: "char \<Rightarrow> char" where
  "upper_byte c = (if is_lower c then char_of (of_char c - (32 :: nat)) else c)"

fun toUpper :: "string \<Rightarrow> string" where
  "toUpper [] = []"
| "toUpper [a] = [upper_byte a]"
| "toUpper (a # b # cs) =
     (if a = CHR 0xC4 \<and> b = CHR 0xB1 then CHR ''I'' # toUpper cs
      else if a = CHR 0xC5 \<and> b = CHR 0xBF then CHR ''S'' # toUpper cs
      else upper_byte a # toUpper (b # cs))"

definition validUIDTypes :: "string list" where
  "validUIDTypes = [''rampid'', ''rampid_derived'', ''id5'', ''uid2'', ''euid'', ''pairid'', ''maid'',
     ''hashed_email'', ''publisher_first_party'', ''world_id_nullifier'', ''other'']"

fun first_dup :: "'a list \<Rightarrow> 'a list \<Rightarrow> 'a option" where
  "first_dup seen [] = None"
| "first_dup seen (x # xs) = (if x \<in> set seen then Some x else first_dup (x # seen) xs)"

definition MaxAttestationClaims :: nat where "MaxAttestationClaims = 16"

definition validateAttestation :: "nat \<Rightarrow> attestation \<Rightarrow> string option" where
  "validateAttestation i a = (let field = ''identities['' @ itoa i @ ''].attestation.'' in first_some
     [fails (att_issuer a = []) (field @ ''issuer is required''),
      fails (att_scheme a = '''') (field @ ''scheme is required''),
      fails (att_proof a = []) (field @ ''proof is required''),
      fails (att_claims a = []) (field @ ''claims must not be empty''),
      fails (length (att_claims a) > MaxAttestationClaims) (field @ ''claims exceeds maximum of 16''),
      map_option (\<lambda>c. field @ ''claims contains duplicate '' @ c) (first_dup [] (att_claims a))])"

text \<open>The loop over \<^verbatim>\<open>identities\<close>, with the set of pairs seen so far.\<close>

fun check_identities :: "nat \<Rightarrow> (string \<times> string) list \<Rightarrow> identity_token list \<Rightarrow> string option" where
  "check_identities i seen [] = None"
| "check_identities i seen (x # xs) = (let field = ''identities['' @ itoa i @ '']'' in first_some
     [fails (user_token x = '''') (field @ ''.user_token is required''),
      fails (length (user_token x) > MaxIDLength) (field @ ''.user_token exceeds 256 bytes''),
      fails (uid_type x = '''') (field @ ''.uid_type is required''),
      fails (uid_type x \<notin> set validUIDTypes) (field @ ''.uid_type is not a recognized TMP identity type''),
      fails ((uid_type x, user_token x) \<in> set seen) (field @ '' duplicates an earlier (uid_type, user_token) pair''),
      (case attestation_of x of None \<Rightarrow> None | Some a \<Rightarrow> validateAttestation i a),
      check_identities (Suc i) ((uid_type x, user_token x) # seen) xs])"

definition hasNonEmptyString :: "object \<Rightarrow> string \<Rightarrow> bool" where
  "hasNonEmptyString m key = (case map_of m key of Some (JStr s) \<Rightarrow> s \<noteq> '''' | _ \<Rightarrow> False)"

definition validateConsent :: "object \<Rightarrow> string option" where
  "validateConsent consent =
     (if consent = [] then None
      else case map_of consent ''gdpr'' of
        None \<Rightarrow> None
      | Some (JBool gdpr) \<Rightarrow>
          if \<not> gdpr then None
          else if hasNonEmptyString consent ''tcf_consent'' \<or> hasNonEmptyString consent ''gpp'' then None
          else Some ''consent.gdpr is true but neither tcf_consent nor gpp is present''
      | Some _ \<Rightarrow> Some ''consent.gdpr: must be boolean'')"

definition check_sealed :: "nat \<Rightarrow> sealed_credential \<Rightarrow> string option" where
  "check_sealed i sc = (let field = ''sealed_credentials['' @ itoa i @ '']'' in first_some
     [fails (audience_kid sc = '''') (field @ ''.audience_kid is required''),
      fails (length (audience_kid sc) > 128) (field @ ''.audience_kid exceeds 128 bytes''),
      fails (payload sc = '''') (field @ ''.payload is required''),
      fails (length (payload sc) > 8192) (field @ ''.payload exceeds 8192 bytes'')])"

definition MaxIdentitiesPerRequest :: nat where "MaxIdentitiesPerRequest = 3"
definition MaxSealedCredentials :: nat where "MaxSealedCredentials = 8"

text \<open>The validator upper-cases \<^verbatim>\<open>req.Country\<close> in place; the model returns the request it leaves behind.\<close>

definition normalize_country :: "identity_request \<Rightarrow> identity_request" where
  "normalize_country req =
     (if im_country req = '''' then req else req\<lparr>im_country := toUpper (im_country req)\<rparr>)"

definition identity_request_error :: "identity_request \<Rightarrow> string option" where
  "identity_request_error req = first_some
       [fails (im_type req \<noteq> TypeIdentityMatchRequest) ''type must be identity_match_request'',
        validateProtocolVersion (im_protocol_version req),
        fails (im_request_id req = '''') ''request_id is required'',
        validateEchoID ''request_id'' (im_request_id req),
        fails (im_seller_agent_url req = '''') ''seller_agent_url is required'',
        validateSellerAgentURL (im_seller_agent_url req),
        fails (im_identities req = []) ''identities must not be empty'',
        fails (length (im_identities req) > MaxIdentitiesPerRequest) ''identities exceeds maximum of 3'',
        check_identities 0 [] (im_identities req),
        fails (im_country req \<noteq> '''' \<and> \<not> geoCountryPattern (im_country req))
          ''country must be a 2-letter ISO 3166-1 alpha-2 code'',
        fails (length (im_package_ids req) > MaxPackagesPerRequest) ''package_ids exceeds maximum of 500'',
        first_some (map (validateEchoID ''package_id'') (im_package_ids req)),
        validateConsent (im_consent req),
        fails (length (im_sealed_credentials req) > MaxSealedCredentials) ''sealed_credentials exceeds maximum of 8'',
        each_index check_sealed (im_sealed_credentials req)]"

definition ValidateIdentityRequest :: "identity_request \<Rightarrow> identity_request result" where
  "ValidateIdentityRequest req0 = (let req = normalize_country req0 in
     case identity_request_error req of Some e \<Rightarrow> Inl e | None \<Rightarrow> Inr req)"

section \<open>Scrubbing artifacts\<close>

definition signed_access :: "asset_access option \<Rightarrow> bool" where
  "signed_access acc = (case acc of None \<Rightarrow> False | Some a \<Rightarrow> acc_method a = ''signed_url'')"

definition rawAssetAccessIsSignedURL :: "json option \<Rightarrow> bool" where
  "rawAssetAccessIsSignedURL v =
     (case v of Some (JObj m) \<Rightarrow> map_of m ''method'' = Some (JStr ''signed_url'') | _ \<Rightarrow> False)"

text \<open>Decoding JSON \<^verbatim>\<open>null\<close> into a map gives the nil map, which is written back as \<^verbatim>\<open>null\<close>.\<close>

definition stripAccessFromRawAsset :: "json option \<Rightarrow> json option result" where
  "stripAccessFromRawAsset raw =
     (case raw of
        None \<Rightarrow> Inr None
      | Some (JObj m) \<Rightarrow>
          let signed = rawAssetAccessIsSignedURL (map_of m ''access'');
              m1 = AList.delete ''access'' m
          in Inr (Some (JObj (if signed then AList.delete ''url'' m1 else m1)))
      | Some JNull \<Rightarrow> Inr (Some JNull)
      | Some _ \<Rightarrow> Inl ''json: cannot unmarshal into map'')"

definition minimalUnknownAssetRaw :: "string \<Rightarrow> json option" where
  "minimalUnknownAssetRaw t = Some (JObj [(''type'', JStr t)])"

fun strip_asset :: "asset \<Rightarrow> asset" where
  "strip_asset (TextAsset a) = TextAsset a"
| "strip_asset (ImageAsset a) =
     ImageAsset (a\<lparr>img_url := if signed_access (img_access a) then '''' else img_url a, img_access := None\<rparr>)"
| "strip_asset (VideoAsset a) =
     VideoAsset (a\<lparr>vid_url := if signed_access (vid_access a) then '''' else vid_url a, vid_access := None\<rparr>)"
| "strip_asset (AudioAsset a) =
     AudioAsset (a\<lparr>aud_url := if signed_access (aud_access a) then '''' else aud_url a, aud_access := None\<rparr>)"
| "strip_asset (UnknownAsset t raw) =
     (case stripAccessFromRawAsset raw of
        Inl e \<Rightarrow> UnknownAsset t (minimalUnknownAssetRaw t)
      | Inr scrubbed \<Rightarrow> UnknownAsset t scrubbed)"

definition StripAccess :: "artifact option \<Rightarrow> artifact option" where
  "StripAccess art = map_option (\<lambda>a. a\<lparr>art_assets := map strip_asset (art_assets a)\<rparr>) art"

section \<open>What acceptance guarantees\<close>

lemma control_byte_nul [simp]: "control_byte (CHR 0x00)" and control_byte_newline [simp]: "control_byte (CHR 0x0A)"
  by (simp_all add: control_byte_def)

lemma validateEchoID_None:
  "validateEchoID f v = None \<longleftrightarrow> length v \<le> MaxIDLength \<and> (\<forall>c\<in>set v. \<not> control_byte c)"
  by (auto simp: validateEchoID_def)

lemma validateSafeID_None:
  "validateSafeID f v = None \<longleftrightarrow> length v \<le> MaxIDLength \<and> (\<forall>c\<in>set v. \<not> control_byte c) \<and>
     (\<forall>c\<in>set v. c \<notin> {CHR '':'', CHR ''/'', CHR 0x5C})"
  unfolding validateSafeID_def first_some_Cons fails_None by fastforce

lemma validateSellerAgentURL_None:
  "validateSellerAgentURL v = None \<longleftrightarrow> length v \<le> MaxSellerAgentURLLength \<and> (\<forall>c\<in>set v. \<not> control_byte c)"
  by (auto simp: validateSellerAgentURL_def)

lemmas id_checks = validateEchoID_None validateSafeID_None validateSellerAgentURL_None

abbreviation control_free :: "string \<Rightarrow> bool" where
  "control_free s \<equiv> \<forall>c\<in>set s. \<not> control_byte c"

lemma country_control_free: "geoCountryPattern s \<Longrightarrow> control_free s"
  by (auto simp: geoCountryPattern_def list_all_iff is_upper_def control_byte_def less_eq_char_def)

lemma validateGeo_country:
  assumes "validateGeo geo = None"
  shows "(case map_of geo ''country'' of None \<Rightarrow> True | Some (JStr s) \<Rightarrow> geoCountryPattern s | Some _ \<Rightarrow> False)"
  using assms
  by (auto simp: validateGeo_def check_string_field_def split: if_splits option.splits json.splits)

lemma ValidateContextRequest_accepts:
  assumes "ValidateContextRequest fetchable ref_url req = None"
  shows "cm_type req = TypeContextMatchRequest" "cm_request_id req \<noteq> ''''"
    and "cm_property_rid req \<noteq> ''''" "validateSafeID ''property_rid'' (cm_property_rid req) = None"
    and "cm_placement_id req \<noteq> ''''" "validateEchoID ''placement_id'' (cm_placement_id req) = None"
    and "cm_seller_agent_url req \<noteq> ''''" "validateSellerAgentURL (cm_seller_agent_url req) = None"
    and "\<forall>p\<in>set (cm_package_ids req). validateEchoID ''package_id'' p = None"
    and "length (cm_package_ids req) \<le> MaxPackagesPerRequest" "validateGeo (cm_geo req) = None"
    and "validateEchoID ''request_id'' (cm_request_id req) = None"
  using assms unfolding ValidateContextRequest_def first_some_Cons fails_None not_less not_not first_some_map
  by blast+

text \<open>Accepted geography, signals, references and artifacts, said without the order of the checks.\<close>

definition valid_geo :: "object \<Rightarrow> bool" where
  "valid_geo geo \<longleftrightarrow>
     (\<forall>v. map_of geo ''country'' = Some v \<longrightarrow> (\<exists>s. v = JStr s \<and> geoCountryPattern s)) \<and>
     (\<forall>v. map_of geo ''region'' = Some v \<longrightarrow> (\<exists>s. v = JStr s \<and> geoRegionPattern s)) \<and>
     (\<forall>v. map_of geo ''metro'' = Some v \<longrightarrow> (\<exists>m. v = JObj m \<and> map_of m ''system'' \<noteq> None \<and> map_of m ''value'' \<noteq> None))"

definition bounded_signals :: "context_signals \<Rightarrow> bool" where
  "bounded_signals c \<longleftrightarrow> length (topics c) \<le> 50 \<and> length (key_words c) \<le> 50 \<and> (\<forall>k\<in>set (key_words c). length k \<le> 100) \<and>
     length (content_policies c) \<le> 20 \<and> length (cs_summary c) \<le> 500 \<and>
     (language c = '''' \<or> bcp47TwoLetter (language c)) \<and> (sentiment c = '''' \<or> sentiment c \<in> set validSentiment) \<and>
     (embedding c = '''' \<and> embedding_model c = '''' \<and> embedding_dims c = 0 \<or>
      embedding c \<noteq> '''' \<and> embedding_model c \<noteq> '''' \<and> 64 \<le> embedding_dims c \<and> embedding_dims c \<le> 2048)"

definition usable_ref :: "(string \<Rightarrow> string option) \<Rightarrow> artifact_ref \<Rightarrow> bool" where
  "usable_ref ref_url r \<longleftrightarrow> ref_type r \<in> set validArtifactRefType \<and> ref_value r \<noteq> '''' \<and>
     (ref_type r = ''url'' \<longrightarrow> ref_url (ref_value r) = None)"

definition complete_access :: "asset_access \<Rightarrow> bool" where
  "complete_access a \<longleftrightarrow> acc_method a \<in> {''bearer_token'', ''service_account'', ''signed_url''} \<and>
     (acc_method a = ''bearer_token'' \<longrightarrow> acc_token a \<noteq> '''') \<and>
     (acc_method a = ''service_account'' \<longrightarrow> acc_provider a \<in> {''gcp'', ''aws''})"

text \<open>\<open>fetchable u\<close> is \<^const>\<open>None\<close> for a URL that may be fetched.\<close>

fun safe_asset :: "(string \<Rightarrow> string option) \<Rightarrow> asset \<Rightarrow> bool" where
  "safe_asset fetchable (TextAsset a) \<longleftrightarrow> txt_content a \<noteq> '''' \<and> length (txt_content a) \<le> 100000 \<and>
     0 \<le> txt_heading_level a \<and> txt_heading_level a \<le> 6"
| "safe_asset fetchable (ImageAsset a) \<longleftrightarrow> img_url a \<noteq> '''' \<and> fetchable (img_url a) = None \<and>
     (\<forall>x. img_access a = Some x \<longrightarrow> complete_access x)"
| "safe_asset fetchable (VideoAsset a) \<longleftrightarrow> vid_url a \<noteq> '''' \<and> fetchable (vid_url a) = None \<and>
     (vid_thumbnail_url a = '''' \<or> fetchable (vid_thumbnail_url a) = None) \<and> length (vid_transcript a) \<le> 200000 \<and>
     (\<forall>x. vid_access a = Some x \<longrightarrow> complete_access x)"
| "safe_asset fetchable (AudioAsset a) \<longleftrightarrow> aud_url a \<noteq> '''' \<and> fetchable (aud_url a) = None \<and>
     length (aud_transcript a) \<le> 200000 \<and> (\<forall>x. aud_access a = Some x \<longrightarrow> complete_access x)"
| "safe_asset fetchable (UnknownAsset t r) \<longleftrightarrow> True"

definition safe_artifact :: "(string \<Rightarrow> string option) \<Rightarrow> artifact \<Rightarrow> bool" where
  "safe_artifact fetchable a \<longleftrightarrow> art_property_rid a \<noteq> '''' \<and> art_artifact_id a \<noteq> '''' \<and>
     (art_url a = '''' \<or> fetchable (art_url a) = None) \<and> length (art_assets a) \<le> 200 \<and>
     (\<forall>x\<in>set (art_assets a). safe_asset fetchable x)"

lemma check_string_field_None:
  "check_string_field obj key pat label = None \<longleftrightarrow> (\<forall>v. map_of obj key = Some v \<longrightarrow> (\<exists>s. v = JStr s \<and> pat s))"
  by (auto simp: check_string_field_def split: option.split json.split)

lemma validateGeo_None: "validateGeo geo = None \<Longrightarrow> valid_geo geo"
  by (cases geo) (auto simp: validateGeo_def valid_geo_def check_string_field_None split: option.splits json.splits)

lemma signals_None: "validate_context_signals (Some c) = None \<Longrightarrow> bounded_signals c"
  by (auto simp: validate_context_signals_def bounded_signals_def not_less each_index_None in_set_conv_nth split: if_splits)

lemma ref_None: "validate_artifact_ref ref_url r = None \<Longrightarrow> usable_ref ref_url r"
  by (auto simp: validate_artifact_ref_def usable_ref_def)

lemma access_None: "validate_asset_access (Some a) = None \<Longrightarrow> complete_access a"
  by (auto simp: validate_asset_access_def complete_access_def validAssetAccessMethod_def split: if_splits)

lemma asset_None: "validate_asset fetchable x = None \<Longrightarrow> safe_asset fetchable x"
  by (cases x) (auto simp: validate_text_asset_def validate_image_asset_def validate_video_asset_def validate_audio_asset_def
      check_url_def not_less intro: access_None split: if_splits)

lemma artifact_None: "validate_artifact fetchable (Some a) = None \<Longrightarrow> safe_artifact fetchable a"
  by (auto simp: validate_artifact_def safe_artifact_def each_index_None in_set_conv_nth check_url_def MaxAssets_def not_less
      asset_None split: if_splits)

lemma ValidateContextRequest_ladder:
  assumes "ValidateContextRequest fetchable ref_url req = None"
  shows "valid_geo (cm_geo req)" "\<forall>c. cm_context_signals req = Some c \<longrightarrow> bounded_signals c"
    and "length (cm_artifact_refs req) \<le> MaxArtifactRefsPerRequest" "\<forall>r\<in>set (cm_artifact_refs req). usable_ref ref_url r"
    and "\<forall>a. cm_artifact req = Some a \<longrightarrow> safe_artifact fetchable a"
    and "validateEchoID ''property_id'' (cm_property_id req) = None" "cm_property_type req \<noteq> ''''"
proof -
  have acc: "validateGeo (cm_geo req) = None" "validate_context_signals (cm_context_signals req) = None"
    "length (cm_artifact_refs req) \<le> MaxArtifactRefsPerRequest" "validate_artifact fetchable (cm_artifact req) = None"
    "each_index (\<lambda>i r. map_option (\<lambda>e. ''artifact_refs['' @ itoa i @ '']: '' @ e) (validate_artifact_ref ref_url r))
        (cm_artifact_refs req) = None"
    "validateEchoID ''property_id'' (cm_property_id req) = None" "cm_property_type req \<noteq> ''''"
    using assms unfolding ValidateContextRequest_def first_some_Cons fails_None not_less not_not first_some_map
    by blast+
  show "valid_geo (cm_geo req)" using acc(1) by (rule validateGeo_None)
  show "\<forall>c. cm_context_signals req = Some c \<longrightarrow> bounded_signals c" using acc(2) by (auto intro: signals_None)
  show "\<forall>a. cm_artifact req = Some a \<longrightarrow> safe_artifact fetchable a" using acc(4) by (auto intro: artifact_None)
  show "\<forall>r\<in>set (cm_artifact_refs req). usable_ref ref_url r"
    using acc(5) by (auto simp: each_index_None in_set_conv_nth ref_None)
  show "length (cm_artifact_refs req) \<le> MaxArtifactRefsPerRequest"
    "validateEchoID ''property_id'' (cm_property_id req) = None" "cm_property_type req \<noteq> ''''"
    by (rule acc)+
qed

lemma check_identities_distinct:
  "check_identities i seen xs = None \<Longrightarrow>
   distinct (map (\<lambda>x. (uid_type x, user_token x)) xs) \<and>
   set seen \<inter> set (map (\<lambda>x. (uid_type x, user_token x)) xs) = {} \<and>
   (\<forall>x\<in>set xs. user_token x \<noteq> '''' \<and> length (user_token x) \<le> MaxIDLength \<and> uid_type x \<in> set validUIDTypes)"
proof (induction xs arbitrary: i seen)
  case (Cons x xs)
  from Cons.prems have step: "check_identities (Suc i) ((uid_type x, user_token x) # seen) xs = None"
    and here: "(uid_type x, user_token x) \<notin> set seen" "user_token x \<noteq> ''''"
      "length (user_token x) \<le> MaxIDLength" "uid_type x \<in> set validUIDTypes"
    by (auto simp: Let_def)
  from Cons.IH [OF step] here show ?case by auto
qed simp

lemma toUpper_country: "geoCountryPattern s \<Longrightarrow> toUpper s = s"
proof -
  assume pat: "geoCountryPattern s"
  then obtain a b where s: "s = [a, b]" "is_upper a" "is_upper b"
    by (auto simp: geoCountryPattern_def length_Suc_conv numeral_2_eq_2)
  then show ?thesis
    by (auto simp: upper_byte_def char_class_defs)
qed

lemma normalize_country_fixed:
  "im_country r = '''' \<or> geoCountryPattern (im_country r) \<Longrightarrow> normalize_country r = r"
  by (auto simp: normalize_country_def toUpper_country)

lemma normalize_country_frame:
  "im_identities (normalize_country r) = im_identities r" "im_consent (normalize_country r) = im_consent r"
  "im_request_id (normalize_country r) = im_request_id r"
  "im_sealed_credentials (normalize_country r) = im_sealed_credentials r"
  "im_seller_agent_url (normalize_country r) = im_seller_agent_url r"
  by (simp_all add: normalize_country_def)

lemma identity_request_error_None:
  assumes "identity_request_error req = None"
  shows "im_country req = '''' \<or> geoCountryPattern (im_country req)"
    and "check_identities 0 [] (im_identities req) = None" "im_identities req \<noteq> []"
    and "length (im_identities req) \<le> MaxIdentitiesPerRequest"
    and "validateConsent (im_consent req) = None"
    and "length (im_sealed_credentials req) \<le> MaxSealedCredentials"
    and "validateSellerAgentURL (im_seller_agent_url req) = None"
  using assms unfolding identity_request_error_def first_some_Cons fails_None not_less not_not first_some_map
  by blast+

lemma ValidateIdentityRequest_iff:
  "ValidateIdentityRequest req = Inr req' \<longleftrightarrow> req' = normalize_country req \<and> identity_request_error req' = None"
  by (auto simp: ValidateIdentityRequest_def Let_def split: option.splits)

lemma validateConsent_gdpr:
  "validateConsent c = None \<Longrightarrow> map_of c ''gdpr'' = Some (JBool True) \<Longrightarrow>
   hasNonEmptyString c ''tcf_consent'' \<or> hasNonEmptyString c ''gpp''"
  by (auto simp: validateConsent_def split: if_splits)

section \<open>What scrubbing guarantees\<close>

fun asset_access_of :: "asset \<Rightarrow> asset_access option" where
  "asset_access_of (ImageAsset a) = img_access a"
| "asset_access_of (VideoAsset a) = vid_access a"
| "asset_access_of (AudioAsset a) = aud_access a"
| "asset_access_of _ = None"

fun asset_url_of :: "asset \<Rightarrow> string" where
  "asset_url_of (ImageAsset a) = img_url a"
| "asset_url_of (VideoAsset a) = vid_url a"
| "asset_url_of (AudioAsset a) = aud_url a"
| "asset_url_of _ = ''''"

text \<open>The members of an unknown asset's raw object, and whether its access object signs its URL.\<close>

fun raw_members :: "asset \<Rightarrow> object" where
  "raw_members (UnknownAsset t (Some (JObj m))) = m"
| "raw_members _ = []"

definition carries_access :: "asset \<Rightarrow> bool" where
  "carries_access a \<longleftrightarrow> asset_access_of a \<noteq> None \<or> map_of (raw_members a) ''access'' \<noteq> None"

definition signed_url_asset :: "asset \<Rightarrow> bool" where
  "signed_url_asset a \<longleftrightarrow> signed_access (asset_access_of a) \<or>
     rawAssetAccessIsSignedURL (map_of (raw_members a) ''access'')"

lemma delete_neq_key: "map_of (AList.delete k m) k' = (if k' = k then None else map_of m k')"
  by (simp add: AList.delete_conv')

lemma strip_unknown_no_access:
  "map_of (raw_members (strip_asset (UnknownAsset t raw))) ''access'' = None"
  by (simp add: stripAccessFromRawAsset_def minimalUnknownAssetRaw_def Let_def delete_neq_key
      split: option.split json.split)

lemma strip_unknown_signed:
  "rawAssetAccessIsSignedURL (map_of (raw_members (UnknownAsset t raw)) ''access'') \<Longrightarrow>
   map_of (raw_members (strip_asset (UnknownAsset t raw))) ''url'' = None"
  by (cases "(t, raw)" rule: prod.exhaust)
    (auto simp: stripAccessFromRawAsset_def minimalUnknownAssetRaw_def Let_def delete_neq_key
      rawAssetAccessIsSignedURL_def split: option.splits json.splits)

lemma strip_unknown_typed: "asset_access_of (strip_asset (UnknownAsset t raw)) = None"
  by (simp split: sum.split)

lemma strip_asset_clean: "\<not> carries_access (strip_asset a)"
proof (cases a)
  case (UnknownAsset t raw)
  then show ?thesis
    by (simp add: carries_access_def strip_unknown_no_access strip_unknown_typed del: strip_asset.simps(5))
qed (simp_all add: carries_access_def)

lemma strip_asset_url:
  "signed_url_asset a \<Longrightarrow> asset_url_of (strip_asset a) = '''' \<and> map_of (raw_members (strip_asset a)) ''url'' = None"
proof (cases a)
  case (UnknownAsset t raw)
  moreover have "asset_url_of (strip_asset (UnknownAsset t raw)) = ''''"
    by (simp split: sum.split)
  ultimately show "signed_url_asset a \<Longrightarrow> ?thesis"
    by (simp add: signed_url_asset_def signed_access_def strip_unknown_signed del: strip_asset.simps(5))
qed (simp_all add: signed_url_asset_def rawAssetAccessIsSignedURL_def signed_access_def)

lemma strip_raw_fixed:
  assumes "map_of m ''access'' = None"
  shows "stripAccessFromRawAsset (Some (JObj m)) = Inr (Some (JObj m))"
proof -
  from assms have "AList.delete ''access'' m = m"
    by (simp add: AList.delete_id map_of_eq_None_iff)
  with assms show ?thesis
    by (simp add: stripAccessFromRawAsset_def rawAssetAccessIsSignedURL_def)
qed

lemma strip_raw_idem: "stripAccessFromRawAsset raw = Inr raw' \<Longrightarrow> stripAccessFromRawAsset raw' = Inr raw'"
proof (cases "\<exists>m. raw' = Some (JObj m)")
  case True
  assume "stripAccessFromRawAsset raw = Inr raw'"
  with True obtain m where "raw' = Some (JObj m)" "map_of m ''access'' = None"
    by (auto simp: stripAccessFromRawAsset_def Let_def delete_neq_key split: option.splits json.splits)
  then show ?thesis by (simp add: strip_raw_fixed)
qed (auto simp: stripAccessFromRawAsset_def Let_def split: option.splits json.splits)

lemma strip_asset_idem: "strip_asset (strip_asset a) = strip_asset a"
proof (cases a)
  case (UnknownAsset t raw)
  have "stripAccessFromRawAsset (minimalUnknownAssetRaw t) = Inr (minimalUnknownAssetRaw t)"
    by (simp add: minimalUnknownAssetRaw_def strip_raw_fixed)
  with UnknownAsset show ?thesis by (auto simp: strip_raw_idem split: sum.split)
qed (simp_all add: signed_access_def)

section \<open>Properties\<close>

text \<open>C38: an accepted context request carries a request id, property rid and placement id that are
  non-empty, at most 256 bytes and free of control bytes (so free of the NUL and newline the cache
  key and the signing input use as separators); the property rid is free of \<^verbatim>\<open>:\<close>, \<^verbatim>\<open>/\<close> and \<^verbatim>\<open>\\<close>
  (it is spliced into Redis keys); the seller URL is present, bounded and control free; at most 500
  package ids, each bounded and control free; a geography whose country, region and metro have their
  declared shapes; context signals within their bounds; at most 20 artifact references of a known type
  with a value, an accepted URL where the value is one; and an artifact with its ids, at most 200
  assets, each with the fields of its kind: URLs that may be fetched, bounded texts, and access objects
  that are complete for their method.\<close>

theorem ValidateContextRequest_safe:
  assumes "ValidateContextRequest fetchable ref_url req = None"
  shows "(\<forall>s\<in>{cm_request_id req, cm_property_rid req, cm_placement_id req}.
            s \<noteq> '''' \<and> length s \<le> MaxIDLength \<and> control_free s) \<and>
         (\<forall>c\<in>set (cm_property_rid req). c \<notin> {CHR '':'', CHR ''/'', CHR 0x5C}) \<and>
         cm_seller_agent_url req \<noteq> '''' \<and> length (cm_seller_agent_url req) \<le> 2048 \<and> control_free (cm_seller_agent_url req) \<and>
         (\<forall>p\<in>set (cm_package_ids req). length p \<le> MaxIDLength \<and> control_free p) \<and>
         length (cm_package_ids req) \<le> MaxPackagesPerRequest \<and>
         valid_geo (cm_geo req) \<and> (\<forall>c. cm_context_signals req = Some c \<longrightarrow> bounded_signals c) \<and>
         length (cm_artifact_refs req) \<le> MaxArtifactRefsPerRequest \<and> (\<forall>r\<in>set (cm_artifact_refs req). usable_ref ref_url r) \<and>
         (\<forall>a. cm_artifact req = Some a \<longrightarrow> safe_artifact fetchable a)"
proof -
  note acc = ValidateContextRequest_accepts [OF assms] and ladder = ValidateContextRequest_ladder [OF assms]
  have "\<forall>s\<in>{cm_request_id req, cm_property_rid req, cm_placement_id req}.
      s \<noteq> '''' \<and> length s \<le> MaxIDLength \<and> control_free s"
    using acc by (simp add: id_checks)
  moreover have "\<forall>c\<in>set (cm_property_rid req). c \<notin> {CHR '':'', CHR ''/'', CHR 0x5C}"
    using acc(4) unfolding validateSafeID_None by blast
  moreover have "length (cm_seller_agent_url req) \<le> 2048 \<and> control_free (cm_seller_agent_url req)"
    using acc(8) by (simp add: id_checks MaxSellerAgentURLLength_def)
  moreover have "\<forall>p\<in>set (cm_package_ids req). length p \<le> MaxIDLength \<and> control_free p"
    using acc(9) by (simp add: id_checks)
  ultimately show ?thesis using acc(7,10) ladder(1-5) by blast
qed

definition sample_context_request :: context_request where
  "sample_context_request =
     \<lparr>cm_schema = '''', cm_adcp_version = ''3.0'', cm_adcp_major_version = 3, cm_type = TypeContextMatchRequest,
      cm_protocol_version = ''1.0'', cm_request_id = ''req-1'', cm_property_rid = ''rid-1'', cm_property_id = ''p'',
      cm_property_type = ''website'', cm_placement_id = ''top'', cm_seller_agent_url = ''https://seller.example'',
      cm_artifact = None, cm_artifact_refs = [], cm_geo = [(''country'', JStr ''DE'')],
      cm_context_signals = None, cm_package_ids = [''pkg-1'', ''pkg-2'']\<rparr>"

theorem ValidateContextRequest_safe_witness:
  "\<exists>a. safe_artifact (\<lambda>u. if u = ''https://cdn/v.mp4'' then None else Some ''private address'') a \<and> length (art_assets a) = 1"
proof -
  let ?a = "\<lparr>art_property_rid = ''rid-1'', art_artifact_id = ''a1'', art_url = '''',
      art_assets = [ImageAsset \<lparr>img_url = ''https://cdn/v.mp4'',
          img_access = Some \<lparr>acc_method = ''signed_url'', acc_token = '''', acc_provider = '''', acc_credentials = []\<rparr>,
          img_alt_text = ''x'', img_caption = '''', img_width = 0, img_height = 0, img_provenance = JNull\<rparr>],
      art_description = JNull\<rparr>"
  let ?fetchable = "\<lambda>u. if u = ''https://cdn/v.mp4'' then None else Some ''private address''"
  have "ValidateContextRequest ?fetchable (\<lambda>_. None) (sample_context_request\<lparr>cm_artifact := Some ?a,
      cm_geo := [(''country'', JStr ''US''), (''region'', JStr ''US-NY'')]\<rparr>) = None"
    by code_simp
  from ValidateContextRequest_safe [OF this] show ?thesis by (intro exI [of _ ?a]) simp
qed

text \<open>An accepted identity request comes back with its country normalised to two upper-case
  letters or empty, one to three identities that are pairwise distinct as (uid type, token) pairs
  and each a known type with a non-empty token, and, when it declares GDPR, a TCF or GPP string.
  Validating the result again accepts it unchanged: normalisation happens once.\<close>

theorem ValidateIdentityRequest_guarantees:
  assumes "ValidateIdentityRequest req = Inr req'"
  shows "(im_country req' = '''' \<or> geoCountryPattern (im_country req')) \<and>
         im_identities req' \<noteq> [] \<and> length (im_identities req') \<le> MaxIdentitiesPerRequest \<and>
         distinct (map (\<lambda>x. (uid_type x, user_token x)) (im_identities req')) \<and>
         (\<forall>x\<in>set (im_identities req'). user_token x \<noteq> '''' \<and> uid_type x \<in> set validUIDTypes) \<and>
         (map_of (im_consent req') ''gdpr'' = Some (JBool True) \<longrightarrow>
            hasNonEmptyString (im_consent req') ''tcf_consent'' \<or> hasNonEmptyString (im_consent req') ''gpp'') \<and>
         ValidateIdentityRequest req' = Inr req'"
proof -
  from assms have err: "identity_request_error req' = None"
    unfolding ValidateIdentityRequest_iff by blast
  note acc = identity_request_error_None [OF err]
  from normalize_country_fixed [OF acc(1)] err have "ValidateIdentityRequest req' = Inr req'"
    by (simp add: ValidateIdentityRequest_iff)
  with acc check_identities_distinct [OF acc(2)] validateConsent_gdpr [OF acc(5)] show ?thesis
    by blast
qed

definition sample_identity_request :: identity_request where
  "sample_identity_request =
     \<lparr>im_schema = '''', im_adcp_version = ''3.0'', im_adcp_major_version = 3, im_type = TypeIdentityMatchRequest,
      im_protocol_version = '''', im_request_id = ''req-2'', im_seller_agent_url = ''https://seller.example'',
      im_identities = [\<lparr>user_token = ''tok'', uid_type = ''uid2'', attestation_of = None\<rparr>,
                       \<lparr>user_token = ''tok'', uid_type = ''id5'', attestation_of = None\<rparr>],
      im_country = ''de'', im_package_ids = [''pkg-1''],
      im_consent = [(''gdpr'', JBool True), (''gpp'', JStr ''DBABMA'')], im_sealed_credentials = []\<rparr>"

theorem ValidateIdentityRequest_guarantees_witness:
  "ValidateIdentityRequest (sample_identity_request\<lparr>im_country := ''DE''\<rparr>) =
     Inr (sample_identity_request\<lparr>im_country := ''DE''\<rparr>)"
proof -
  have "ValidateIdentityRequest sample_identity_request = Inr (sample_identity_request\<lparr>im_country := ''DE''\<rparr>)"
    by code_simp
  from ValidateIdentityRequest_guarantees [OF this] show ?thesis by blast
qed


definition sample_artifact :: artifact where
  "sample_artifact =
     \<lparr>art_property_rid = ''rid'', art_artifact_id = ''a1'', art_url = '''',
      art_assets = [ImageAsset \<lparr>img_url = ''https://cdn/x?sig=1'',
          img_access = Some \<lparr>acc_method = ''signed_url'', acc_token = '''', acc_provider = '''', acc_credentials = []\<rparr>,
          img_alt_text = ''x'', img_caption = '''', img_width = 0, img_height = 0, img_provenance = JNull\<rparr>],
      art_description = JNull\<rparr>"


end
