(* ===== verification/Context_Cache.thy ===== *)
theory Context_Cache
  imports TMP_Validate
begin

text \<open>
  The per-provider cache of context responses (\<^verbatim>\<open>src/router/context_cache.go\<close>). The map of entries is an
  association list with distinct keys, its order standing for Go's iteration order; Go's deep copies on
  both sides make an entry a value. The laws every such cache obeys are a locale, whose trace lemma says
  that a hit only ever returns what was stored under the same key and is still alive; the cache here is
  an instance on keys that pass request validation, because its byte key is injective only for
  components without NUL.
\<close>

section \<open>Keys\<close>

record cache_coordinates =
  cc_property_rid :: string
  cc_placement_id :: string
  cc_provider_id :: string
  cc_seller :: string
  cc_country :: string

definition contextCacheKey :: "cache_coordinates \<Rightarrow> string" where
  "contextCacheKey k = cc_property_rid k @ [CHR 0x00] @ cc_placement_id k @ [CHR 0x00] @ cc_provider_id k @ [CHR 0x00] @
     cc_seller k @ [CHR 0x00] @ cc_country k"

section \<open>The cache\<close>

definition DefaultContextCacheTTL :: duration where "DefaultContextCacheTTL = 300 * second"
definition MaxContextCacheTTL :: duration where "MaxContextCacheTTL = 86400 * second"

record cache_entry =
  ce_response :: provider_context_response
  ce_expiresAt :: time
  ce_insertedAt :: time

record context_cache =
  entries :: "(string \<times> cache_entry) list"
  defaultTTL :: duration
  maxEntries :: int

definition NewContextCache :: "duration \<Rightarrow> int \<Rightarrow> context_cache" where
  "NewContextCache ttl n =
     \<lparr>entries = [], defaultTTL = (if ttl \<le> 0 then DefaultContextCacheTTL else ttl),
      maxEntries = (if n < 0 then 0 else n)\<rparr>"

definition Get :: "time \<Rightarrow> cache_coordinates \<Rightarrow> context_cache \<Rightarrow> provider_context_response option \<times> context_cache" where
  "Get now k c =
     (case map_of (entries c) (contextCacheKey k) of
        None \<Rightarrow> (None, c)
      | Some e \<Rightarrow>
          if now > ce_expiresAt e then (None, c\<lparr>entries := AList.delete (contextCacheKey k) (entries c)\<rparr>)
          else (Some (ce_response e), c))"

text \<open>The lifetime of a response, \<^const>\<open>None\<close> when it must not be stored.\<close>

definition entry_ttl :: "duration \<Rightarrow> int option \<Rightarrow> duration option" where
  "entry_ttl dflt cacheTTL =
     (case cacheTTL of
        None \<Rightarrow> Some dflt
      | Some secs \<Rightarrow>
          if secs = 0 then None
          else if secs < 0 then Some dflt
          else let maxSecs = MaxContextCacheTTL div second in
               Some ((if secs > maxSecs then maxSecs else secs) * second))"

definition sweepExpired :: "time \<Rightarrow> (string \<times> cache_entry) list \<Rightarrow> (string \<times> cache_entry) list" where
  "sweepExpired now es = filter (\<lambda>(k, e). \<not> now > ce_expiresAt e) es"

text \<open>The loop of \<^verbatim>\<open>evictOldestLocked\<close>, with the best entry so far.\<close>

fun older :: "(string \<times> cache_entry) option \<Rightarrow> string \<times> cache_entry \<Rightarrow> string \<times> cache_entry" where
  "older None p = p"
| "older (Some best) p = (if ce_insertedAt (snd p) < ce_insertedAt (snd best) then p else best)"

fun oldest :: "(string \<times> cache_entry) option \<Rightarrow> (string \<times> cache_entry) list \<Rightarrow> (string \<times> cache_entry) option" where
  "oldest best [] = best"
| "oldest best (p # es) = oldest (Some (older best p)) es"

definition evictOldest :: "(string \<times> cache_entry) list \<Rightarrow> (string \<times> cache_entry) list" where
  "evictOldest es = (case oldest None es of None \<Rightarrow> es | Some (k, e) \<Rightarrow> AList.delete k es)"

definition make_room :: "time \<Rightarrow> int \<Rightarrow> string \<Rightarrow> (string \<times> cache_entry) list \<Rightarrow> (string \<times> cache_entry) list" where
  "make_room now cap key es =
     (if cap > 0 \<and> map_of es key = None \<and> int (length es) \<ge> cap
      then let es1 = sweepExpired now es in if int (length es1) \<ge> cap then evictOldest es1 else es1
      else es)"

definition Put :: "time \<Rightarrow> cache_coordinates \<Rightarrow> provider_context_response option \<Rightarrow> context_cache \<Rightarrow> context_cache" where
  "Put now k resp c =
     (case resp of
        None \<Rightarrow> c
      | Some r \<Rightarrow>
          (case entry_ttl (defaultTTL c) (pc_cache_ttl r) of
             None \<Rightarrow> c
           | Some ttl \<Rightarrow>
               let key = contextCacheKey k in
               c\<lparr>entries := AList.update key \<lparr>ce_response = r, ce_expiresAt = now + ttl, ce_insertedAt = now\<rparr>
                   (make_room now (maxEntries c) key (entries c))\<rparr>))"

definition Size :: "context_cache \<Rightarrow> nat" where "Size c = length (entries c)"

text \<open>Distinct keys and, when a cap is set, at most that many entries.\<close>

definition cache_ok :: "context_cache \<Rightarrow> bool" where
  "cache_ok c \<longleftrightarrow> distinct (map fst (entries c)) \<and> 0 < defaultTTL c \<and>
     (maxEntries c > 0 \<longrightarrow> int (length (entries c)) \<le> maxEntries c)"

section \<open>The contract of a cache\<close>

text \<open>\<open>stored c k\<close> is the value and the expiry a later lookup of \<open>k\<close> could use. A lookup returns only a
  stored, unexpired value and stores nothing; a store adds nothing but the value under its own key,
  for at most \<open>horizon v\<close>.\<close>

locale response_cache =
  fixes ok :: "'c \<Rightarrow> bool" and valid :: "'k \<Rightarrow> bool" and stored :: "'c \<Rightarrow> 'k \<Rightarrow> ('v \<times> time) option" and horizon :: "'v \<Rightarrow> duration \<Rightarrow> duration"
    and get :: "time \<Rightarrow> 'k \<Rightarrow> 'c \<Rightarrow> 'v option \<times> 'c" and put :: "time \<Rightarrow> 'k \<Rightarrow> 'v \<Rightarrow> 'c \<Rightarrow> 'c"
    and dflt :: "'c \<Rightarrow> duration"
  assumes get_ok: "ok c \<Longrightarrow> ok (snd (get now k c))" and put_ok: "ok c \<Longrightarrow> ok (put now k v c)"
    and get_stored: "fst (get now k c) = Some v \<Longrightarrow> \<exists>t. stored c k = Some (v, t) \<and> now \<le> t"
    and stored_get: "ok c \<Longrightarrow> stored (snd (get now k c)) k' = Some e \<Longrightarrow> stored c k' = Some e"
    and dflt_get: "dflt (snd (get now k c)) = dflt c"
    and stored_put: "ok c \<Longrightarrow> valid k \<Longrightarrow> valid k' \<Longrightarrow> stored (put now k v c) k' = Some (w, t) \<Longrightarrow>
          stored c k' = Some (w, t) \<or> k' = k \<and> w = v \<and> t \<le> now + horizon v (dflt c)"
    and dflt_put: "dflt (put now k v c) = dflt c"
begin

text \<open>A trace of lookups and stores by any number of callers, each at its clock reading.\<close>

definition run_op :: "(time \<times> 'k \<times> 'v option) \<Rightarrow> 'c \<Rightarrow> 'c" where
  "run_op op c = (case op of (now, k, None) \<Rightarrow> snd (get now k c) | (now, k, Some v) \<Rightarrow> put now k v c)"

lemma dflt_run: "dflt (fold run_op ops c) = dflt c"
  by (induction ops arbitrary: c) (auto simp: run_op_def dflt_get dflt_put split: option.split)

lemma ok_run: "ok c \<Longrightarrow> ok (fold run_op ops c)"
  by (induction ops arbitrary: c) (auto simp: run_op_def get_ok put_ok split: option.split)

lemma stored_after_run:
  assumes "ok c" "\<forall>(now, k, r)\<in>set ops. valid k" "valid k" "stored (fold run_op ops c) k = Some (v, t)"
  shows "stored c k = Some (v, t) \<or> (\<exists>s. (s, k, Some v) \<in> set ops \<and> t \<le> s + horizon v (dflt c))"
  using assms
proof (induction ops arbitrary: c)
  case (Cons op ops)
  obtain now j r where op: "op = (now, j, r)" by (cases op)
  from Cons.prems(2) have valid: "valid j" "\<forall>(now, k, r)\<in>set ops. valid k" by (auto simp: op)
  have ok: "ok (run_op op c)" using ok_run [of c "[op]"] Cons.prems(1) by simp
  have dflt: "dflt (run_op op c) = dflt c" by (simp add: op run_op_def dflt_get dflt_put split: option.split)
  have "stored (fold run_op ops (run_op op c)) k = Some (v, t)" using Cons.prems(4) by simp
  from Cons.IH [OF ok valid(2) Cons.prems(3) this]
  consider "stored (run_op op c) k = Some (v, t)" | "\<exists>s. (s, k, Some v) \<in> set ops \<and> t \<le> s + horizon v (dflt c)"
    unfolding dflt by blast
  then show ?case
  proof cases
    case 1
    show ?thesis
    proof (cases r)
      case None
      with 1 stored_get [OF Cons.prems(1), of now j k "(v, t)"] show ?thesis by (simp add: op run_op_def)
    next
      case (Some w)
      with 1 stored_put [OF Cons.prems(1) valid(1) Cons.prems(3), of now w v t] show ?thesis by (auto simp: op run_op_def)
    qed
  qed auto
qed simp

text \<open>A hit after any trace from an empty cache: the value was stored under that very key, and its
  lifetime has not passed.\<close>

lemma hit_was_put:
  assumes "ok c" "\<forall>k. stored c k = None" "\<forall>(now, k, r)\<in>set ops. valid k" "valid k"
    and "fst (get now k (fold run_op ops c)) = Some v"
  shows "\<exists>s. (s, k, Some v) \<in> set ops \<and> now \<le> s + horizon v (dflt c)"
proof -
  from get_stored [OF assms(5)] obtain t where "stored (fold run_op ops c) k = Some (v, t)" "now \<le> t" by blast
  with stored_after_run [OF assms(1,3,4) this(1)] assms(2) show ?thesis by fastforce
qed

end


section \<open>The cache meets the contract\<close>

abbreviation nul_free :: "string \<Rightarrow> bool" where
  "nul_free s \<equiv> CHR 0x00 \<notin> set s"

definition key_ok :: "cache_coordinates \<Rightarrow> bool" where
  "key_ok k \<longleftrightarrow> nul_free (cc_property_rid k) \<and> nul_free (cc_placement_id k) \<and> nul_free (cc_provider_id k) \<and>
     nul_free (cc_seller k) \<and> nul_free (cc_country k)"

lemma contextCacheKey_inj: "key_ok k \<Longrightarrow> key_ok k' \<Longrightarrow> contextCacheKey k = contextCacheKey k' \<longleftrightarrow> k = k'"
  by (cases k; cases k') (simp add: key_ok_def contextCacheKey_def sep_inj)

lemma older_cases: "older best p = p \<or> best = Some (older best p)"
  by (cases best) auto

lemma older_le: "ce_insertedAt (snd (older best p)) \<le> ce_insertedAt (snd p)"
  "best = Some b \<Longrightarrow> ce_insertedAt (snd (older best p)) \<le> ce_insertedAt (snd b)"
  by (cases best; simp)+

lemma oldest_in: "oldest best es = Some p \<Longrightarrow> p \<in> set es \<or> best = Some p"
proof (induction es arbitrary: best)
  case (Cons q es)
  from Cons.IH [of "Some (older best q)"] Cons.prems older_cases [of best q] show ?case by auto
qed simp

lemma oldest_Some: "es \<noteq> [] \<or> best \<noteq> None \<Longrightarrow> oldest best es \<noteq> None"
  by (induction es arbitrary: best) (auto simp del: not_None_eq)

lemma oldest_least:
  "oldest best es = Some p \<Longrightarrow> (\<forall>q\<in>set es. ce_insertedAt (snd p) \<le> ce_insertedAt (snd q)) \<and>
     (\<forall>b. best = Some b \<longrightarrow> ce_insertedAt (snd p) \<le> ce_insertedAt (snd b))"
proof (induction es arbitrary: best)
  case (Cons q es)
  from Cons.IH [of "Some (older best q)"] Cons.prems
  have "\<forall>q\<in>set es. ce_insertedAt (snd p) \<le> ce_insertedAt (snd q)"
    "ce_insertedAt (snd p) \<le> ce_insertedAt (snd (older best q))" by auto
  with older_le(1) [of best q] older_le(2) [of best _ q] show ?case
    by (metis (no_types) insert_iff list.set(2) order.trans)
qed simp

lemma length_delete_in:
  "distinct (map fst es) \<Longrightarrow> k \<in> fst ` set es \<Longrightarrow> Suc (length (AList.delete k es)) = length es"
proof (induction es)
  case (Cons p es)
  show ?case
  proof (cases "fst p = k")
    case True
    with Cons.prems(1) have "AList.delete k es = es" by (auto intro: AList.delete_id)
    with True show ?thesis by (cases p) simp
  next
    case False
    with Cons show ?thesis by (cases p) auto
  qed
qed simp

lemma evictOldest_shrinks:
  assumes "distinct (map fst es)" "es \<noteq> []"
  shows "Suc (length (evictOldest es)) = length es"
proof -
  from oldest_Some [of es None] assms(2) obtain p where p: "oldest None es = Some p" by auto
  with oldest_in have "fst p \<in> fst ` set es" by fastforce
  from length_delete_in [OF assms(1) this] p show ?thesis
    by (cases p) (simp add: evictOldest_def)
qed

lemma distinct_room: "distinct (map fst es) \<Longrightarrow> distinct (map fst (make_room now cap key es))"
  by (auto simp: make_room_def Let_def sweepExpired_def evictOldest_def AList.distinct_delete distinct_map_filter
      split: option.split)

lemma room_submap:
  "distinct (map fst es) \<Longrightarrow> map_of (make_room now cap key es) k = Some e \<Longrightarrow> map_of es k = Some e"
  by (auto simp: make_room_def Let_def sweepExpired_def evictOldest_def AList.delete_eq map_of_filter_distinct
      distinct_map_filter split: if_splits option.splits)

lemma room_length:
  assumes "distinct (map fst es)" "cap > 0" "map_of es key = None" "int (length es) \<le> cap"
  shows "int (length (make_room now cap key es)) < cap"
proof -
  have dist: "distinct (map fst (sweepExpired now es))" using assms(1) by (simp add: sweepExpired_def distinct_map_filter)
  have "length (sweepExpired now es) \<le> length es" by (simp add: sweepExpired_def)
  with assms evictOldest_shrinks [OF dist] show ?thesis
    by (cases "sweepExpired now es = []") (auto simp: make_room_def Let_def)
qed

lemma length_update:
  "length (AList.update k v es) = (if k \<in> fst ` set es then length es else Suc (length es))"
  by (induction es) auto

lemma make_room_present: "map_of es key \<noteq> None \<Longrightarrow> make_room now cap key es = es"
  by (auto simp: make_room_def)

lemma Put_ok:
  assumes "cache_ok c"
  shows "cache_ok (Put now k r c)"
proof -
  let ?key = "contextCacheKey k" and ?es = "entries c"
  have dist: "distinct (map fst ?es)" using assms by (simp add: cache_ok_def)
  have "int (length (AList.update ?key e (make_room now (maxEntries c) ?key ?es))) \<le> maxEntries c"
    if cap: "maxEntries c > 0" for e
  proof (cases "map_of ?es ?key = None")
    case True
    have "int (length ?es) \<le> maxEntries c" using assms cap by (simp add: cache_ok_def)
    from room_length [OF dist cap True this, of now] show ?thesis by (simp add: length_update)
  next
    case False
    then have "?key \<in> fst ` set ?es" by (simp add: map_of_eq_None_iff)
    with False assms cap show ?thesis by (auto simp: make_room_present length_update cache_ok_def)
  qed
  with assms distinct_room [OF dist] show ?thesis
    by (auto simp: Put_def cache_ok_def Let_def AList.distinct_update split: option.split)
qed

lemma Get_ok:
  assumes "cache_ok c"
  shows "cache_ok (snd (Get now k c))"
proof -
  have "length (AList.delete key es) \<le> length es" for key and es :: "(string \<times> cache_entry) list"
    by (simp add: AList.delete_eq)
  from this [of "contextCacheKey k" "entries c"] assms show ?thesis
    by (auto simp: Get_def cache_ok_def AList.distinct_delete split: option.split)
qed

definition stored_response :: "context_cache \<Rightarrow> cache_coordinates \<Rightarrow> (provider_context_response \<times> time) option" where
  "stored_response c k = map_option (\<lambda>e. (ce_response e, ce_expiresAt e)) (map_of (entries c) (contextCacheKey k))"

definition response_horizon :: "provider_context_response \<Rightarrow> duration \<Rightarrow> duration" where
  "response_horizon r dflt = (case entry_ttl dflt (pc_cache_ttl r) of Some ttl \<Rightarrow> ttl | None \<Rightarrow> 0)"

interpretation ctx: response_cache cache_ok key_ok stored_response response_horizon Get "\<lambda>now k r. Put now k (Some r)" defaultTTL
proof
  show "cache_ok (snd (Get now k c))" if "cache_ok c" for c now k using that by (rule Get_ok)
next
  show "cache_ok (Put now k (Some v) c)" if "cache_ok c" for c now k v using that by (rule Put_ok)
next
  show "\<exists>t. stored_response c k = Some (v, t) \<and> now \<le> t" if "fst (Get now k c) = Some v" for now k c v
    using that by (auto simp: Get_def stored_response_def split: option.splits if_splits)
next
  show "stored_response c k' = Some e" if "cache_ok c" "stored_response (snd (Get now k c)) k' = Some e" for now k c k' e
    using that by (auto simp: Get_def stored_response_def AList.delete_conv' split: option.splits if_splits)
next
  fix c k k' now v w t
  assume ok: "cache_ok c" and keys: "key_ok k" "key_ok k'"
    and st: "stored_response (Put now k (Some v) c) k' = Some (w, t)"
  then have dist: "distinct (map fst (entries c))" by (simp add: cache_ok_def)
  show "stored_response c k' = Some (w, t) \<or> k' = k \<and> w = v \<and> t \<le> now + response_horizon v (defaultTTL c)"
  proof (cases "entry_ttl (defaultTTL c) (pc_cache_ttl v)")
    case None
    with st show ?thesis by (simp add: Put_def)
  next
    case (Some ttl)
    then show ?thesis
      using st room_submap [OF dist] contextCacheKey_inj [OF keys(2,1)]
      by (auto simp: Put_def Let_def stored_response_def response_horizon_def AList.update_conv' split: if_splits)
  qed
qed (auto simp: Get_def Put_def Let_def split: option.split)


section \<open>Properties\<close>

lemma response_horizon_bounds:
  "0 < dflt \<Longrightarrow> response_horizon r dflt \<le> max dflt MaxContextCacheTTL"
  by (auto simp: response_horizon_def entry_ttl_def Let_def MaxContextCacheTTL_def second_def split: option.split)

lemma NewContextCache_ok: "cache_ok (NewContextCache ttl n)" "stored_response (NewContextCache ttl n) k = None"
  by (simp_all add: cache_ok_def NewContextCache_def DefaultContextCacheTTL_def second_def stored_response_def)

text \<open>C5: after any sequence of lookups and stores by any callers on a new cache, a hit returns exactly a
  response that was stored earlier under the same property, placement, provider, seller and country,
  and no longer ago than that response's lifetime: its own \<^verbatim>\<open>cache_ttl\<close> clamped to a day, else the
  cache's default. No seller or country ever sees what was cached for another.\<close>

theorem cache_hit_sound:
  assumes "\<forall>(now, k, r)\<in>set ops. key_ok k" "key_ok k"
    and "fst (Get now k (fold ctx.run_op ops (NewContextCache ttl n))) = Some resp"
  shows "\<exists>s. (s, k, Some resp) \<in> set ops \<and>
             now \<le> s + response_horizon resp (defaultTTL (NewContextCache ttl n)) \<and>
             response_horizon resp (defaultTTL (NewContextCache ttl n)) \<le>
               max (defaultTTL (NewContextCache ttl n)) MaxContextCacheTTL"
proof -
  have "0 < defaultTTL (NewContextCache ttl n)"
    using NewContextCache_ok(1) [of ttl n] by (simp add: cache_ok_def)
  with ctx.hit_was_put [OF NewContextCache_ok(1) _ assms] response_horizon_bounds show ?thesis
    by (metis NewContextCache_ok(2))
qed

definition sample_key :: cache_coordinates where
  "sample_key = \<lparr>cc_property_rid = ''rid'', cc_placement_id = ''top'', cc_provider_id = ''acme'',
     cc_seller = ''https://s'', cc_country = ''DE''\<rparr>"

definition sample_response :: provider_context_response where
  "sample_response = \<lparr>pc_adcp_version = '''', pc_adcp_major_version = 3, pc_type = '''', pc_request_id = ''r'',
     pc_offers = [], pc_signals = [], pc_cache_ttl = Some 60\<rparr>"

theorem cache_hit_sound_witness:
  "\<exists>s. (s, sample_key, Some sample_response) \<in> {(0, sample_key, Some sample_response)} \<and>
       5 \<le> s + response_horizon sample_response DefaultContextCacheTTL"
proof -
  let ?c = "fold ctx.run_op [(0, sample_key, Some sample_response)] (NewContextCache 0 0)"
  have "fst (Get 5 sample_key ?c) = Some sample_response"
    by (simp add: ctx.run_op_def Get_def Put_def NewContextCache_def entry_ttl_def sample_response_def
        make_room_def Let_def second_def MaxContextCacheTTL_def)
  moreover have "key_ok sample_key" by (simp add: key_ok_def sample_key_def)
  ultimately show ?thesis
    using cache_hit_sound [of "[(0, sample_key, Some sample_response)]" sample_key 5 0 0 sample_response]
    by (auto simp: NewContextCache_def)
qed

lemma room_removes:
  assumes "distinct (map fst es)" "map_of es k = Some e" "map_of (make_room now cap key es) k = None"
  shows "now > ce_expiresAt e \<or>
    (\<forall>k' e'. map_of es k' = Some e' \<and> now \<le> ce_expiresAt e' \<longrightarrow> ce_insertedAt e \<le> ce_insertedAt e')"
proof (cases "now > ce_expiresAt e")
  case False
  let ?es = "sweepExpired now es"
  have dist: "distinct (map fst ?es)" using assms(1) by (simp add: sweepExpired_def distinct_map_filter)
  have swept: "map_of ?es k' = Some e' \<longleftrightarrow> map_of es k' = Some e' \<and> now \<le> ce_expiresAt e'" for k' e'
    using assms(1) by (auto simp: sweepExpired_def map_of_filter_distinct)
  then have here: "map_of ?es k = Some e" using assms(2) False by simp
  with assms have gone: "map_of (evictOldest ?es) k = None"
    by (auto simp: make_room_def Let_def split: if_splits)
  from here gone obtain e1 where old: "oldest None ?es = Some (k, e1)"
    by (auto simp: evictOldest_def AList.delete_conv' split: option.splits if_splits)
  with oldest_in [OF old] here dist have "e1 = e" by auto
  with oldest_least [OF old] have "\<forall>q\<in>set ?es. ce_insertedAt e \<le> ce_insertedAt (snd q)" by simp
  then show ?thesis using swept by (metis map_of_SomeD snd_conv)
qed simp

text \<open>Storing keeps the keys distinct and never lets the number of entries exceed a configured cap;
  when room is made, an entry that disappears is expired, or no entry of the map that is not expired
  is older.\<close>

theorem Put_bounded:
  assumes "cache_ok c"
  shows "cache_ok (Put now k r c) \<and> (maxEntries c > 0 \<longrightarrow> int (Size (Put now k r c)) \<le> maxEntries c) \<and>
         (\<forall>k' e. map_of (entries c) k' = Some e \<and> map_of (entries (Put now k r c)) k' = None \<longrightarrow>
            now > ce_expiresAt e \<or>
            (\<forall>k'' e'. map_of (entries c) k'' = Some e' \<and> now \<le> ce_expiresAt e' \<longrightarrow> ce_insertedAt e \<le> ce_insertedAt e'))"
proof -
  have frame: "maxEntries (Put now k r c) = maxEntries c"
    by (simp add: Put_def Let_def split: option.split)
  have ok: "cache_ok (Put now k r c)" using assms by (rule Put_ok)
  have dist: "distinct (map fst (entries c))" using assms by (simp add: cache_ok_def)
  have gone: "map_of (make_room now (maxEntries c) (contextCacheKey k) (entries c)) k' = None"
    if "map_of (entries c) k' = Some e" "map_of (entries (Put now k r c)) k' = None" for k' e
    using that by (auto simp: Put_def Let_def AList.update_conv' split: option.splits if_splits)
  show ?thesis
    using ok frame room_removes [OF dist _ gone] unfolding cache_ok_def Size_def by metis
qed

theorem Put_bounded_witness:
  "cache_ok (Put 7 sample_key (Some sample_response) (NewContextCache 0 1))"
  using Put_bounded [OF NewContextCache_ok(1), of 7 sample_key "Some sample_response" 0 1] by simp

text \<open>A provider that answers \<^verbatim>\<open>cache_ttl\<close> 0 to disable caching does not disable an entry that is
  already there: storing such a response changes nothing, and the older response is still served.\<close>

lemma Put_disable_keeps_entry:
  "fst (Get 10 sample_key (Put 9 sample_key (Some (sample_response\<lparr>pc_cache_ttl := Some 0\<rparr>))
      (Put 0 sample_key (Some sample_response) (NewContextCache 0 0)))) = Some sample_response"
  by (simp add: Get_def Put_def NewContextCache_def entry_ttl_def sample_response_def make_room_def Let_def
      second_def MaxContextCacheTTL_def)

end
