(* ===== verification/Glob_Match.thy ===== *)
theory Glob_Match
  imports AdCP_Prelude
begin

text \<open>
  The property-id glob of the router, \<^verbatim>\<open>matchGlob\<close> in \<^verbatim>\<open>src/router/filter.go\<close>: a backtracking
  scan with one saved restart point per \<^verbatim>\<open>*\<close>. The scan is defined with the code's indices;
  \<open>glob_match\<close> is the meaning of a pattern (\<^verbatim>\<open>*\<close> any sequence, \<^verbatim>\<open>?\<close> any single byte). The scan
  only accepts what the pattern means, and on strings free of \<^verbatim>\<open>*\<close> it accepts all of it.
\<close>

section \<open>The scan of the source\<close>

text \<open>\<open>star\<close> is the pair of the code's \<^verbatim>\<open>starPx\<close> and \<^verbatim>\<open>starSx\<close>, \<^const>\<open>None\<close> while both are \<^verbatim>\<open>-1\<close>. The
  result is \<^const>\<open>None\<close> for the early \<^verbatim>\<open>return false\<close> and otherwise the pattern index at which the
  string was exhausted.\<close>

definition glob_good :: "nat \<Rightarrow> nat \<Rightarrow> (nat \<times> nat) option \<Rightarrow> bool" where
  "glob_good px sx star = (case star of None \<Rightarrow> False | Some (spx, ssx) \<Rightarrow> spx < px \<and> ssx \<le> sx)"

function glob_scan :: "string \<Rightarrow> string \<Rightarrow> nat \<Rightarrow> nat \<Rightarrow> (nat \<times> nat) option \<Rightarrow> nat option" where
  "glob_scan pat s px sx star =
     (if sx < length s then
        if px < length pat \<and> (pat ! px = CHR ''?'' \<or> pat ! px = s ! sx)
          then glob_scan pat s (px + 1) (sx + 1) star
        else if px < length pat \<and> pat ! px = CHR ''*''
          then glob_scan pat s (px + 1) sx (Some (px, sx))
        else (case star of
                Some (starPx, starSx) \<Rightarrow>
                  glob_scan pat s (starPx + 1) (starSx + 1) (Some (starPx, starSx + 1))
              | None \<Rightarrow> None)
      else Some px)"
  by pat_completeness auto
termination
  by (relation "measures
        [\<lambda>(pat, s, px, sx, star). if glob_good px sx star then 0 else 1,
         \<lambda>(pat, s, px, sx, star). case star of None \<Rightarrow> 0 | Some (spx, ssx) \<Rightarrow> length pat - spx,
         \<lambda>(pat, s, px, sx, star). case star of None \<Rightarrow> 0 | Some (spx, ssx) \<Rightarrow> Suc (length s) - ssx,
         \<lambda>(pat, s, px, sx, star). length s - sx]")
     (auto simp: glob_good_def split: option.splits prod.splits)

declare glob_scan.simps [simp del]

function skip_stars :: "string \<Rightarrow> nat \<Rightarrow> nat" where
  "skip_stars pat px = (if px < length pat \<and> pat ! px = CHR ''*'' then skip_stars pat (px + 1) else px)"
  by pat_completeness auto
termination
  by (relation "measure (\<lambda>(pat, px). length pat - px)") auto

declare skip_stars.simps [simp del]

definition matchGlob :: "string \<Rightarrow> string \<Rightarrow> bool" where
  "matchGlob pattern s =
     (case glob_scan pattern s 0 0 None of
        None \<Rightarrow> False
      | Some px \<Rightarrow> skip_stars pattern px = length pattern)"

abbreviation adv_at :: "string \<Rightarrow> string \<Rightarrow> nat \<Rightarrow> nat \<Rightarrow> bool" where
  "adv_at pat s px sx \<equiv> px < length pat \<and> (pat ! px = CHR ''?'' \<or> pat ! px = s ! sx)"

abbreviation star_at :: "string \<Rightarrow> nat \<Rightarrow> bool" where
  "star_at pat px \<equiv> px < length pat \<and> pat ! px = CHR ''*''"

lemma glob_scan_end: "\<not> sx < length s \<Longrightarrow> glob_scan pat s px sx star = Some px"
  and glob_scan_adv: "sx < length s \<Longrightarrow> adv_at pat s px sx \<Longrightarrow>
    glob_scan pat s px sx star = glob_scan pat s (px + 1) (sx + 1) star"
  and glob_scan_star: "sx < length s \<Longrightarrow> \<not> adv_at pat s px sx \<Longrightarrow> star_at pat px \<Longrightarrow>
    glob_scan pat s px sx star = glob_scan pat s (px + 1) sx (Some (px, sx))"
  and glob_scan_retry: "sx < length s \<Longrightarrow> \<not> adv_at pat s px sx \<Longrightarrow> \<not> star_at pat px \<Longrightarrow>
    glob_scan pat s px sx (Some (spx, ssx)) = glob_scan pat s (spx + 1) (ssx + 1) (Some (spx, ssx + 1))"
  and glob_scan_fail: "sx < length s \<Longrightarrow> \<not> adv_at pat s px sx \<Longrightarrow> \<not> star_at pat px \<Longrightarrow>
    glob_scan pat s px sx None = None"
  by (subst glob_scan.simps, force)+

lemmas glob_scan_steps = glob_scan_end glob_scan_adv glob_scan_star glob_scan_retry glob_scan_fail

lemma glob_scan_cases [case_names stop adv star retry fail]:
  assumes "\<not> sx < length s \<Longrightarrow> P"
    and "sx < length s \<Longrightarrow> adv_at pat s px sx \<Longrightarrow> P"
    and "sx < length s \<Longrightarrow> \<not> adv_at pat s px sx \<Longrightarrow> star_at pat px \<Longrightarrow> P"
    and "\<And>spx ssx. sx < length s \<Longrightarrow> \<not> adv_at pat s px sx \<Longrightarrow> \<not> star_at pat px \<Longrightarrow>
          star = Some (spx, ssx) \<Longrightarrow> P"
    and "sx < length s \<Longrightarrow> \<not> adv_at pat s px sx \<Longrightarrow> \<not> star_at pat px \<Longrightarrow> star = None \<Longrightarrow> P"
  shows P
  using assms by (metis option.exhaust surj_pair)

section \<open>The meaning of a pattern\<close>

fun glob_match :: "string \<Rightarrow> string \<Rightarrow> bool" where
  "glob_match [] s = (s = [])"
| "glob_match (p # ps) [] = (p = CHR ''*'' \<and> glob_match ps [])"
| "glob_match (p # ps) (c # cs) =
     (if p = CHR ''*'' then glob_match ps (c # cs) \<or> glob_match (p # ps) cs
      else (p = CHR ''?'' \<or> p = c) \<and> glob_match ps cs)"

abbreviation lit_match :: "string \<Rightarrow> string \<Rightarrow> bool" where
  "lit_match \<equiv> list_all2 (\<lambda>p c. p = CHR ''?'' \<or> p = c)"

lemma glob_match_star: "glob_match (CHR ''*'' # ps) s \<longleftrightarrow> (\<exists>k\<le>length s. glob_match ps (drop k s))"
proof (induction s)
  case Nil
  then show ?case by simp
next
  case (Cons c cs)
  have "(\<exists>k\<le>length (c # cs). glob_match ps (drop k (c # cs))) \<longleftrightarrow>
        glob_match ps (c # cs) \<or> (\<exists>k\<le>length cs. glob_match ps (drop k cs))"
    by (simp add: ex_le_Suc)
  with Cons show ?case by simp
qed

lemma glob_match_empty: "glob_match ps [] \<longleftrightarrow> set ps \<subseteq> {CHR ''*''}"
  by (induction ps) auto

lemma glob_match_lit_append:
  "CHR ''*'' \<notin> set q \<Longrightarrow>
   glob_match (q @ r) t \<longleftrightarrow> lit_match q (take (length q) t) \<and> glob_match r (drop (length q) t)"
proof (induction q arbitrary: t)
  case Nil
  then show ?case by simp
next
  case (Cons p q)
  then show ?case by (cases t) auto
qed

lemma glob_match_star_mono:
  "glob_match (CHR ''*'' # ps) (drop k s) \<Longrightarrow> glob_match (CHR ''*'' # ps) s"
proof -
  assume "glob_match (CHR ''*'' # ps) (drop k s)"
  then obtain j where "j \<le> length (drop k s)" "glob_match ps (drop j (drop k s))"
    by (auto simp: glob_match_star)
  moreover have "drop (min (j + k) (length s)) s = drop (j + k) s"
    by (simp add: min_def)
  ultimately have "glob_match ps (drop (min (j + k) (length s)) s)"
    by (simp only: drop_drop)
  then show ?thesis by (auto simp: glob_match_star intro: min.cobounded2)
qed

lemma glob_match_star_keep: "glob_match ps s \<Longrightarrow> glob_match (CHR ''*'' # ps) s"
  by (auto simp: glob_match_star intro: exI [of _ 0])

lemma glob_match_step:
  "p = CHR ''?'' \<or> p = c \<Longrightarrow> glob_match ps cs \<Longrightarrow> glob_match (p # ps) (c # cs)"
  by (cases "p = CHR ''*''") (auto intro: glob_match_star_keep)

section \<open>Correctness of the scan\<close>

lemma skip_stars_iff:
  "px \<le> length pat \<Longrightarrow> skip_stars pat px = length pat \<longleftrightarrow> glob_match (drop px pat) []"
proof (induction pat px rule: skip_stars.induct)
  case (1 pat px)
  then show ?case
    by (cases "px < length pat")
       (auto simp: skip_stars.simps [of pat px] skip_stars.simps [of pat "length pat"]
          Cons_nth_drop_Suc [symmetric])
qed

definition scan_ok :: "string \<Rightarrow> nat option \<Rightarrow> bool" where
  "scan_ok pat r = (case r of None \<Rightarrow> False | Some px \<Rightarrow> skip_stars pat px = length pat)"

lemma matchGlob_scan_ok: "matchGlob pat s = scan_ok pat (glob_scan pat s 0 0 None)"
  by (simp add: matchGlob_def scan_ok_def)

text \<open>Soundness: every match of the rest of the pattern at the current position, or after the
  saved star at any later position, completes to a match of the whole pattern.\<close>

definition scan_sound :: "string \<Rightarrow> string \<Rightarrow> nat \<Rightarrow> nat \<Rightarrow> (nat \<times> nat) option \<Rightarrow> bool" where
  "scan_sound pat s px sx star \<longleftrightarrow> px \<le> length pat \<and>
     (glob_match (drop px pat) (drop sx s) \<longrightarrow> glob_match pat s) \<and>
     (case star of None \<Rightarrow> True
      | Some (spx, ssx) \<Rightarrow> spx < length pat \<and>
          (\<forall>k\<ge>ssx. glob_match (drop (Suc spx) pat) (drop k s) \<longrightarrow> glob_match pat s))"

lemma scan_sound_advance:
  assumes "scan_sound pat s px sx star" "px < length pat" "sx < length s"
    and "pat ! px = CHR ''?'' \<or> pat ! px = s ! sx"
  shows "scan_sound pat s (px + 1) (sx + 1) star"
proof -
  have "glob_match (drop (px + 1) pat) (drop (sx + 1) s) \<Longrightarrow> glob_match (drop px pat) (drop sx s)"
    using assms(2-4) glob_match_step [of "pat ! px" "s ! sx" "drop (Suc px) pat" "drop (Suc sx) s"]
    by (simp add: Cons_nth_drop_Suc)
  then show ?thesis using assms(1,2) by (auto simp: scan_sound_def)
qed

lemma scan_sound_star:
  assumes "scan_sound pat s px sx star" "px < length pat" "pat ! px = CHR ''*''"
  shows "scan_sound pat s (px + 1) sx (Some (px, sx))"
proof -
  have "glob_match (drop px pat) (drop sx s)"
    if "k \<ge> sx" "glob_match (drop (Suc px) pat) (drop k s)" for k
  proof -
    from that(2) have "glob_match (CHR ''*'' # drop (Suc px) pat) (drop k s)"
      by (rule glob_match_star_keep)
    then have "glob_match (CHR ''*'' # drop (Suc px) pat) (drop sx s)"
      using glob_match_star_mono [of "drop (Suc px) pat" "k - sx" "drop sx s"] \<open>k \<ge> sx\<close> by simp
    then show ?thesis using assms by (simp add: Cons_nth_drop_Suc [symmetric])
  qed
  then show ?thesis using assms(1,2) by (auto simp: scan_sound_def)
qed

lemma scan_sound_retry:
  "scan_sound pat s px sx (Some (spx, ssx)) \<Longrightarrow>
   scan_sound pat s (spx + 1) (ssx + 1) (Some (spx, ssx + 1))"
  unfolding scan_sound_def by (clarsimp, meson Suc_leD le_SucI le_refl)

lemma glob_scan_sound:
  "scan_sound pat s px sx star \<Longrightarrow> scan_ok pat (glob_scan pat s px sx star) \<Longrightarrow> glob_match pat s"
proof (induction pat s px sx star rule: glob_scan.induct)
  case (1 pat s px sx star)
  show ?case
  proof (cases rule: glob_scan_cases [of sx s _ px pat star])
    case stop
    then show ?thesis using "1.prems"
      by (auto simp: glob_scan_end scan_ok_def scan_sound_def skip_stars_iff)
  next
    case adv
    with "1.prems" "1.IH"(1) scan_sound_advance show ?thesis by (simp add: glob_scan_adv)
  next
    case star
    with "1.prems" "1.IH"(2) scan_sound_star [of pat s px sx star] show ?thesis
      by (simp add: glob_scan_star)
  next
    case (retry spx ssx)
    with "1.prems" "1.IH"(3) [OF _ _ _ retry(4)] scan_sound_retry [of pat s px sx spx ssx]
    show ?thesis by (simp add: glob_scan_retry)
  next
    case fail
    with "1.prems" show ?thesis by (simp add: glob_scan_fail scan_ok_def)
  qed
qed

text \<open>Completeness on strings without \<^verbatim>\<open>*\<close>: the part of the pattern since the saved star is literal
  and has matched exactly the bytes since the restart position.\<close>

definition seg :: "nat \<Rightarrow> nat \<Rightarrow> string \<Rightarrow> string" where
  "seg i j xs = drop i (take j xs)"

lemma seg_snoc: "i \<le> j \<Longrightarrow> j < length xs \<Longrightarrow> seg i (Suc j) xs = seg i j xs @ [xs ! j]"
  by (simp add: seg_def take_Suc_conv_app_nth)

lemma seg_append_drop: "i \<le> j \<Longrightarrow> j \<le> length xs \<Longrightarrow> seg i j xs @ drop j xs = drop i xs"
  unfolding seg_def by (metis append_take_drop_id drop_append length_take min.absorb2 diff_is_0_eq drop_0)

lemma length_seg: "j \<le> length xs \<Longrightarrow> length (seg i j xs) = j - i"
  by (simp add: seg_def)

lemma seg_self [simp]: "seg i i xs = []"
  by (simp add: seg_def)

definition seg_inv :: "string \<Rightarrow> string \<Rightarrow> nat \<Rightarrow> nat \<Rightarrow> nat \<Rightarrow> nat \<Rightarrow> bool" where
  "seg_inv pat s px sx spx ssx \<longleftrightarrow>
     spx < px \<and> px \<le> length pat \<and> ssx \<le> sx \<and> sx \<le> length s \<and> pat ! spx = CHR ''*'' \<and>
     CHR ''*'' \<notin> set (seg (Suc spx) px pat) \<and> lit_match (seg (Suc spx) px pat) (seg ssx sx s)"

lemma seg_inv_star: "px < length pat \<Longrightarrow> sx \<le> length s \<Longrightarrow> pat ! px = CHR ''*'' \<Longrightarrow>
    seg_inv pat s (Suc px) sx px sx"
  by (simp add: seg_inv_def)

lemma seg_inv_advance:
  assumes "seg_inv pat s px sx spx ssx" "px < length pat" "sx < length s"
    and "pat ! px = CHR ''?'' \<or> pat ! px = s ! sx" and "CHR ''*'' \<notin> set s"
  shows "seg_inv pat s (Suc px) (Suc sx) spx ssx"
proof -
  have "s ! sx \<noteq> CHR ''*''" using assms(3,5) by (metis nth_mem)
  with assms show ?thesis
    by (auto simp: seg_inv_def seg_snoc intro: list_all2_appendI)
qed

lemma seg_inv_length:
  assumes "seg_inv pat s px sx spx ssx"
  shows "length (seg ssx sx s) = sx - ssx" and "length (seg (Suc spx) px pat) = sx - ssx"
proof -
  from assms have "lit_match (seg (Suc spx) px pat) (seg ssx sx s)" "sx \<le> length s"
    by (simp_all add: seg_inv_def)
  from list_all2_lengthD [OF this(1)] this(2)
  show "length (seg ssx sx s) = sx - ssx" "length (seg (Suc spx) px pat) = sx - ssx"
    by (simp_all add: length_seg)
qed

text \<open>What the literal part forces: the match after the star starts at the restart position or later,
  and at the restart position it needs the rest of the pattern to match the rest of the string.\<close>

lemma seg_inv_match:
  assumes "seg_inv pat s px sx spx ssx"
  shows "glob_match (drop (Suc spx) pat) (drop ssx s) \<longleftrightarrow> glob_match (drop px pat) (drop sx s)"
proof -
  let ?q = "seg (Suc spx) px pat"
  have q: "drop (Suc spx) pat = ?q @ drop px pat"
    using assms by (simp add: seg_inv_def seg_append_drop)
  have t: "drop ssx s = seg ssx sx s @ drop sx s"
    using assms by (simp add: seg_inv_def seg_append_drop)
  have l: "length (seg ssx sx s) = length ?q"
    by (simp add: seg_inv_length [OF assms])
  have "glob_match (?q @ drop px pat) (drop ssx s) \<longleftrightarrow>
        lit_match ?q (take (length ?q) (drop ssx s)) \<and> glob_match (drop px pat) (drop (length ?q) (drop ssx s))"
    using assms by (intro glob_match_lit_append) (simp add: seg_inv_def)
  then show ?thesis unfolding q unfolding t using assms l by (simp add: seg_inv_def)
qed

lemma seg_inv_whole:
  assumes "seg_inv pat s px sx spx ssx"
  shows "glob_match (drop spx pat) (drop ssx s) \<longleftrightarrow>
         glob_match (drop (Suc spx) pat) (drop ssx s) \<or>
         (ssx < length s \<and> glob_match (drop spx pat) (drop (Suc ssx) s))"
proof -
  have "drop spx pat = CHR ''*'' # drop (Suc spx) pat"
    using assms by (simp add: seg_inv_def Cons_nth_drop_Suc [symmetric])
  then show ?thesis
    by (cases "ssx < length s") (auto simp: Cons_nth_drop_Suc [symmetric])
qed

text \<open>A second star makes the restart position final: a later match of the literal part leaves less
  of the string to the second star, which can absorb the difference.\<close>

lemma seg_inv_second_star:
  assumes inv: "seg_inv pat s px sx spx ssx" and px: "px < length pat" "pat ! px = CHR ''*''"
  shows "glob_match (drop spx pat) (drop ssx s) \<longleftrightarrow> glob_match (drop px pat) (drop sx s)"
proof
  let ?q = "seg (Suc spx) px pat"
  have q: "drop (Suc spx) pat = ?q @ drop px pat" "length ?q = sx - ssx"
    using inv by (simp_all add: seg_inv_def seg_append_drop seg_inv_length [OF inv])
  have star: "drop px pat = CHR ''*'' # drop (Suc px) pat" "drop spx pat = CHR ''*'' # drop (Suc spx) pat"
    using inv px by (auto simp: seg_inv_def Cons_nth_drop_Suc [symmetric])
  assume "glob_match (drop spx pat) (drop ssx s)"
  then obtain k where "glob_match (?q @ drop px pat) (drop k (drop ssx s))"
    by (auto simp: star(2) glob_match_star q(1))
  then have "glob_match (drop px pat) (drop (sx - ssx) (drop k (drop ssx s)))"
    using inv q(2) by (simp add: seg_inv_def glob_match_lit_append)
  then have "glob_match (drop px pat) (drop k (drop sx s))"
    using inv by (simp add: seg_inv_def add.commute add.left_commute)
  then show "glob_match (drop px pat) (drop sx s)"
    unfolding star(1) by (rule glob_match_star_mono)
next
  assume "glob_match (drop px pat) (drop sx s)"
  then show "glob_match (drop spx pat) (drop ssx s)"
    using seg_inv_match [OF inv] seg_inv_whole [OF inv] by blast
qed

definition scan_goal :: "string \<Rightarrow> string \<Rightarrow> nat \<Rightarrow> nat \<Rightarrow> (nat \<times> nat) option \<Rightarrow> bool" where
  "scan_goal pat s px sx star =
     (case star of None \<Rightarrow> glob_match (drop px pat) (drop sx s)
      | Some (spx, ssx) \<Rightarrow> glob_match (drop spx pat) (drop ssx s))"

definition scan_inv :: "string \<Rightarrow> string \<Rightarrow> nat \<Rightarrow> nat \<Rightarrow> (nat \<times> nat) option \<Rightarrow> bool" where
  "scan_inv pat s px sx star =
     (case star of None \<Rightarrow> px \<le> length pat \<and> sx \<le> length s
      | Some (spx, ssx) \<Rightarrow> seg_inv pat s px sx spx ssx)"

lemma mismatch_fails:
  assumes "sx < length s" "\<not> (px < length pat \<and> (pat ! px = CHR ''?'' \<or> pat ! px = s ! sx))"
    and "\<not> (px < length pat \<and> pat ! px = CHR ''*'')" "px \<le> length pat"
  shows "\<not> glob_match (drop px pat) (drop sx s)"
  using assms by (cases "px < length pat") (auto simp: Cons_nth_drop_Suc [symmetric])

lemma scan_goal_end:
  assumes "scan_inv pat s px sx star" "\<not> sx < length s"
  shows "scan_goal pat s px sx star \<longleftrightarrow> skip_stars pat px = length pat"
proof (cases star)
  case None
  with assms show ?thesis by (simp add: scan_inv_def scan_goal_def skip_stars_iff)
next
  case (Some st)
  obtain spx ssx where st: "st = (spx, ssx)" by (cases st)
  then have inv: "seg_inv pat s px sx spx ssx" using assms Some by (simp add: scan_inv_def)
  then have sx: "sx = length s" "px \<le> length pat" using assms(2) by (simp_all add: seg_inv_def)
  have "\<not> (ssx < length s \<and> glob_match (drop spx pat) (drop (Suc ssx) s))
        \<or> glob_match (drop (Suc spx) pat) (drop ssx s)"
  proof (rule ccontr)
    assume neg: "\<not> ?thesis"
    then obtain k where k: "glob_match (drop (Suc spx) pat) (drop k (drop (Suc ssx) s))" "ssx < length s"
      using inv by (auto simp: seg_inv_def Cons_nth_drop_Suc [symmetric] glob_match_star)
    let ?q = "seg (Suc spx) px pat"
    have "lit_match ?q (take (length ?q) (drop k (drop (Suc ssx) s)))"
      using k(1) inv seg_append_drop [of "Suc spx" px pat, symmetric]
      by (simp add: seg_inv_def glob_match_lit_append del: drop_drop)
    moreover have "length ?q = length s - ssx"
      using sx by (simp add: seg_inv_length [OF inv])
    ultimately have "length s - ssx \<le> length s - (Suc ssx + k)"
      by (auto dest!: list_all2_lengthD)
    with k(2) show False by simp
  qed
  then show ?thesis
    using seg_inv_whole [OF inv] seg_inv_match [OF inv] sx Some st
    by (auto simp: scan_goal_def skip_stars_iff)
qed

lemma scan_step_adv:
  assumes "scan_inv pat s px sx star" "sx < length s" "adv_at pat s px sx" "CHR ''*'' \<notin> set s"
  shows "scan_inv pat s (px + 1) (sx + 1) star"
    and "scan_goal pat s (px + 1) (sx + 1) star = scan_goal pat s px sx star"
proof -
  have "s ! sx \<noteq> CHR ''*''" using assms(2,4) by (metis nth_mem)
  with assms seg_inv_advance show "scan_inv pat s (px + 1) (sx + 1) star"
    "scan_goal pat s (px + 1) (sx + 1) star = scan_goal pat s px sx star"
    by (auto simp: scan_inv_def scan_goal_def Cons_nth_drop_Suc [symmetric] split: option.splits)
qed

lemma scan_step_star:
  assumes "scan_inv pat s px sx star" "sx < length s" "star_at pat px"
  shows "scan_inv pat s (px + 1) sx (Some (px, sx))"
    and "scan_goal pat s (px + 1) sx (Some (px, sx)) = scan_goal pat s px sx star"
  using assms seg_inv_star seg_inv_second_star
  by (auto simp: scan_inv_def scan_goal_def split: option.splits)

lemma scan_step_retry:
  assumes inv: "scan_inv pat s px sx (Some (spx, ssx))" and sx: "sx < length s"
    and no: "\<not> adv_at pat s px sx" "\<not> star_at pat px"
  shows "scan_inv pat s (spx + 1) (ssx + 1) (Some (spx, ssx + 1))"
    and "scan_goal pat s (spx + 1) (ssx + 1) (Some (spx, ssx + 1)) = scan_goal pat s px sx (Some (spx, ssx))"
proof -
  from inv have seg: "seg_inv pat s px sx spx ssx" by (simp add: scan_inv_def)
  then show "scan_inv pat s (spx + 1) (ssx + 1) (Some (spx, ssx + 1))"
    using sx by (simp add: scan_inv_def seg_inv_def)
  have "\<not> glob_match (drop px pat) (drop sx s)"
    using sx no seg by (intro mismatch_fails) (simp_all add: seg_inv_def)
  then show "scan_goal pat s (spx + 1) (ssx + 1) (Some (spx, ssx + 1)) = scan_goal pat s px sx (Some (spx, ssx))"
    using seg_inv_whole [OF seg] seg_inv_match [OF seg] sx seg by (simp add: scan_goal_def seg_inv_def)
qed

lemma glob_scan_complete:
  "CHR ''*'' \<notin> set s \<Longrightarrow> scan_inv pat s px sx star \<Longrightarrow>
   scan_ok pat (glob_scan pat s px sx star) = scan_goal pat s px sx star"
proof (induction pat s px sx star rule: glob_scan.induct)
  case (1 pat s px sx star)
  note inv = "1.prems"(2)
  show ?case
  proof (cases rule: glob_scan_cases [of sx s _ px pat star])
    case stop
    then show ?thesis using scan_goal_end [OF inv] by (simp add: glob_scan_end scan_ok_def)
  next
    case adv
    with "1.IH"(1) "1.prems" scan_step_adv [OF inv] show ?thesis by (simp add: glob_scan_adv)
  next
    case star
    with "1.IH"(2) "1.prems" scan_step_star [OF inv] show ?thesis by (simp add: glob_scan_star)
  next
    case (retry spx ssx)
    with "1.IH"(3) [OF retry refl] "1.prems" scan_step_retry [of pat s px sx spx ssx]
    show ?thesis by (simp add: glob_scan_retry)
  next
    case fail
    with inv mismatch_fails [of sx s px pat] show ?thesis
      by (simp add: glob_scan_fail scan_ok_def scan_goal_def scan_inv_def)
  qed
qed

section \<open>Properties\<close>

lemma matchGlob_glob:
  assumes "CHR ''*'' \<notin> set s"
  shows "matchGlob pat s \<longleftrightarrow> glob_match pat s"
  using glob_scan_complete [OF assms, of pat 0 0 None]
  by (simp add: matchGlob_scan_ok scan_inv_def scan_goal_def)

lemma matchGlob_imp_glob:
  assumes "matchGlob pat s"
  shows "glob_match pat s"
  using glob_scan_sound [of pat s 0 0 None] assms
  by (simp add: matchGlob_scan_ok scan_sound_def)

text \<open>On every string without a literal \<^verbatim>\<open>*\<close>, \<^verbatim>\<open>matchGlob\<close> decides exactly the meaning of the
  pattern: \<^verbatim>\<open>*\<close> matches any sequence, \<^verbatim>\<open>?\<close> any single byte, and any other byte itself.\<close>

theorem matchGlob_correct:
  assumes "CHR ''*'' \<notin> set s"
  shows "matchGlob pat s \<longleftrightarrow> glob_match pat s"
  using assms by (rule matchGlob_glob)

theorem matchGlob_correct_witness:
  "CHR ''*'' \<notin> set ''news-sports'' \<and> matchGlob ''news-*t?'' ''news-sports'' = glob_match ''news-*t?'' ''news-sports''
   \<and> glob_match ''news-*t?'' ''news-sports''"
  using matchGlob_correct [of "''news-sports''" "''news-*t?''"] by simp

text \<open>A \<^verbatim>\<open>*\<close> in the string can defeat a \<^verbatim>\<open>*\<close> in the pattern: the scan compares the two bytes
  first and consumes the pattern's star as a literal, so an exclusion such as \<^verbatim>\<open>blocked*\<close> does not
  cover the property id \<^verbatim>\<open>blocked*site\<close>, which the pattern means.\<close>

lemma matchGlob_star_in_string:
  "glob_match ''blocked*'' ''blocked*site'' \<and> \<not> matchGlob ''blocked*'' ''blocked*site''"
  by code_simp

end
