(* ===== verification/Provider_Filter.thy ===== *)
theory Provider_Filter
  imports Provider_Config Glob_Match TMP_Validate
begin

text \<open>
  Which providers a request reaches and which part of it they see: \<^verbatim>\<open>src/router/filter.go\<close> and
  \<^verbatim>\<open>filterPackageIDsForProvider\<close> of \<^verbatim>\<open>router.go\<close>. The lemmas give the meaning of each filter: data
  residency by country, minimum-necessary forwarding of identity tokens, sealed credentials only to
  the holder of the key, and the property rules against the meaning of their glob patterns.
\<close>

section \<open>Filters\<close>

text \<open>The loop over \<^verbatim>\<open>ExcludePropertyIDs\<close> and the tests that follow it, each returning \<^verbatim>\<open>false\<close> early.\<close>

definition matchesProperty :: "string \<Rightarrow> string \<Rightarrow> string \<Rightarrow> provider_config \<Rightarrow> bool" where
  "matchesProperty propertyID propertyRID propertyType p =
     (if \<exists>pat\<in>set (ExcludePropertyIDs p). matchGlob pat propertyID then False
      else if PropertyIDs p \<noteq> [] \<and> \<not> (\<exists>pat\<in>set (PropertyIDs p). matchGlob pat propertyID) then False
      else if PropertyRIDs p \<noteq> [] \<and> (propertyRID = '''' \<or> propertyRID \<notin> set (PropertyRIDs p)) then False
      else if PropertyTypes p \<noteq> [] \<and> propertyType \<notin> set (PropertyTypes p) then False
      else True)"

definition MatchesContextProvider :: "context_request \<Rightarrow> provider_config \<Rightarrow> bool" where
  "MatchesContextProvider req p =
     (if \<not> ContextMatch p then False
      else if \<not> matchesProperty (cm_property_id req) (cm_property_rid req) (cm_property_type req) p then False
      else True)"

definition MatchesIdentityProvider :: "identity_request \<Rightarrow> provider_config \<Rightarrow> bool" where
  "MatchesIdentityProvider req p =
     (if \<not> IdentityMatch p then False
      else if Countries p \<noteq> [] \<and> (im_country req = '''' \<or> im_country req \<notin> set (Countries p)) then False
      else if UIDTypes p \<noteq> [] \<and> im_identities req \<noteq> [] \<and>
              \<not> (\<exists>x\<in>set (im_identities req). uid_type x \<in> set (UIDTypes p)) then False
      else True)"

definition filterIdentitiesForProvider :: "identity_token list \<Rightarrow> provider_config \<Rightarrow> identity_token list" where
  "filterIdentitiesForProvider ids p =
     (if UIDTypes p = [] then ids else filter (\<lambda>x. uid_type x \<in> set (UIDTypes p)) ids)"

definition filterSealedCredentialsForProvider :: "sealed_credential list \<Rightarrow> provider_config \<Rightarrow> sealed_credential list" where
  "filterSealedCredentialsForProvider creds p =
     (if creds = [] \<or> AudienceKIDs p = [] then []
      else filter (\<lambda>sc. audience_kid sc \<in> set (AudienceKIDs p)) creds)"

definition filterPackageIDsForProvider :: "string list \<Rightarrow> provider_config \<Rightarrow> string list" where
  "filterPackageIDsForProvider pkgIDs p =
     (if PackageIDs p = [] then pkgIDs else filter (\<lambda>x. x \<in> set (PackageIDs p)) pkgIDs)"

section \<open>What the filters let through\<close>

lemma set_filterIdentities:
  "set (filterIdentitiesForProvider ids p) =
     {x \<in> set ids. UIDTypes p = [] \<or> uid_type x \<in> set (UIDTypes p)}"
  by (auto simp: filterIdentitiesForProvider_def)

lemma set_filterSealed:
  "set (filterSealedCredentialsForProvider creds p) = {sc \<in> set creds. audience_kid sc \<in> set (AudienceKIDs p)}"
  by (auto simp: filterSealedCredentialsForProvider_def)

lemma set_filterPackages:
  "set (filterPackageIDsForProvider ids p) = {x \<in> set ids. PackageIDs p = [] \<or> x \<in> set (PackageIDs p)}"
  by (auto simp: filterPackageIDsForProvider_def)

lemmas filter_sets = set_filterIdentities set_filterSealed set_filterPackages

text \<open>A provider that matched on identity types always has a token left to receive: the skip in
  \<^verbatim>\<open>fanOutIdentity\<close> fires only for a request without identities.\<close>

lemma matched_has_token:
  assumes "MatchesIdentityProvider req p" "im_identities req \<noteq> []"
  shows "filterIdentitiesForProvider (im_identities req) p \<noteq> []"
  using assms by (auto simp: MatchesIdentityProvider_def filterIdentitiesForProvider_def filter_empty_conv split: if_splits)

lemma MatchesIdentityProvider_residency:
  "MatchesIdentityProvider req p \<Longrightarrow>
   IdentityMatch p \<and> (Countries p = [] \<or> im_country req \<noteq> '''' \<and> im_country req \<in> set (Countries p))"
  by (auto simp: MatchesIdentityProvider_def split: if_splits)

text \<open>The property rule in terms of what the patterns mean.\<close>

definition property_rule :: "string \<Rightarrow> string \<Rightarrow> string \<Rightarrow> provider_config \<Rightarrow> bool" where
  "property_rule propertyID propertyRID propertyType p \<longleftrightarrow>
     (\<forall>pat\<in>set (ExcludePropertyIDs p). \<not> glob_match pat propertyID) \<and>
     (PropertyIDs p = [] \<or> (\<exists>pat\<in>set (PropertyIDs p). glob_match pat propertyID)) \<and>
     (PropertyRIDs p = [] \<or> propertyRID \<noteq> '''' \<and> propertyRID \<in> set (PropertyRIDs p)) \<and>
     (PropertyTypes p = [] \<or> propertyType \<in> set (PropertyTypes p))"

section \<open>Properties\<close>

text \<open>For a property slug without a literal \<^verbatim>\<open>*\<close>, the context filter is exactly the documented rule:
  the provider serves context matching, no exclusion pattern covers the slug, the slug is covered by
  the allow list when there is one, and property rid and type are on their allow lists when there
  are such lists.\<close>

theorem MatchesContextProvider_spec:
  assumes "CHR ''*'' \<notin> set (cm_property_id req)"
  shows "MatchesContextProvider req p \<longleftrightarrow>
           ContextMatch p \<and> property_rule (cm_property_id req) (cm_property_rid req) (cm_property_type req) p"
  using matchGlob_glob [OF assms]
  by (auto simp: MatchesContextProvider_def matchesProperty_def property_rule_def)

theorem MatchesContextProvider_spec_witness:
  "MatchesContextProvider
     (sample_context_request\<lparr>cm_property_id := ''news-de''\<rparr>)
     (sample_provider\<lparr>ExcludePropertyIDs := [''sport*''], PropertyIDs := [''news-*'']\<rparr>)"
proof -
  let ?req = "sample_context_request\<lparr>cm_property_id := ''news-de''\<rparr>"
  have "CHR ''*'' \<notin> set (cm_property_id ?req)" by simp
  from MatchesContextProvider_spec [OF this] show ?thesis
    by (simp add: property_rule_def sample_provider_def)
qed
end
