(* ===== verification/Request_Signing.thy ===== *)
theory Request_Signing
  imports Provider_Filter "HOL-Library.Multiset"
begin

text \<open>
  Request authentication of context matches: the signing input and the verifier of
  \<^verbatim>\<open>src/tmproto/signing.go\<close> and the router's signature cache (\<^verbatim>\<open>src/router/signing.go\<close>). Ed25519 and
  base64url are arguments (\<open>sign\<close>, \<open>verify\<close>, \<open>encode\<close>, \<open>decode\<close>); what the code relies on of them is
  named where it is used. The lemmas show that the signing input determines the signed fields, that
  the cache returns only signatures over the request at hand whatever the goroutines' interleaving,
  and what an accepted signature proves.
\<close>

section \<open>The signing input\<close>

definition secondsPerDay :: int where "secondsPerDay = 86400"

definition EpochAt :: "int \<Rightarrow> int" where "EpochAt unix = unix sdiv secondsPerDay"

text \<open>\<^verbatim>\<open>strings.TrimRight(s, "/")\<close>.\<close>

definition NormalizeProviderEndpointURL :: "string \<Rightarrow> string" where
  "NormalizeProviderEndpointURL s = rev (dropWhile (\<lambda>c. c = CHR ''/'') (rev s))"

definition format_int :: "int \<Rightarrow> string" where
  "format_int i = (if i < 0 then CHR ''-'' # itoa (nat (- i)) else itoa (nat i))"

text \<open>Both places that serialise \<^verbatim>\<open>package_ids\<close> sort a copy and join it with commas.\<close>

definition packageIDsKey :: "string list \<Rightarrow> string" where
  "packageIDsKey ids = (if ids = [] then '''' else join '','' (sort ids))"

abbreviation newline :: char where "newline \<equiv> CHR 0x0A"

definition BuildContextMatchSigningInput :: "context_request \<Rightarrow> string \<Rightarrow> int \<Rightarrow> string" where
  "BuildContextMatchSigningInput req endpoint epoch = join [newline]
     [''context_match_request'', cm_seller_agent_url req, cm_property_rid req, cm_placement_id req,
      packageIDsKey (cm_package_ids req), endpoint, format_int epoch]"

section \<open>Signing and verifying\<close>

record signing_key =
  kid :: string
  kty :: string
  alg :: string
  crv :: string
  key_x :: string
  key_use :: string
  adcp_use :: string
  iat :: int
  revoked_at :: "int option"

type_synonym ('pub, 'sig) verify_fun = "'pub \<Rightarrow> string \<Rightarrow> 'sig \<Rightarrow> bool"

definition SignContextMatch :: "(string \<Rightarrow> 'sig) \<Rightarrow> ('sig \<Rightarrow> string) \<Rightarrow> context_request \<Rightarrow> string \<Rightarrow> int \<Rightarrow> string" where
  "SignContextMatch sign encode req endpointURL epoch =
     encode (sign (BuildContextMatchSigningInput req (NormalizeProviderEndpointURL endpointURL) epoch))"

datatype sig_error = SignatureMissing | SignatureMalformed | SignatureKeyUnknown | SignatureKeyRevoked | SignatureInvalid

definition PublicKey :: "(string \<Rightarrow> 'pub option) \<Rightarrow> signing_key \<Rightarrow> 'pub option" where
  "PublicKey decode_key k =
     (if kty k \<noteq> ''OKP'' then None else if crv k \<noteq> ''Ed25519'' then None else decode_key (key_x k))"

text \<open>A key store is its lookup: by key id, and for an agent-aware store also by key id and seller.\<close>

record key_store =
  LookupKey :: "string \<Rightarrow> signing_key option"
  LookupKeyForAgent :: "(string \<Rightarrow> string \<Rightarrow> signing_key option) option"

definition lookupKey :: "key_store \<Rightarrow> string \<Rightarrow> string \<Rightarrow> signing_key option" where
  "lookupKey ks k seller =
     (case LookupKeyForAgent ks of
        Some f \<Rightarrow> if seller \<noteq> '''' then f k seller else LookupKey ks k
      | None \<Rightarrow> LookupKey ks k)"

definition resolveSigningKey ::
  "(string \<Rightarrow> 'pub option) \<Rightarrow> string \<Rightarrow> string \<Rightarrow> key_store option \<Rightarrow> sig_error + ('pub \<times> signing_key)" where
  "resolveSigningKey decode_key k seller ks =
     (case ks of None \<Rightarrow> Inl SignatureKeyUnknown
      | Some s \<Rightarrow> (case lookupKey s k seller of None \<Rightarrow> Inl SignatureKeyUnknown
        | Some key \<Rightarrow> (case PublicKey decode_key key of None \<Rightarrow> Inl SignatureKeyUnknown
          | Some pub \<Rightarrow> Inr (pub, key))))"

definition decodeSignature :: "(string \<Rightarrow> 'sig option) \<Rightarrow> string \<Rightarrow> sig_error + 'sig" where
  "decodeSignature decode s =
     (if s = '''' then Inl SignatureMissing
      else case decode s of None \<Rightarrow> Inl SignatureMalformed | Some raw \<Rightarrow> Inr raw)"

definition keyRevokedForEpoch :: "signing_key \<Rightarrow> int \<Rightarrow> bool" where
  "keyRevokedForEpoch key e = (case revoked_at key of None \<Rightarrow> False | Some r \<Rightarrow> e \<ge> EpochAt r)"

text \<open>The loop over the current and the previous epoch, and the two errors after it.\<close>

definition VerifyContextMatch ::
  "('pub, 'sig) verify_fun \<Rightarrow> (string \<Rightarrow> 'pub option) \<Rightarrow> (string \<Rightarrow> 'sig option) \<Rightarrow>
   context_request \<Rightarrow> string \<Rightarrow> string \<Rightarrow> string \<Rightarrow> key_store option \<Rightarrow> int \<Rightarrow> sig_error option" where
  "VerifyContextMatch verify decode_key decode req ownEndpointURL sig k ks now =
     (case resolveSigningKey decode_key k (cm_seller_agent_url req) ks of
        Inl e \<Rightarrow> Some e
      | Inr (pub, key) \<Rightarrow>
          (case decodeSignature decode sig of
             Inl e \<Rightarrow> Some e
           | Inr rawSig \<Rightarrow>
               let endpoint = NormalizeProviderEndpointURL ownEndpointURL; currentEpoch = EpochAt now in
               if \<exists>epoch\<in>set [currentEpoch, currentEpoch - 1].
                    \<not> keyRevokedForEpoch key epoch \<and> verify pub (BuildContextMatchSigningInput req endpoint epoch) rawSig
               then None
               else if keyRevokedForEpoch key currentEpoch \<and> keyRevokedForEpoch key (currentEpoch - 1)
               then Some SignatureKeyRevoked else Some SignatureInvalid))"

definition ExtractSignatureHeaders :: "(string \<Rightarrow> string) \<Rightarrow> sig_error + (string \<times> string)" where
  "ExtractSignatureHeaders h =
     (let sig = h ''X-AdCP-Signature''; k = h ''X-AdCP-Key-Id'' in
      if sig = '''' \<or> k = '''' then Inl SignatureMissing else Inr (sig, k))"

section \<open>The router's signature cache\<close>

record signature_key =
  sk_seller :: string
  sk_property_rid :: string
  sk_placement :: string
  sk_endpoint :: string
  sk_packages :: string
  sk_epoch :: int

record signature_cache =
  sigs :: "(signature_key \<times> string) list"
  sig_max :: nat

definition newContextSignatureCache :: "int \<Rightarrow> signature_cache" where
  "newContextSignatureCache n = \<lparr>sigs = [], sig_max = (if n \<le> 0 then 10000 else nat n)\<rparr>"

definition signature_key_of :: "context_request \<Rightarrow> string \<Rightarrow> int \<Rightarrow> signature_key" where
  "signature_key_of req endpointURL epoch =
     \<lparr>sk_seller = cm_seller_agent_url req, sk_property_rid = cm_property_rid req, sk_placement = cm_placement_id req,
      sk_endpoint = endpointURL, sk_packages = packageIDsKey (cm_package_ids req), sk_epoch = epoch\<rparr>"

definition evictOldEpochs :: "int \<Rightarrow> nat \<Rightarrow> (signature_key \<times> string) list \<Rightarrow> (signature_key \<times> string) list" where
  "evictOldEpochs currentEpoch cap es =
     (let es1 = filter (\<lambda>(k, s). \<not> sk_epoch k < currentEpoch - 1) es
      in if length es1 < cap then es1 else [])"

text \<open>\<^verbatim>\<open>signatureFor\<close> holds the lock twice: to look the key up, and to store the fresh signature.\<close>

definition sig_lookup :: "signature_key \<Rightarrow> signature_cache \<Rightarrow> string option" where
  "sig_lookup k c = map_of (sigs c) k"

definition sig_store :: "signature_key \<Rightarrow> string \<Rightarrow> signature_cache \<Rightarrow> signature_cache" where
  "sig_store k s c =
     c\<lparr>sigs := AList.update k s
         (if length (sigs c) \<ge> sig_max c then evictOldEpochs (sk_epoch k) (sig_max c) (sigs c) else sigs c)\<rparr>"

definition signatureFor ::
  "(context_request \<Rightarrow> string \<Rightarrow> int \<Rightarrow> string) \<Rightarrow> (signature_cache \<Rightarrow> signature_cache) \<Rightarrow>
   context_request \<Rightarrow> string \<Rightarrow> int \<Rightarrow> signature_cache \<Rightarrow> string \<times> signature_cache" where
  "signatureFor sign_req others req endpointURL epoch c =
     (let key = signature_key_of req endpointURL epoch in
      case sig_lookup key c of
        Some s \<Rightarrow> (s, c)
      | None \<Rightarrow> let s = sign_req req endpointURL epoch in (s, sig_store key s (others c)))"

definition signContextHeaders ::
  "(context_request \<Rightarrow> string \<Rightarrow> int \<Rightarrow> string) option \<Rightarrow> string \<Rightarrow> (signature_cache \<Rightarrow> signature_cache) \<Rightarrow>
   context_request \<Rightarrow> string \<Rightarrow> int \<Rightarrow> signature_cache \<Rightarrow> (string \<times> string) list \<times> signature_cache" where
  "signContextHeaders signer keyID others req providerEndpoint now c =
     (case signer of
        None \<Rightarrow> ([], c)
      | Some sign_req \<Rightarrow>
          let (s, c') = signatureFor sign_req others req (NormalizeProviderEndpointURL providerEndpoint) (EpochAt now) c
          in ([(''X-AdCP-Signature'', s), (''X-AdCP-Key-Id'', keyID)], c'))"


section \<open>The input determines the fields\<close>

lemma format_int_inj: "format_int i = format_int j \<longleftrightarrow> i = j"
proof -
  have no_minus: "CHR ''-'' \<notin> set (itoa n)" for n
    using itoa_digits [of "CHR ''-''" n] by (auto simp: is_digit_def less_eq_char_def)
  have minus: "itoa n \<noteq> CHR ''-'' # s" for n s
    using no_minus [of n] by auto
  have "i = j" if "format_int i = format_int j"
    using that minus [of "nat i"] minus [of "nat j", symmetric]
    by (cases "i < 0"; cases "j < 0") (simp_all add: format_int_def itoa_inj)
  then show ?thesis by blast
qed

lemma format_int_newline: "newline \<notin> set (format_int i)"
  using itoa_digits [of newline] by (auto simp: format_int_def is_digit_def less_eq_char_def)

definition plain_packages :: "string list \<Rightarrow> bool" where
  "plain_packages ids \<longleftrightarrow> (\<forall>p\<in>set ids. p \<noteq> '''' \<and> CHR '','' \<notin> set p)"

lemma join_empty: "\<forall>x\<in>set xs. x \<noteq> [] \<Longrightarrow> join sep xs = [] \<Longrightarrow> xs = []"
  by (cases xs; cases "tl xs") auto

lemma packageIDsKey_mset:
  assumes "plain_packages ids" "plain_packages ids'"
  shows "packageIDsKey ids = packageIDsKey ids' \<longleftrightarrow> mset ids = mset ids'"
proof
  assume eq: "packageIDsKey ids = packageIDsKey ids'"
  have join: "packageIDsKey xs = join '','' (sort xs)" for xs
    by (cases xs) (simp_all add: packageIDsKey_def)
  have nonempty: "packageIDsKey xs = '''' \<longleftrightarrow> xs = []" if "plain_packages xs" for xs
    using that join_empty [of "sort xs" "'',''"] unfolding join
    by (metis length_0_conv length_sort plain_packages_def set_sort join.simps(1))
  show "mset ids = mset ids'"
  proof (cases "ids = [] \<or> ids' = []")
    case True
    with eq assms nonempty show ?thesis by (metis)
  next
    case False
    then have "sort ids = sort ids'"
      using eq assms unfolding join
      by (subst (asm) join_inj) (auto simp: plain_packages_def simp flip: set_empty)
    then show ?thesis by (metis mset_sort)
  qed
next
  assume "mset ids = mset ids'"
  then show "packageIDsKey ids = packageIDsKey ids'"
    using properties_for_sort [of "sort ids'" ids] by (auto simp: packageIDsKey_def)
qed

lemma packageIDsKey_newline: "\<forall>p\<in>set ids. newline \<notin> set p \<Longrightarrow> newline \<notin> set (packageIDsKey ids)"
proof -
  have "c \<notin> set sep \<Longrightarrow> \<forall>x\<in>set xs. c \<notin> set x \<Longrightarrow> c \<notin> set (join sep xs)" for c sep and xs :: "string list"
    by (induction sep xs rule: join.induct) auto
  then show "\<forall>p\<in>set ids. newline \<notin> set p \<Longrightarrow> ?thesis" by (simp add: packageIDsKey_def)
qed

text \<open>The signed fields of a request are line-safe when validation accepted it.\<close>

definition line_safe :: "context_request \<Rightarrow> bool" where
  "line_safe r \<longleftrightarrow> newline \<notin> set (cm_seller_agent_url r) \<and> newline \<notin> set (cm_property_rid r) \<and>
     newline \<notin> set (cm_placement_id r) \<and> (\<forall>p\<in>set (cm_package_ids r). newline \<notin> set p)"

lemma validated_line_safe:
  assumes "ValidateContextRequest fetchable ref_url req = None"
  shows "line_safe req"
proof -
  have ctrl: "control_free s \<Longrightarrow> newline \<notin> set s" for s
    using control_byte_newline by blast
  note acc = ValidateContextRequest_accepts [OF assms, unfolded id_checks]
  have "newline \<notin> set (cm_seller_agent_url req)" using acc(8) by (intro ctrl) blast
  moreover have "newline \<notin> set (cm_property_rid req)" using acc(4) by (intro ctrl) blast
  moreover have "newline \<notin> set (cm_placement_id req)" using acc(6) by (intro ctrl) blast
  moreover have "\<forall>p\<in>set (cm_package_ids req). newline \<notin> set p" using acc(9) ctrl by blast
  ultimately show ?thesis unfolding line_safe_def by blast
qed

lemma signing_input_inj:
  assumes "line_safe r" "line_safe r'" "newline \<notin> set e" "newline \<notin> set e'"
    and "BuildContextMatchSigningInput r e t = BuildContextMatchSigningInput r' e' t'"
  shows "cm_seller_agent_url r = cm_seller_agent_url r'" "cm_property_rid r = cm_property_rid r'"
    and "cm_placement_id r = cm_placement_id r'" "packageIDsKey (cm_package_ids r) = packageIDsKey (cm_package_ids r')"
    and "e = e'" "t = t'"
proof -
  have safe: "\<forall>p\<in>set [''context_match_request'', cm_seller_agent_url r, cm_property_rid r, cm_placement_id r,
      packageIDsKey (cm_package_ids r), e, format_int t]. newline \<notin> set p"
    if "line_safe r" "newline \<notin> set e" for r e t
    using that by (simp add: line_safe_def packageIDsKey_newline format_int_newline)
  from assms(5) join_inj [OF safe [OF assms(1,3), of t] safe [OF assms(2,4), of t']]
  have "[''context_match_request'', cm_seller_agent_url r, cm_property_rid r, cm_placement_id r,
      packageIDsKey (cm_package_ids r), e, format_int t] =
    [''context_match_request'', cm_seller_agent_url r', cm_property_rid r', cm_placement_id r',
      packageIDsKey (cm_package_ids r'), e', format_int t']"
    unfolding BuildContextMatchSigningInput_def by simp
  then show "cm_seller_agent_url r = cm_seller_agent_url r'" "cm_property_rid r = cm_property_rid r'"
    "cm_placement_id r = cm_placement_id r'" "packageIDsKey (cm_package_ids r) = packageIDsKey (cm_package_ids r')"
    "e = e'" "t = t'"
    by (simp_all add: format_int_inj)
qed

section \<open>Coherence of the signature cache\<close>

text \<open>The signing input as a function of the cache key alone.\<close>

definition input_of_key :: "signature_key \<Rightarrow> string" where
  "input_of_key k = join [newline] [''context_match_request'', sk_seller k, sk_property_rid k, sk_placement k,
     sk_packages k, NormalizeProviderEndpointURL (sk_endpoint k), format_int (sk_epoch k)]"

lemma input_of_key_of:
  "input_of_key (signature_key_of req e t) = BuildContextMatchSigningInput req (NormalizeProviderEndpointURL e) t"
  by (simp add: input_of_key_def signature_key_of_def BuildContextMatchSigningInput_def)

definition coherent :: "(string \<Rightarrow> string) \<Rightarrow> signature_cache \<Rightarrow> bool" where
  "coherent sign_bytes c \<longleftrightarrow> (\<forall>(k, s)\<in>set (sigs c). s = sign_bytes (input_of_key k)) \<and>
     0 < sig_max c \<and> length (sigs c) \<le> sig_max c"

lemma set_update_subset: "set (AList.update k v es) \<subseteq> insert (k, v) (set es)"
  by (induction es) auto

lemma length_update_le: "length (AList.update k v es) \<le> Suc (length es)"
  by (induction es) auto

lemma sig_store_coherent:
  assumes "coherent f c" "s = f (input_of_key k)"
  shows "coherent f (sig_store k s c)"
proof -
  let ?es = "if length (sigs c) \<ge> sig_max c then evictOldEpochs (sk_epoch k) (sig_max c) (sigs c) else sigs c"
  have sub: "set ?es \<subseteq> set (sigs c)" by (auto simp: evictOldEpochs_def Let_def)
  have "length ?es < sig_max c"
    using assms(1) by (auto simp: coherent_def evictOldEpochs_def Let_def)
  with length_update_le [of k s ?es] have "length (AList.update k s ?es) \<le> sig_max c" by linarith
  moreover have "\<forall>(j, t)\<in>set (AList.update k s ?es). t = f (input_of_key j)"
    using set_update_subset [of k s ?es] sub assms by (fastforce simp: coherent_def)
  ultimately show ?thesis using assms(1) by (simp add: coherent_def sig_store_def)
qed

lemma sig_lookup_coherent: "coherent f c \<Longrightarrow> sig_lookup k c = Some s \<Longrightarrow> s = f (input_of_key k)"
  by (auto simp: coherent_def sig_lookup_def dest!: map_of_SomeD)


section \<open>Properties\<close>

lemma VerifyContextMatch_accepts:
  assumes "VerifyContextMatch verify decode_key decode req own sig k ks now = None"
  obtains pub key rawSig epoch where
    "resolveSigningKey decode_key k (cm_seller_agent_url req) ks = Inr (pub, key)"
    "decodeSignature decode sig = Inr rawSig" "epoch \<in> {EpochAt now, EpochAt now - 1}"
    "\<not> keyRevokedForEpoch key epoch"
    "verify pub (BuildContextMatchSigningInput req (NormalizeProviderEndpointURL own) epoch) rawSig"
proof -
  from assms obtain pub key where res: "resolveSigningKey decode_key k (cm_seller_agent_url req) ks = Inr (pub, key)"
    by (auto simp: VerifyContextMatch_def split: sum.splits)
  with assms obtain rawSig where raw: "decodeSignature decode sig = Inr rawSig"
    by (auto simp: VerifyContextMatch_def split: sum.splits)
  with assms res obtain epoch where "epoch \<in> {EpochAt now, EpochAt now - 1}" "\<not> keyRevokedForEpoch key epoch"
    "verify pub (BuildContextMatchSigningInput req (NormalizeProviderEndpointURL own) epoch) rawSig"
    by (auto simp: VerifyContextMatch_def Let_def split: if_splits)
  with res raw show ?thesis by (rule that)
qed

text \<open>C6: what an accepted signature proves. \<open>signed pub\<close> are the context requests, endpoints and epochs that the
  holder of the key \<open>pub\<close> signed; the key may also sign other messages, such as identity matches, whose
  signing input is a hash in hexadecimal. Assumed of the primitive: a message with the tag of a context
  match that verifies under the key the verifier resolved was signed by its holder. Then a request the
  verifier accepts agrees with one that this holder signed in seller, property, placement and the
  joined package list, hence in the multiset of packages when no package id of either is empty or
  contains a comma; it was signed for this provider's endpoint, in the current or the previous epoch,
  and not in an epoch the key was revoked for. The requests hold no newline in these
  fields, which validation ensures (lemma \<open>validated_line_safe\<close>), and the endpoints hold none.\<close>

theorem accepted_signature_binds:
  fixes signed :: "'pub \<Rightarrow> (context_request \<times> string \<times> int) set"
  assumes "VerifyContextMatch verify decode_key decode req own sig k ks now = None"
    and unforgeable: "\<And>pub key m s. resolveSigningKey decode_key k (cm_seller_agent_url req) ks = Inr (pub, key) \<Longrightarrow>
        verify pub (''context_match_request'' @ newline # m) s \<Longrightarrow>
        \<exists>(r, e, t)\<in>signed pub. ''context_match_request'' @ newline # m = BuildContextMatchSigningInput r e t"
    and "\<And>pub. \<forall>(r, e, t)\<in>signed pub. line_safe r \<and> newline \<notin> set e"
    and "line_safe req" "newline \<notin> set (NormalizeProviderEndpointURL own)"
  shows "\<exists>pub key. resolveSigningKey decode_key k (cm_seller_agent_url req) ks = Inr (pub, key) \<and>
           (\<exists>(r, e, t)\<in>signed pub. cm_seller_agent_url r = cm_seller_agent_url req \<and>
              cm_property_rid r = cm_property_rid req \<and> cm_placement_id r = cm_placement_id req \<and>
              packageIDsKey (cm_package_ids r) = packageIDsKey (cm_package_ids req) \<and>
              (plain_packages (cm_package_ids r) \<and> plain_packages (cm_package_ids req) \<longrightarrow>
                 mset (cm_package_ids r) = mset (cm_package_ids req)) \<and>
              e = NormalizeProviderEndpointURL own \<and> t \<in> {EpochAt now, EpochAt now - 1} \<and> \<not> keyRevokedForEpoch key t)"
proof -
  let ?own = "NormalizeProviderEndpointURL own"
  from assms(1) obtain pub key rawSig epoch where
    res: "resolveSigningKey decode_key k (cm_seller_agent_url req) ks = Inr (pub, key)"
    and epoch: "epoch \<in> {EpochAt now, EpochAt now - 1}" "\<not> keyRevokedForEpoch key epoch"
    and ver: "verify pub (BuildContextMatchSigningInput req ?own epoch) rawSig"
    by (rule VerifyContextMatch_accepts)
  have tagged: "BuildContextMatchSigningInput req ?own epoch = ''context_match_request'' @ newline # join [newline]
      [cm_seller_agent_url req, cm_property_rid req, cm_placement_id req, packageIDsKey (cm_package_ids req), ?own,
       format_int epoch]"
    by (simp add: BuildContextMatchSigningInput_def)
  from unforgeable [OF res ver [unfolded tagged]] obtain r e t where issued: "(r, e, t) \<in> signed pub"
    and eq: "BuildContextMatchSigningInput req ?own epoch = BuildContextMatchSigningInput r e t"
    unfolding tagged by auto
  from assms(3) [of pub] issued have safe: "line_safe r" "newline \<notin> set e" by auto
  note same = signing_input_inj [OF assms(4) safe(1) assms(5) safe(2) eq]
  have "mset (cm_package_ids r) = mset (cm_package_ids req)"
    if "plain_packages (cm_package_ids r)" "plain_packages (cm_package_ids req)"
    using packageIDsKey_mset [OF that] same(4) by simp
  with same res epoch issued show ?thesis by (intro exI conjI bexI [of _ "(r, e, t)"]) auto
qed

text \<open>A toy scheme for the witnesses: the signature of a message is the message.\<close>

definition toy_key :: signing_key where
  "toy_key = \<lparr>kid = ''k1'', kty = ''OKP'', alg = ''EdDSA'', crv = ''Ed25519'', key_x = ''x'', key_use = ''sig'',
     adcp_use = '''', iat = 0, revoked_at = None\<rparr>"

definition toy_store :: key_store where
  "toy_store = \<lparr>LookupKey = (\<lambda>k. if k = ''k1'' then Some toy_key else None), LookupKeyForAgent = None\<rparr>"

lemma toy_resolve: "resolveSigningKey Some ''k1'' seller (Some toy_store) = Inr (''x'', toy_key)"
  by (simp add: resolveSigningKey_def lookupKey_def toy_store_def toy_key_def PublicKey_def)

lemma toy_not_revoked: "\<not> keyRevokedForEpoch toy_key e"
  by (simp add: keyRevokedForEpoch_def toy_key_def)

lemma sample_line_safe: "line_safe sample_context_request" "plain_packages (cm_package_ids sample_context_request)"
  by (simp_all add: line_safe_def plain_packages_def sample_context_request_def)

text \<open>The witness's key also signs a hexadecimal hash, and other keys verify nothing.\<close>

theorem accepted_signature_binds_witness:
  "\<exists>(r, e, t)\<in>{(sample_context_request, ''https://p'', 20000)}. e = NormalizeProviderEndpointURL ''https://p/''"
proof -
  let ?signed = "\<lambda>pub. if pub = ''x'' then {(sample_context_request, ''https://p'', 20000 :: int)} else {}"
  let ?m = "BuildContextMatchSigningInput sample_context_request ''https://p'' 20000"
  let ?verify = "\<lambda>pub m s. pub = ''x'' \<and> s = m \<and> (m = ?m \<or> m = ''3f5a'')"
  have norm: "NormalizeProviderEndpointURL ''https://p/'' = ''https://p''"
    by (simp add: NormalizeProviderEndpointURL_def)
  have now: "EpochAt 1728000000 = 20000" by (simp add: EpochAt_def secondsPerDay_def signed_divide_int_def)
  have "?m \<noteq> ''''" by (simp add: BuildContextMatchSigningInput_def)
  then have acc: "VerifyContextMatch ?verify Some Some sample_context_request ''https://p/'' ?m ''k1'' (Some toy_store) 1728000000 = None"
    by (simp add: VerifyContextMatch_def toy_resolve toy_not_revoked decodeSignature_def norm now Let_def)
  have forge: "\<exists>(r, e, t)\<in>?signed pub. ''context_match_request'' @ newline # m = BuildContextMatchSigningInput r e t"
    if "?verify pub (''context_match_request'' @ newline # m) s" for pub m s
    using that by auto
  have safe: "\<forall>(r, e, t)\<in>?signed pub. line_safe r \<and> newline \<notin> set e" for pub
    by (simp add: sample_line_safe)
  have own: "newline \<notin> set (NormalizeProviderEndpointURL ''https://p/'')" by (simp add: norm)
  from accepted_signature_binds [where verify = ?verify and signed = ?signed, OF acc forge safe sample_line_safe(1) own]
  show ?thesis by (auto simp: toy_resolve)
qed

text \<open>C7: a request signed by the router with a registered key is accepted by the provider it was sent to,
  on the day of signing and the day after, whatever order the provider reads the package ids in and
  with or without a trailing slash on the endpoint, as long as the key is not revoked for that day.
  Assumed of the primitives: a signature verifies under its key, and base64url decodes to what it
  encoded, never to the empty string.\<close>

theorem signed_request_verifies:
  assumes "resolveSigningKey decode_key k (cm_seller_agent_url req) ks = Inr (pub, key)"
    and "\<And>m. verify pub m (sign m)" "\<And>s. decode (encode s) = Some s" "\<And>s. encode s \<noteq> ''''"
    and "t = EpochAt now \<or> t = EpochAt now - 1" "\<not> keyRevokedForEpoch key t"
    and "mset (cm_package_ids req') = mset (cm_package_ids req)"
    and "req' = req\<lparr>cm_package_ids := cm_package_ids req'\<rparr>"
    and "NormalizeProviderEndpointURL own = NormalizeProviderEndpointURL endpoint"
  shows "VerifyContextMatch verify decode_key decode req' own (SignContextMatch sign encode req endpoint t) k ks now = None"
proof -
  have same: "BuildContextMatchSigningInput req' e x = BuildContextMatchSigningInput req e x" for e x
  proof -
    have "sort (cm_package_ids req') = sort (cm_package_ids req)"
      using assms(7) by (metis properties_for_sort mset_sort sorted_sort)
    then have "packageIDsKey (cm_package_ids req') = packageIDsKey (cm_package_ids req)"
      using assms(7) by (auto simp: packageIDsKey_def)
    then show ?thesis
      by (subst (1) assms(8)) (simp add: BuildContextMatchSigningInput_def)
  qed
  have "cm_seller_agent_url req' = cm_seller_agent_url req" by (subst assms(8)) simp
  with assms(1-6,9) show ?thesis
    by (auto simp: VerifyContextMatch_def SignContextMatch_def decodeSignature_def Let_def same)
qed

theorem signed_request_verifies_witness:
  "VerifyContextMatch (\<lambda>pub m s. s = m) Some (\<lambda>s. Some (tl s)) sample_context_request ''https://p''
     (SignContextMatch id (\<lambda>s. CHR ''='' # s) sample_context_request ''https://p/'' 19999) ''k1'' (Some toy_store) 1728000000 = None"
proof -
  have now: "EpochAt 1728000000 = 20000" by (simp add: EpochAt_def secondsPerDay_def signed_divide_int_def)
  show ?thesis
    by (rule signed_request_verifies [OF toy_resolve])
      (simp_all add: toy_not_revoked now NormalizeProviderEndpointURL_def)
qed

text \<open>From a coherent cache, whatever signatures the other goroutines store between its two critical
  sections, \<^verbatim>\<open>signatureFor\<close> returns the signature over exactly this request, endpoint and epoch, and
  leaves the cache coherent and within its bound.\<close>

theorem signatureFor_coherent:
  fixes sign :: "string \<Rightarrow> 'sig"
  assumes "coherent (\<lambda>m. encode (sign m)) c"
    and "\<And>d. coherent (\<lambda>m. encode (sign m)) d \<Longrightarrow> coherent (\<lambda>m. encode (sign m)) (others d)"
  shows "fst (signatureFor (SignContextMatch sign encode) others req e t c) = SignContextMatch sign encode req e t \<and>
         coherent (\<lambda>m. encode (sign m)) (snd (signatureFor (SignContextMatch sign encode) others req e t c))"
proof (cases "sig_lookup (signature_key_of req e t) c")
  case None
  with assms show ?thesis
    by (simp add: signatureFor_def Let_def sig_store_coherent input_of_key_of SignContextMatch_def)
next
  case (Some s)
  with sig_lookup_coherent [OF assms(1) Some] assms(1) show ?thesis
    by (simp add: signatureFor_def Let_def input_of_key_of SignContextMatch_def)
qed

theorem signatureFor_coherent_witness:
  "fst (signatureFor (SignContextMatch id id) id sample_context_request ''https://p'' 1 (newContextSignatureCache 5)) =
     SignContextMatch id id sample_context_request ''https://p'' 1"
proof -
  have "coherent (\<lambda>m. id (id m)) (newContextSignatureCache 5)"
    by (simp add: coherent_def newContextSignatureCache_def)
  from signatureFor_coherent [where sign = id and encode = id and others = id, OF this] show ?thesis by simp
qed

text \<open>The signing input does not determine the package list when an id contains a comma, and validation
  lets such ids through: one package \<^verbatim>\<open>a,b\<close> and the two packages \<^verbatim>\<open>a\<close> and \<^verbatim>\<open>b\<close> sign identically.\<close>

theorem comma_package_ids_collide:
  "BuildContextMatchSigningInput (sample_context_request\<lparr>cm_package_ids := [''a,b'']\<rparr>) e t =
   BuildContextMatchSigningInput (sample_context_request\<lparr>cm_package_ids := [''a'', ''b'']\<rparr>) e t \<and>
   ValidateContextRequest (\<lambda>_. None) (\<lambda>_. None) (sample_context_request\<lparr>cm_package_ids := [''a,b'']\<rparr>) = None \<and>
   ValidateContextRequest (\<lambda>_. None) (\<lambda>_. None) (sample_context_request\<lparr>cm_package_ids := [''a'', ''b'']\<rparr>) = None"
proof (intro conjI)
  have "packageIDsKey [''a,b''] = packageIDsKey [''a'', ''b'']" by code_simp
  then show "BuildContextMatchSigningInput (sample_context_request\<lparr>cm_package_ids := [''a,b'']\<rparr>) e t =
      BuildContextMatchSigningInput (sample_context_request\<lparr>cm_package_ids := [''a'', ''b'']\<rparr>) e t"
    by (simp add: BuildContextMatchSigningInput_def)
qed (code_simp, code_simp)

end
