(* ===== verification/Router_Registry.thy ===== *)
theory Router_Registry
  imports Request_Signing
begin

text \<open>
  The router's in-memory property registry (\<^verbatim>\<open>src/router/registry.go\<close>): indexes by property id, by
  registry id and by domain, and the signing keys by key id. \<^verbatim>\<open>byID\<close> and \<^verbatim>\<open>byRID\<close> hold pointers to
  shared records, and \<^verbatim>\<open>AttachSigningKey\<close> writes through one of them, so records live in an explicit
  store; every write to a key inside a record is followed in the code by the matching write of
  \<^verbatim>\<open>byKid\<close>, which is therefore kept by value. The registry refines a map from property ids to properties as
  long as the naming in the data is stable; the last lemmas show what fails otherwise.
\<close>

section \<open>State\<close>

record registry_property =
  rp_id :: string
  rp_rid :: string
  rp_type :: string
  rp_domain :: string
  rp_placements :: "string list"
  rp_keys :: "signing_key list"

record registry =
  store :: "registry_property list"
  byID :: "string \<rightharpoonup> nat"
  byRID :: "string \<rightharpoonup> nat"
  byDomain :: "string \<rightharpoonup> string"
  byKid :: "string \<rightharpoonup> signing_key"
  sequence :: nat

datatype action = ActAdd | ActUpdate | ActRemove | ActOther string

definition NewRegistry :: registry where
  "NewRegistry = \<lparr>store = [], byID = Map.empty, byRID = Map.empty, byDomain = Map.empty, byKid = Map.empty, sequence = 0\<rparr>"

definition deref :: "registry \<Rightarrow> nat option \<Rightarrow> registry_property option" where
  "deref r a = map_option ((!) (store r)) a"

definition LookupByID :: "registry \<Rightarrow> string \<Rightarrow> registry_property option" where
  "LookupByID r k = deref r (byID r k)"

definition LookupByRID :: "registry \<Rightarrow> string \<Rightarrow> registry_property option" where
  "LookupByRID r k = deref r (byRID r k)"

definition LookupByDomain :: "registry \<Rightarrow> string \<Rightarrow> string option" where
  "LookupByDomain r d = byDomain r d"

definition LookupRegistryKey :: "registry \<Rightarrow> string \<Rightarrow> signing_key option" where
  "LookupRegistryKey r k = byKid r k"

definition PropertyRID_of :: "registry \<Rightarrow> string \<Rightarrow> string" where
  "PropertyRID_of r k = (case LookupByID r k of Some p \<Rightarrow> rp_rid p | None \<Rightarrow> '''')"

section \<open>Operations\<close>

fun replace_key :: "signing_key \<Rightarrow> signing_key list \<Rightarrow> signing_key list" where
  "replace_key key [] = [key]"
| "replace_key key (k # ks) = (if kid k = kid key then key # ks else k # replace_key key ks)"

definition AttachSigningKey :: "string \<Rightarrow> signing_key \<Rightarrow> registry \<Rightarrow> bool \<times> registry" where
  "AttachSigningKey rid key r =
     (case byRID r rid of
        None \<Rightarrow> (False, r)
      | Some a \<Rightarrow>
          let p = store r ! a in
          (True, r\<lparr>store := (store r)[a := p\<lparr>rp_keys := replace_key key (rp_keys p)\<rparr>],
                   byKid := (byKid r)(kid key \<mapsto> key)\<rparr>))"

text \<open>The inner loop of \<^verbatim>\<open>applySnapshot\<close> over one property's keys, with the owners seen so far.\<close>

definition snapshot_key ::
  "string \<Rightarrow> signing_key \<Rightarrow> (string \<rightharpoonup> signing_key) \<times> (string \<rightharpoonup> string) \<Rightarrow> (string \<rightharpoonup> signing_key) \<times> (string \<rightharpoonup> string)" where
  "snapshot_key rid key ko =
     (if kid key = '''' then ko
      else case snd ko (kid key) of
        Some existing \<Rightarrow> if existing \<noteq> rid then ko else ((fst ko)(kid key \<mapsto> key), (snd ko)(kid key \<mapsto> rid))
      | None \<Rightarrow> ((fst ko)(kid key \<mapsto> key), (snd ko)(kid key \<mapsto> rid)))"

definition snapshot_keys :: "registry_property list \<Rightarrow> (string \<rightharpoonup> signing_key) \<times> (string \<rightharpoonup> string)" where
  "snapshot_keys ps = fold (\<lambda>p. fold (snapshot_key (rp_rid p)) (rp_keys p)) ps (Map.empty, Map.empty)"

text \<open>A map filled by a loop over the properties: the last one with a key wins.\<close>

definition last_index :: "(registry_property \<Rightarrow> string) \<Rightarrow> registry_property list \<Rightarrow> string \<rightharpoonup> nat" where
  "last_index f ps = map_of (rev (map (\<lambda>(i, p). (f p, i)) (enumerate 0 ps)))"

definition applySnapshot :: "registry_property list \<Rightarrow> nat \<Rightarrow> registry \<Rightarrow> registry" where
  "applySnapshot ps seq r =
     \<lparr>store = ps, byID = last_index rp_id ps, byRID = last_index rp_rid ps,
      byDomain = map_of (rev (map (\<lambda>p. (rp_domain p, rp_id p)) (filter (\<lambda>p. rp_domain p \<noteq> '''') ps))),
      byKid = fst (snapshot_keys ps), sequence = seq\<rparr>"

definition delete_kids :: "signing_key list \<Rightarrow> (string \<rightharpoonup> signing_key) \<Rightarrow> (string \<rightharpoonup> signing_key)" where
  "delete_kids ks m = m |` (- kid ` set ks)"

definition update_key :: "signing_key \<Rightarrow> (string \<rightharpoonup> signing_key) \<Rightarrow> (string \<rightharpoonup> signing_key)" where
  "update_key key m = (if kid key = '''' then m else if m (kid key) \<noteq> None then m else m(kid key \<mapsto> key))"

definition ApplyUpdate :: "action \<Rightarrow> registry_property \<Rightarrow> nat \<Rightarrow> registry \<Rightarrow> registry" where
  "ApplyUpdate act p seq r =
     (let existing = LookupByID r (rp_id p);
          kids = (case existing of Some e \<Rightarrow> delete_kids (rp_keys e) (byKid r) | None \<Rightarrow> byKid r);
          r1 = (case act of
            ActRemove \<Rightarrow>
              (case existing of
                 None \<Rightarrow> r
               | Some e \<Rightarrow> r\<lparr>byID := (byID r)(rp_id e := None),
                     byRID := (if rp_rid e \<noteq> '''' then (byRID r)(rp_rid e := None) else byRID r),
                     byDomain := (if rp_domain e \<noteq> '''' then (byDomain r)(rp_domain e := None) else byDomain r),
                     byKid := kids\<rparr>)
          | ActOther a \<Rightarrow> r
          | _ \<Rightarrow>
              let a = length (store r) in
              r\<lparr>store := store r @ [p], byID := (byID r)(rp_id p \<mapsto> a), byRID := (byRID r)(rp_rid p \<mapsto> a),
                byDomain := (if rp_domain p \<noteq> '''' then (byDomain r)(rp_domain p \<mapsto> rp_id p) else byDomain r),
                byKid := fold update_key (rp_keys p) kids\<rparr>)
      in r1\<lparr>sequence := seq\<rparr>)"

definition LoadFromData :: "registry_property list \<Rightarrow> nat \<Rightarrow> registry \<Rightarrow> registry" where
  "LoadFromData ps seq r = applySnapshot ps seq r"

section \<open>Index invariant\<close>

text \<open>Every index entry points at a live record that carries the key it is filed under.\<close>

definition index_ok :: "(registry_property \<Rightarrow> string) \<Rightarrow> registry_property list \<Rightarrow> (string \<rightharpoonup> nat) \<Rightarrow> bool" where
  "index_ok f ps m \<longleftrightarrow> (\<forall>k a. m k = Some a \<longrightarrow> a < length ps \<and> f (ps ! a) = k)"

lemma index_ok_add: "index_ok f ps m \<Longrightarrow> index_ok f (ps @ [p]) (m(f p \<mapsto> length ps))"
  by (auto simp: index_ok_def nth_append less_Suc_eq)

lemma index_ok_remove: "index_ok f ps m \<Longrightarrow> index_ok f ps (m(k := None))"
  by (simp add: index_ok_def)

lemma index_ok_rewrite: "index_ok f ps m \<Longrightarrow> f p = f (ps ! a) \<Longrightarrow> index_ok f (ps[a := p]) m"
  unfolding index_ok_def by (metis length_list_update nth_list_update_eq nth_list_update_neq)

lemma last_index_ok: "index_ok f ps (last_index f ps)"
proof (unfold index_ok_def, intro allI impI)
  fix k a assume "last_index f ps k = Some a"
  then have "(k, a) \<in> (\<lambda>(i, p). (f p, i)) ` set (enumerate 0 ps)"
    by (auto simp: last_index_def dest!: map_of_SomeD)
  then show "a < length ps \<and> f (ps ! a) = k"
    by (auto simp: in_set_enumerate_eq)
qed

lemma last_index_distinct:
  assumes "distinct (map f ps)" "i < length ps"
  shows "last_index f ps (f (ps ! i)) = Some i"
proof -
  have "map fst (map (\<lambda>(i, p). (f p, i)) (enumerate 0 ps)) = map f ps"
    by (rule nth_equalityI) (simp_all add: nth_enumerate_eq)
  with assms(1) have "distinct (map fst (rev (map (\<lambda>(i, p). (f p, i)) (enumerate 0 ps))))"
    by (simp only: rev_map [symmetric] distinct_rev)
  moreover have "(f (ps ! i), i) \<in> set (rev (map (\<lambda>(i, p). (f p, i)) (enumerate 0 ps)))"
    using assms(2) by (force simp: in_set_enumerate_eq)
  ultimately show ?thesis unfolding last_index_def by (rule map_of_is_SomeI)
qed

section \<open>Keys after a snapshot\<close>

text \<open>\<open>keys_inv ps ko\<close>: the state of the loop after the properties \<open>ps\<close>.\<close>

definition keys_inv :: "(string \<rightharpoonup> string) \<Rightarrow> (string \<times> signing_key) list \<Rightarrow>
    (string \<rightharpoonup> signing_key) \<times> (string \<rightharpoonup> string) \<Rightarrow> bool" where
  "keys_inv owner listed ko \<longleftrightarrow> snd ko = owner \<and> dom (fst ko) = dom owner \<and>
     (\<forall>k key. fst ko k = Some key \<longrightarrow> kid key = k \<and> (\<exists>rid. owner k = Some rid \<and> (rid, key) \<in> set listed))"

definition own :: "string \<Rightarrow> signing_key \<Rightarrow> (string \<rightharpoonup> string) \<Rightarrow> (string \<rightharpoonup> string)" where
  "own rid key owner = (if kid key = '''' \<or> owner (kid key) \<noteq> None then owner else owner(kid key \<mapsto> rid))"

fun owners :: "(string \<times> signing_key) list \<Rightarrow> (string \<rightharpoonup> string) \<Rightarrow> (string \<rightharpoonup> string)" where
  "owners [] owner = owner"
| "owners ((rid, key) # rks) owner = owners rks (own rid key owner)"

lemma keys_inv_mono: "keys_inv owner listed ko \<Longrightarrow> keys_inv owner (listed @ others) ko"
  unfolding keys_inv_def by (metis Un_iff set_append)

lemma keys_inv_write:
  assumes "keys_inv owner listed (m, owner)" "owner (kid key) = None \<or> owner (kid key) = Some rid"
  shows "keys_inv (owner(kid key \<mapsto> rid)) (listed @ [(rid, key)]) (m(kid key \<mapsto> key), owner(kid key \<mapsto> rid))"
proof -
  from assms(1) have inv: "dom m = dom owner"
    "\<And>k key. m k = Some key \<Longrightarrow> kid key = k \<and> (\<exists>rid. owner k = Some rid \<and> (rid, key) \<in> set listed)"
    unfolding keys_inv_def by auto
  have "kid j = k \<and> (\<exists>i. (owner(kid key \<mapsto> rid)) k = Some i \<and> (i, j) \<in> set (listed @ [(rid, key)]))"
    if "(m(kid key \<mapsto> key)) k = Some j" for k j
  proof (cases "k = kid key")
    case False
    with that have "m k = Some j" by simp
    from inv(2) [OF this] obtain i where "kid j = k" "owner k = Some i" "(i, j) \<in> set listed" by blast
    with False show ?thesis by simp
  qed (use that in simp)
  moreover have "dom (m(kid key \<mapsto> key)) = dom (owner(kid key \<mapsto> rid))" using inv(1) by simp
  ultimately show ?thesis unfolding keys_inv_def fst_conv snd_conv by blast
qed

lemma snapshot_key_inv:
  assumes "keys_inv owner listed ko"
  shows "keys_inv (own rid key owner) (listed @ [(rid, key)]) (snapshot_key rid key ko)"
proof -
  obtain m where ko: "ko = (m, owner)" using assms by (cases ko) (simp add: keys_inv_def)
  show ?thesis
  proof (cases "kid key = '''' \<or> (\<exists>other. owner (kid key) = Some other \<and> other \<noteq> rid)")
    case True
    then have "snapshot_key rid key ko = ko" "own rid key owner = owner"
      by (auto simp: snapshot_key_def own_def ko)
    with keys_inv_mono [OF assms] show ?thesis by simp
  next
    case False
    then have free: "owner (kid key) = None \<or> owner (kid key) = Some rid" by (cases "owner (kid key)") auto
    with False have "snapshot_key rid key ko = (m(kid key \<mapsto> key), owner(kid key \<mapsto> rid))"
      "own rid key owner = owner(kid key \<mapsto> rid)"
      by (auto simp: snapshot_key_def own_def ko fun_upd_idem)
    with keys_inv_write [where m = m and owner = owner and listed = listed, OF _ free] assms ko show ?thesis by simp
  qed
qed

lemma snapshot_keys_inv:
  "keys_inv owner listed ko \<Longrightarrow>
   keys_inv (owners rks owner) (listed @ rks) (fold (\<lambda>(rid, key). snapshot_key rid key) rks ko)"
proof (induction rks arbitrary: owner listed ko)
  case (Cons rk rks)
  obtain rid key where rk: "rk = (rid, key)" by (cases rk)
  from Cons.IH [OF snapshot_key_inv [OF Cons.prems, of rid key]] show ?case by (simp add: rk)
qed simp

definition listed_keys :: "registry_property list \<Rightarrow> (string \<times> signing_key) list" where
  "listed_keys ps = concat (map (\<lambda>p. map (\<lambda>key. (rp_rid p, key)) (rp_keys p)) ps)"

lemma snapshot_keys_flat: "snapshot_keys ps = fold (\<lambda>(rid, key). snapshot_key rid key) (listed_keys ps) (Map.empty, Map.empty)"
proof -
  have "fold (\<lambda>p. fold (snapshot_key (rp_rid p)) (rp_keys p)) ps ko =
        fold (\<lambda>(rid, key). snapshot_key rid key) (listed_keys ps) ko" for ko
    by (induction ps arbitrary: ko) (simp_all add: listed_keys_def fold_map comp_def)
  then show ?thesis by (simp add: snapshot_keys_def)
qed

lemma image_snd_iff: "k \<in> f ` snd ` S \<longleftrightarrow> (\<exists>(a, b)\<in>S. f b = k)"
  by force

text \<open>The owner of a non-empty key id is the property that lists it first.\<close>

lemma own_first:
  "k \<noteq> '''' \<Longrightarrow> owners rks owner k =
     (case owner k of Some rid \<Rightarrow> Some rid | None \<Rightarrow> map_option fst (find (\<lambda>(rid, key). kid key = k) rks))"
proof (induction rks arbitrary: owner)
  case (Cons rk rks)
  obtain rid key where rk: "rk = (rid, key)" by (cases rk)
  from Cons.IH [OF Cons.prems, of "own rid key owner"] Cons.prems show ?case
    by (cases "owner k"; cases "kid key = k") (simp_all add: rk own_def fun_upd_def)
qed (simp split: option.split)

lemma own_empty: "owner '''' = None \<Longrightarrow> owners rks owner '''' = None"
  by (induction rks arbitrary: owner) (auto simp: own_def)

definition first_lister :: "registry_property list \<Rightarrow> string \<Rightarrow> string option" where
  "first_lister ps k = map_option fst (find (\<lambda>(rid, key). kid key = k) (listed_keys ps))"

lemma snapshot_lookup:
  "fst (snapshot_keys ps) k = Some key \<Longrightarrow>
     kid key = k \<and> k \<noteq> '''' \<and> (\<exists>rid. first_lister ps k = Some rid \<and> (rid, key) \<in> set (listed_keys ps))"
  "k \<noteq> '''' \<Longrightarrow> (\<exists>key. fst (snapshot_keys ps) k = Some key) \<longleftrightarrow> k \<in> kid ` snd ` set (listed_keys ps)"
proof -
  let ?owner = "owners (listed_keys ps) Map.empty"
  have inv: "keys_inv ?owner (listed_keys ps) (snapshot_keys ps)"
    using snapshot_keys_inv [of Map.empty "[]" "(Map.empty, Map.empty)" "listed_keys ps"]
    by (simp add: snapshot_keys_flat keys_inv_def)
  have first: "?owner k = first_lister ps k" if "k \<noteq> ''''" for k
    using own_first [OF that, of "listed_keys ps" Map.empty] by (simp add: first_lister_def)
  show "kid key = k \<and> k \<noteq> '''' \<and> (\<exists>rid. first_lister ps k = Some rid \<and> (rid, key) \<in> set (listed_keys ps))"
    if "fst (snapshot_keys ps) k = Some key"
  proof -
    from inv that obtain rid where owner: "kid key = k" "?owner k = Some rid" "(rid, key) \<in> set (listed_keys ps)"
      unfolding keys_inv_def by blast
    moreover have "k \<noteq> ''''" using owner(2) own_empty [of Map.empty] by force
    ultimately show ?thesis using first by auto
  qed
  show "(\<exists>key. fst (snapshot_keys ps) k = Some key) \<longleftrightarrow> k \<in> kid ` snd ` set (listed_keys ps)" if "k \<noteq> ''''"
  proof -
    from inv have dom: "dom (fst (snapshot_keys ps)) = dom ?owner" unfolding keys_inv_def by blast
    have "(\<exists>key. fst (snapshot_keys ps) k = Some key) \<longleftrightarrow> k \<in> dom (fst (snapshot_keys ps))"
      by (simp add: dom_def)
    also have "\<dots> \<longleftrightarrow> ?owner k \<noteq> None" unfolding dom by (rule domIff)
    also have "\<dots> \<longleftrightarrow> k \<in> kid ` snd ` set (listed_keys ps)"
      unfolding first [OF that] image_snd_iff first_lister_def by (auto simp: find_None_iff)
    finally show ?thesis .
  qed
qed

section \<open>What a registry stands for\<close>

text \<open>The registry as a map from property ids to records, under the operations of its writers.\<close>

datatype registry_op = OpLoad "registry_property list" nat | OpUpdate action registry_property nat | OpAttach string signing_key

fun registry_step :: "registry_op \<Rightarrow> registry \<Rightarrow> registry" where
  "registry_step (OpLoad ps seq) r = LoadFromData ps seq r"
| "registry_step (OpUpdate act p seq) r = ApplyUpdate act p seq r"
| "registry_step (OpAttach rid key) r = snd (AttachSigningKey rid key r)"

definition attach_key :: "string \<Rightarrow> signing_key \<Rightarrow> registry_property \<Rightarrow> registry_property" where
  "attach_key rid key p = (if rp_rid p = rid then p\<lparr>rp_keys := replace_key key (rp_keys p)\<rparr> else p)"

fun spec_step :: "registry_op \<Rightarrow> (string \<rightharpoonup> registry_property) \<Rightarrow> (string \<rightharpoonup> registry_property)" where
  "spec_step (OpLoad ps seq) m = map_of (map (\<lambda>p. (rp_id p, p)) ps)"
| "spec_step (OpUpdate ActRemove p seq) m = m(rp_id p := None)"
| "spec_step (OpUpdate (ActOther a) p seq) m = m"
| "spec_step (OpUpdate act p seq) m = m(rp_id p \<mapsto> p)"
| "spec_step (OpAttach rid key) m = map_option (attach_key rid key) \<circ> m"

fun spec_sequence :: "registry_op \<Rightarrow> nat \<Rightarrow> nat" where
  "spec_sequence (OpLoad ps seq) n = seq"
| "spec_sequence (OpUpdate act p seq) n = seq"
| "spec_sequence (OpAttach rid key) n = n"

text \<open>Stable naming: a property keeps its registry id and domain, no two share one, and a key id belongs to
  one property. Operations that respect a naming:\<close>

record naming =
  rid_of :: "string \<Rightarrow> string"
  domain_of :: "string \<Rightarrow> string"
  owner_of :: "string \<Rightarrow> string"

definition sound_naming :: "naming \<Rightarrow> bool" where
  "sound_naming N \<longleftrightarrow> inj (rid_of N) \<and> '''' \<notin> range (rid_of N) \<and>
     (\<forall>i j. domain_of N i = domain_of N j \<and> domain_of N i \<noteq> '''' \<longrightarrow> i = j)"

definition named :: "naming \<Rightarrow> registry_property \<Rightarrow> bool" where
  "named N p \<longleftrightarrow> rp_rid p = rid_of N (rp_id p) \<and> rp_domain p = domain_of N (rp_id p) \<and>
     (\<forall>key\<in>set (rp_keys p). kid key = '''' \<or> owner_of N (kid key) = rp_id p)"

fun obeys :: "naming \<Rightarrow> registry_op \<Rightarrow> bool" where
  "obeys N (OpLoad ps seq) \<longleftrightarrow> distinct (map rp_id ps) \<and> (\<forall>p\<in>set ps. named N p)"
| "obeys N (OpUpdate act p seq) \<longleftrightarrow> act \<in> {ActAdd, ActUpdate} \<longrightarrow> named N p"
| "obeys N (OpAttach rid key) \<longleftrightarrow> kid key \<noteq> '''' \<and> rid = rid_of N (owner_of N (kid key))"

text \<open>All four indexes agree with the map.\<close>

definition keys_stand :: "(string \<rightharpoonup> signing_key) \<Rightarrow> (string \<rightharpoonup> registry_property) \<Rightarrow> bool" where
  "keys_stand kids m \<longleftrightarrow>
     (\<forall>k key. kids k = Some key \<longrightarrow> k \<noteq> '''' \<and> kid key = k \<and> (\<exists>i p. m i = Some p \<and> key \<in> set (rp_keys p))) \<and>
     (\<forall>i p key. m i = Some p \<and> key \<in> set (rp_keys p) \<and> kid key \<noteq> '''' \<longrightarrow> kids (kid key) \<noteq> None)"

definition stands_for :: "naming \<Rightarrow> registry \<Rightarrow> (string \<rightharpoonup> registry_property) \<Rightarrow> bool" where
  "stands_for N r m \<longleftrightarrow>
     index_ok rp_id (store r) (byID r) \<and> m = LookupByID r \<and>
     (\<forall>i. byRID r (rid_of N i) = byID r i) \<and> dom (byRID r) \<subseteq> range (rid_of N) \<and>
     (\<forall>i p. m i = Some p \<longrightarrow> named N p) \<and>
     (\<forall>d i. byDomain r d = Some i \<longleftrightarrow> d \<noteq> '''' \<and> domain_of N i = d \<and> m i \<noteq> None) \<and>
     keys_stand (byKid r) m"

lemma stands_id: "stands_for N r m \<Longrightarrow> m i = Some p \<Longrightarrow> rp_id p = i"
  by (auto simp: stands_for_def LookupByID_def deref_def index_ok_def)

lemma lookup_indexed: "LookupByID r = (\<lambda>i. map_option ((!) (store r)) (byID r i))"
  by (simp add: LookupByID_def deref_def fun_eq_iff)

lemma new_stands: "stands_for N NewRegistry Map.empty"
  by (simp add: stands_for_def NewRegistry_def index_ok_def LookupByID_def deref_def fun_eq_iff keys_stand_def)

section \<open>Loading\<close>

lemma last_index_Some:
  assumes "distinct (map f ps)"
  shows "last_index f ps k = Some a \<longleftrightarrow> a < length ps \<and> f (ps ! a) = k"
  using last_index_ok [of f ps] last_index_distinct [OF assms] by (auto simp: index_ok_def)

lemma load_stands:
  assumes N: "sound_naming N" and ok: "obeys N (OpLoad ps seq)"
  shows "stands_for N (LoadFromData ps seq r) (spec_step (OpLoad ps seq) m)"
proof -
  let ?r = "LoadFromData ps seq r" and ?m = "map_of (map (\<lambda>p. (rp_id p, p)) ps)"
  have dist: "distinct (map rp_id ps)" and names: "\<And>p. p \<in> set ps \<Longrightarrow> named N p" using ok by auto
  have inj: "rid_of N i = rid_of N j \<longleftrightarrow> i = j" for i j using N unfolding sound_naming_def by (metis injD)
  have dom_inj: "domain_of N i = domain_of N j \<Longrightarrow> domain_of N i \<noteq> '''' \<Longrightarrow> i = j" for i j
    using N unfolding sound_naming_def by blast
  have "inj_on (rid_of N) (set (map rp_id ps))" by (rule inj_onI) (simp add: inj)
  with dist have "distinct (map (rid_of N) (map rp_id ps))" by (subst distinct_map) (rule conjI)
  moreover have "map (rid_of N) (map rp_id ps) = map rp_rid ps" using names by (simp add: named_def)
  ultimately have rids: "distinct (map rp_rid ps)" by (simp only:)
  have m: "?m i = Some p \<longleftrightarrow> p \<in> set ps \<and> rp_id p = i" for i p
    using dist by (subst map_of_eq_Some_iff) (auto simp: comp_def)
  have store: "store ?r = ps" "byID ?r = last_index rp_id ps" "byRID ?r = last_index rp_rid ps"
    by (simp_all add: LoadFromData_def applySnapshot_def)
  have "?m i = LookupByID ?r i" for i
  proof (rule option.expand)
    show "(?m i = None) = (LookupByID ?r i = None)"
      using m [of i] last_index_Some [OF dist, of i]
      by (cases "?m i"; cases "last_index rp_id ps i") (auto simp: lookup_indexed store in_set_conv_nth)
    assume "?m i \<noteq> None" "LookupByID ?r i \<noteq> None"
    then obtain p a where pa: "?m i = Some p" "last_index rp_id ps i = Some a"
      by (auto simp: lookup_indexed store)
    with m last_index_Some [OF dist] have "p \<in> set ps" "rp_id p = i" "a < length ps" "rp_id (ps ! a) = i" by auto
    with dist have "p = ps ! a" by (auto simp: distinct_map inj_on_def)
    with pa show "the (?m i) = the (LookupByID ?r i)" by (simp add: lookup_indexed store)
  qed
  then have look: "?m = LookupByID ?r" by (rule ext)
  have "last_index rp_rid ps (rid_of N i) = Some a \<longleftrightarrow> last_index rp_id ps i = Some a" for i a
    using names by (auto simp: last_index_Some [OF dist] last_index_Some [OF rids] named_def inj)
  then have rid: "byRID ?r (rid_of N i) = byID ?r i" for i
    unfolding store by (metis not_Some_eq)
  have range: "dom (byRID ?r) \<subseteq> range (rid_of N)"
    using names by (auto simp: store last_index_Some [OF rids] named_def)
  have domain: "byDomain ?r d = Some i \<longleftrightarrow> d \<noteq> '''' \<and> domain_of N i = d \<and> ?m i \<noteq> None" for d i
  proof -
    define es where "es = rev (map (\<lambda>p. (rp_domain p, rp_id p)) (filter (\<lambda>p. rp_domain p \<noteq> '''') ps))"
    have entry: "(d, i) \<in> set es \<longleftrightarrow> (\<exists>p\<in>set ps. rp_domain p = d \<and> rp_id p = i \<and> d \<noteq> '''')" for d i
      unfolding es_def by auto
    have es: "(d, i) \<in> set es \<longleftrightarrow> d \<noteq> '''' \<and> domain_of N i = d \<and> ?m i \<noteq> None" for d i
    proof
      assume "(d, i) \<in> set es"
      then obtain p where p: "p \<in> set ps" "rp_domain p = d" "rp_id p = i" "d \<noteq> ''''" unfolding entry by blast
      with m [of i p] names [OF p(1)] show "d \<noteq> '''' \<and> domain_of N i = d \<and> ?m i \<noteq> None" by (simp add: named_def)
    next
      assume a: "d \<noteq> '''' \<and> domain_of N i = d \<and> ?m i \<noteq> None"
      then obtain p where "?m i = Some p" by blast
      with m have p: "p \<in> set ps" "rp_id p = i" by simp_all
      with a names [OF p(1)] show "(d, i) \<in> set es" unfolding entry named_def by blast
    qed
    have "map_of es d = Some i \<longleftrightarrow> (d, i) \<in> set es"
    proof
      assume di: "(d, i) \<in> set es"
      then have "map_of es d \<noteq> None" unfolding map_of_eq_None_iff by force
      then obtain j where j: "map_of es d = Some j" by blast
      then have "(d, j) \<in> set es" by (rule map_of_SomeD)
      with di dom_inj [of i j] es have "i = j" by simp
      with j show "map_of es d = Some i" by simp
    qed (rule map_of_SomeD)
    moreover have "byDomain ?r = map_of es" by (simp add: LoadFromData_def applySnapshot_def es_def)
    ultimately show ?thesis using es by simp
  qed
  have listed: "(rid, key) \<in> set (listed_keys ps) \<longleftrightarrow> (\<exists>p\<in>set ps. rid = rp_rid p \<and> key \<in> set (rp_keys p))" for rid key
    by (auto simp: listed_keys_def)
  have kids: "keys_stand (byKid ?r) ?m"
  proof -
    have k: "byKid ?r = fst (snapshot_keys ps)" by (simp add: LoadFromData_def applySnapshot_def)
    have "k \<noteq> '''' \<and> kid key = k \<and> (\<exists>i p. ?m i = Some p \<and> key \<in> set (rp_keys p))"
      if "fst (snapshot_keys ps) k = Some key" for k key
      using snapshot_lookup(1) [OF that] by (auto simp: listed m)
    moreover have "fst (snapshot_keys ps) (kid key) \<noteq> None"
      if "?m i = Some p" "key \<in> set (rp_keys p)" "kid key \<noteq> ''''" for i p key
      using snapshot_lookup(2) [OF that(3), of ps] that(1,2) listed [of _ key] by (force simp: m)
    ultimately show ?thesis unfolding keys_stand_def k by blast
  qed
  have "index_ok rp_id (store ?r) (byID ?r)" by (simp add: store last_index_ok)
  then show ?thesis
    unfolding stands_for_def spec_step.simps using look rid range domain kids names m by blast
qed

section \<open>Updating\<close>

lemma fold_update_Some:
  "fold update_key ks K k = Some key \<Longrightarrow> K k = Some key \<or> key \<in> set ks \<and> kid key = k \<and> k \<noteq> ''''"
proof (induction ks arbitrary: K)
  case (Cons x ks)
  then have "update_key x K k = Some key \<or> key \<in> set ks \<and> kid key = k \<and> k \<noteq> ''''" by simp
  then show ?case by (auto simp: update_key_def split: if_splits)
qed simp

lemma fold_update_dom: "dom (fold update_key ks K) = dom K \<union> (kid ` set ks - {''''})"
proof (induction ks arbitrary: K)
  case (Cons x ks)
  have "dom (update_key x K) = dom K \<union> ({kid x} - {''''})" by (auto simp: update_key_def)
  then show ?case unfolding fold_simps Cons.IH by auto
qed simp

lemma keys_drop:
  assumes "keys_stand kids m" "\<forall>i p. m i = Some p \<longrightarrow> named N p \<and> rp_id p = i" "m i = Some e"
  shows "keys_stand (delete_kids (rp_keys e) kids) (m(i := None))"
  unfolding keys_stand_def
proof (intro conjI allI impI)
  fix k key assume "delete_kids (rp_keys e) kids k = Some key"
  then have kk: "kids k = Some key" "k \<notin> kid ` set (rp_keys e)" by (auto simp: delete_kids_def restrict_map_def split: if_splits)
  with assms(1) obtain j q where jq: "k \<noteq> ''''" "kid key = k" "m j = Some q" "key \<in> set (rp_keys q)"
    unfolding keys_stand_def by blast
  have "j \<noteq> i"
  proof
    assume "j = i"
    with jq assms(3) have "key \<in> set (rp_keys e)" by simp
    with jq(2) kk(2) show False by blast
  qed
  with jq show "k \<noteq> ''''" "kid key = k" "\<exists>j q. (m(i := None)) j = Some q \<and> key \<in> set (rp_keys q)"
    by (auto intro!: exI [of _ j] exI [of _ q])
next
  fix j q key assume a: "(m(i := None)) j = Some q \<and> key \<in> set (rp_keys q) \<and> kid key \<noteq> ''''"
  then have jq: "j \<noteq> i" "m j = Some q" by (auto split: if_splits)
  with assms(2) have q: "named N q" "rp_id q = j" by blast+
  have e: "named N e" "rp_id e = i" using assms(2,3) by blast+
  from q a have "owner_of N (kid key) = j" by (auto simp: named_def)
  moreover have "owner_of N (kid key) = i" if "kid key \<in> kid ` set (rp_keys e)"
    using that a e by (auto simp: named_def)
  ultimately have "kid key \<notin> kid ` set (rp_keys e)" using jq(1) by blast
  moreover have "kids (kid key) \<noteq> None" using assms(1) jq(2) a unfolding keys_stand_def by blast
  ultimately show "delete_kids (rp_keys e) kids (kid key) \<noteq> None" by (simp add: delete_kids_def)
qed

lemma keys_add:
  assumes "keys_stand kids m" "m i = None"
  shows "keys_stand (fold update_key (rp_keys p) kids) (m(i \<mapsto> p))"
  unfolding keys_stand_def
proof (intro conjI allI impI)
  fix k key assume "fold update_key (rp_keys p) kids k = Some key"
  from fold_update_Some [OF this] consider "kids k = Some key" | "key \<in> set (rp_keys p)" "kid key = k" "k \<noteq> ''''" by blast
  then have "k \<noteq> '''' \<and> kid key = k \<and> (\<exists>j q. (m(i \<mapsto> p)) j = Some q \<and> key \<in> set (rp_keys q))"
  proof cases
    case 1
    with assms(1) obtain j q where "k \<noteq> ''''" "kid key = k" "m j = Some q" "key \<in> set (rp_keys q)"
      unfolding keys_stand_def by blast
    moreover from this assms(2) have "j \<noteq> i" by auto
    ultimately show ?thesis by (auto intro!: exI [of _ j] exI [of _ q])
  next
    case 2
    then show ?thesis by (auto intro!: exI [of _ i] exI [of _ p])
  qed
  then show "k \<noteq> ''''" "kid key = k" "\<exists>j q. (m(i \<mapsto> p)) j = Some q \<and> key \<in> set (rp_keys q)" by blast+
next
  fix j q key assume a: "(m(i \<mapsto> p)) j = Some q \<and> key \<in> set (rp_keys q) \<and> kid key \<noteq> ''''"
  have "kid key \<in> dom kids \<union> (kid ` set (rp_keys p) - {''''})"
  proof (cases "j = i")
    case False
    with a assms(1) show ?thesis unfolding keys_stand_def by auto
  qed (use a in auto)
  then have "kid key \<in> dom (fold update_key (rp_keys p) kids)" unfolding fold_update_dom .
  then show "fold update_key (rp_keys p) kids (kid key) \<noteq> None" by blast
qed

text \<open>What \<open>stands_for\<close> gives, with the map on the left so that rewriting does not unfold it.\<close>

lemma stands_facts:
  assumes "stands_for N r m"
  shows "index_ok rp_id (store r) (byID r)" "LookupByID r = m" "byRID r (rid_of N i) = byID r i"
    "dom (byRID r) \<subseteq> range (rid_of N)" "m i = Some p \<Longrightarrow> named N p"
    "byDomain r d = Some i \<longleftrightarrow> d \<noteq> '''' \<and> domain_of N i = d \<and> m i \<noteq> None" "keys_stand (byKid r) m"
proof -
  note c1 = assms [unfolded stands_for_def]
  note c2 = conjunct2 [OF c1]
  note c3 = conjunct2 [OF c2]
  note c4 = conjunct2 [OF c3]
  note c5 = conjunct2 [OF c4]
  note c6 = conjunct2 [OF c5]
  show "index_ok rp_id (store r) (byID r)" by (rule conjunct1 [OF c1])
  show "LookupByID r = m" by (rule conjunct1 [OF c2, symmetric])
  show "byRID r (rid_of N i) = byID r i" by (rule conjunct1 [OF c3, rule_format])
  show "dom (byRID r) \<subseteq> range (rid_of N)" by (rule conjunct1 [OF c4])
  show "named N p" if "m i = Some p" by (rule conjunct1 [OF c5, rule_format, OF that])
  show "byDomain r d = Some i \<longleftrightarrow> d \<noteq> '''' \<and> domain_of N i = d \<and> m i \<noteq> None"
    by (rule conjunct1 [OF c6, THEN spec, THEN spec])
  show "keys_stand (byKid r) m" by (rule conjunct2 [OF c6])
qed

lemma sound_facts:
  assumes "sound_naming N"
  shows "rid_of N i = rid_of N j \<longleftrightarrow> i = j" "rid_of N i \<noteq> ''''"
    "domain_of N i = domain_of N j \<Longrightarrow> domain_of N i \<noteq> '''' \<Longrightarrow> i = j"
proof -
  show "rid_of N i = rid_of N j \<longleftrightarrow> i = j" using assms unfolding sound_naming_def by (metis injD)
  show "rid_of N i \<noteq> ''''" using assms unfolding sound_naming_def by (metis rangeI)
  show "domain_of N i = domain_of N j \<Longrightarrow> domain_of N i \<noteq> '''' \<Longrightarrow> i = j"
    using assms unfolding sound_naming_def by blast
qed

lemma stands_sequence: "stands_for N (r\<lparr>sequence := seq\<rparr>) m \<longleftrightarrow> stands_for N r m"
proof -
  have "LookupByID (r\<lparr>sequence := seq\<rparr>) = LookupByID r" by (simp add: lookup_indexed)
  then show ?thesis unfolding stands_for_def by simp
qed

text \<open>The key index without the keys of the entry an update replaces or removes.\<close>

lemma kids_without:
  assumes st: "stands_for N r m"
  shows "keys_stand (case m i of Some e \<Rightarrow> delete_kids (rp_keys e) (byKid r) | None \<Rightarrow> byKid r) (m(i := None))"
proof (cases "m i")
  case None
  then have "m(i := None) = m" by (rule fun_upd_idem)
  with None stands_facts(7) [OF st] show ?thesis by simp
next
  case (Some e)
  have "\<forall>i p. m i = Some p \<longrightarrow> named N p \<and> rp_id p = i"
    using stands_facts(5) [OF st] stands_id [OF st] by blast
  from keys_drop [OF stands_facts(7) [OF st] this Some] Some show ?thesis by simp
qed

lemma put_stands:
  assumes N: "sound_naming N" and st: "stands_for N r m" and p: "named N p" and act: "act \<in> {ActAdd, ActUpdate}"
  shows "stands_for N (ApplyUpdate act p seq r) (m(rp_id p \<mapsto> p))"
proof -
  let ?r = "ApplyUpdate act p seq r" and ?i = "rp_id p"
  let ?m = "m(?i \<mapsto> p)"
  let ?kids = "case m ?i of Some e \<Rightarrow> delete_kids (rp_keys e) (byKid r) | None \<Rightarrow> byKid r"
  note old = stands_facts [OF st] and sound = sound_facts [OF N]
  have p_names: "rp_rid p = rid_of N ?i" "rp_domain p = domain_of N ?i" using p unfolding named_def by blast+
  have r: "store ?r = store r @ [p]" "byID ?r = (byID r)(?i \<mapsto> length (store r))"
    "byRID ?r = (byRID r)(rid_of N ?i \<mapsto> length (store r))"
    "byDomain ?r = (if domain_of N ?i \<noteq> '''' then (byDomain r)(domain_of N ?i \<mapsto> ?i) else byDomain r)"
    "byKid ?r = fold update_key (rp_keys p) ?kids"
    using act by (auto simp: ApplyUpdate_def Let_def p_names old(2))
  have index: "index_ok rp_id (store ?r) (byID ?r)" unfolding r by (rule index_ok_add [OF old(1)])
  have look: "?m = LookupByID ?r"
  proof
    fix i
    have "(store r @ [p]) ! a = store r ! a" if "byID r i = Some a" for a
      using old(1) that by (simp add: index_ok_def nth_append)
    then have "LookupByID ?r i = (if i = ?i then Some p else LookupByID r i)"
      by (cases "byID r i") (simp_all add: lookup_indexed r)
    then show "?m i = LookupByID ?r i" by (simp add: old(2))
  qed
  have rid: "byRID ?r (rid_of N i) = byID ?r i" for i by (simp add: r sound(1) old(3))
  have range: "dom (byRID ?r) \<subseteq> range (rid_of N)" unfolding r using old(4) by auto
  have names: "named N q" if "?m i = Some q" for i q using that p old(5) [of i q] by (simp split: if_splits)
  have domains: "byDomain ?r d = Some i \<longleftrightarrow> d \<noteq> '''' \<and> domain_of N i = d \<and> ?m i \<noteq> None" for d i
  proof (cases "domain_of N ?i \<noteq> '''' \<and> d = domain_of N ?i")
    case True
    then have "byDomain ?r d = Some i \<longleftrightarrow> i = ?i" by (auto simp: r)
    with True sound(3) [of i ?i] show ?thesis by auto
  next
    case False
    then have "byDomain ?r d = byDomain r d" by (auto simp: r)
    moreover have "i \<noteq> ?i" if "d \<noteq> ''''" "domain_of N i = d" using that False by metis
    ultimately show ?thesis using old(6) [of d i] by auto
  qed
  have "keys_stand (byKid ?r) ((m(?i := None))(?i \<mapsto> p))"
    unfolding r by (rule keys_add [OF kids_without [OF st]]) simp
  then have keys: "keys_stand (byKid ?r) ?m" by simp
  show ?thesis unfolding stands_for_def using index look rid range names domains keys by blast
qed

lemma remove_stands:
  assumes N: "sound_naming N" and st: "stands_for N r m"
  shows "stands_for N (ApplyUpdate ActRemove p seq r) (m(rp_id p := None))"
proof (cases "m (rp_id p)")
  case None
  then have "m(rp_id p := None) = m" by (rule fun_upd_idem)
  moreover have "ApplyUpdate ActRemove p seq r = r\<lparr>sequence := seq\<rparr>"
    using None by (simp add: ApplyUpdate_def Let_def stands_facts(2) [OF st])
  ultimately show ?thesis using st by (simp add: stands_sequence)
next
  case (Some e)
  let ?r = "ApplyUpdate ActRemove p seq r" and ?i = "rp_id p"
  let ?m = "m(?i := None)"
  note old = stands_facts [OF st] and sound = sound_facts [OF N]
  have e: "rp_id e = ?i" by (rule stands_id [OF st Some])
  then have e_names: "rp_rid e = rid_of N ?i" "rp_domain e = domain_of N ?i"
    using old(5) [OF Some] unfolding named_def by simp_all
  have r: "store ?r = store r" "byID ?r = (byID r)(?i := None)" "byRID ?r = (byRID r)(rid_of N ?i := None)"
    "byDomain ?r = (if domain_of N ?i \<noteq> '''' then (byDomain r)(domain_of N ?i := None) else byDomain r)"
    "byKid ?r = delete_kids (rp_keys e) (byKid r)"
    by (simp_all add: ApplyUpdate_def Let_def e_names old(2) Some e sound(2))
  have index: "index_ok rp_id (store ?r) (byID ?r)" unfolding r by (rule index_ok_remove [OF old(1)])
  have look: "?m = LookupByID ?r"
  proof
    fix i
    have "LookupByID ?r i = (if i = ?i then None else LookupByID r i)" by (simp add: lookup_indexed r)
    then show "?m i = LookupByID ?r i" by (simp add: old(2))
  qed
  have rid: "byRID ?r (rid_of N i) = byID ?r i" for i by (simp add: r sound(1) old(3))
  have range: "dom (byRID ?r) \<subseteq> range (rid_of N)" unfolding r using old(4) by auto
  have names: "named N q" if "?m i = Some q" for i q using that old(5) [of i q] by (simp split: if_splits)
  have domains: "byDomain ?r d = Some i \<longleftrightarrow> d \<noteq> '''' \<and> domain_of N i = d \<and> ?m i \<noteq> None" for d i
  proof (cases "domain_of N ?i \<noteq> '''' \<and> d = domain_of N ?i")
    case True
    then have "byDomain ?r d = None" by (simp add: r)
    with True sound(3) [of i ?i] show ?thesis by auto
  next
    case False
    then have "byDomain ?r d = byDomain r d" by (auto simp: r)
    moreover have "i \<noteq> ?i" if "d \<noteq> ''''" "domain_of N i = d" using that False by metis
    ultimately show ?thesis using old(6) [of d i] by auto
  qed
  have keys: "keys_stand (byKid ?r) ?m" using kids_without [OF st, of ?i] Some by (simp add: r)
  show ?thesis unfolding stands_for_def using index look rid range names domains keys by blast
qed

section \<open>Attaching a key\<close>

lemma replace_key_set:
  "key \<in> set (replace_key key ks)" "set (replace_key key ks) \<subseteq> insert key (set ks)"
  "k \<in> set ks \<Longrightarrow> kid k \<noteq> kid key \<Longrightarrow> k \<in> set (replace_key key ks)"
  by (induction ks) auto

lemma attach_stands:
  assumes N: "sound_naming N" and st: "stands_for N r m" and ok: "obeys N (OpAttach rid key)"
  shows "stands_for N (snd (AttachSigningKey rid key r)) (map_option (attach_key rid key) \<circ> m)"
proof -
  define i where "i = owner_of N (kid key)"
  note old = stands_facts [OF st] and sound = sound_facts [OF N]
  have rid: "rid = rid_of N i" and kid: "kid key \<noteq> ''''" using ok by (simp_all add: i_def)
  have others: "attach_key rid key q = q" if "m j = Some q" "j \<noteq> i" for j q
    using old(5) [OF that(1)] stands_id [OF st that(1)] that(2) by (simp add: attach_key_def named_def rid sound(1))
  show ?thesis
  proof (cases "byID r i")
    case None
    then have "m i = None" by (simp add: old(2) [symmetric] lookup_indexed)
    then have "(map_option (attach_key rid key) \<circ> m) j = m j" for j using others [of j] by (cases "m j"; cases "j = i") auto
    then have "map_option (attach_key rid key) \<circ> m = m" by (rule ext)
    moreover have "snd (AttachSigningKey rid key r) = r" using None by (simp add: AttachSigningKey_def rid old(3))
    ultimately show ?thesis using st by (simp only:)
  next
    case (Some a)
    let ?r = "snd (AttachSigningKey rid key r)" and ?p = "store r ! a"
    let ?q = "?p\<lparr>rp_keys := replace_key key (rp_keys ?p)\<rparr>"
    let ?m = "m(i \<mapsto> ?q)"
    have mi: "m i = Some ?p" using Some by (simp add: old(2) [symmetric] lookup_indexed)
    have p: "rp_id ?p = i" "named N ?p" using stands_id [OF st mi] old(5) [OF mi] .
    have q: "attach_key rid key ?p = ?q" using p by (simp add: attach_key_def named_def rid)
    have m: "map_option (attach_key rid key) \<circ> m = ?m"
    proof
      fix j show "(map_option (attach_key rid key) \<circ> m) j = ?m j"
        using others [of j] mi q by (cases "m j"; cases "j = i") auto
    qed
    have r: "store ?r = (store r)[a := ?q]" "byID ?r = byID r" "byRID ?r = byRID r" "byDomain ?r = byDomain r"
      "byKid ?r = (byKid r)(kid key \<mapsto> key)"
      using Some by (simp_all add: AttachSigningKey_def rid old(3) Let_def)
    have index: "index_ok rp_id (store ?r) (byID ?r)" unfolding r by (rule index_ok_rewrite [OF old(1)]) simp
    have look: "?m = LookupByID ?r"
    proof
      fix j
      have len: "a < length (store r)" using old(1) Some unfolding index_ok_def by blast
      have "b \<noteq> a" if "byID r j = Some b" "j \<noteq> i" for b
        using old(1) that p(1) unfolding index_ok_def by metis
      then have "LookupByID ?r j = (if j = i then Some ?q else LookupByID r j)"
        using len Some by (cases "byID r j") (auto simp: lookup_indexed r)
      then show "?m j = LookupByID ?r j" by (simp add: old(2))
    qed
    have rids: "byRID ?r (rid_of N j) = byID ?r j" for j by (simp add: r old(3))
    have range: "dom (byRID ?r) \<subseteq> range (rid_of N)" unfolding r by (rule old(4))
    have "named N ?q"
    proof -
      have "kid k = '''' \<or> owner_of N (kid k) = i" if "k \<in> set (replace_key key (rp_keys ?p))" for k
      proof (cases "k = key")
        case False
        with that replace_key_set(2) have "k \<in> set (rp_keys ?p)" by blast
        with p show ?thesis by (simp add: named_def)
      qed (simp add: i_def)
      with p show ?thesis by (simp add: named_def)
    qed
    then have names: "named N x" if "?m j = Some x" for j x using that old(5) [of j x] by (simp split: if_splits)
    have domains: "byDomain ?r d = Some j \<longleftrightarrow> d \<noteq> '''' \<and> domain_of N j = d \<and> ?m j \<noteq> None" for d j
      using old(6) [of d j] mi by (cases "j = i") (simp_all add: r)
    have keys: "keys_stand (byKid ?r) ?m"
      unfolding keys_stand_def
    proof (intro conjI allI impI)
      fix k x assume k: "byKid ?r k = Some x"
      have "k \<noteq> '''' \<and> kid x = k \<and> (\<exists>j y. ?m j = Some y \<and> x \<in> set (rp_keys y))"
      proof (cases "k = kid key")
        case True
        with k have x: "x = key" by (simp add: r)
        have "?m i = Some ?q" "key \<in> set (rp_keys ?q)" by (simp_all add: replace_key_set)
        then have "\<exists>j y. ?m j = Some y \<and> x \<in> set (rp_keys y)" unfolding x by (intro exI conjI)
        with x show ?thesis using True kid by simp
      next
        case False
        with k have "byKid r k = Some x" by (simp add: r)
        with old(7) obtain j y where y: "k \<noteq> ''''" "kid x = k" "m j = Some y" "x \<in> set (rp_keys y)"
          unfolding keys_stand_def by blast
        have "\<exists>z. ?m j = Some z \<and> x \<in> set (rp_keys z)"
        proof (cases "j = i")
          case True
          with y mi have "x \<in> set (rp_keys ?p)" by simp
          with y False True show ?thesis by (simp add: replace_key_set)
        qed (use y in simp)
        with y show ?thesis by blast
      qed
      then show "k \<noteq> ''''" "kid x = k" "\<exists>j y. ?m j = Some y \<and> x \<in> set (rp_keys y)" by blast+
    next
      fix j y x assume a: "?m j = Some y \<and> x \<in> set (rp_keys y) \<and> kid x \<noteq> ''''"
      show "byKid ?r (kid x) \<noteq> None"
      proof (cases "x = key")
        case False
        have "\<exists>z. m j = Some z \<and> x \<in> set (rp_keys z)"
        proof (cases "j = i")
          case True
          with a have "x \<in> set (replace_key key (rp_keys ?p))" by auto
          with False replace_key_set(2) have "x \<in> set (rp_keys ?p)" by blast
          with mi True show ?thesis by blast
        qed (use a in simp)
        with a old(7) have "byKid r (kid x) \<noteq> None" unfolding keys_stand_def by blast
        then show ?thesis by (simp add: r)
      qed (simp add: r)
    qed
    show ?thesis unfolding stands_for_def m using index look rids range names domains keys by blast
  qed
qed

section \<open>Histories\<close>

lemma step_stands:
  assumes N: "sound_naming N" and st: "stands_for N r m" and ok: "obeys N op"
  shows "stands_for N (registry_step op r) (spec_step op m)"
proof (cases op)
  case (OpLoad ps seq)
  with load_stands [OF N, of ps seq r m] ok show ?thesis by (simp only: registry_step.simps)
next
  case (OpUpdate act p seq)
  show ?thesis
  proof (cases act)
    case ActRemove
    with OpUpdate remove_stands [OF N st] show ?thesis by simp
  next
    case (ActOther a)
    then have "ApplyUpdate act p seq r = r\<lparr>sequence := seq\<rparr>" by (simp add: ApplyUpdate_def Let_def)
    with OpUpdate ActOther st show ?thesis by (simp add: stands_sequence)
  qed (use OpUpdate ok put_stands [OF N st, of p act seq] in simp_all)
next
  case (OpAttach rid key)
  with attach_stands [OF N st, of rid key] ok show ?thesis by (simp only: registry_step.simps spec_step.simps)
qed

lemma run_stands:
  "sound_naming N \<Longrightarrow> \<forall>op\<in>set ops. obeys N op \<Longrightarrow> stands_for N r m \<Longrightarrow>
   stands_for N (fold registry_step ops r) (fold spec_step ops m)"
proof (induction ops arbitrary: r m)
  case (Cons op ops)
  from step_stands [OF Cons.prems(1,3), of op] Cons.prems(2) have "stands_for N (registry_step op r) (spec_step op m)" by simp
  with Cons.IH [OF Cons.prems(1)] Cons.prems(2) show ?case by simp
qed simp

lemma step_sequence: "sequence (registry_step op r) = spec_sequence op (sequence r)"
  by (cases op) (simp_all add: LoadFromData_def applySnapshot_def ApplyUpdate_def AttachSigningKey_def Let_def split: option.split)

lemma run_sequence: "sequence (fold registry_step ops r) = fold spec_sequence ops (sequence r)"
  by (induction ops arbitrary: r) (simp_all add: step_sequence)

section \<open>Properties\<close>

text \<open>C40: the registry refines a map from property ids to properties, over every history of loads, updates
  (add, update, remove, unknown) and key attachments, as long as the naming in the data is stable: each
  property has one non-empty registry id, no two share a registry id or a domain, a non-empty key id
  belongs to one property, and a load lists each id once (without this it fails: lemmas
  \<open>remove_drops_foreign_key\<close> and \<open>update_keeps_old_rid\<close>). A load makes the map the listed properties, add
  and update write one, remove deletes it, an attachment replaces or appends the key of the named
  property. Then lookup by id, by registry id and by domain answer exactly from that map; a non-empty
  key id resolves exactly when a property in it lists the key id, to a key with that id that a property
  lists; and the sequence is that of the last load or update.\<close>

theorem registry_refines:
  assumes N: "sound_naming N" and ops: "\<forall>op\<in>set ops. obeys N op"
  defines "r \<equiv> fold registry_step ops NewRegistry" and "m \<equiv> fold spec_step ops Map.empty"
  shows "(\<forall>i. LookupByID r i = m i) \<and>
    (\<forall>rid p. LookupByRID r rid = Some p \<longleftrightarrow> m (rp_id p) = Some p \<and> rp_rid p = rid) \<and>
    (\<forall>d i. LookupByDomain r d = Some i \<longleftrightarrow> d \<noteq> '''' \<and> (\<exists>p. m i = Some p \<and> rp_domain p = d)) \<and>
    (\<forall>k. k \<noteq> '''' \<longrightarrow> (LookupRegistryKey r k \<noteq> None \<longleftrightarrow> (\<exists>i p. m i = Some p \<and> k \<in> kid ` set (rp_keys p)))) \<and>
    (\<forall>k key. LookupRegistryKey r k = Some key \<longrightarrow> kid key = k \<and> (\<exists>i p. m i = Some p \<and> key \<in> set (rp_keys p))) \<and>
    sequence r = fold spec_sequence ops 0"
proof -
  have st: "stands_for N r m" unfolding r_def m_def by (rule run_stands [OF N ops new_stands])
  note facts = stands_facts [OF st]
  have "LookupByRID r rid = Some p \<longleftrightarrow> m (rp_id p) = Some p \<and> rp_rid p = rid" for rid p
  proof
    assume l: "LookupByRID r rid = Some p"
    then have "rid \<in> dom (byRID r)" by (auto simp: LookupByRID_def deref_def)
    with facts(4) obtain i where rid: "rid = rid_of N i" by blast
    with l have mi: "m i = Some p" by (simp add: LookupByRID_def facts(3) facts(2) [symmetric] LookupByID_def)
    with facts(5) [OF mi] stands_id [OF st mi] show "m (rp_id p) = Some p \<and> rp_rid p = rid" by (simp add: rid named_def)
  next
    assume a: "m (rp_id p) = Some p \<and> rp_rid p = rid"
    with facts(5) [of "rp_id p" p] have "rid = rid_of N (rp_id p)" unfolding named_def by simp
    with a show "LookupByRID r rid = Some p" by (simp add: LookupByRID_def facts(3) facts(2) [symmetric] LookupByID_def)
  qed
  moreover have "LookupByDomain r d = Some i \<longleftrightarrow> d \<noteq> '''' \<and> (\<exists>p. m i = Some p \<and> rp_domain p = d)" for d i
  proof -
    have "rp_domain p = domain_of N i" if "m i = Some p" for p
      using facts(5) [OF that] stands_id [OF st that] unfolding named_def by blast
    then show ?thesis unfolding LookupByDomain_def facts(6) by auto
  qed
  moreover have "LookupRegistryKey r k \<noteq> None \<longleftrightarrow> (\<exists>i p. m i = Some p \<and> k \<in> kid ` set (rp_keys p))" if "k \<noteq> ''''" for k
    using facts(7) that unfolding keys_stand_def LookupRegistryKey_def by blast
  moreover have "kid key = k \<and> (\<exists>i p. m i = Some p \<and> key \<in> set (rp_keys p))" if "LookupRegistryKey r k = Some key" for k key
    using facts(7) that unfolding keys_stand_def LookupRegistryKey_def by blast
  moreover have "sequence r = fold spec_sequence ops 0" by (simp add: r_def run_sequence NewRegistry_def)
  ultimately show ?thesis using facts(2) by blast
qed
definition prop_a :: registry_property where
  "prop_a = \<lparr>rp_id = ''a'', rp_rid = ''rid-a'', rp_type = ''website'', rp_domain = ''a.example'', rp_placements = [],
     rp_keys = [toy_key]\<rparr>"

definition prop_b :: registry_property where
  "prop_b = \<lparr>rp_id = ''b'', rp_rid = ''rid-b'', rp_type = ''website'', rp_domain = ''b.example'', rp_placements = [],
     rp_keys = [toy_key\<lparr>key_x := ''y''\<rparr>]\<rparr>"

definition prop_c :: registry_property where
  "prop_c = \<lparr>rp_id = ''c'', rp_rid = ''rid-c'', rp_type = ''website'', rp_domain = ''c.example'', rp_placements = [],
     rp_keys = [toy_key\<lparr>kid := ''k2''\<rparr>]\<rparr>"

definition sample_naming :: naming where
  "sample_naming = \<lparr>rid_of = (\<lambda>i. ''rid-'' @ i), domain_of = (\<lambda>i. i @ ''.example''),
     owner_of = (\<lambda>k. if k = ''k1'' then ''a'' else ''c'')\<rparr>"

definition sample_ops :: "registry_op list" where
  "sample_ops = [OpLoad [prop_a] 1, OpUpdate ActAdd prop_c 2, OpAttach ''rid-c'' (toy_key\<lparr>kid := ''k3''\<rparr>),
     OpUpdate ActRemove prop_a 3]"

theorem registry_refines_witness:
  "LookupByRID (fold registry_step sample_ops NewRegistry) ''rid-c'' =
     Some (prop_c\<lparr>rp_keys := [toy_key\<lparr>kid := ''k2''\<rparr>, toy_key\<lparr>kid := ''k3''\<rparr>]\<rparr>) \<and>
   LookupByID (fold registry_step sample_ops NewRegistry) ''a'' = None \<and>
   LookupByDomain (fold registry_step sample_ops NewRegistry) ''c.example'' = Some ''c'' \<and>
   LookupRegistryKey (fold registry_step sample_ops NewRegistry) ''k1'' = None \<and>
   LookupRegistryKey (fold registry_step sample_ops NewRegistry) ''k3'' \<noteq> None"
proof -
  have N: "sound_naming sample_naming"
    by (auto simp: sound_naming_def sample_naming_def intro: injI)
  have ops: "\<forall>op\<in>set sample_ops. obeys sample_naming op"
    by (simp add: sample_ops_def named_def sample_naming_def prop_a_def prop_c_def toy_key_def)
  have m: "fold spec_step sample_ops Map.empty =
      [''c'' \<mapsto> prop_c\<lparr>rp_keys := [toy_key\<lparr>kid := ''k2''\<rparr>, toy_key\<lparr>kid := ''k3''\<rparr>]\<rparr>]"
    by (rule ext) (simp add: sample_ops_def prop_a_def prop_c_def toy_key_def attach_key_def)
  note refines = registry_refines [OF N ops, unfolded m]
  note keys = refines [THEN conjunct2, THEN conjunct2, THEN conjunct2, THEN conjunct1, rule_format]
  have k1: "\<not> LookupRegistryKey (fold registry_step sample_ops NewRegistry) ''k1'' \<noteq> None"
    by (subst keys) (simp_all add: toy_key_def)
  show ?thesis
  proof (intro conjI)
    show "LookupByRID (fold registry_step sample_ops NewRegistry) ''rid-c'' =
       Some (prop_c\<lparr>rp_keys := [toy_key\<lparr>kid := ''k2''\<rparr>, toy_key\<lparr>kid := ''k3''\<rparr>]\<rparr>)"
      using refines by (simp add: prop_c_def)
    show "LookupByID (fold registry_step sample_ops NewRegistry) ''a'' = None"
      using refines by simp
    show "LookupByDomain (fold registry_step sample_ops NewRegistry) ''c.example'' = Some ''c''"
      using refines by (simp add: prop_c_def)
    show "LookupRegistryKey (fold registry_step sample_ops NewRegistry) ''k1'' = None"
      using k1 by simp
    show "LookupRegistryKey (fold registry_step sample_ops NewRegistry) ''k3'' \<noteq> None"
      by (subst keys) (simp_all add: toy_key_def)
  qed
qed

text \<open>After a full snapshot a key id resolves exactly when some property lists it, to a key with that
  id listed by the first property that lists the id: a later property cannot shadow the signing key of
  an earlier one.\<close>

theorem snapshot_key_first_owner:
  assumes "k \<noteq> ''''"
  shows "(LookupRegistryKey (applySnapshot ps seq r) k \<noteq> None \<longleftrightarrow> k \<in> kid ` snd ` set (listed_keys ps)) \<and>
         (\<forall>key. LookupRegistryKey (applySnapshot ps seq r) k = Some key \<longrightarrow>
            kid key = k \<and> (\<exists>rid. first_lister ps k = Some rid \<and> (rid, key) \<in> set (listed_keys ps)))"
  using snapshot_lookup(2) [OF assms, of ps] snapshot_lookup(1) [of ps k]
  by (auto simp: LookupRegistryKey_def applySnapshot_def)


theorem snapshot_key_first_owner_witness:
  "\<exists>key. LookupRegistryKey (applySnapshot [prop_a, prop_b] 1 NewRegistry) ''k1'' = Some key \<and>
     (\<exists>rid. first_lister [prop_a, prop_b] ''k1'' = Some rid \<and> (rid, key) \<in> set (listed_keys [prop_a, prop_b]))"
proof -
  have listed: "''k1'' \<in> kid ` snd ` set (listed_keys [prop_a, prop_b])"
    by (simp add: listed_keys_def prop_a_def toy_key_def)
  have nonempty: "''k1'' \<noteq> ''''" by simp
  note first = snapshot_key_first_owner [OF nonempty, of "[prop_a, prop_b]" 1 NewRegistry]
  from first listed obtain key where key: "LookupRegistryKey (applySnapshot [prop_a, prop_b] 1 NewRegistry) ''k1'' = Some key"
    by blast
  with first have "kid key = ''k1'' \<and> (\<exists>rid. first_lister [prop_a, prop_b] ''k1'' = Some rid \<and>
      (rid, key) \<in> set (listed_keys [prop_a, prop_b]))" by blast
  with key show ?thesis by blast
qed

text \<open>The incremental path does not keep that promise. Property \<^verbatim>\<open>b\<close> is added listing a key id that
  belongs to \<^verbatim>\<open>a\<close>; the collision is refused and the key of \<^verbatim>\<open>a\<close> stays. When \<^verbatim>\<open>b\<close> is removed, the key
  of \<^verbatim>\<open>a\<close> disappears from the key index although \<^verbatim>\<open>a\<close> still lists it.\<close>

theorem remove_drops_foreign_key:
  defines "r1 \<equiv> ApplyUpdate ActAdd prop_b 2 (ApplyUpdate ActAdd prop_a 1 NewRegistry)"
  defines "r2 \<equiv> ApplyUpdate ActRemove prop_b 3 r1"
  shows "LookupRegistryKey r1 ''k1'' = Some toy_key \<and> LookupRegistryKey r2 ''k1'' = None \<and>
         LookupByID r2 ''a'' = Some prop_a"
  by (simp add: r1_def r2_def ApplyUpdate_def NewRegistry_def LookupByID_def LookupRegistryKey_def deref_def Let_def
      prop_a_def prop_b_def toy_key_def update_key_def delete_kids_def)

text \<open>An update that changes a property's registry id leaves the old registry id resolving, to the
  outdated record.\<close>

lemma update_keeps_old_rid:
  defines "r \<equiv> ApplyUpdate ActUpdate (prop_a\<lparr>rp_rid := ''rid-new''\<rparr>) 2 (ApplyUpdate ActAdd prop_a 1 NewRegistry)"
  shows "LookupByRID r ''rid-a'' = Some prop_a \<and> LookupByID r ''a'' = Some (prop_a\<lparr>rp_rid := ''rid-new''\<rparr>)"
  by (simp add: r_def ApplyUpdate_def NewRegistry_def LookupByID_def LookupByRID_def deref_def Let_def
      prop_a_def toy_key_def update_key_def delete_kids_def)

end
