(* ===== verification/Response_Merge.thy ===== *)
theory Response_Merge
  imports Provider_Config
begin

text \<open>
  Merging the providers' answers into the publisher's response: \<^verbatim>\<open>mergeContextResponses\<close>,
  \<^verbatim>\<open>mergeIdentityResponses\<close> and \<^verbatim>\<open>clampServeWindowSec\<close> of \<^verbatim>\<open>src/router/router.go\<close>, the signals merger of
  \<^verbatim>\<open>signals.go\<close> and the TMPX slot contract of \<^verbatim>\<open>slot_contract.go\<close>. A result list is in arrival order,
  which the fan-out leaves open, so every lemma holds for every order. Log output is the list of
  warnings a merge emits.
\<close>

section \<open>The slot contract\<close>

definition enforceProviderSlotContract :: "string list \<Rightarrow> tmpx_chunk list \<Rightarrow> bool" where
  "enforceProviderSlotContract registered chunks =
     (if chunks = [] \<or> length chunks > length registered then False
      else list_all (\<lambda>(i, c). registered ! i = slot_id c) (enumerate 0 chunks))"

section \<open>Signals\<close>

definition signalSegmentsKey :: string where "signalSegmentsKey = ''segments''"
definition signalTargetingKVsKey :: string where "signalTargetingKVsKey = ''targeting_kvs''"

fun appendSignalList :: "json list \<Rightarrow> signal_value \<Rightarrow> json list" where
  "appendSignalList dst (SList v) = dst @ v"
| "appendSignalList dst (SStrings ss) = dst @ map JStr ss"
| "appendSignalList dst (SOther v) = dst"

record signals_merger =
  segments :: "json list"
  extra :: signals
  byProvider :: "(string \<times> signals) list"

definition newSignalsMerger :: signals_merger where
  "newSignalsMerger = \<lparr>segments = [], extra = [], byProvider = []\<rparr>"

text \<open>\<^verbatim>\<open>bucket[key].([]any)\<close>, the nil slice when absent or of another type.\<close>

definition existing_kvs :: "signals \<Rightarrow> json list" where
  "existing_kvs bucket = (case map_of bucket signalTargetingKVsKey of Some (SList v) \<Rightarrow> v | _ \<Rightarrow> [])"

definition add_signal :: "string \<Rightarrow> string \<times> signal_value \<Rightarrow> signals_merger \<Rightarrow> signals_merger" where
  "add_signal providerID kv m = (let (key, v) = kv in
     if key = signalSegmentsKey then m\<lparr>segments := appendSignalList (segments m) v\<rparr>
     else if key = signalTargetingKVsKey then
       (if providerID = '''' then m
        else if appendSignalList [] v = [] then m
        else let bucket = (case map_of (byProvider m) providerID of Some b \<Rightarrow> b | None \<Rightarrow> []) in
          m\<lparr>byProvider := AList.update providerID
              (AList.update signalTargetingKVsKey (SList (appendSignalList (existing_kvs bucket) v)) bucket)
              (byProvider m)\<rparr>)
     else m\<lparr>extra := AList.update key v (extra m)\<rparr>)"

definition signals_add :: "string \<Rightarrow> signals \<Rightarrow> signals_merger \<Rightarrow> signals_merger" where
  "signals_add providerID signals = fold (add_signal providerID) signals"

definition signals_result :: "signals_merger \<Rightarrow> signals option" where
  "signals_result m =
     (let out = (if segments m \<noteq> [] then AList.update signalSegmentsKey (SList (segments m)) (extra m) else extra m)
      in if out = [] then None else Some out)"

definition byProviderResult :: "signals_merger \<Rightarrow> (string \<times> signals) list option" where
  "byProviderResult m = (if byProvider m = [] then None else Some (byProvider m))"

section \<open>Context responses\<close>

datatype merge_warning =
    RepeatedWithinProvider string string
  | DuplicateAcrossProviders string string string
  | DuplicateEligible string "string list"
  | RepeatedEligible string string
  | SlotContractBroken string

record context_result =
  xr_provider :: string
  xr_response :: "provider_context_response option"

record context_merge =
  seenPkg :: "(string \<times> string) list"
  mergedOffers :: "offer list"
  mergedSignals :: signals_merger
  warnings :: "merge_warning list"

definition merge_offer :: "string \<Rightarrow> offer \<Rightarrow> context_merge \<Rightarrow> context_merge" where
  "merge_offer providerID ofr m =
     (case map_of (seenPkg m) (package_id ofr) of
        Some first \<Rightarrow>
          m\<lparr>warnings := warnings m @
              [if first = providerID then RepeatedWithinProvider (package_id ofr) providerID
               else DuplicateAcrossProviders (package_id ofr) first providerID]\<rparr>
      | None \<Rightarrow>
          m\<lparr>seenPkg := AList.update (package_id ofr) providerID (seenPkg m), mergedOffers := mergedOffers m @ [ofr]\<rparr>)"

definition merge_context_result :: "context_result \<Rightarrow> context_merge \<Rightarrow> context_merge" where
  "merge_context_result res m =
     (case xr_response res of
        None \<Rightarrow> m
      | Some r \<Rightarrow>
          let m1 = fold (merge_offer (xr_provider res)) (pc_offers r) m
          in m1\<lparr>mergedSignals := signals_add (xr_provider res) (pc_signals r) (mergedSignals m1)\<rparr>)"

definition merge_context_all :: "context_result list \<Rightarrow> context_merge" where
  "merge_context_all rs = fold merge_context_result rs
     \<lparr>seenPkg = [], mergedOffers = [], mergedSignals = newSignalsMerger, warnings = []\<rparr>"

definition mergeContextResponses :: "string \<Rightarrow> context_result list \<Rightarrow> context_response" where
  "mergeContextResponses requestID rs = (let m = merge_context_all rs in
     \<lparr>cr_adcp_version = '''', cr_adcp_major_version = 0, cr_type = ''context_match_response'', cr_request_id = requestID,
      cr_offers = mergedOffers m, cr_signals = signals_result (mergedSignals m),
      cr_signals_by_provider = byProviderResult (mergedSignals m)\<rparr>)"

section \<open>Identity responses\<close>

definition MinServeWindowSec :: int where "MinServeWindowSec = 1"
definition MaxServeWindowSec :: int where "MaxServeWindowSec = 300"

definition clampServeWindowSec :: "int \<Rightarrow> int" where
  "clampServeWindowSec n =
     (if n < MinServeWindowSec then MinServeWindowSec else if n > MaxServeWindowSec then MaxServeWindowSec else n)"

record identity_result =
  yr_provider :: string
  yr_registered_slots :: "string list"
  yr_response :: "provider_identity_response option"

record identity_merge =
  eligibleSet :: "string list"
  pkgProviders :: "(string \<times> string list) list"
  providerRepeats :: "(string \<times> string) list"
  minServeWindowSec :: int
  legacyTmpx :: string
  tmpxProviders :: "(string \<times> tmpx_chunk list) list"
  slotWarnings :: "merge_warning list"

definition merge_window :: "int \<Rightarrow> int \<Rightarrow> int" where
  "merge_window cur n = (if cur < 0 \<or> n < cur then n else cur)"

definition merge_tmpx :: "identity_result \<Rightarrow> provider_identity_response \<Rightarrow> identity_merge \<Rightarrow> identity_merge" where
  "merge_tmpx res resp m =
     (let chunks = pi_tmpx_chunks resp; providerID = yr_provider res in
      if chunks \<noteq> [] \<and> providerID \<noteq> '''' then
        if \<not> enforceProviderSlotContract (yr_registered_slots res) chunks
        then m\<lparr>slotWarnings := slotWarnings m @ [SlotContractBroken providerID]\<rparr>
        else m\<lparr>tmpxProviders := AList.update providerID chunks (tmpxProviders m),
               legacyTmpx := (if legacyTmpx m = '''' \<and> length chunks = 1 then chunk_value (chunks ! 0) else legacyTmpx m)\<rparr>
      else m)"

text \<open>The inner loop over one provider's eligible ids, with the ids already seen in this response.\<close>

fun merge_eligible :: "string \<Rightarrow> string list \<Rightarrow> string list \<Rightarrow> identity_merge \<Rightarrow> identity_merge" where
  "merge_eligible providerID seen [] m = m"
| "merge_eligible providerID seen (pkg # pkgs) m =
     (let m1 = m\<lparr>eligibleSet := List.insert pkg (eligibleSet m)\<rparr> in
      if pkg \<in> set seen then
        merge_eligible providerID seen pkgs (m1\<lparr>providerRepeats := List.insert (pkg, providerID) (providerRepeats m1)\<rparr>)
      else
        merge_eligible providerID (pkg # seen) pkgs
          (m1\<lparr>pkgProviders := AList.update pkg
                ((case map_of (pkgProviders m1) pkg of Some ps \<Rightarrow> ps | None \<Rightarrow> []) @ [providerID]) (pkgProviders m1)\<rparr>))"

definition merge_identity_result :: "identity_result \<Rightarrow> identity_merge \<Rightarrow> identity_merge" where
  "merge_identity_result res m =
     (case yr_response res of
        None \<Rightarrow> m
      | Some resp \<Rightarrow>
          let m1 = m\<lparr>minServeWindowSec := merge_window (minServeWindowSec m) (pi_serve_window_sec resp)\<rparr>
          in merge_eligible (yr_provider res) [] (pi_eligible_package_ids resp) (merge_tmpx res resp m1))"

definition merge_identity_all :: "identity_result list \<Rightarrow> identity_merge" where
  "merge_identity_all rs = fold merge_identity_result rs
     \<lparr>eligibleSet = [], pkgProviders = [], providerRepeats = [], minServeWindowSec = -1, legacyTmpx = '''',
      tmpxProviders = [], slotWarnings = []\<rparr>"

text \<open>The warnings after the loop, in sorted order.\<close>

definition identity_warnings :: "identity_merge \<Rightarrow> merge_warning list" where
  "identity_warnings m = slotWarnings m @
     map (\<lambda>pkg. DuplicateEligible pkg (the (map_of (pkgProviders m) pkg)))
       (sort (map fst (filter (\<lambda>(pkg, ps). length ps > 1) (pkgProviders m)))) @
     map (\<lambda>(pkg, p). RepeatedEligible pkg p) (sort_key fst (sort_key snd (providerRepeats m)))"

definition mergeIdentityResponses :: "string \<Rightarrow> identity_result list \<Rightarrow> identity_response" where
  "mergeIdentityResponses requestID rs = (let m = merge_identity_all rs in
     \<lparr>ir_adcp_version = '''', ir_adcp_major_version = 0, ir_type = ''identity_match_response'', ir_request_id = requestID,
      ir_eligible_package_ids = sort (eligibleSet m), ir_serve_window_sec = clampServeWindowSec (minServeWindowSec m),
      ir_tmpx = legacyTmpx m,
      ir_tmpx_providers = (if tmpxProviders m = [] then None else Some (tmpxProviders m))\<rparr>)"


section \<open>The slot contract as a prefix\<close>

lemma enumerate_all: "list_all P (enumerate 0 xs) \<longleftrightarrow> (\<forall>i<length xs. P (i, xs ! i))"
  by (auto simp: list_all_length nth_enumerate_eq)

lemma slot_contract_iff:
  "enforceProviderSlotContract registered chunks \<longleftrightarrow>
     chunks \<noteq> [] \<and> (\<exists>rest. registered = map slot_id chunks @ rest)"
proof
  assume e: "enforceProviderSlotContract registered chunks"
  then have len: "chunks \<noteq> []" "length chunks \<le> length registered"
    and nth: "\<forall>i<length chunks. registered ! i = slot_id (chunks ! i)"
    by (auto simp: enforceProviderSlotContract_def enumerate_all split: if_splits)
  then have "take (length chunks) registered = map slot_id chunks"
    by (intro nth_equalityI) auto
  then have "registered = map slot_id chunks @ drop (length chunks) registered"
    by (metis append_take_drop_id)
  with len show "chunks \<noteq> [] \<and> (\<exists>rest. registered = map slot_id chunks @ rest)" by blast
qed (auto simp: enforceProviderSlotContract_def enumerate_all nth_append)

section \<open>Keeping the first\<close>

text \<open>The elements whose key occurs at no earlier position.\<close>

definition keep_first :: "('a \<Rightarrow> 'b) \<Rightarrow> 'a list \<Rightarrow> 'a list" where
  "keep_first f xs = map ((!) xs) (filter (\<lambda>i. \<forall>j<i. f (xs ! j) \<noteq> f (xs ! i)) [0..<length xs])"

lemma keep_first_Nil [simp]: "keep_first f [] = []"
  by (simp add: keep_first_def)

lemma keep_first_snoc:
  "keep_first f (xs @ [x]) = keep_first f xs @ (if f x \<in> f ` set xs then [] else [x])"
proof -
  have "filter (\<lambda>i. \<forall>j<i. f ((xs @ [x]) ! j) \<noteq> f ((xs @ [x]) ! i)) [0..<length xs] =
        filter (\<lambda>i. \<forall>j<i. f (xs ! j) \<noteq> f (xs ! i)) [0..<length xs]"
    by (rule filter_cong) (auto simp: nth_append)
  moreover have "(\<forall>j<length xs. f ((xs @ [x]) ! j) \<noteq> f x) \<longleftrightarrow> f x \<notin> f ` set xs"
    by (simp add: not_in_image all_set_conv_all_nth nth_append)
  ultimately show ?thesis
    by (simp add: keep_first_def nth_append)
qed

lemma keep_first_keys: "f ` set (keep_first f xs) = f ` set xs"
  by (induction xs rule: rev_induct) (auto simp: keep_first_snoc)

lemma keep_first_subset: "set (keep_first f xs) \<subseteq> set xs"
  by (induction xs rule: rev_induct) (auto simp: keep_first_snoc)

lemma keep_first_distinct: "distinct (map f (keep_first f xs))"
  by (induction xs rule: rev_induct) (simp_all add: keep_first_snoc keep_first_keys)

definition arrived_offers :: "context_result list \<Rightarrow> offer list" where
  "arrived_offers rs = concat (map (\<lambda>r. case xr_response r of None \<Rightarrow> [] | Some p \<Rightarrow> pc_offers p) rs)"

text \<open>\<open>offers_inv m os\<close>: \<open>m\<close> is the merge state after the offers \<open>os\<close>.\<close>

definition offers_inv :: "context_merge \<Rightarrow> offer list \<Rightarrow> bool" where
  "offers_inv m os \<longleftrightarrow> mergedOffers m = keep_first package_id os \<and> dom (map_of (seenPkg m)) = package_id ` set os"

lemma merge_offer_inv:
  assumes "offers_inv m os"
  shows "offers_inv (merge_offer p ofr m) (os @ [ofr])"
proof -
  have "map_of (seenPkg m) (package_id ofr) = None \<longleftrightarrow> package_id ofr \<notin> package_id ` set os"
    using assms unfolding offers_inv_def by (metis domIff)
  with assms show ?thesis
    by (cases "map_of (seenPkg m) (package_id ofr)")
      (simp_all add: offers_inv_def merge_offer_def keep_first_snoc AList.update_conv' insert_absorb)
qed

lemma merge_offers_inv: "offers_inv m os \<Longrightarrow> offers_inv (fold (merge_offer p) new m) (os @ new)"
proof (induction new arbitrary: m os)
  case (Cons ofr new)
  from Cons.IH [OF merge_offer_inv [OF Cons.prems, of p ofr]] show ?case by simp
qed simp

lemma merge_context_offers: "offers_inv (fold merge_context_result rs m) (os @ arrived_offers rs)" if "offers_inv m os"
  using that
proof (induction rs arbitrary: m os)
  case (Cons r rs)
  have "offers_inv (merge_context_result r m) (os @ (case xr_response r of None \<Rightarrow> [] | Some p \<Rightarrow> pc_offers p))"
    using Cons.prems merge_offers_inv [OF Cons.prems]
    by (simp add: merge_context_result_def Let_def offers_inv_def split: option.split)
  from Cons.IH [OF this] show ?case by (simp add: arrived_offers_def)
qed (simp add: arrived_offers_def)

lemma merged_offers: "mergedOffers (merge_context_all rs) = keep_first package_id (arrived_offers rs)"
  using merge_context_offers [of _ "[]" rs] by (simp add: merge_context_all_def offers_inv_def)


section \<open>Merged signals\<close>

text \<open>What a signal value contributes to a list, and the contributions of a list of results.\<close>

abbreviation signal_items :: "signal_value \<Rightarrow> json list" where
  "signal_items v \<equiv> appendSignalList [] v"

lemma appendSignalList_items: "appendSignalList dst v = dst @ signal_items v"
  by (cases v) simp_all

definition items_at :: "string \<Rightarrow> signals \<Rightarrow> json list" where
  "items_at key sig = concat (map (\<lambda>(k, v). if k = key then signal_items v else []) sig)"

definition arrived_signals :: "context_result list \<Rightarrow> (string \<times> signals) list" where
  "arrived_signals rs = concat (map (\<lambda>r. case xr_response r of None \<Rightarrow> [] | Some p \<Rightarrow> [(xr_provider r, pc_signals p)]) rs)"

definition provider_kvs :: "signals_merger \<Rightarrow> string \<Rightarrow> json list" where
  "provider_kvs m p = (case map_of (byProvider m) p of None \<Rightarrow> [] | Some b \<Rightarrow> existing_kvs b)"

text \<open>The shape of the merger's state: no reserved key among the extras, and one non-empty
  \<^verbatim>\<open>targeting_kvs\<close> list per registered provider id.\<close>

definition merger_ok :: "signals_merger \<Rightarrow> bool" where
  "merger_ok m \<longleftrightarrow> signalSegmentsKey \<notin> fst ` set (extra m) \<and> signalTargetingKVsKey \<notin> fst ` set (extra m) \<and>
     (\<forall>(p, b)\<in>set (byProvider m). p \<noteq> '''' \<and> (\<exists>v. v \<noteq> [] \<and> b = [(signalTargetingKVsKey, SList v)])) \<and>
     distinct (map fst (byProvider m))"

lemma merger_ok_bucket:
  "merger_ok m \<Longrightarrow> map_of (byProvider m) p = Some b \<Longrightarrow> b = [(signalTargetingKVsKey, SList (existing_kvs b))] \<and> existing_kvs b \<noteq> []"
  by (fastforce simp: merger_ok_def existing_kvs_def dest!: map_of_SomeD)

lemma signal_keys_differ [simp]: "signalTargetingKVsKey \<noteq> signalSegmentsKey" "signalSegmentsKey \<noteq> signalTargetingKVsKey"
  by (simp_all add: signalTargetingKVsKey_def signalSegmentsKey_def)

lemma add_kvs:
  assumes "merger_ok m" "p \<noteq> ''''" "signal_items v \<noteq> []"
  shows "add_signal p (signalTargetingKVsKey, v) m =
           m\<lparr>byProvider := AList.update p [(signalTargetingKVsKey, SList (provider_kvs m p @ signal_items v))] (byProvider m)\<rparr>"
proof (cases "map_of (byProvider m) p")
  case None
  with assms(2,3) show ?thesis
    by (simp add: add_signal_def provider_kvs_def existing_kvs_def)
next
  case (Some b)
  with merger_ok_bucket [OF assms(1)] obtain l where b: "b = [(signalTargetingKVsKey, SList l)]" by blast
  then have "existing_kvs b = l" by (simp add: existing_kvs_def)
  with Some b assms(2,3) show ?thesis
    by (simp add: add_signal_def provider_kvs_def appendSignalList_items [of l])
qed

lemma set_update_keys: "fst ` set (AList.update k v xs) = insert k (fst ` set xs)"
  by (induction xs) auto

lemma set_update: "distinct (map fst xs) \<Longrightarrow> set (AList.update k v xs) = insert (k, v) {p \<in> set xs. fst p \<noteq> k}"
  by (induction xs) (auto simp: image_iff)

lemma add_signal_cases:
  obtains (seg) v where "kv = (signalSegmentsKey, v)"
  | (kvs) v where "kv = (signalTargetingKVsKey, v)" "p \<noteq> ''''" "signal_items v \<noteq> []"
  | (no_kvs) v where "kv = (signalTargetingKVsKey, v)" "p = '''' \<or> signal_items v = []"
  | (other) k v where "kv = (k, v)" "k \<noteq> signalSegmentsKey" "k \<noteq> signalTargetingKVsKey"
  by (cases kv) blast

lemma add_no_kvs: "p = '''' \<or> signal_items v = [] \<Longrightarrow> add_signal p (signalTargetingKVsKey, v) m = m"
  by (auto simp: add_signal_def)

lemma add_seg: "add_signal p (signalSegmentsKey, v) m = m\<lparr>segments := segments m @ signal_items v\<rparr>"
  by (simp add: add_signal_def appendSignalList_items [of "segments m"])

lemma add_other:
  "k \<noteq> signalSegmentsKey \<Longrightarrow> k \<noteq> signalTargetingKVsKey \<Longrightarrow> add_signal p (k, v) m = m\<lparr>extra := AList.update k v (extra m)\<rparr>"
  by (simp add: add_signal_def)

lemma provider_kvs_frame [simp]:
  "provider_kvs (m\<lparr>segments := s\<rparr>) q = provider_kvs m q" "provider_kvs (m\<lparr>extra := e\<rparr>) q = provider_kvs m q"
  by (simp_all add: provider_kvs_def)

lemma provider_kvs_update:
  "provider_kvs (m\<lparr>byProvider := AList.update p [(signalTargetingKVsKey, SList l)] (byProvider m)\<rparr>) q =
     (if q = p then l else provider_kvs m q)"
  by (simp add: provider_kvs_def AList.update_conv' existing_kvs_def)

lemma add_signal_ok:
  assumes "merger_ok m"
  shows "merger_ok (add_signal p kv m)"
proof (cases rule: add_signal_cases [where kv = kv and p = p])
  case (kvs v)
  with assms show ?thesis
    by (auto simp: add_kvs [OF assms] merger_ok_def set_update AList.distinct_update)
next
  case (other k v)
  with assms show ?thesis by (simp add: add_other merger_ok_def set_update_keys)
qed (use assms in \<open>auto simp: add_seg add_no_kvs merger_ok_def\<close>)

lemma add_signal_segments:
  assumes "merger_ok m"
  shows "segments (add_signal p kv m) = segments m @ items_at signalSegmentsKey [kv]"
  by (cases rule: add_signal_cases [where kv = kv and p = p]) (simp_all add: add_seg add_kvs [OF assms] add_no_kvs add_other items_at_def)

lemma add_signal_kvs:
  assumes "merger_ok m"
  shows "provider_kvs (add_signal p kv m) q =
           provider_kvs m q @ (if q = p \<and> p \<noteq> '''' then items_at signalTargetingKVsKey [kv] else [])"
  by (cases rule: add_signal_cases [where kv = kv and p = p])
    (auto simp: add_seg add_kvs [OF assms] add_no_kvs add_other items_at_def provider_kvs_update)

lemma signals_add_run:
  assumes "merger_ok m"
  shows "merger_ok (signals_add p sig m) \<and>
     segments (signals_add p sig m) = segments m @ items_at signalSegmentsKey sig \<and>
     provider_kvs (signals_add p sig m) q = provider_kvs m q @ (if q = p \<and> p \<noteq> '''' then items_at signalTargetingKVsKey sig else [])"
  using assms
proof (induction sig arbitrary: m)
  case Nil
  then show ?case by (simp add: signals_add_def items_at_def)
next
  case (Cons kv sig)
  have step: "signals_add p (kv # sig) m = signals_add p sig (add_signal p kv m)" by (simp add: signals_add_def)
  show ?case
    unfolding step using Cons.IH [OF add_signal_ok [OF Cons.prems]] add_signal_segments [OF Cons.prems]
      add_signal_kvs [OF Cons.prems]
    by (auto simp: items_at_def split: prod.splits)
qed


lemma merge_offers_signals [simp]: "mergedSignals (fold (merge_offer p) os m) = mergedSignals m"
  by (induction os arbitrary: m) (simp_all add: merge_offer_def split: option.split)

lemma merge_context_signals:
  assumes "merger_ok (mergedSignals m)"
  shows "merger_ok (mergedSignals (fold merge_context_result rs m)) \<and>
     segments (mergedSignals (fold merge_context_result rs m)) =
       segments (mergedSignals m) @ concat (map (\<lambda>(p, sig). items_at signalSegmentsKey sig) (arrived_signals rs)) \<and>
     provider_kvs (mergedSignals (fold merge_context_result rs m)) q =
       provider_kvs (mergedSignals m) q @
       concat (map (\<lambda>(p, sig). if q = p \<and> p \<noteq> '''' then items_at signalTargetingKVsKey sig else []) (arrived_signals rs))"
  using assms
proof (induction rs arbitrary: m)
  case Nil
  then show ?case by (simp add: arrived_signals_def)
next
  case (Cons r rs)
  show ?case
  proof (cases "xr_response r")
    case None
    with Cons.IH [OF Cons.prems] show ?thesis by (simp add: merge_context_result_def arrived_signals_def)
  next
    case (Some resp)
    let ?m = "merge_context_result r m"
    have step: "mergedSignals ?m = signals_add (xr_provider r) (pc_signals resp) (mergedSignals m)"
      by (simp add: merge_context_result_def Some Let_def)
    note run = signals_add_run [OF Cons.prems, of "xr_provider r" "pc_signals resp" q]
    have "arrived_signals (r # rs) = (xr_provider r, pc_signals resp) # arrived_signals rs"
      by (simp add: arrived_signals_def Some)
    with Cons.IH [of ?m] run show ?thesis by (simp add: step)
  qed
qed

lemma merged_signals:
  "merger_ok (mergedSignals (merge_context_all rs))"
  "segments (mergedSignals (merge_context_all rs)) = concat (map (\<lambda>(p, sig). items_at signalSegmentsKey sig) (arrived_signals rs))"
  "provider_kvs (mergedSignals (merge_context_all rs)) q =
     concat (map (\<lambda>(p, sig). if q = p \<and> p \<noteq> '''' then items_at signalTargetingKVsKey sig else []) (arrived_signals rs))"
proof -
  have "merger_ok newSignalsMerger" by (simp add: merger_ok_def newSignalsMerger_def)
  with merge_context_signals [of "\<lparr>seenPkg = [], mergedOffers = [], mergedSignals = newSignalsMerger, warnings = []\<rparr>" rs q]
  show "merger_ok (mergedSignals (merge_context_all rs))"
    "segments (mergedSignals (merge_context_all rs)) = concat (map (\<lambda>(p, sig). items_at signalSegmentsKey sig) (arrived_signals rs))"
    "provider_kvs (mergedSignals (merge_context_all rs)) q =
       concat (map (\<lambda>(p, sig). if q = p \<and> p \<noteq> '''' then items_at signalTargetingKVsKey sig else []) (arrived_signals rs))"
    by (simp_all add: merge_context_all_def newSignalsMerger_def provider_kvs_def)
qed

lemma signals_result_lookup:
  assumes "merger_ok m"
  shows "map_of (case signals_result m of None \<Rightarrow> [] | Some out \<Rightarrow> out) signalTargetingKVsKey = None"
    and "map_of (case signals_result m of None \<Rightarrow> [] | Some out \<Rightarrow> out) signalSegmentsKey =
           (if segments m = [] then None else Some (SList (segments m)))"
proof -
  have "map_of (extra m) signalTargetingKVsKey = None" "map_of (extra m) signalSegmentsKey = None"
    using assms unfolding merger_ok_def map_of_eq_None_iff by blast+
  moreover have "(case signals_result m of None \<Rightarrow> [] | Some out \<Rightarrow> out) =
      (if segments m \<noteq> [] then AList.update signalSegmentsKey (SList (segments m)) (extra m) else extra m)"
    by (simp add: signals_result_def Let_def)
  ultimately show "map_of (case signals_result m of None \<Rightarrow> [] | Some out \<Rightarrow> out) signalTargetingKVsKey = None"
    "map_of (case signals_result m of None \<Rightarrow> [] | Some out \<Rightarrow> out) signalSegmentsKey =
       (if segments m = [] then None else Some (SList (segments m)))"
    by (simp_all add: AList.update_conv')
qed

lemma add_signal_extra:
  assumes "merger_ok m" "k \<noteq> signalSegmentsKey" "k \<noteq> signalTargetingKVsKey"
  shows "map_of (extra (add_signal p kv m)) k = (if fst kv = k then Some (snd kv) else map_of (extra m) k)"
  using assms(2,3)
  by (cases rule: add_signal_cases [where kv = kv and p = p])
    (auto simp: add_seg add_kvs [OF assms(1)] add_no_kvs add_other AList.update_conv')

text \<open>The value of a key that arrived last.\<close>

definition last_value :: "(string \<times> signals) list \<Rightarrow> string \<Rightarrow> signal_value option" where
  "last_value arrived k = map_of (rev (concat (map snd arrived))) k"

lemma signals_add_extra:
  assumes "merger_ok m" "k \<noteq> signalSegmentsKey" "k \<noteq> signalTargetingKVsKey"
  shows "map_of (extra (signals_add p sig m)) k = map_of (rev sig @ extra m) k"
  using assms(1)
proof (induction sig arbitrary: m)
  case (Cons kv sig)
  have step: "signals_add p (kv # sig) m = signals_add p sig (add_signal p kv m)" by (simp add: signals_add_def)
  show ?case
    unfolding step Cons.IH [OF add_signal_ok [OF Cons.prems]]
    by (cases "map_of (rev sig) k") (simp_all add: map_add_def add_signal_extra [OF Cons.prems assms(2,3)] split: prod.split option.split)
qed (simp add: signals_add_def)

lemma merge_context_extra:
  assumes "merger_ok (mergedSignals m)" "k \<noteq> signalSegmentsKey" "k \<noteq> signalTargetingKVsKey"
  shows "map_of (extra (mergedSignals (fold merge_context_result rs m))) k =
           map_of (rev (concat (map snd (arrived_signals rs))) @ extra (mergedSignals m)) k"
  using assms(1)
proof (induction rs arbitrary: m)
  case (Cons r rs)
  show ?case
  proof (cases "xr_response r")
    case None
    with Cons.IH [OF Cons.prems] show ?thesis by (simp add: merge_context_result_def arrived_signals_def)
  next
    case (Some resp)
    let ?m = "merge_context_result r m"
    have step: "mergedSignals ?m = signals_add (xr_provider r) (pc_signals resp) (mergedSignals m)"
      by (simp add: merge_context_result_def Some Let_def)
    have arrived: "arrived_signals (r # rs) = (xr_provider r, pc_signals resp) # arrived_signals rs"
      by (simp add: arrived_signals_def Some)
    have "merger_ok (mergedSignals ?m)" using signals_add_run [OF Cons.prems] by (simp add: step)
    from Cons.IH [OF this] show ?thesis
      by (simp add: arrived step signals_add_extra [OF Cons.prems assms(2,3)] map_add_def split: option.split)
  qed
qed (simp add: arrived_signals_def)

lemma merged_extra:
  assumes "k \<noteq> signalSegmentsKey" "k \<noteq> signalTargetingKVsKey"
  shows "map_of (extra (mergedSignals (merge_context_all rs))) k = last_value (arrived_signals rs) k"
  unfolding merge_context_all_def last_value_def
  by (subst merge_context_extra [OF _ assms]) (simp_all add: newSignalsMerger_def merger_ok_def)

lemma merged_buckets:
  assumes "merger_ok m"
  shows "map_of (byProvider m) p =
           (if provider_kvs m p = [] then None else Some [(signalTargetingKVsKey, SList (provider_kvs m p))])"
proof (cases "map_of (byProvider m) p")
  case (Some b)
  with merger_ok_bucket [OF assms Some] show ?thesis by (simp add: provider_kvs_def)
qed (simp add: provider_kvs_def)

lemma signals_result_other:
  assumes "k \<noteq> signalSegmentsKey"
  shows "map_of (case signals_result m of None \<Rightarrow> [] | Some out \<Rightarrow> out) k = map_of (extra m) k"
proof -
  have "(case signals_result m of None \<Rightarrow> [] | Some out \<Rightarrow> out) =
      (if segments m \<noteq> [] then AList.update signalSegmentsKey (SList (segments m)) (extra m) else extra m)"
    by (simp add: signals_result_def Let_def)
  with assms show ?thesis by (simp add: AList.update_conv')
qed

definition opt_list :: "'a list option \<Rightarrow> 'a list" where
  "opt_list = case_option [] id"

definition all_segments :: "(string \<times> signals) list \<Rightarrow> json list" where
  "all_segments arrived = concat (map (\<lambda>(p, sig). items_at signalSegmentsKey sig) arrived)"

definition kvs_from :: "string \<Rightarrow> (string \<times> signals) list \<Rightarrow> json list" where
  "kvs_from p arrived = concat (map (\<lambda>(q, sig). if q = p then items_at signalTargetingKVsKey sig else []) arrived)"

lemma provider_kvs_from:
  "provider_kvs (mergedSignals (merge_context_all rs)) p = (if p = '''' then [] else kvs_from p (arrived_signals rs))"
proof -
  have "(\<lambda>(q, sig). if p = q \<and> q \<noteq> '''' then items_at signalTargetingKVsKey sig else []) =
      (\<lambda>(q, sig). if p = '''' then [] else if q = p then items_at signalTargetingKVsKey sig else [])" by auto
  then show ?thesis unfolding merged_signals(3) [of rs p] by (auto simp: kvs_from_def)
qed

section \<open>Merged eligibility\<close>

definition arrived_identity :: "identity_result list \<Rightarrow> (identity_result \<times> provider_identity_response) list" where
  "arrived_identity rs = concat (map (\<lambda>r. case yr_response r of None \<Rightarrow> [] | Some p \<Rightarrow> [(r, p)]) rs)"

lemma merge_eligible_set [simp]:
  "set (eligibleSet (merge_eligible p seen pkgs m)) = set (eligibleSet m) \<union> set pkgs"
  "distinct (eligibleSet m) \<Longrightarrow> distinct (eligibleSet (merge_eligible p seen pkgs m))"
  by (induction p seen pkgs m rule: merge_eligible.induct) (auto simp: Let_def)

lemma merge_eligible_frame [simp]:
  "minServeWindowSec (merge_eligible p seen pkgs m) = minServeWindowSec m"
  "tmpxProviders (merge_eligible p seen pkgs m) = tmpxProviders m"
  "legacyTmpx (merge_eligible p seen pkgs m) = legacyTmpx m"
  by (induction p seen pkgs m rule: merge_eligible.induct) (auto simp: Let_def)

lemma merge_tmpx_frame [simp]:
  "minServeWindowSec (merge_tmpx r p m) = minServeWindowSec m" "eligibleSet (merge_tmpx r p m) = eligibleSet m"
  by (simp_all add: merge_tmpx_def Let_def)

lemma merge_identity_step:
  "merge_identity_result r m = (case yr_response r of None \<Rightarrow> m | Some p \<Rightarrow>
     merge_eligible (yr_provider r) [] (pi_eligible_package_ids p)
       (merge_tmpx r p (m\<lparr>minServeWindowSec := merge_window (minServeWindowSec m) (pi_serve_window_sec p)\<rparr>)))"
  by (simp add: merge_identity_result_def Let_def split: option.split)

lemma merge_identity_run:
  "set (eligibleSet (fold merge_identity_result rs m)) =
     set (eligibleSet m) \<union> (\<Union>(r, p)\<in>set (arrived_identity rs). set (pi_eligible_package_ids p))"
  "distinct (eligibleSet m) \<Longrightarrow> distinct (eligibleSet (fold merge_identity_result rs m))"
  "minServeWindowSec (fold merge_identity_result rs m) =
     fold (\<lambda>(r, p) w. merge_window w (pi_serve_window_sec p)) (arrived_identity rs) (minServeWindowSec m)"
  by (induction rs arbitrary: m) (auto simp: merge_identity_step arrived_identity_def split: option.split)

lemma window_min:
  "w \<ge> 0 \<Longrightarrow> \<forall>x\<in>set ws. x \<ge> 0 \<Longrightarrow>
   fold (\<lambda>x w. merge_window w x) ws w \<in> insert w (set ws) \<and>
   (\<forall>x\<in>insert w (set ws). fold (\<lambda>x w. merge_window w x) ws w \<le> x)"
proof (induction ws arbitrary: w)
  case (Cons x ws)
  have "merge_window w x = min w x" using Cons.prems by (simp add: merge_window_def min_def)
  with Cons.IH [of "min w x"] Cons.prems show ?case by auto
qed simp

definition arrived_windows :: "identity_result list \<Rightarrow> int list" where
  "arrived_windows rs = map (\<lambda>(r, p). pi_serve_window_sec p) (arrived_identity rs)"

lemma merged_window:
  assumes "\<forall>x\<in>set (arrived_windows rs). x \<ge> 0"
  shows "(if arrived_windows rs = [] then minServeWindowSec (merge_identity_all rs) = -1
          else minServeWindowSec (merge_identity_all rs) \<in> set (arrived_windows rs) \<and>
            (\<forall>x\<in>set (arrived_windows rs). minServeWindowSec (merge_identity_all rs) \<le> x))"
proof -
  have run: "minServeWindowSec (merge_identity_all rs) = fold (\<lambda>x w. merge_window w x) (arrived_windows rs) (-1)"
    by (simp add: merge_identity_all_def merge_identity_run arrived_windows_def fold_map comp_def case_prod_unfold)
  show ?thesis
  proof (cases "arrived_windows rs")
    case (Cons x ws)
    have "merge_window (-1) x = x" by (simp add: merge_window_def)
    with Cons run window_min [of x ws] assms show ?thesis by simp
  qed (simp add: run)
qed

text \<open>Every forwarded bucket is one provider's whole emission, under its registered id and contract.\<close>

definition forwarded_ok :: "identity_result list \<Rightarrow> string \<times> tmpx_chunk list \<Rightarrow> bool" where
  "forwarded_ok rs b \<longleftrightarrow> (\<exists>(r, p)\<in>set (arrived_identity rs).
     b = (yr_provider r, pi_tmpx_chunks p) \<and> yr_provider r \<noteq> '''' \<and>
     enforceProviderSlotContract (yr_registered_slots r) (pi_tmpx_chunks p))"

lemma merge_tmpx_providers:
  "b \<in> set (tmpxProviders (merge_tmpx r p m)) \<Longrightarrow>
   b \<in> set (tmpxProviders m) \<or> b = (yr_provider r, pi_tmpx_chunks p) \<and> yr_provider r \<noteq> '''' \<and>
     enforceProviderSlotContract (yr_registered_slots r) (pi_tmpx_chunks p)"
proof -
  have "set (AList.update k v xs) \<subseteq> insert (k, v) (set xs)" for k and v :: "tmpx_chunk list" and xs
    by (induction xs) auto
  then show "b \<in> set (tmpxProviders (merge_tmpx r p m)) \<Longrightarrow> ?thesis"
    by (fastforce simp: merge_tmpx_def Let_def split: if_splits)
qed

lemma merge_identity_forwarded:
  "\<forall>b\<in>set (tmpxProviders m). forwarded_ok done b \<Longrightarrow>
   \<forall>b\<in>set (tmpxProviders (fold merge_identity_result rs m)). forwarded_ok (done @ rs) b"
proof (induction rs arbitrary: m "done")
  case (Cons r rs)
  have "\<forall>b\<in>set (tmpxProviders (merge_identity_result r m)). forwarded_ok (done @ [r]) b"
  proof
    fix b assume b: "b \<in> set (tmpxProviders (merge_identity_result r m))"
    show "forwarded_ok (done @ [r]) b"
    proof (cases "yr_response r")
      case None
      with b Cons.prems show ?thesis by (simp add: merge_identity_step forwarded_ok_def arrived_identity_def)
    next
      case (Some p)
      with b merge_tmpx_providers [of b r p] Cons.prems show ?thesis
        by (fastforce simp: merge_identity_step forwarded_ok_def arrived_identity_def)
    qed
  qed
  from Cons.IH [OF this] show ?case by simp
qed simp


lemma merge_identity_tmpx: "\<forall>b\<in>set (tmpxProviders (merge_identity_all rs)). forwarded_ok rs b"
proof -
  let ?m0 = "\<lparr>eligibleSet = [], pkgProviders = [], providerRepeats = [], minServeWindowSec = -1, legacyTmpx = '''',
      tmpxProviders = [], slotWarnings = []\<rparr>"
  have "\<forall>b\<in>set (tmpxProviders ?m0). forwarded_ok [] b" by simp
  from merge_identity_forwarded [OF this, of rs] show ?thesis unfolding merge_identity_all_def by simp
qed

section \<open>Properties\<close>

text \<open>The merged offers are, in arrival order, exactly the offers whose package id did not arrive
  earlier: no package twice, none lost, and for each package the first response wins, whichever order
  the providers answered in.\<close>

theorem mergeContext_offers:
  "cr_offers (mergeContextResponses requestID rs) = keep_first package_id (arrived_offers rs) \<and>
   distinct (map package_id (cr_offers (mergeContextResponses requestID rs))) \<and>
   package_id ` set (cr_offers (mergeContextResponses requestID rs)) = package_id ` set (arrived_offers rs) \<and>
   cr_request_id (mergeContextResponses requestID rs) = requestID"
  by (simp add: mergeContextResponses_def Let_def merged_offers keep_first_distinct keep_first_keys)

text \<open>C12: the signals of the merged response, key by key. \<^verbatim>\<open>segments\<close> is present exactly when some
  segment arrived and then lists every segment of every response in arrival order;
  \<^verbatim>\<open>targeting_kvs\<close> never is; every other key has the value that arrived last. The per-provider map has
  an entry for a provider exactly when its id is not empty and targeting pairs arrived from it, and
  the entry holds those pairs, all of them, in order, and nothing else. An empty object is left out.\<close>

theorem mergeContext_signals:
  fixes rs :: "context_result list" and requestID :: string
  defines "out \<equiv> mergeContextResponses requestID rs" and "arrived \<equiv> arrived_signals rs"
  defines "flat \<equiv> opt_list (cr_signals out)" and "buckets \<equiv> opt_list (cr_signals_by_provider out)"
  shows "map_of flat ''segments'' = (if all_segments arrived = [] then None else Some (SList (all_segments arrived))) \<and>
         map_of flat ''targeting_kvs'' = None \<and>
         (\<forall>k. k \<noteq> ''segments'' \<and> k \<noteq> ''targeting_kvs'' \<longrightarrow> map_of flat k = last_value arrived k) \<and>
         (\<forall>p. map_of buckets p =
            (if p = '''' \<or> kvs_from p arrived = [] then None else Some [(''targeting_kvs'', SList (kvs_from p arrived))])) \<and>
         distinct (map fst buckets) \<and> cr_signals out \<noteq> Some [] \<and> cr_signals_by_provider out \<noteq> Some []"
proof -
  let ?m = "mergedSignals (merge_context_all rs)"
  note ok = merged_signals(1) [of rs]
  have out: "cr_signals out = signals_result ?m" "cr_signals_by_provider out = byProviderResult ?m"
    by (simp_all add: out_def mergeContextResponses_def Let_def)
  have flat: "flat = (case signals_result ?m of None \<Rightarrow> [] | Some out \<Rightarrow> out)"
    by (simp add: flat_def out opt_list_def split: option.split)
  have buckets: "buckets = byProvider ?m"
    by (simp add: buckets_def out opt_list_def byProviderResult_def)
  have "map_of flat signalSegmentsKey = (if all_segments arrived = [] then None else Some (SList (all_segments arrived)))"
    using signals_result_lookup(2) [OF ok] by (simp add: flat arrived_def all_segments_def merged_signals(2))
  moreover have "map_of flat signalTargetingKVsKey = None" using signals_result_lookup(1) [OF ok] by (simp add: flat)
  moreover have "map_of flat k = last_value arrived k" if "k \<noteq> signalSegmentsKey" "k \<noteq> signalTargetingKVsKey" for k
    using that by (simp add: flat signals_result_other merged_extra arrived_def)
  moreover have "map_of buckets p = (if p = '''' \<or> kvs_from p arrived = [] then None
      else Some [(signalTargetingKVsKey, SList (kvs_from p arrived))])" for p
    unfolding buckets merged_buckets [OF ok] provider_kvs_from arrived_def by simp
  moreover have "distinct (map fst buckets)" using ok by (simp add: buckets merger_ok_def)
  moreover have "cr_signals out \<noteq> Some []" "cr_signals_by_provider out \<noteq> Some []"
    by (simp_all add: out signals_result_def byProviderResult_def Let_def)
  ultimately show ?thesis unfolding signalSegmentsKey_def signalTargetingKVsKey_def by blast
qed

theorem mergeContext_signals_witness:
  "(''kept'' :: string) \<noteq> ''segments'' \<and>
   map_of (opt_list (cr_signals (mergeContextResponses ''r'' [\<lparr>xr_provider = ''acme'', xr_response = Some
     \<lparr>pc_adcp_version = '''', pc_adcp_major_version = 3, pc_type = '''', pc_request_id = ''r'', pc_offers = [],
      pc_signals = [(''segments'', SList [JNull]), (''kept'', SOther JNull), (''targeting_kvs'', SList [JNull])],
      pc_cache_ttl = None\<rparr>\<rparr>]))) ''kept'' = Some (SOther JNull)"
proof -
  let ?r = "\<lparr>xr_provider = ''acme'', xr_response = Some \<lparr>pc_adcp_version = '''', pc_adcp_major_version = 3, pc_type = '''',
     pc_request_id = ''r'', pc_offers = [],
     pc_signals = [(''segments'', SList [JNull]), (''kept'', SOther JNull), (''targeting_kvs'', SList [JNull])],
     pc_cache_ttl = None\<rparr>\<rparr>"
  have "last_value (arrived_signals [?r]) ''kept'' = Some (SOther JNull)" by (simp add: last_value_def arrived_signals_def)
  with mergeContext_signals [of "''r''" "[?r]"] show ?thesis by simp
qed

text \<open>C11: the merged identity response lists exactly the package ids some provider reported, sorted and
  without repetition; its serve window lies in [1, 300], and is the clamped minimum of the reported
  windows when none is negative; and every TMPX bucket it forwards is the complete emission of one
  registered provider whose slot ids are a non-empty prefix of that provider's registered slots.\<close>

theorem mergeIdentity_correct:
  fixes rs :: "identity_result list" and requestID :: string
  defines "out \<equiv> mergeIdentityResponses requestID rs"
  shows "set (ir_eligible_package_ids out) = (\<Union>(r, p)\<in>set (arrived_identity rs). set (pi_eligible_package_ids p)) \<and>
         sorted (ir_eligible_package_ids out) \<and> distinct (ir_eligible_package_ids out) \<and>
         1 \<le> ir_serve_window_sec out \<and> ir_serve_window_sec out \<le> 300 \<and>
         ((\<forall>x\<in>set (arrived_windows rs). x \<ge> 0) \<longrightarrow>
            (if arrived_windows rs = [] then ir_serve_window_sec out = 1
             else \<exists>w\<in>set (arrived_windows rs). (\<forall>x\<in>set (arrived_windows rs). w \<le> x) \<and>
               ir_serve_window_sec out = clampServeWindowSec w)) \<and>
         (\<forall>buckets pid chunks. ir_tmpx_providers out = Some buckets \<and> (pid, chunks) \<in> set buckets \<longrightarrow>
            (\<exists>(r, p)\<in>set (arrived_identity rs). pid = yr_provider r \<and> pid \<noteq> '''' \<and> chunks = pi_tmpx_chunks p \<and>
               chunks \<noteq> [] \<and> (\<exists>rest. yr_registered_slots r = map slot_id chunks @ rest)))"
proof -
  let ?m = "merge_identity_all rs"
  have out: "ir_eligible_package_ids out = sort (eligibleSet ?m)"
    "ir_serve_window_sec out = clampServeWindowSec (minServeWindowSec ?m)"
    "ir_tmpx_providers out = (if tmpxProviders ?m = [] then None else Some (tmpxProviders ?m))"
    by (simp_all add: out_def mergeIdentityResponses_def Let_def)
  have elig: "set (eligibleSet ?m) = (\<Union>(r, p)\<in>set (arrived_identity rs). set (pi_eligible_package_ids p))"
    "distinct (eligibleSet ?m)"
    by (simp_all add: merge_identity_all_def merge_identity_run)
  have range: "1 \<le> clampServeWindowSec w \<and> clampServeWindowSec w \<le> 300" for w
    by (simp add: clampServeWindowSec_def MinServeWindowSec_def MaxServeWindowSec_def)
  have window: "if arrived_windows rs = [] then ir_serve_window_sec out = 1
      else \<exists>w\<in>set (arrived_windows rs). (\<forall>x\<in>set (arrived_windows rs). w \<le> x) \<and> ir_serve_window_sec out = clampServeWindowSec w"
    if "\<forall>x\<in>set (arrived_windows rs). x \<ge> 0"
    using merged_window [OF that] by (auto simp: out clampServeWindowSec_def MinServeWindowSec_def split: if_splits)
  have bucket: "\<exists>(r, p)\<in>set (arrived_identity rs). pid = yr_provider r \<and> pid \<noteq> '''' \<and> chunks = pi_tmpx_chunks p \<and>
      chunks \<noteq> [] \<and> (\<exists>rest. yr_registered_slots r = map slot_id chunks @ rest)"
    if "(pid, chunks) \<in> set (tmpxProviders ?m)" for pid chunks
  proof -
    from merge_identity_tmpx [of rs] that have "forwarded_ok rs (pid, chunks)" by fastforce
    then show ?thesis by (fastforce simp: forwarded_ok_def slot_contract_iff)
  qed
  show ?thesis
    using elig range [of "minServeWindowSec ?m"] window bucket unfolding out by (auto split: if_splits)
qed

definition sample_identity_result :: "string \<Rightarrow> int \<Rightarrow> identity_result" where
  "sample_identity_result pid w = \<lparr>yr_provider = pid, yr_registered_slots = [''primary''],
     yr_response = Some \<lparr>pi_adcp_version = '''', pi_adcp_major_version = 3, pi_type = '''', pi_request_id = ''r'',
       pi_eligible_package_ids = [''p1''], pi_serve_window_sec = w,
       pi_tmpx_chunks = [\<lparr>slot_id = ''primary'', chunk_value = ''v''\<rparr>]\<rparr>\<rparr>"

theorem mergeIdentity_correct_witness:
  "ir_serve_window_sec (mergeIdentityResponses ''r'' [sample_identity_result ''acme'' 120]) = clampServeWindowSec 120"
proof -
  have "arrived_windows [sample_identity_result ''acme'' 120] = [120]"
    by (simp add: arrived_windows_def arrived_identity_def sample_identity_result_def)
  with mergeIdentity_correct [of "''r''" "[sample_identity_result ''acme'' 120]"] show ?thesis by simp
qed

text \<open>With a negative reported window the result is neither the minimum nor independent of arrival
  order: the sentinel test takes the stored negative for \<open>not yet set\<close>.\<close>

lemma mergeIdentity_window_order:
  "ir_serve_window_sec (mergeIdentityResponses ''r'' [sample_identity_result ''a'' (-5), sample_identity_result ''b'' 200]) = 200 \<and>
   ir_serve_window_sec (mergeIdentityResponses ''r'' [sample_identity_result ''b'' 200, sample_identity_result ''a'' (-5)]) = 1"
  by code_simp

end
