(* ===== verification/Router_Handlers.thy ===== *)
theory Router_Handlers
  imports Provider_Set Context_Cache Router_Registry Response_Merge
begin

text \<open>
  The two request handlers and their fan-outs (\<^verbatim>\<open>src/router/router.go\<close>): admission, registry
  enrichment, validation, scrubbing, provider selection, one concurrent leg per provider, and the
  merged answer. A leg is a function of what it reads (cache, circuit, network) to the list of its
  accesses to shared state in program order and its result; the process runs any interleaving of the
  legs' accesses. A circuit check is one access here; in \<^verbatim>\<open>health.go\<close> it is a load followed, after the
  cooldown, by a compare-and-swap, which the step relation of \<^verbatim>\<open>Provider_Health\<close> keeps apart. JSON
  encoding, the URL canonicaliser and the network are arguments.

  The lemmas carry the handler's promises: what leaves the router (minimum-necessary identities,
  no country, no credentials, only to providers in scope), that in-flight counts balance for every
  interleaving, that every call of a leg follows a check that found the circuit closed, and the answer
  to every rejected request.
\<close>

section \<open>Calling one provider\<close>

definition effectiveTimeout :: "duration \<Rightarrow> duration \<Rightarrow> duration" where
  "effectiveTimeout latencyBudget providerTimeout =
     (let t = (if providerTimeout = 0 then 30 * millisecond else providerTimeout) in
      if latencyBudget > 0 \<and> t > latencyBudget then latencyBudget else t)"

text \<open>What the HTTP exchange came to; a body that is not JSON is \<^const>\<open>None\<close>.\<close>

datatype http_reply = TransportError string | ReadError string | HttpReply int "json option"

datatype call_error =
    CallTransport string
  | CallStatus int
  | CallDecode
  | CallForbidden string
  | CallApp string
  | CallType string

definition providerHopForbiddenFields :: "string list" where
  "providerHopForbiddenFields = [''tmpx_providers'', ''tmpx'', ''tmpx_values'', ''tmpx_macros'', ''context'', ''ext'']"

text \<open>\<^verbatim>\<open>checkResponseType\<close> on the decoded discriminator \<open>got\<close>; the error code is read from the same body.\<close>

definition json_string_field :: "json \<Rightarrow> string \<Rightarrow> string" where
  "json_string_field j key = (case j of JObj m \<Rightarrow> (case map_of m key of Some (JStr s) \<Rightarrow> s | _ \<Rightarrow> '''') | _ \<Rightarrow> '''')"

definition checkResponseType :: "string \<Rightarrow> string \<Rightarrow> json \<Rightarrow> call_error option" where
  "checkResponseType got expected body =
     (if got = '''' \<or> got = expected then None
      else if got = TypeError then Some (CallApp (json_string_field body ''code''))
      else Some (CallType got))"

text \<open>The top-level keys of a body, decoding it as Go decodes into a map.\<close>

definition probe_keys :: "json \<Rightarrow> string list option" where
  "probe_keys j = (case j of JObj m \<Rightarrow> Some (map fst m) | JNull \<Rightarrow> Some [] | _ \<Rightarrow> None)"

definition callProviderStrict ::
  "(json \<Rightarrow> 'resp option) \<Rightarrow> ('resp \<Rightarrow> string) \<Rightarrow> string \<Rightarrow> string list \<Rightarrow> http_reply \<Rightarrow> call_error + 'resp" where
  "callProviderStrict decode type_of expected forbidden reply =
     (case reply of
        TransportError e \<Rightarrow> Inl (CallTransport e)
      | ReadError e \<Rightarrow> Inl (CallTransport e)
      | HttpReply status body \<Rightarrow>
          if status \<noteq> 200 then Inl (CallStatus status)
          else case body of
            None \<Rightarrow> Inl CallDecode
          | Some j \<Rightarrow>
              let hit = (if forbidden = [] then Inr []
                         else case probe_keys j of None \<Rightarrow> Inl CallDecode
                           | Some keys \<Rightarrow> Inr (filter (\<lambda>k. k \<in> set keys) forbidden)) in
              (case hit of
                 Inl e \<Rightarrow> Inl e
               | Inr (k # ks) \<Rightarrow> Inl (CallForbidden k)
               | Inr [] \<Rightarrow>
                   (case decode j of
                      None \<Rightarrow> Inl CallDecode
                    | Some resp \<Rightarrow>
                        (case checkResponseType (type_of resp) expected j of
                           Some e \<Rightarrow> Inl e | None \<Rightarrow> Inr resp))))"

text \<open>The state of the call's context when the call returns.\<close>

datatype call_context = CtxLive | CtxDeadline | CtxCancelled

section \<open>The router and what a leg does\<close>

record router =
  rt_providers :: provider_snapshot
  rt_registry :: "registry option"
  rt_has_health :: bool
  rt_has_cache :: bool
  rt_budget :: duration
  rt_signer :: "(context_request \<Rightarrow> string \<Rightarrow> int \<Rightarrow> string) option"
  rt_key_id :: string

datatype leg_event =
    EvCacheGet time cache_coordinates "provider_context_response option"
  | EvCachePut time cache_coordinates provider_context_response
  | EvCircuit time string bool
  | EvExcluded string
  | EvIncr string
  | EvDecr string
  | EvSignContext time context_request string "(string \<times> string) list"
  | EvCallContext string string context_request duration "(string \<times> string) list"
  | EvCallIdentity string string identity_request duration
  | EvSuccess string
  | EvFailure time string
  | EvTimeout time string
  | EvObserve string
  | EvTimedOut string
  | EvError string

record leg_env =
  le_now_get :: time
  le_cached :: "provider_context_response option"
  le_now_circuit :: time
  le_open :: bool
  le_marshals :: bool
  le_signs :: bool
  le_now_sign :: time
  le_headers :: "(string \<times> string) list"
  le_reply :: http_reply
  le_context :: call_context
  le_now_end :: time

definition canonicalizeSellerForCache :: "(string \<Rightarrow> string option) \<Rightarrow> string \<Rightarrow> string" where
  "canonicalizeSellerForCache canon raw =
     (if raw = '''' then '''' else case canon raw of Some c \<Rightarrow> c | None \<Rightarrow> raw)"

definition contextCountry :: "object \<Rightarrow> string" where
  "contextCountry geo = (case map_of geo ''country'' of Some (JStr s) \<Rightarrow> s | _ \<Rightarrow> '''')"

definition leg_key :: "(string \<Rightarrow> string option) \<Rightarrow> context_request \<Rightarrow> provider_config \<Rightarrow> cache_coordinates" where
  "leg_key canon req p = \<lparr>cc_property_rid = cm_property_rid req, cc_placement_id = cm_placement_id req,
     cc_provider_id = ID p, cc_seller = canonicalizeSellerForCache canon (cm_seller_agent_url req),
     cc_country = contextCountry (cm_geo req)\<rparr>"

definition context_forward :: "context_request \<Rightarrow> provider_config \<Rightarrow> context_request" where
  "context_forward req p =
     (if PackageIDs p \<noteq> [] then req\<lparr>cm_package_ids := filterPackageIDsForProvider (cm_package_ids req) p\<rparr> else req)"

text \<open>The bookkeeping of a failed call, shared by both fan-outs.\<close>

definition observe_events :: "leg_env \<Rightarrow> string \<Rightarrow> leg_event list" where
  "observe_events env pid = (if le_context env = CtxCancelled then [] else [EvObserve pid])"

definition failure_events :: "bool \<Rightarrow> leg_env \<Rightarrow> string \<Rightarrow> leg_event list" where
  "failure_events has_health env pid =
     (case le_context env of
        CtxDeadline \<Rightarrow> (if has_health then [EvTimeout (le_now_end env) pid] else []) @ [EvTimedOut pid]
      | CtxCancelled \<Rightarrow> []
      | CtxLive \<Rightarrow> (if has_health then [EvFailure (le_now_end env) pid] else []) @ [EvError pid])"

text \<open>The gate in front of a call: the circuit check, then the increment whose decrement is deferred.\<close>

definition guarded :: "bool \<Rightarrow> leg_env \<Rightarrow> string \<Rightarrow> leg_event list \<times> 'r option \<Rightarrow> leg_event list \<times> 'r option" where
  "guarded has_health env pid body =
     (if has_health \<and> le_open env then ([EvCircuit (le_now_circuit env) pid True, EvExcluded pid], None)
      else if has_health then ([EvCircuit (le_now_circuit env) pid False, EvIncr pid] @ fst body @ [EvDecr pid], snd body)
      else body)"

definition context_call ::
  "(json \<Rightarrow> provider_context_response option) \<Rightarrow> (string \<Rightarrow> string option) \<Rightarrow> router \<Rightarrow> context_request \<Rightarrow>
   provider_config \<Rightarrow> leg_env \<Rightarrow> leg_event list \<times> context_result option" where
  "context_call decode canon r req p env =
     (if PackageIDs p \<noteq> [] \<and> \<not> le_marshals env then ([EvError (ID p)], None)
      else let call = (if rt_signer r = None then []
                       else [EvSignContext (le_now_sign env) (context_forward req p) (Endpoint p) (le_headers env)]) @
                      [EvCallContext (ID p) (Endpoint p @ ''/context'') (context_forward req p)
                         (effectiveTimeout (rt_budget r) (Timeout p)) (if rt_signer r = None then [] else le_headers env)] @
                      observe_events env (ID p) in
        case callProviderStrict decode pc_type TypeContextMatchResponse [] (le_reply env) of
          Inl e \<Rightarrow> (call @ failure_events (rt_has_health r) env (ID p), None)
        | Inr resp \<Rightarrow>
            (call @ (if rt_has_health r then [EvSuccess (ID p)] else []) @
               (if rt_has_cache r then [EvCachePut (le_now_end env) (leg_key canon req p) resp] else []),
             Some \<lparr>xr_provider = ID p, xr_response = Some resp\<rparr>))"

definition context_leg ::
  "(json \<Rightarrow> provider_context_response option) \<Rightarrow> (string \<Rightarrow> string option) \<Rightarrow> router \<Rightarrow> context_request \<Rightarrow>
   provider_config \<Rightarrow> leg_env \<Rightarrow> leg_event list \<times> context_result option" where
  "context_leg decode canon r req p env =
     (let look = (if rt_has_cache r then [EvCacheGet (le_now_get env) (leg_key canon req p) (le_cached env)] else []) in
      case (if rt_has_cache r then le_cached env else None) of
        Some cached \<Rightarrow> (look, Some \<lparr>xr_provider = ID p, xr_response = Some cached\<rparr>)
      | None \<Rightarrow> (let (evs, res) = guarded (rt_has_health r) env (ID p) (context_call decode canon r req p env)
                 in (look @ evs, res)))"

definition identity_forward :: "identity_request \<Rightarrow> provider_config \<Rightarrow> identity_request" where
  "identity_forward req p =
     req\<lparr>im_identities := filterIdentitiesForProvider (im_identities req) p,
         im_sealed_credentials := filterSealedCredentialsForProvider (im_sealed_credentials req) p\<rparr>"

definition identity_call ::
  "(json \<Rightarrow> provider_identity_response option) \<Rightarrow> router \<Rightarrow> identity_request \<Rightarrow>
   provider_config \<Rightarrow> leg_env \<Rightarrow> leg_event list \<times> identity_result option" where
  "identity_call decode r req p env =
     (let forward = identity_forward req p in
      if im_identities forward = [] then ([], None)
      else if \<not> le_signs env \<or> \<not> le_marshals env then ([EvError (ID p)], None)
      else let call = [EvCallIdentity (ID p) (Endpoint p @ ''/identity'') forward (effectiveTimeout (rt_budget r) (Timeout p))] @
                      observe_events env (ID p) in
        case callProviderStrict decode pi_type TypeIdentityMatchResponse providerHopForbiddenFields (le_reply env) of
          Inl e \<Rightarrow> (call @ failure_events (rt_has_health r) env (ID p), None)
        | Inr resp \<Rightarrow>
            (call @ (if rt_has_health r then [EvSuccess (ID p)] else []),
             Some \<lparr>yr_provider = ID p, yr_registered_slots = TmpxSlots p, yr_response = Some resp\<rparr>))"

definition identity_leg ::
  "(json \<Rightarrow> provider_identity_response option) \<Rightarrow> router \<Rightarrow> identity_request \<Rightarrow>
   provider_config \<Rightarrow> leg_env \<Rightarrow> leg_event list \<times> identity_result option" where
  "identity_leg decode r req p env = guarded (rt_has_health r) env (ID p) (identity_call decode r req p env)"


section \<open>Shared state and interleavings\<close>

record shared =
  sh_health :: provider_health
  sh_cache :: context_cache
  sh_sigs :: signature_cache

definition exec_event :: "router \<Rightarrow> leg_event \<Rightarrow> shared \<Rightarrow> shared" where
  "exec_event r ev s = (case ev of
     EvCacheGet now k v \<Rightarrow> s\<lparr>sh_cache := snd (Get now k (sh_cache s))\<rparr>
   | EvCachePut now k resp \<Rightarrow> s\<lparr>sh_cache := Put now k (Some resp) (sh_cache s)\<rparr>
   | EvCircuit now pid b \<Rightarrow> s\<lparr>sh_health := snd (IsCircuitOpen now pid (sh_health s))\<rparr>
   | EvIncr pid \<Rightarrow> s\<lparr>sh_health := IncrInflight pid (sh_health s)\<rparr>
   | EvDecr pid \<Rightarrow> s\<lparr>sh_health := DecrInflight pid (sh_health s)\<rparr>
   | EvSignContext now req ep hs \<Rightarrow>
       s\<lparr>sh_sigs := snd (signContextHeaders (rt_signer r) (rt_key_id r) id req ep now (sh_sigs s))\<rparr>
   | EvSuccess pid \<Rightarrow> s\<lparr>sh_health := RecordSuccess pid (sh_health s)\<rparr>
   | EvFailure now pid \<Rightarrow> s\<lparr>sh_health := RecordFailure now pid (sh_health s)\<rparr>
   | EvTimeout now pid \<Rightarrow> s\<lparr>sh_health := RecordTimeout now pid (sh_health s)\<rparr>
   | _ \<Rightarrow> s)"

text \<open>An access read what the state held when it ran.\<close>

definition event_ok :: "router \<Rightarrow> leg_event \<Rightarrow> shared \<Rightarrow> bool" where
  "event_ok r ev s = (case ev of
     EvCacheGet now k v \<Rightarrow> v = fst (Get now k (sh_cache s))
   | EvCircuit now pid b \<Rightarrow> b = fst (IsCircuitOpen now pid (sh_health s))
   | EvSignContext now req ep hs \<Rightarrow> hs = fst (signContextHeaders (rt_signer r) (rt_key_id r) id req ep now (sh_sigs s))
   | _ \<Rightarrow> True)"

fun run_events :: "router \<Rightarrow> leg_event list \<Rightarrow> shared \<Rightarrow> shared option" where
  "run_events r [] s = Some s"
| "run_events r (ev # evs) s = (if event_ok r ev s then run_events r evs (exec_event r ev s) else None)"

text \<open>\<open>interleaving ls zs\<close>: \<open>zs\<close> takes, step by step, the first remaining access of some leg.\<close>

inductive interleaving :: "'a list list \<Rightarrow> 'a list \<Rightarrow> bool" where
  finished: "\<forall>l\<in>set ls. l = [] \<Longrightarrow> interleaving ls []"
| access: "i < length ls \<Longrightarrow> ls ! i = x # l \<Longrightarrow> interleaving (ls[i := l]) zs \<Longrightarrow> interleaving ls (x # zs)"

section \<open>The handlers\<close>

datatype read_result = TooLarge | ReadFailed | Read

datatype 'resp http_answer = ErrorAnswer nat string string string | OkAnswer 'resp

definition error_status :: "string \<Rightarrow> nat" where
  "error_status code =
     (if code = ''rate_limited'' then 429
      else if code = ''timeout'' then 504
      else if code = ''internal_error'' then 500
      else if code = ''provider_unavailable'' then 503
      else 400)"

definition writeError :: "string \<Rightarrow> string \<Rightarrow> string \<Rightarrow> 'resp http_answer" where
  "writeError requestID code message = ErrorAnswer (error_status code) requestID code message"

text \<open>The registry fills in the identifier the publisher left out.\<close>

definition enrich :: "registry option \<Rightarrow> context_request \<Rightarrow> context_request" where
  "enrich reg req =
     (case reg of
        None \<Rightarrow> req
      | Some g \<Rightarrow>
          if cm_property_id req \<noteq> '''' then
            (case LookupByID g (cm_property_id req) of Some p \<Rightarrow> req\<lparr>cm_property_rid := rp_rid p\<rparr> | None \<Rightarrow> req)
          else if cm_property_rid req \<noteq> '''' then
            (case LookupByRID g (cm_property_rid req) of Some p \<Rightarrow> req\<lparr>cm_property_id := rp_id p\<rparr> | None \<Rightarrow> req)
          else req)"

definition prepare_context ::
  "(string \<Rightarrow> string option) \<Rightarrow> (string \<Rightarrow> string option) \<Rightarrow> (context_request \<Rightarrow> bool) \<Rightarrow> router \<Rightarrow> read_result \<Rightarrow>
   context_request option \<Rightarrow> context_response http_answer + (context_request \<times> provider_config list)" where
  "prepare_context fetchable ref_url marshals r rd decoded =
     (case rd of
        TooLarge \<Rightarrow> Inl (ErrorAnswer 413 '''' ''invalid_request'' ''request body too large'')
      | ReadFailed \<Rightarrow> Inl (writeError '''' ''invalid_request'' ''failed to read request body'')
      | Read \<Rightarrow>
          (case decoded of
             None \<Rightarrow> Inl (writeError '''' ''invalid_request'' ''request body is not valid JSON'')
           | Some req0 \<Rightarrow>
               let req1 = enrich (rt_registry r) req0 in
               if ValidateContextRequest fetchable ref_url req1 \<noteq> None
               then Inl (writeError (SafeRequestIDForEcho (cm_request_id req1)) ''invalid_request'' ''invalid request'')
               else let req = req1\<lparr>cm_artifact := StripAccess (cm_artifact req1)\<rparr> in
                 if \<not> marshals req then Inl (writeError (cm_request_id req) ''internal_error'' ''failed to serialize request'')
                 else Inr (req, filter (MatchesContextProvider req) (snap_active (rt_providers r)))))"

text \<open>\<open>order\<close> lists the legs in the order their results arrived.\<close>

definition HandleContextMatch ::
  "(string \<Rightarrow> string option) \<Rightarrow> (string \<Rightarrow> string option) \<Rightarrow> (context_request \<Rightarrow> bool) \<Rightarrow>
   (json \<Rightarrow> provider_context_response option) \<Rightarrow> (string \<Rightarrow> string option) \<Rightarrow> router \<Rightarrow> read_result \<Rightarrow>
   context_request option \<Rightarrow> (provider_config \<Rightarrow> leg_env) \<Rightarrow> (provider_config list \<Rightarrow> provider_config list) \<Rightarrow>
   leg_event list list \<times> context_response http_answer" where
  "HandleContextMatch fetchable ref_url marshals decode canon r rd decoded env order =
     (case prepare_context fetchable ref_url marshals r rd decoded of
        Inl answer \<Rightarrow> ([], answer)
      | Inr (req, matching) \<Rightarrow>
          (map (\<lambda>p. fst (context_leg decode canon r req p (env p))) matching,
           OkAnswer (mergeContextResponses (cm_request_id req)
             (List.map_filter (\<lambda>p. snd (context_leg decode canon r req p (env p))) (order matching)))))"

definition prepare_identity ::
  "router \<Rightarrow> read_result \<Rightarrow> identity_request option \<Rightarrow>
   identity_response http_answer + (identity_request \<times> provider_config list)" where
  "prepare_identity r rd decoded =
     (case rd of
        TooLarge \<Rightarrow> Inl (ErrorAnswer 413 '''' ''invalid_request'' ''request body too large'')
      | ReadFailed \<Rightarrow> Inl (writeError '''' ''invalid_request'' ''failed to read request body'')
      | Read \<Rightarrow>
          (case decoded of
             None \<Rightarrow> Inl (writeError '''' ''invalid_request'' ''request body is not valid JSON'')
           | Some req0 \<Rightarrow>
               (case ValidateIdentityRequest req0 of
                  Inl e \<Rightarrow> Inl (writeError (SafeRequestIDForEcho (im_request_id req0)) ''invalid_request'' ''invalid request'')
                | Inr req \<Rightarrow> Inr (req\<lparr>im_country := ''''\<rparr>, filter (MatchesIdentityProvider req) (snap_active (rt_providers r))))))"

definition HandleIdentityMatch ::
  "(json \<Rightarrow> provider_identity_response option) \<Rightarrow> router \<Rightarrow> read_result \<Rightarrow> identity_request option \<Rightarrow>
   (provider_config \<Rightarrow> leg_env) \<Rightarrow> (provider_config list \<Rightarrow> provider_config list) \<Rightarrow>
   leg_event list list \<times> identity_response http_answer" where
  "HandleIdentityMatch decode r rd decoded env order =
     (case prepare_identity r rd decoded of
        Inl answer \<Rightarrow> ([], answer)
      | Inr (req, matching) \<Rightarrow>
          (map (\<lambda>p. fst (identity_leg decode r req p (env p))) matching,
           OkAnswer (mergeIdentityResponses (im_request_id req)
             (List.map_filter (\<lambda>p. snd (identity_leg decode r req p (env p))) (order matching)))))"


section \<open>What a leg does\<close>

fun is_call :: "string \<Rightarrow> leg_event \<Rightarrow> bool" where
  "is_call pid (EvCallContext q url req t hs) = (q = pid)"
| "is_call pid (EvCallIdentity q url req t) = (q = pid)"
| "is_call pid ev = False"

text \<open>The net effect of a list of accesses on a provider's in-flight count.\<close>

fun inflight_delta :: "string \<Rightarrow> leg_event \<Rightarrow> int" where
  "inflight_delta pid (EvIncr q) = (if q = pid then 1 else 0)"
| "inflight_delta pid (EvDecr q) = (if q = pid then -1 else 0)"
| "inflight_delta pid ev = 0"

definition quiet :: "leg_event list \<Rightarrow> bool" where
  "quiet evs \<longleftrightarrow> (\<forall>ev\<in>set evs. \<forall>pid. inflight_delta pid ev = 0)"

definition uncircuited :: "leg_event list \<Rightarrow> bool" where
  "uncircuited evs \<longleftrightarrow> (\<forall>now pid b. EvCircuit now pid b \<notin> set evs)"

lemma quiet_append [simp]: "quiet (xs @ ys) \<longleftrightarrow> quiet xs \<and> quiet ys" and quiet_Nil [simp]: "quiet []"
  and quiet_Cons [simp]: "quiet (ev # evs) \<longleftrightarrow> (\<forall>pid. inflight_delta pid ev = 0) \<and> quiet evs"
  by (auto simp: quiet_def)

lemma quiet_sum: "quiet evs \<Longrightarrow> sum_list (map (inflight_delta pid) evs) = 0"
  by (induction evs) (simp_all add: quiet_def)

lemma quiet_parts [simp]: "quiet (failure_events b env p)" "quiet (observe_events env p)"
  by (auto simp: quiet_def failure_events_def observe_events_def split: call_context.split)

lemma context_call_quiet: "quiet (fst (context_call decode canon r req p env))"
  by (simp add: context_call_def Let_def split: sum.split)

lemma identity_call_quiet: "quiet (fst (identity_call decode r req p env))"
  by (simp add: identity_call_def Let_def split: sum.split)

lemma guarded_balanced:
  "quiet (fst body) \<Longrightarrow> sum_list (map (inflight_delta pid) (fst (guarded h env p body))) = 0"
  by (simp add: guarded_def quiet_sum)

lemma context_leg_events:
  "fst (context_leg decode canon r req p env) =
     (if rt_has_cache r then [EvCacheGet (le_now_get env) (leg_key canon req p) (le_cached env)] else []) @
     (if rt_has_cache r \<and> le_cached env \<noteq> None then []
      else fst (guarded (rt_has_health r) env (ID p) (context_call decode canon r req p env)))"
  by (auto simp: context_leg_def Let_def split: option.split prod.split)

lemma legs_balanced:
  "sum_list (map (inflight_delta pid) (fst (context_leg decode canon r req p env))) = 0"
  "sum_list (map (inflight_delta pid) (fst (identity_leg decode' r req' p env))) = 0"
  by (simp_all add: context_leg_events identity_leg_def guarded_balanced context_call_quiet identity_call_quiet)

section \<open>Running an interleaving\<close>

lemma interleaving_mset: "interleaving ls zs \<Longrightarrow> mset zs = sum_list (map mset ls)"
proof (induction rule: interleaving.induct)
  case (finished ls)
  then show ?case by (induction ls) simp_all
next
  case (access i ls x l zs)
  have "sum_list (map mset ls) = add_mset x (sum_list (map mset (ls[i := l])))"
    using access.hyps(1,2)
  proof (induction ls arbitrary: i)
    case (Cons a ls)
    then show ?case by (cases i) auto
  qed simp
  with access.IH show ?case by simp
qed

lemma interleaving_set: "interleaving ls zs \<Longrightarrow> set zs = (\<Union>l\<in>set ls. set l)"
proof -
  have "set_mset (sum_list (map mset ls)) = (\<Union>l\<in>set ls. set l)" for ls :: "'a list list"
    by (induction ls) auto
  then show "interleaving ls zs \<Longrightarrow> ?thesis"
    using interleaving_mset by (metis set_mset_mset)
qed

lemma exec_event_inflight:
  "Inflight (sh_health (exec_event r ev s)) pid = Inflight (sh_health s) pid + inflight_delta pid ev"
  by (cases ev) (simp_all add: exec_event_def health.count_incr health.count_decr)

lemma run_events_inflight:
  "run_events r evs s = Some s' \<Longrightarrow>
   Inflight (sh_health s') pid = Inflight (sh_health s) pid + sum_list (map (inflight_delta pid) evs)"
  by (induction evs arbitrary: s) (auto simp: exec_event_inflight split: if_splits)

lemma interleaving_sum:
  fixes f :: "'a \<Rightarrow> int"
  assumes "interleaving ls zs" "\<forall>l\<in>set ls. sum_list (map f l) = 0"
  shows "sum_list (map f zs) = 0"
proof -
  have "sum_list (map f zs) = sum_mset (image_mset f (mset zs))"
    by (metis mset_map sum_mset_sum_list)
  also have "\<dots> = sum_list (map (\<lambda>l. sum_list (map f l)) ls)"
    unfolding interleaving_mset [OF assms(1)]
    by (induction ls) (simp_all add: sum_mset_sum_list flip: mset_map)
  also have "\<dots> = 0" using assms(2) by (induction ls) auto
  finally show ?thesis .
qed

lemma run_events_append:
  "run_events r (xs @ ys) s = (case run_events r xs s of None \<Rightarrow> None | Some s1 \<Rightarrow> run_events r ys s1)"
  by (induction xs arbitrary: s) auto

text \<open>In a run, a circuit check reads the breaker's state of that moment.\<close>

lemma run_circuit_reading:
  assumes "run_events r zs s = Some s'" "zs = pre @ EvCircuit now pid b # post"
  shows "\<exists>s1. run_events r pre s = Some s1 \<and> b = fst (IsCircuitOpen now pid (sh_health s1))"
  using assms by (auto simp: run_events_append event_ok_def split: option.splits if_splits)

section \<open>Circuit checks gate calls\<close>

lemma failure_no_call [simp]: "ev \<in> set (failure_events h env p) \<Longrightarrow> \<not> is_call q ev"
  "ev \<in> set (observe_events env p) \<Longrightarrow> \<not> is_call q ev"
  by (auto simp: failure_events_def observe_events_def split: call_context.splits if_splits)

lemma circuit_free_parts [simp]: "EvCircuit now q b \<notin> set (failure_events h env p)" "EvCircuit now q b \<notin> set (observe_events env p)"
  by (auto simp: failure_events_def observe_events_def split: call_context.splits)

lemma calls_circuit_free:
  "EvCircuit now q b \<notin> set (fst (context_call decode canon r req p env))"
  "EvCircuit now q b \<notin> set (fst (identity_call decode' r req' p env))"
  by (auto simp: context_call_def identity_call_def Let_def split: sum.splits)

lemma call_own_id:
  "ev \<in> set (fst (context_call decode canon r req p env)) \<Longrightarrow> is_call q ev \<Longrightarrow> q = ID p"
  "ev' \<in> set (fst (identity_call decode' r req' p env)) \<Longrightarrow> is_call q ev' \<Longrightarrow> q = ID p"
  by (auto simp: context_call_def identity_call_def Let_def split: sum.splits if_splits)

definition closed_check :: "string \<Rightarrow> leg_event \<Rightarrow> bool" where
  "closed_check pid ev \<longleftrightarrow> (\<exists>now. ev = EvCircuit now pid False)"

text \<open>\<open>gated l\<close>: every call of the leg \<open>l\<close> comes after a check of that provider's circuit in \<open>l\<close> that read closed,
  no provider is called twice, and a leg with a check that read open calls nobody.\<close>

definition gated :: "leg_event list \<Rightarrow> bool" where
  "gated l \<longleftrightarrow>
     (\<forall>pid pre ev post. l = pre @ ev # post \<and> is_call pid ev \<longrightarrow> (\<exists>c\<in>set pre. closed_check pid c)) \<and>
     (\<forall>pid. length (filter (is_call pid) l) \<le> 1) \<and>
     (\<forall>now q. EvCircuit now q True \<in> set l \<longrightarrow> (\<forall>ev\<in>set l. \<forall>pid. \<not> is_call pid ev))"

lemma no_calls_parts [simp]:
  "filter (is_call q) (failure_events h env p) = []" "filter (is_call q) (observe_events env p) = []"
  by (simp_all add: filter_empty_conv)

lemma calls_once:
  "length (filter (is_call q) (fst (context_call decode canon r req p env))) \<le> 1"
  "length (filter (is_call q) (fst (identity_call decode' r req' p env))) \<le> 1"
  by (auto simp: context_call_def identity_call_def Let_def split: sum.splits)

lemma split_after:
  "xs @ c # ys = pre @ ev # post \<Longrightarrow> ev \<notin> set xs \<Longrightarrow> ev \<noteq> c \<Longrightarrow> c \<in> set pre"
  by (induction xs arbitrary: pre) (auto simp: Cons_eq_append_conv)

lemma no_calls_gated: "(\<And>ev pid. ev \<in> set l \<Longrightarrow> \<not> is_call pid ev) \<Longrightarrow> gated l"
  unfolding gated_def by (auto simp: filter_empty_conv)

lemma gated_leg:
  assumes look: "\<forall>ev\<in>set look. \<forall>pid. \<not> is_call pid ev \<and> (\<forall>now b. ev \<noteq> EvCircuit now pid b)"
    and body: "\<And>q ev. ev \<in> set (fst body) \<Longrightarrow> is_call q ev \<Longrightarrow> q = p" "\<And>q. length (filter (is_call q) (fst body)) \<le> 1"
      "\<And>now q b. EvCircuit now q b \<notin> set (fst body)"
  shows "gated (look @ fst (guarded True env p body))"
proof -
  have none: "filter (is_call q) look = []" for q using look by (simp add: filter_empty_conv)
  show ?thesis
  proof (cases "le_open env")
    case True
    with look have "\<not> is_call q ev" if "ev \<in> set (look @ fst (guarded True env p body))" for q ev
      using that by (auto simp: guarded_def)
    then show ?thesis by (rule no_calls_gated)
  next
    case False
    let ?c = "EvCircuit (le_now_circuit env) p False"
    let ?l = "look @ ?c # EvIncr p # fst body @ [EvDecr p]"
    have l: "look @ fst (guarded True env p body) = ?l" using False by (simp add: guarded_def)
    have "\<exists>c\<in>set pre. closed_check q c" if split: "?l = pre @ ev # post" and call: "is_call q ev" for q pre ev post
    proof -
      have ev: "ev \<notin> set look" "ev \<noteq> ?c" using look call by auto
      have "ev \<in> set ?l" unfolding split by simp
      with ev call body(1) have "q = p" by auto
      moreover have "?c \<in> set pre" using split_after [OF split ev] .
      ultimately show ?thesis unfolding closed_check_def by blast
    qed
    moreover have "length (filter (is_call q) ?l) \<le> 1" for q using none body(2) by simp
    moreover have "EvCircuit now q True \<notin> set ?l" for now q using look body(3) by auto
    ultimately show ?thesis unfolding l gated_def by blast
  qed
qed

lemma legs_gated:
  assumes "rt_has_health r"
  shows "gated (fst (context_leg decode canon r req p env))" "gated (fst (identity_leg decode' r req' p env))"
proof -
  let ?look = "if rt_has_cache r then [EvCacheGet (le_now_get env) (leg_key canon req p) (le_cached env)] else []"
  have look: "\<forall>ev\<in>set ?look. \<forall>pid. \<not> is_call pid ev \<and> (\<forall>now b. ev \<noteq> EvCircuit now pid b)" by simp
  have "gated ?look" by (rule no_calls_gated) (simp split: if_splits)
  moreover have "gated (?look @ fst (guarded True env (ID p) (context_call decode canon r req p env)))"
    by (rule gated_leg [OF look]) (erule call_own_id(1), assumption, rule calls_once(1), rule calls_circuit_free(1))
  ultimately show "gated (fst (context_leg decode canon r req p env))"
    unfolding context_leg_events using assms by (simp split: if_splits)
  have "gated ([] @ fst (guarded True env (ID p) (identity_call decode' r req' p env)))"
    by (rule gated_leg) (simp, erule call_own_id(2), assumption, rule calls_once(2), rule calls_circuit_free(2))
  then show "gated (fst (identity_leg decode' r req' p env))" using assms by (simp add: identity_leg_def)
qed

text \<open>A prefix of a gated leg has no more calls of a provider than closed checks of it.\<close>

lemma gated_prefix:
  assumes "gated (pre @ post)"
  shows "length (filter (is_call pid) pre) \<le> length (filter (closed_check pid) pre)"
proof (cases "filter (is_call pid) pre")
  case (Cons ev evs)
  have "ev \<in> set (filter (is_call pid) pre)" unfolding Cons by simp
  then have "ev \<in> set pre" "is_call pid ev" by simp_all
  then obtain a b where pre: "pre = a @ ev # b" by (auto dest: split_list)
  then have "pre @ post = a @ ev # (b @ post) \<and> is_call pid ev" using \<open>is_call pid ev\<close> by simp
  with assms obtain c where c: "c \<in> set a" "closed_check pid c" unfolding gated_def by blast
  then have "filter (closed_check pid) pre \<noteq> []" unfolding pre by (auto simp: filter_empty_conv)
  then have "1 \<le> length (filter (closed_check pid) pre)" by (cases "filter (closed_check pid) pre") simp_all
  moreover have "length (filter (is_call pid) pre) \<le> 1"
  proof -
    have "length (filter (is_call pid) (pre @ post)) \<le> 1" using assms unfolding gated_def by blast
    then show ?thesis by simp
  qed
  ultimately show ?thesis by simp
qed simp

text \<open>A prefix of an interleaving interleaves prefixes of the lists.\<close>

lemma interleaving_prefix:
  "interleaving ls zs \<Longrightarrow> zs = pre @ post \<Longrightarrow>
   \<exists>ms rs. length ms = length ls \<and> length rs = length ls \<and> (\<forall>i<length ls. ls ! i = ms ! i @ rs ! i) \<and> interleaving ms pre"
proof (induction arbitrary: pre rule: interleaving.induct)
  case (finished ls)
  have "interleaving (map (\<lambda>_. []) ls) []" by (rule interleaving.finished) simp
  with finished show ?case by (intro exI [of _ "map (\<lambda>_. []) ls"] exI [of _ ls]) simp
next
  case (access i ls x l zs)
  show ?case
  proof (cases pre)
    case Nil
    have "interleaving (map (\<lambda>_. []) ls) []" by (rule interleaving.finished) simp
    with Nil show ?thesis by (intro exI [of _ "map (\<lambda>_. []) ls"] exI [of _ ls]) simp
  next
    case (Cons y pre')
    with access.prems have y: "y = x" "zs = pre' @ post" by simp_all
    from access.IH [OF y(2)] obtain ms rs where ms: "length ms = length ls" "length rs = length ls"
      "\<forall>j<length ls. ls[i := l] ! j = ms ! j @ rs ! j" "interleaving ms pre'" by auto
    have l: "l = ms ! i @ rs ! i" using ms(3) access.hyps(1) by (metis nth_list_update_eq)
    have "interleaving (ms[i := x # ms ! i]) (x # pre')"
      by (rule interleaving.access [where i = i and l = "ms ! i"]) (use access.hyps(1) ms(1,4) in simp_all)
    moreover have "ls ! j = ms[i := x # ms ! i] ! j @ rs ! j" if "j < length ls" for j
      using that ms(1,3) access.hyps(1,2) l by (cases "j = i") (auto simp: nth_list_update)
    ultimately show ?thesis using ms(1,2) Cons y(1) by (intro exI [of _ "ms[i := x # ms ! i]"] exI [of _ rs]) simp
  qed
qed

lemma interleaving_count:
  assumes "interleaving ls zs"
  shows "length (filter P zs) = (\<Sum>i<length ls. length (filter P (ls ! i)))"
proof -
  have "length (filter P zs) = size (filter_mset P (mset zs))" by (metis mset_filter size_mset)
  also have "\<dots> = sum_list (map (\<lambda>l. length (filter P l)) ls)"
    unfolding interleaving_mset [OF assms] by (induction ls) (simp_all flip: mset_filter)
  also have "\<dots> = (\<Sum>i<length ls. length (filter P (ls ! i)))"
    by (simp add: sum_list_sum_nth atLeast0LessThan)
  finally show ?thesis .
qed

lemma interleaving_gated:
  assumes "interleaving ls (pre @ post)" "\<forall>l\<in>set ls. gated l"
  shows "length (filter (is_call pid) pre) \<le> length (filter (closed_check pid) pre)"
proof -
  from interleaving_prefix [OF assms(1) refl] obtain ms rs where ms: "length ms = length ls"
    "\<forall>i<length ls. ls ! i = ms ! i @ rs ! i" "interleaving ms pre" by blast
  have "length (filter (is_call pid) (ms ! i)) \<le> length (filter (closed_check pid) (ms ! i))" if "i < length ms" for i
    using assms(2) ms(1,2) that gated_prefix [of "ms ! i" "rs ! i"] by (metis nth_mem)
  then show ?thesis unfolding interleaving_count [OF ms(3)] by (intro sum_mono) simp
qed

section \<open>What is sent\<close>

lemma context_leg_sends:
  assumes "EvCallContext pid url fwd t hs \<in> set (fst (context_leg decode canon r req p env))"
  shows "pid = ID p \<and> url = Endpoint p @ ''/context'' \<and> fwd = context_forward req p"
  using assms
  by (auto simp: context_leg_events guarded_def context_call_def failure_events_def observe_events_def Let_def
      split: if_splits sum.splits call_context.splits)

lemma identity_leg_sends:
  assumes "EvCallIdentity pid url fwd t \<in> set (fst (identity_leg decode r req p env))"
  shows "pid = ID p \<and> url = Endpoint p @ ''/identity'' \<and> fwd = identity_forward req p \<and> im_identities fwd \<noteq> []"
  using assms
  by (auto simp: identity_leg_def guarded_def identity_call_def failure_events_def observe_events_def Let_def
      split: if_splits sum.splits call_context.splits)

lemma prepare_identity_Inr:
  "prepare_identity r rd decoded = Inr (req, matching) \<Longrightarrow>
   \<exists>req0 v. decoded = Some req0 \<and> ValidateIdentityRequest req0 = Inr v \<and> req = v\<lparr>im_country := ''''\<rparr> \<and>
     matching = filter (MatchesIdentityProvider v) (snap_active (rt_providers r))"
  by (auto simp: prepare_identity_def split: read_result.splits option.splits sum.splits)

lemma prepare_context_Inr:
  "prepare_context fetchable ref_url marshals r rd decoded = Inr (req, matching) \<Longrightarrow>
   \<exists>req1. ValidateContextRequest fetchable ref_url req1 = None \<and> req = req1\<lparr>cm_artifact := StripAccess (cm_artifact req1)\<rparr> \<and>
     matching = filter (MatchesContextProvider req) (snap_active (rt_providers r))"
  by (auto simp: prepare_context_def Let_def split: read_result.splits option.splits if_splits)

section \<open>Properties\<close>

text \<open>C1: whatever an identity request contains and however the network behaves, every request the router
  sends out goes to an active provider that serves identity matching and, when it declares
  countries, covers the request's country; it carries no country; at least one identity; of the
  user's identities exactly those of a type the provider declared, in order; and no sealed credential
  except those addressed to a key the provider holds.\<close>

theorem identity_privacy:
  assumes "EvCallIdentity pid url fwd t \<in> (\<Union>l\<in>set (fst (HandleIdentityMatch decode r rd decoded env order)). set l)"
  shows "\<exists>req0 req p. decoded = Some req0 \<and> ValidateIdentityRequest req0 = Inr req \<and>
           p \<in> set (snap_active (rt_providers r)) \<and> pid = ID p \<and> url = Endpoint p @ ''/identity'' \<and> IdentityMatch p \<and>
           (Countries p = [] \<or> im_country req \<noteq> '''' \<and> im_country req \<in> set (Countries p)) \<and>
           im_country fwd = '''' \<and> im_identities fwd \<noteq> [] \<and>
           im_identities fwd = filterIdentitiesForProvider (im_identities req) p \<and>
           (\<forall>x\<in>set (im_identities fwd). x \<in> set (im_identities req) \<and> (UIDTypes p = [] \<or> uid_type x \<in> set (UIDTypes p))) \<and>
           (\<forall>c\<in>set (im_sealed_credentials fwd). c \<in> set (im_sealed_credentials req) \<and> audience_kid c \<in> set (AudienceKIDs p))"
proof -
  from assms obtain req matching where prep: "prepare_identity r rd decoded = Inr (req, matching)"
    by (auto simp: HandleIdentityMatch_def split: sum.splits)
  with assms obtain p where p: "p \<in> set matching"
    and ev: "EvCallIdentity pid url fwd t \<in> set (fst (identity_leg decode r req p (env p)))"
    by (auto simp: HandleIdentityMatch_def)
  from prepare_identity_Inr [OF prep] obtain req0 v where v: "decoded = Some req0" "ValidateIdentityRequest req0 = Inr v"
    "req = v\<lparr>im_country := ''''\<rparr>" "matching = filter (MatchesIdentityProvider v) (snap_active (rt_providers r))" by blast
  from p v(4) have match: "p \<in> set (snap_active (rt_providers r))" "MatchesIdentityProvider v p" by auto
  note sent = identity_leg_sends [OF ev]
  then have "im_country fwd = ''''" "im_identities fwd = filterIdentitiesForProvider (im_identities v) p"
    "im_sealed_credentials fwd = filterSealedCredentialsForProvider (im_sealed_credentials v) p"
    by (simp_all add: v(3) identity_forward_def)
  with v(1,2) match sent MatchesIdentityProvider_residency [OF match(2)] show ?thesis
    by (intro exI [of _ req0] exI [of _ v] exI [of _ p]) (simp add: filter_sets)
qed

definition sample_router :: router where
  "sample_router = \<lparr>rt_providers = NewProviderSet [sample_provider], rt_registry = None, rt_has_health = True,
     rt_has_cache = False, rt_budget = 50 * millisecond, rt_signer = None, rt_key_id = ''''\<rparr>"

definition sample_env :: leg_env where
  "sample_env = \<lparr>le_now_get = 0, le_cached = None, le_now_circuit = 1, le_open = False, le_marshals = True, le_signs = True,
     le_now_sign = 0, le_headers = [], le_reply = TransportError ''refused'', le_context = CtxLive, le_now_end = 5\<rparr>"

lemma sample_identity_accepted:
  "ValidateIdentityRequest sample_identity_request = Inr (sample_identity_request\<lparr>im_country := ''DE''\<rparr>)"
  by code_simp

lemma sample_identity_legs:
  "fst (HandleIdentityMatch (\<lambda>_. None) sample_router Read (Some sample_identity_request) (\<lambda>_. sample_env) id) =
     [[EvCircuit 1 ''acme_1'' False, EvIncr ''acme_1'',
       EvCallIdentity ''acme_1'' ''https://acme.example/tmp/identity''
         (sample_identity_request\<lparr>im_country := '''', im_identities := [hd (im_identities sample_identity_request)]\<rparr>) (30 * millisecond),
       EvObserve ''acme_1'', EvFailure 5 ''acme_1'', EvError ''acme_1'', EvDecr ''acme_1'']]"
proof -
  have "filter (MatchesIdentityProvider (sample_identity_request\<lparr>im_country := ''DE''\<rparr>)) (snap_active (rt_providers sample_router)) =
      [sample_provider]"
    by (simp add: sample_router_def NewProviderSet_def buildSnapshot_def EffectiveStatus_def MatchesIdentityProvider_def
        sample_provider_def sample_identity_request_def)
  then show ?thesis
    by (simp add: HandleIdentityMatch_def prepare_identity_def sample_identity_accepted identity_leg_def guarded_def
        identity_call_def identity_forward_def filterIdentitiesForProvider_def filterSealedCredentialsForProvider_def
        callProviderStrict_def failure_events_def observe_events_def sample_env_def effectiveTimeout_def Let_def)
      (simp add: sample_router_def sample_provider_def sample_identity_request_def millisecond_def)
qed

theorem identity_privacy_witness:
  "\<exists>req. ValidateIdentityRequest sample_identity_request = Inr req \<and> im_country req \<in> set (Countries sample_provider)"
proof -
  let ?fwd = "sample_identity_request\<lparr>im_country := '''', im_identities := [hd (im_identities sample_identity_request)]\<rparr>"
  have "EvCallIdentity ''acme_1'' ''https://acme.example/tmp/identity'' ?fwd (30 * millisecond) \<in>
      (\<Union>l\<in>set (fst (HandleIdentityMatch (\<lambda>_. None) sample_router Read (Some sample_identity_request) (\<lambda>_. sample_env) id)). set l)"
    by (simp add: sample_identity_legs)
  from identity_privacy [OF this] show ?thesis
    by (auto simp: sample_router_def NewProviderSet_def buildSnapshot_def sample_provider_def split: if_splits)
qed

text \<open>C2: every context request the router sends goes to an active provider that serves context matching
  and whose property rules the request passes; it is the validated request with its artifact scrubbed
  of access objects and signed URLs, and its package ids restricted to the provider's.\<close>

theorem context_privacy:
  assumes "EvCallContext pid url fwd t hs \<in>
      (\<Union>l\<in>set (fst (HandleContextMatch fetchable ref_url marshals decode canon r rd decoded env order)). set l)"
  shows "\<exists>req1 p. ValidateContextRequest fetchable ref_url req1 = None \<and>
           p \<in> set (snap_active (rt_providers r)) \<and> pid = ID p \<and> url = Endpoint p @ ''/context'' \<and> ContextMatch p \<and>
           matchesProperty (cm_property_id req1) (cm_property_rid req1) (cm_property_type req1) p \<and>
           fwd = req1\<lparr>cm_artifact := StripAccess (cm_artifact req1), cm_package_ids := cm_package_ids fwd\<rparr> \<and>
           (\<forall>k\<in>set (cm_package_ids fwd). k \<in> set (cm_package_ids req1) \<and> (PackageIDs p = [] \<or> k \<in> set (PackageIDs p))) \<and>
           (\<forall>a. cm_artifact fwd = Some a \<longrightarrow> (\<forall>x\<in>set (art_assets a). \<not> carries_access x))"
proof -
  from assms obtain req matching where prep: "prepare_context fetchable ref_url marshals r rd decoded = Inr (req, matching)"
    by (auto simp: HandleContextMatch_def split: sum.splits)
  with assms obtain p where p: "p \<in> set matching"
    and ev: "EvCallContext pid url fwd t hs \<in> set (fst (context_leg decode canon r req p (env p)))"
    by (auto simp: HandleContextMatch_def)
  from prepare_context_Inr [OF prep] obtain req1 where v: "ValidateContextRequest fetchable ref_url req1 = None"
    "req = req1\<lparr>cm_artifact := StripAccess (cm_artifact req1)\<rparr>"
    "matching = filter (MatchesContextProvider req) (snap_active (rt_providers r))" by blast
  from p v(3) have match: "p \<in> set (snap_active (rt_providers r))" "MatchesContextProvider req p" by auto
  note sent = context_leg_sends [OF ev]
  have fwd: "fwd = req1\<lparr>cm_artifact := StripAccess (cm_artifact req1), cm_package_ids := cm_package_ids fwd\<rparr>"
    "cm_package_ids fwd = filterPackageIDsForProvider (cm_package_ids req1) p"
    using sent by (simp_all add: v(2) context_forward_def filterPackageIDsForProvider_def)
  have "\<not> carries_access x" if "cm_artifact fwd = Some a" "x \<in> set (art_assets a)" for a x
    using that by (subst (asm) fwd(1)) (auto simp: StripAccess_def strip_asset_clean)
  moreover have "ContextMatch p \<and> matchesProperty (cm_property_id req1) (cm_property_rid req1) (cm_property_type req1) p"
    using match(2) v(2) by (simp add: MatchesContextProvider_def split: if_splits)
  ultimately show ?thesis
    using v(1) match(1) sent fwd filter_sets(3) [of "cm_package_ids req1" p]
    by (intro exI [of _ req1] exI [of _ p]) auto
qed

lemma sample_context_accepted:
  "ValidateContextRequest (\<lambda>_. None) (\<lambda>_. None) sample_context_request = None"
  by code_simp

lemma sample_prepared:
  "prepare_context (\<lambda>_. None) (\<lambda>_. None) (\<lambda>_. True) sample_router Read (Some sample_context_request) =
     Inr (sample_context_request, [sample_provider])"
proof -
  have "sample_context_request\<lparr>cm_artifact := StripAccess (cm_artifact sample_context_request)\<rparr> = sample_context_request"
    by (simp add: sample_context_request_def StripAccess_def)
  moreover have "filter (MatchesContextProvider sample_context_request) (snap_active (rt_providers sample_router)) = [sample_provider]"
    by (simp add: sample_router_def NewProviderSet_def buildSnapshot_def EffectiveStatus_def MatchesContextProvider_def
        matchesProperty_def sample_provider_def)
  moreover have "enrich (rt_registry sample_router) sample_context_request = sample_context_request"
    by (simp add: enrich_def sample_router_def)
  ultimately show ?thesis by (simp add: prepare_context_def sample_context_accepted)
qed

lemma sample_fields:
  "rt_has_health sample_router" "\<not> rt_has_cache sample_router" "rt_budget sample_router = 50 * millisecond"
  "rt_signer sample_router = None" "ID sample_provider = ''acme_1''" "Endpoint sample_provider = ''https://acme.example/tmp''"
  "PackageIDs sample_provider = []" "Timeout sample_provider = 30 * millisecond"
  "effectiveTimeout (50 * millisecond) (30 * millisecond) = 30 * millisecond"
  by (simp_all add: sample_router_def sample_provider_def effectiveTimeout_def millisecond_def)

lemma sample_call_fails: "callProviderStrict decode type_of expected forbidden (le_reply sample_env) = Inl (CallTransport ''refused'')"
  by (simp add: callProviderStrict_def sample_env_def)

lemma sample_context_legs:
  "fst (HandleContextMatch (\<lambda>_. None) (\<lambda>_. None) (\<lambda>_. True) (\<lambda>_. None) (\<lambda>_. None) sample_router Read
      (Some sample_context_request) (\<lambda>_. sample_env) id) =
     [[EvCircuit 1 ''acme_1'' False, EvIncr ''acme_1'',
       EvCallContext ''acme_1'' ''https://acme.example/tmp/context'' sample_context_request (30 * millisecond) [],
       EvObserve ''acme_1'', EvFailure 5 ''acme_1'', EvError ''acme_1'', EvDecr ''acme_1'']]"
proof -
  have call: "context_call (\<lambda>_. None) (\<lambda>_. None) sample_router sample_context_request sample_provider sample_env =
      ([EvCallContext ''acme_1'' ''https://acme.example/tmp/context'' sample_context_request (30 * millisecond) [],
        EvObserve ''acme_1'', EvFailure 5 ''acme_1'', EvError ''acme_1''], None)"
    by (simp add: context_call_def sample_fields sample_call_fails context_forward_def Let_def)
      (simp add: failure_events_def observe_events_def sample_env_def)
  have "le_now_circuit sample_env = 1" "\<not> le_open sample_env" by (simp_all add: sample_env_def)
  then have "fst (context_leg (\<lambda>_. None) (\<lambda>_. None) sample_router sample_context_request sample_provider sample_env) =
      [EvCircuit 1 ''acme_1'' False, EvIncr ''acme_1'',
       EvCallContext ''acme_1'' ''https://acme.example/tmp/context'' sample_context_request (30 * millisecond) [],
       EvObserve ''acme_1'', EvFailure 5 ''acme_1'', EvError ''acme_1'', EvDecr ''acme_1'']"
    by (simp add: context_leg_events guarded_def call sample_fields)
  then show ?thesis by (simp add: HandleContextMatch_def sample_prepared)
qed

theorem context_privacy_witness:
  "\<exists>req1 p. ValidateContextRequest (\<lambda>_. None) (\<lambda>_. None) req1 = None \<and>
     p \<in> set (snap_active (rt_providers sample_router)) \<and> ''acme_1'' = ID p \<and> ContextMatch p"
proof -
  have "EvCallContext ''acme_1'' ''https://acme.example/tmp/context'' sample_context_request (30 * millisecond) [] \<in>
      (\<Union>l\<in>set (fst (HandleContextMatch (\<lambda>_. None) (\<lambda>_. None) (\<lambda>_. True) (\<lambda>_. None) (\<lambda>_. None) sample_router Read
         (Some sample_context_request) (\<lambda>_. sample_env) id)). set l)"
    by (simp add: sample_context_legs)
  from context_privacy [OF this] show ?thesis by blast
qed

text \<open>C3: in-flight counts balance. However the legs of a context and an identity fan-out interleave, and
  however their calls end, once all of them have run every provider's count is what it was before.\<close>

theorem fanout_inflight_balanced:
  assumes "interleaving
      (fst (HandleContextMatch fetchable ref_url marshals decode canon r rd decoded env order) @
       fst (HandleIdentityMatch decode' r rd' decoded' env' order')) zs"
    and "run_events r zs s = Some s'"
  shows "Inflight (sh_health s') pid = Inflight (sh_health s) pid"
proof -
  have "\<forall>l\<in>set (fst (HandleContextMatch fetchable ref_url marshals decode canon r rd decoded env order) @
       fst (HandleIdentityMatch decode' r rd' decoded' env' order')). sum_list (map (inflight_delta pid) l) = 0"
    by (auto simp: HandleContextMatch_def HandleIdentityMatch_def legs_balanced split: sum.splits)
  from interleaving_sum [OF assms(1) this] run_events_inflight [OF assms(2)] show ?thesis by simp
qed

lemma interleaving_one: "interleaving [zs] zs"
proof (induction zs)
  case Nil
  show ?case by (rule interleaving.finished) simp
next
  case (Cons z zs)
  show ?case by (rule interleaving.access [where i = 0 and l = zs]) (simp_all add: Cons.IH)
qed

definition sample_shared :: shared where
  "sample_shared = \<lparr>sh_health = NewProviderHealth 3 10, sh_cache = NewContextCache 0 0, sh_sigs = newContextSignatureCache 0\<rparr>"

text \<open>The sample identity request alone, run from the initial state.\<close>

lemma sample_run:
  defines "legs \<equiv> fst (HandleContextMatch (\<lambda>_. None) (\<lambda>_. None) (\<lambda>_. True) (\<lambda>_. None) (\<lambda>_. None) sample_router TooLarge None
      (\<lambda>_. sample_env) id) @
    fst (HandleIdentityMatch (\<lambda>_. None) sample_router Read (Some sample_identity_request) (\<lambda>_. sample_env) id)"
  shows "interleaving legs (hd legs)" "\<exists>s'. run_events sample_router (hd legs) sample_shared = Some s'"
    "hd legs = [EvCircuit 1 ''acme_1'' False, EvIncr ''acme_1''] @
       EvCallIdentity ''acme_1'' ''https://acme.example/tmp/identity''
         (sample_identity_request\<lparr>im_country := '''', im_identities := [hd (im_identities sample_identity_request)]\<rparr>)
         (30 * millisecond) #
       [EvObserve ''acme_1'', EvFailure 5 ''acme_1'', EvError ''acme_1'', EvDecr ''acme_1'']"
    "hd legs \<in> set legs"
proof -
  have legs: "legs = [hd legs]"
    by (simp add: legs_def HandleContextMatch_def prepare_context_def sample_identity_legs)
  show "interleaving legs (hd legs)" by (subst legs) (rule interleaving_one)
  show "hd legs \<in> set legs" by (subst (2) legs) simp
  show evs: "hd legs = [EvCircuit 1 ''acme_1'' False, EvIncr ''acme_1''] @
       EvCallIdentity ''acme_1'' ''https://acme.example/tmp/identity''
         (sample_identity_request\<lparr>im_country := '''', im_identities := [hd (im_identities sample_identity_request)]\<rparr>)
         (30 * millisecond) #
       [EvObserve ''acme_1'', EvFailure 5 ''acme_1'', EvError ''acme_1'', EvDecr ''acme_1'']"
    by (simp add: legs_def HandleContextMatch_def prepare_context_def sample_identity_legs)
  have "\<not> fst (IsCircuitOpen 1 ''acme_1'' (sh_health sample_shared))"
    by (simp add: sample_shared_def IsCircuitOpen_def getOrCreate_def Let_def NewProviderHealth_def stats_of_def fresh_stats_def
        upd_stats_def)
  then show "\<exists>s'. run_events sample_router (hd legs) sample_shared = Some s'" by (simp add: evs event_ok_def)
qed

theorem fanout_inflight_balanced_witness:
  "\<exists>s'. run_events sample_router (hd (fst (HandleIdentityMatch (\<lambda>_. None) sample_router Read (Some sample_identity_request)
          (\<lambda>_. sample_env) id))) sample_shared = Some s' \<and> Inflight (sh_health s') ''acme_1'' = Inflight (sh_health sample_shared) ''acme_1''"
proof -
  have legs: "fst (HandleContextMatch (\<lambda>_. None) (\<lambda>_. None) (\<lambda>_. True) (\<lambda>_. None) (\<lambda>_. None) sample_router TooLarge None
      (\<lambda>_. sample_env) id) @ xs = xs" for xs
    by (simp add: HandleContextMatch_def prepare_context_def)
  from sample_run(2) obtain s' where s': "run_events sample_router (hd (fst (HandleContextMatch (\<lambda>_. None) (\<lambda>_. None) (\<lambda>_. True)
      (\<lambda>_. None) (\<lambda>_. None) sample_router TooLarge None (\<lambda>_. sample_env) id) @
      fst (HandleIdentityMatch (\<lambda>_. None) sample_router Read (Some sample_identity_request) (\<lambda>_. sample_env) id)))
      sample_shared = Some s'" by blast
  from fanout_inflight_balanced [OF sample_run(1) s', of "''acme_1''"] s' show ?thesis unfolding legs by blast
qed

text \<open>C4: an open circuit is respected, in every interleaving of a context and an identity fan-out of a
  router that tracks health. Within a leg every provider call comes after a check of that provider's
  circuit that read closed, and a leg whose check read open calls nobody. Each check reads what the
  breaker says at that moment. So at no point of the run have more calls to a provider been made than
  its circuit was found closed.\<close>

theorem open_circuit_not_called:
  fixes r :: router
  assumes "rt_has_health r"
    and legs: "legs = fst (HandleContextMatch fetchable ref_url marshals decode canon r rd decoded env order) @
        fst (HandleIdentityMatch decode' r rd' decoded' env' order')"
    and "interleaving legs zs" "run_events r zs s = Some s'"
  shows "(\<forall>l\<in>set legs.
            (\<forall>pid pre ev post. l = pre @ ev # post \<and> is_call pid ev \<longrightarrow> (\<exists>now. EvCircuit now pid False \<in> set pre)) \<and>
            (\<forall>now q. EvCircuit now q True \<in> set l \<longrightarrow> (\<forall>ev\<in>set l. \<forall>pid. \<not> is_call pid ev))) \<and>
         (\<forall>pre now pid b post. zs = pre @ EvCircuit now pid b # post \<longrightarrow>
            (\<exists>s1. run_events r pre s = Some s1 \<and> b = fst (IsCircuitOpen now pid (sh_health s1)))) \<and>
         (\<forall>pid pre post. zs = pre @ post \<longrightarrow>
            length (filter (is_call pid) pre) \<le> length (filter (\<lambda>ev. \<exists>now. ev = EvCircuit now pid False) pre))"
proof -
  have gated: "\<forall>l\<in>set legs. gated l"
    using assms(1) by (auto simp: legs HandleContextMatch_def HandleIdentityMatch_def legs_gated split: sum.splits)
  have one: "(\<forall>pid pre ev post. l = pre @ ev # post \<and> is_call pid ev \<longrightarrow> (\<exists>now. EvCircuit now pid False \<in> set pre)) \<and>
      (\<forall>now q. EvCircuit now q True \<in> set l \<longrightarrow> (\<forall>ev\<in>set l. \<forall>pid. \<not> is_call pid ev))" if "gated l" for l
    using that unfolding gated_def closed_check_def by blast
  have check: "closed_check pid = (\<lambda>ev. \<exists>now. ev = EvCircuit now pid False)" for pid
    by (rule ext) (simp add: closed_check_def)
  show ?thesis
  proof (intro conjI ballI allI impI)
    fix pre now pid b post assume "zs = pre @ EvCircuit now pid b # post"
    with assms(4) show "\<exists>s1. run_events r pre s = Some s1 \<and> b = fst (IsCircuitOpen now pid (sh_health s1))"
      by (rule run_circuit_reading)
  next
    fix pid pre post assume "zs = pre @ post"
    with interleaving_gated [OF _ gated] assms(3)
    show "length (filter (is_call pid) pre) \<le> length (filter (\<lambda>ev. \<exists>now. ev = EvCircuit now pid False) pre)"
      unfolding check [symmetric] by blast
  qed (use one gated in blast)+
qed

theorem open_circuit_not_called_witness:
  "\<exists>now. EvCircuit now ''acme_1'' False \<in> set [EvCircuit 1 ''acme_1'' False, EvIncr ''acme_1'']"
proof -
  from sample_run(2) obtain s' where s': "run_events sample_router (hd (fst (HandleContextMatch (\<lambda>_. None) (\<lambda>_. None) (\<lambda>_. True)
      (\<lambda>_. None) (\<lambda>_. None) sample_router TooLarge None (\<lambda>_. sample_env) id) @
      fst (HandleIdentityMatch (\<lambda>_. None) sample_router Read (Some sample_identity_request) (\<lambda>_. sample_env) id)))
      sample_shared = Some s'" by blast
  note run = open_circuit_not_called [OF sample_fields(1) refl sample_run(1) s', THEN conjunct1, rule_format, OF sample_run(4),
    THEN conjunct1, rule_format, OF conjI, OF sample_run(3)]
  show ?thesis by (rule run) simp
qed

lemma enrich_request_id [simp]: "cm_request_id (enrich reg req) = cm_request_id req"
  by (simp add: enrich_def split: option.split)

text \<open>C37: both handlers, on every input. A body that is too large, cannot be read or is not JSON, and a
  request that validation refuses, is answered with its status (413 or 400), code and message; the
  answer to a refused request carries that request's id when the id is short and free of control bytes
  and no id otherwise; a context request that cannot be serialised again gets 500 and its id. None of
  them reaches a provider. Everything else is answered with a merged response.\<close>

theorem rejected_requests:
  fixes ireq :: identity_request and creq :: context_request and r :: router and decode and env and order and fetchable
    and ref_url and marshals and decode' and canon and env' and order'
  defines "identity \<equiv> \<lambda>rd body. HandleIdentityMatch decode r rd body env order"
    and "context \<equiv> \<lambda>rd body. HandleContextMatch fetchable ref_url marshals decode' canon r rd body env' order'"
    and "echo \<equiv> \<lambda>i. if length i \<le> MaxIDLength \<and> control_free i then i else ''''"
    and "accepted \<equiv> (enrich (rt_registry r) creq)\<lparr>cm_artifact := StripAccess (cm_artifact (enrich (rt_registry r) creq))\<rparr>"
  shows "identity TooLarge ibody = ([], ErrorAnswer 413 '''' ''invalid_request'' ''request body too large'') \<and>
   identity ReadFailed ibody = ([], ErrorAnswer 400 '''' ''invalid_request'' ''failed to read request body'') \<and>
   identity Read None = ([], ErrorAnswer 400 '''' ''invalid_request'' ''request body is not valid JSON'') \<and>
   (case ValidateIdentityRequest ireq of
      Inl e \<Rightarrow> identity Read (Some ireq) =
        ([], ErrorAnswer 400 (echo (im_request_id ireq)) ''invalid_request'' ''invalid request'')
    | Inr req \<Rightarrow> \<exists>resp. snd (identity Read (Some ireq)) = OkAnswer resp) \<and>
   context TooLarge cbody = ([], ErrorAnswer 413 '''' ''invalid_request'' ''request body too large'') \<and>
   context ReadFailed cbody = ([], ErrorAnswer 400 '''' ''invalid_request'' ''failed to read request body'') \<and>
   context Read None = ([], ErrorAnswer 400 '''' ''invalid_request'' ''request body is not valid JSON'') \<and>
   (if ValidateContextRequest fetchable ref_url (enrich (rt_registry r) creq) \<noteq> None then
      context Read (Some creq) = ([], ErrorAnswer 400 (echo (cm_request_id creq)) ''invalid_request'' ''invalid request'')
    else if \<not> marshals accepted then
      context Read (Some creq) = ([], ErrorAnswer 500 (cm_request_id creq) ''internal_error'' ''failed to serialize request'')
    else \<exists>resp. snd (context Read (Some creq)) = OkAnswer resp)"
proof -
  have echo: "SafeRequestIDForEcho i = echo i" for i
    by (auto simp: SafeRequestIDForEcho_def validateEchoID_None echo_def)
  have status: "error_status ''invalid_request'' = 400" "error_status ''internal_error'' = 500" by (simp_all add: error_status_def)
  have "cm_request_id accepted = cm_request_id creq" by (simp add: accepted_def)
  then show ?thesis
    unfolding identity_def context_def
    by (simp add: HandleIdentityMatch_def HandleContextMatch_def prepare_identity_def prepare_context_def writeError_def
        status Let_def echo accepted_def split: sum.split)
qed

theorem rejected_requests_witness:
  "HandleIdentityMatch (\<lambda>_. None) sample_router Read (Some (sample_identity_request\<lparr>im_type := ''bid''\<rparr>)) (\<lambda>_. sample_env) rev =
     ([], ErrorAnswer 400 (im_request_id sample_identity_request) ''invalid_request'' ''invalid request'')"
proof -
  have "ValidateIdentityRequest (sample_identity_request\<lparr>im_type := ''bid''\<rparr>) = Inl ''type must be identity_match_request''"
    by code_simp
  moreover have "length (im_request_id sample_identity_request) \<le> MaxIDLength \<and> control_free (im_request_id sample_identity_request)"
    by code_simp
  ultimately show ?thesis
    using rejected_requests [where ireq = "sample_identity_request\<lparr>im_type := ''bid''\<rparr>" and order = rev and decode = "\<lambda>_. None"
      and r = sample_router and env = "\<lambda>_. sample_env"] by simp
qed

text \<open>A provider's answer is merged only when it came with status 200, decodes, carries none of the
  forbidden top-level keys, and declares either no type or the expected one: a TMP error envelope is
  never taken for an empty success.\<close>

theorem callProviderStrict_accepts:
  assumes "callProviderStrict decode type_of expected forbidden reply = Inr resp"
  shows "\<exists>body. reply = HttpReply 200 (Some body) \<and> decode body = Some resp \<and> type_of resp \<in> {'''', expected} \<and>
           (\<forall>k m. k \<in> set forbidden \<and> body = JObj m \<longrightarrow> k \<notin> fst ` set m)"
proof -
  from assms obtain body where body: "reply = HttpReply 200 (Some body)"
    by (auto simp: callProviderStrict_def split: http_reply.splits if_splits option.splits)
  have keys: "k \<notin> fst ` set m" if "k \<in> set forbidden" "body = JObj m" for k m
  proof
    assume "k \<in> fst ` set m"
    with that have "filter (\<lambda>k. k \<in> set (map fst m)) forbidden \<noteq> []" by (auto simp: filter_empty_conv)
    then obtain x xs where "filter (\<lambda>k. k \<in> set (map fst m)) forbidden = x # xs" by (cases "filter (\<lambda>k. k \<in> set (map fst m)) forbidden") auto
    with assms that show False by (simp add: callProviderStrict_def body probe_keys_def Let_def split: if_splits)
  qed
  from assms have "decode body = Some resp \<and> type_of resp \<in> {'''', expected}"
    by (auto simp: callProviderStrict_def body checkResponseType_def Let_def split: if_splits option.splits list.splits sum.splits)
  with body keys show ?thesis by blast
qed

theorem callProviderStrict_accepts_witness:
  "\<exists>body. HttpReply 200 (Some (JObj [(''type'', JStr ''x'')])) = HttpReply 200 (Some body) \<and> (\<forall>m. body = JObj m \<longrightarrow> ''tmpx'' \<notin> fst ` set m)"
proof -
  have "callProviderStrict Some (\<lambda>_. ''x'') ''x'' [''tmpx''] (HttpReply 200 (Some (JObj [(''type'', JStr ''x'')]))) =
      Inr (JObj [(''type'', JStr ''x'')])"
    by code_simp
  from callProviderStrict_accepts [OF this] show ?thesis by auto
qed

end
