(* ===== verification/Idempotency_Backend.thy ===== *)
theory Idempotency_Backend
  imports AdCP_Prelude
begin

text \<open>
  Storage of the idempotency middleware: the entries, the claim and retry markers in their hash field, the
  in-memory backend and the keys (\<^verbatim>\<open>src/adcp/v3/idempotency/backend.go\<close>, \<^verbatim>\<open>memory.go\<close>, the key functions
  of \<^verbatim>\<open>client.go\<close> and the marker functions of \<^verbatim>\<open>store.go\<close>).

  A response is its bytes. The zero \<^verbatim>\<open>time.Time\<close>, which never expires, is \<^const>\<open>None\<close>. Random bytes are an
  argument. The map of the backend is keyed by \<^verbatim>\<open>scopeKey\<close>. The locale \<open>claim_backend\<close> is the contract of
  \<^verbatim>\<open>ClaimBackend\<close>; it is interpreted on the in-memory operations.
\<close>

unbundle bit_operations_syntax

section \<open>Keys\<close>

definition hex_digit :: "nat \<Rightarrow> char" where
  "hex_digit n = ''0123456789abcdef'' ! n"

definition hexEncode :: "8 word list \<Rightarrow> string" where
  "hexEncode bs = concat (map (\<lambda>b. [hex_digit (unat b div 16), hex_digit (unat b mod 16)]) bs)"

definition Generate :: "8 word list \<Rightarrow> string" where
  "Generate rnd =
     (let b = rnd[6 := (rnd ! 6 AND 0x0F) OR 0x40]; b' = b[8 := (b ! 8 AND 0x3F) OR 0x80]; h = hexEncode b' in
      take 8 h @ ''-'' @ take 4 (drop 8 h) @ ''-'' @ take 4 (drop 12 h) @ ''-'' @ take 4 (drop 16 h) @ ''-'' @
      take 12 (drop 20 h))"

definition keyPattern :: "string \<Rightarrow> bool" where
  "keyPattern s \<longleftrightarrow> 16 \<le> length s \<and> length s \<le> 255 \<and>
     (\<forall>c\<in>set s. is_letter c \<or> is_digit c \<or> c \<in> {CHR ''_'', CHR ''.'', CHR '':'', CHR ''-''})"

definition Validate :: "string \<Rightarrow> string option" where
  "Validate key =
     (if key = '''' then Some ''empty''
      else if \<not> keyPattern key then Some ''must match ^[A-Za-z0-9_.:-]{16,255}$'' else None)"

definition LogKey :: "string \<Rightarrow> string" where
  "LogKey key = (if length key \<le> 8 then ''****'' else take 8 key @ map char_of [0xE2, 0x80, 0xA6 :: nat])"

section \<open>Entries, claims and markers\<close>

record entry =
  Hash :: string
  Response :: string
  CreatedAt :: time
  ExpiresAt :: "time option"

definition inFlightPrefix :: string where "inFlightPrefix = ''__adcp_in_flight__:''"
definition retryablePrefix :: string where "retryablePrefix = ''__adcp_retryable__:''"

definition newClaimHash :: "8 word list \<Rightarrow> string \<Rightarrow> string" where
  "newClaimHash token requestHash = inFlightPrefix @ requestHash @ '':'' @ hexEncode token"

definition isClaimHash :: "string \<Rightarrow> bool" where
  "isClaimHash h \<longleftrightarrow> has_prefix h inFlightPrefix"

text \<open>The part before the last colon, as \<^verbatim>\<open>strings.LastIndex\<close> finds it.\<close>

definition before_last_colon :: "string \<Rightarrow> string option" where
  "before_last_colon s =
     (if CHR '':'' \<in> set s then Some (rev (tl (dropWhile (\<lambda>c. c \<noteq> CHR '':'') (rev s)))) else None)"

definition markerRequestHash :: "string \<Rightarrow> string \<Rightarrow> string option" where
  "markerRequestHash h prefix =
     (case cut_prefix h prefix of None \<Rightarrow> None | Some rest \<Rightarrow> before_last_colon rest)"

text \<open>\<^verbatim>\<open>Duration.Truncate\<close> rounds towards zero; the zero time lies so far back that the floor applies.\<close>

definition maxInFlightRetryAfter :: duration where "maxInFlightRetryAfter = 30 * second"

definition inFlightRetryAfter :: "time option \<Rightarrow> time \<Rightarrow> duration" where
  "inFlightRetryAfter expiresAt now =
     (case expiresAt of
        None \<Rightarrow> second
      | Some t \<Rightarrow> min maxInFlightRetryAfter (max second (((t - now) sdiv second) * second)))"

section \<open>The in-memory backend\<close>

type_synonym backend = "string \<rightharpoonup> entry"

definition scopeKey :: "string \<Rightarrow> string \<Rightarrow> string" where
  "scopeKey scope key = scope @ [CHR 0x00] @ key"

definition backend_Get :: "string \<Rightarrow> string \<Rightarrow> backend \<Rightarrow> entry option" where
  "backend_Get scope key b = b (scopeKey scope key)"

definition PutIfAbsent :: "string \<Rightarrow> string \<Rightarrow> entry \<Rightarrow> backend \<Rightarrow> (entry option \<times> bool) \<times> backend" where
  "PutIfAbsent scope key e b =
     (case b (scopeKey scope key) of
        Some old \<Rightarrow> ((Some old, False), b)
      | None \<Rightarrow> ((None, True), b(scopeKey scope key \<mapsto> e)))"

definition ReplaceIfHash :: "string \<Rightarrow> string \<Rightarrow> string \<Rightarrow> entry \<Rightarrow> backend \<Rightarrow> bool \<times> backend" where
  "ReplaceIfHash scope key oldHash e b =
     (case b (scopeKey scope key) of
        None \<Rightarrow> (False, b)
      | Some old \<Rightarrow> if Hash old \<noteq> oldHash then (False, b) else (True, b(scopeKey scope key \<mapsto> e)))"

definition DefaultClockSkew :: duration where "DefaultClockSkew = 60 * second"

definition sweepable :: "time \<Rightarrow> duration \<Rightarrow> entry \<Rightarrow> bool" where
  "sweepable now grace e \<longleftrightarrow>
     (case ExpiresAt e of None \<Rightarrow> False | Some t \<Rightarrow> now > t + grace \<and> \<not> isClaimHash (Hash e))"

definition sweep :: "time \<Rightarrow> duration \<Rightarrow> backend \<Rightarrow> backend" where
  "sweep now grace b = (\<lambda>k. case b k of Some e \<Rightarrow> if sweepable now grace e then None else Some e | None \<Rightarrow> None)"

section \<open>The contract of a claim backend\<close>

text \<open>What the store relies on: a slot changes only by a put into an empty slot, by a replacement that names the
  hash it holds, or by a sweep, which spares claims. Slots are addressed by scope and key; an address is
  valid when it cannot collide with another.\<close>

datatype backend_op =
    OpGet string string
  | OpPut string string entry
  | OpReplace string string string entry
  | OpSweep time

locale claim_backend =
  fixes valid :: "string \<Rightarrow> bool"
    and get :: "string \<Rightarrow> string \<Rightarrow> 'b \<Rightarrow> entry option"
    and put :: "string \<Rightarrow> string \<Rightarrow> entry \<Rightarrow> 'b \<Rightarrow> (entry option \<times> bool) \<times> 'b"
    and replace :: "string \<Rightarrow> string \<Rightarrow> string \<Rightarrow> entry \<Rightarrow> 'b \<Rightarrow> bool \<times> 'b"
    and swept :: "time \<Rightarrow> 'b \<Rightarrow> 'b"
  assumes put_answer: "fst (put s k e b) = (get s k b, get s k b = None)"
    and get_put: "valid k \<Longrightarrow> valid k' \<Longrightarrow>
      get s k (snd (put s' k' e b)) = (if s = s' \<and> k = k' \<and> get s k b = None then Some e else get s k b)"
    and replace_answer: "fst (replace s k h e b) \<longleftrightarrow> (\<exists>old. get s k b = Some old \<and> Hash old = h)"
    and get_replace: "valid k \<Longrightarrow> valid k' \<Longrightarrow>
      get s k (snd (replace s' k' h e b)) = (if s = s' \<and> k = k' \<and> fst (replace s' k' h e b) then Some e else get s k b)"
    and get_swept: "get s k b = Some e \<Longrightarrow> isClaimHash (Hash e) \<Longrightarrow> get s k (swept now b) = Some e"
begin

fun apply_op :: "backend_op \<Rightarrow> 'b \<Rightarrow> 'b" where
  "apply_op (OpGet s k) b = b"
| "apply_op (OpPut s k e) b = snd (put s k e b)"
| "apply_op (OpReplace s k h e) b = snd (replace s k h e b)"
| "apply_op (OpSweep now) b = swept now b"

fun foreign :: "string \<Rightarrow> backend_op \<Rightarrow> bool" where
  "foreign h (OpGet s k) \<longleftrightarrow> True"
| "foreign h (OpPut s k e) \<longleftrightarrow> valid k"
| "foreign h (OpReplace s k h' e) \<longleftrightarrow> valid k \<and> h' \<noteq> h"
| "foreign h (OpSweep now) \<longleftrightarrow> True"

text \<open>A claim is a fence: whatever the other callers do, an entry whose hash is a claim stays until someone names
  that very hash.\<close>

lemma fence_step:
  assumes "valid k" "get s k b = Some e" "isClaimHash (Hash e)" "foreign (Hash e) oper"
  shows "get s k (apply_op oper b) = Some e"
  using assms by (cases oper) (auto simp: get_put get_replace replace_answer get_swept)

lemma fence:
  assumes "valid k" "get s k b = Some e" "isClaimHash (Hash e)" "\<forall>oper\<in>set opers. foreign (Hash e) oper"
  shows "get s k (fold apply_op opers b) = Some e"
  using assms by (induction opers arbitrary: b) (simp_all add: fence_step)

text \<open>Two puts into an empty slot cannot both succeed.\<close>

lemma one_claim:
  assumes "valid k" "get s k b = None" "isClaimHash (Hash e)" "\<forall>oper\<in>set opers. foreign (Hash e) oper"
  shows "fst (put s k e' (fold apply_op opers (snd (put s k e b)))) = (Some e, False)"
proof -
  have "get s k (snd (put s k e b)) = Some e" using assms(1,2) by (simp add: get_put)
  from fence [OF assms(1) this assms(3,4)] show ?thesis by (simp add: put_answer)
qed

end

section \<open>The in-memory backend keeps the contract\<close>

abbreviation key_valid :: "string \<Rightarrow> bool" where
  "key_valid k \<equiv> CHR 0x00 \<notin> set k"

lemma scopeKey_inj: "key_valid k \<Longrightarrow> key_valid k' \<Longrightarrow> scopeKey s k = scopeKey s' k' \<longleftrightarrow> s = s' \<and> k = k'"
proof -
  assume kv: "key_valid k" "key_valid k'"
  have "scopeKey s k = scopeKey s' k' \<longleftrightarrow> rev k @ CHR 0x00 # rev s = rev k' @ CHR 0x00 # rev s'"
    unfolding scopeKey_def by (subst rev_is_rev_conv [symmetric]) simp
  then show ?thesis using sep_inj [of "CHR 0x00" "rev k" "rev k'" "rev s" "rev s'"] kv by auto
qed

interpretation mem: claim_backend key_valid backend_Get PutIfAbsent ReplaceIfHash "\<lambda>now. sweep now DefaultClockSkew"
proof
  fix s k s' k' :: string and e :: entry and b :: backend and h :: string and now :: time
  show "fst (PutIfAbsent s k e b) = (backend_Get s k b, backend_Get s k b = None)"
    by (simp add: PutIfAbsent_def backend_Get_def split: option.split)
  show "fst (ReplaceIfHash s k h e b) \<longleftrightarrow> (\<exists>old. backend_Get s k b = Some old \<and> Hash old = h)"
    by (simp add: ReplaceIfHash_def backend_Get_def split: option.split)
  show "isClaimHash (Hash e) \<Longrightarrow> backend_Get s k b = Some e \<Longrightarrow> backend_Get s k (sweep now DefaultClockSkew b) = Some e"
    by (simp add: backend_Get_def sweep_def sweepable_def split: option.split)
  assume kv: "key_valid k" "key_valid k'"
  show "backend_Get s k (snd (PutIfAbsent s' k' e b)) =
      (if s = s' \<and> k = k' \<and> backend_Get s k b = None then Some e else backend_Get s k b)"
    using scopeKey_inj [OF kv, of s s'] by (auto simp: PutIfAbsent_def backend_Get_def split: option.split)
  show "backend_Get s k (snd (ReplaceIfHash s' k' h e b)) =
      (if s = s' \<and> k = k' \<and> fst (ReplaceIfHash s' k' h e b) then Some e else backend_Get s k b)"
    using scopeKey_inj [OF kv, of s s'] by (auto simp: ReplaceIfHash_def backend_Get_def split: option.split)
qed

section \<open>Hexadecimal, claims and markers\<close>

lemma hex_digit_inj: "a < 16 \<Longrightarrow> b < 16 \<Longrightarrow> hex_digit a = hex_digit b \<Longrightarrow> a = b"
proof -
  have "distinct ''0123456789abcdef''" by simp
  then show "a < 16 \<Longrightarrow> b < 16 \<Longrightarrow> hex_digit a = hex_digit b \<Longrightarrow> a = b"
    unfolding hex_digit_def by (simp add: nth_eq_iff_index_eq)
qed

lemma hex_digit_in: "a < 16 \<Longrightarrow> hex_digit a \<in> set ''0123456789abcdef''"
  unfolding hex_digit_def by (rule nth_mem) simp

lemma byte_nibbles: "unat (b :: 8 word) div 16 < 16" "unat b mod 16 < 16"
  using unsigned_less [of b, where ?'a = nat] by simp_all

lemma hexEncode_Cons:
  "hexEncode (b # bs) = hex_digit (unat b div 16) # hex_digit (unat b mod 16) # hexEncode bs"
  by (simp add: hexEncode_def)

lemma hexEncode_inj: "hexEncode bs = hexEncode bs' \<Longrightarrow> bs = bs'"
proof (induction bs arbitrary: bs')
  case Nil
  then show ?case by (cases bs') (simp_all add: hexEncode_def)
next
  case (Cons b bs)
  then obtain b' cs where bs': "bs' = b' # cs" by (cases bs') (simp_all add: hexEncode_def)
  with Cons.prems have "hex_digit (unat b div 16) = hex_digit (unat b' div 16)"
    "hex_digit (unat b mod 16) = hex_digit (unat b' mod 16)" "hexEncode bs = hexEncode cs"
    by (simp_all add: hexEncode_Cons)
  with byte_nibbles [of b] byte_nibbles [of b']
  have "unat b div 16 = unat b' div 16" "unat b mod 16 = unat b' mod 16" and bs: "bs = cs"
    by (auto intro: hex_digit_inj Cons.IH)
  then have "unat b = unat b'" by (metis div_mult_mod_eq)
  with bs bs' show ?case by (simp add: word_unat_eq_iff)
qed

lemma hexEncode_chars: "c \<in> set (hexEncode bs) \<Longrightarrow> c \<in> set ''0123456789abcdef''"
proof (induction bs)
  case (Cons b bs)
  with hex_digit_in [OF byte_nibbles(1) [of b]] hex_digit_in [OF byte_nibbles(2) [of b]] show ?case
    unfolding hexEncode_Cons by (metis set_ConsD)
qed (simp add: hexEncode_def)

lemma hexEncode_no_colon: "CHR '':'' \<notin> set (hexEncode bs)"
  using hexEncode_chars [of "CHR '':''" bs] by auto

lemma hexEncode_length: "length (hexEncode bs) = 2 * length bs"
  by (induction bs) (simp_all add: hexEncode_def)

lemma before_last_colon_append: "CHR '':'' \<notin> set t \<Longrightarrow> before_last_colon (h @ CHR '':'' # t) = Some h"
proof -
  assume "CHR '':'' \<notin> set t"
  then have "dropWhile (\<lambda>c. c \<noteq> CHR '':'') (rev t @ CHR '':'' # rev h) = CHR '':'' # rev h"
    by (subst dropWhile_append2) auto
  then show ?thesis by (simp add: before_last_colon_def)
qed

lemma claim_marker: "markerRequestHash (newClaimHash token h) inFlightPrefix = Some h"
  by (simp add: markerRequestHash_def newClaimHash_def before_last_colon_append hexEncode_no_colon)

lemma claim_isClaim [simp]: "isClaimHash (newClaimHash token h)"
  by (simp add: isClaimHash_def newClaimHash_def)

lemma claim_inj: "newClaimHash t h = newClaimHash t' h' \<longleftrightarrow> t = t' \<and> h = h'"
proof
  assume eq: "newClaimHash t h = newClaimHash t' h'"
  then have h: "h = h'" using claim_marker [of t h] claim_marker [of t' h'] by simp
  with eq have "hexEncode t = hexEncode t'" by (simp add: newClaimHash_def)
  with h show "t = t' \<and> h = h'" by (simp add: hexEncode_inj)
qed simp

text \<open>The three kinds of hash exclude each other.\<close>

lemma prefixes_differ: "\<not> has_prefix (inFlightPrefix @ s) retryablePrefix" "\<not> has_prefix (retryablePrefix @ s) inFlightPrefix"
  by (simp_all add: has_prefix_def inFlightPrefix_def retryablePrefix_def)

lemma claim_not_retryable: "markerRequestHash (newClaimHash t h) retryablePrefix = None"
  using prefixes_differ by (simp add: markerRequestHash_def newClaimHash_def cut_prefix_def)

definition retryable_hash :: "string \<Rightarrow> string" where
  "retryable_hash claimHash = retryablePrefix @ trim_prefix claimHash inFlightPrefix"

lemma retryable_of_claim:
  "markerRequestHash (retryable_hash (newClaimHash t h)) retryablePrefix = Some h"
  "markerRequestHash (retryable_hash (newClaimHash t h)) inFlightPrefix = None"
  "\<not> isClaimHash (retryable_hash (newClaimHash t h))"
  using prefixes_differ
  by (simp_all add: markerRequestHash_def retryable_hash_def newClaimHash_def before_last_colon_append hexEncode_no_colon
      isClaimHash_def cut_prefix_def)

lemma marker_isClaim: "markerRequestHash h inFlightPrefix = Some r \<Longrightarrow> isClaimHash h"
  by (simp add: markerRequestHash_def cut_prefix_def isClaimHash_def split: if_splits)

lemma retry_not_claim: "markerRequestHash h retryablePrefix = Some r \<Longrightarrow> \<not> isClaimHash h"
  using prefixes_differ
  by (auto simp: markerRequestHash_def cut_prefix_def isClaimHash_def has_prefix_iff [of h retryablePrefix] split: if_splits)

lemma inFlightRetryAfter_bounds: "second \<le> inFlightRetryAfter e now" "inFlightRetryAfter e now \<le> maxInFlightRetryAfter"
  by (auto simp: inFlightRetryAfter_def maxInFlightRetryAfter_def second_def split: option.split)

end
