(* ===== verification/Idempotency_Store.thy ===== *)
theory Idempotency_Store
  imports Idempotency_Backend TMP_Types
begin

text \<open>
  The idempotency middleware, \<^verbatim>\<open>Store.Wrap\<close> in \<^verbatim>\<open>src/adcp/v3/idempotency/store.go\<close>, with its errors
  (\<^verbatim>\<open>errors.go\<close>) and scopes. A wrapped call is a small machine: every access to the backend and the run of the
  handler is one step, so that calls interleave exactly at the points where the code gives up control. What
  the backend answers beyond the in-memory semantics (an error before or after the access took effect, a row
  that vanishes) and what the handler does are inputs of the step. The payload hash (canonical JSON and
  SHA-256) and the JSON decoder are parameters.
\<close>

section \<open>Options and errors\<close>

record options =
  opt_TTL :: duration
  opt_ClockSkew :: duration
  opt_KeyRequired :: bool

record raw_options =
  raw_has_backend :: bool
  raw_TTL :: duration
  raw_ClockSkew :: duration
  raw_KeyRequired :: "bool option"
  raw_memory_grace :: "duration option"

definition MinTTL :: duration where "MinTTL = 3600 * second"
definition MaxTTL :: duration where "MaxTTL = 7 * 24 * 3600 * second"

text \<open>A panic of \<^verbatim>\<open>New\<close> is the error of its result.\<close>

definition New :: "raw_options \<Rightarrow> options result" where
  "New raw =
     (if \<not> raw_has_backend raw then Inl ''idempotency: Options.Backend is required''
      else if raw_TTL raw < MinTTL \<or> raw_TTL raw > MaxTTL then Inl ''idempotency: Options.TTL out of range''
      else if raw_ClockSkew raw < 0 then Inl ''idempotency: Options.ClockSkew must be non-negative''
      else let skew = (if raw_ClockSkew raw = 0 then DefaultClockSkew else raw_ClockSkew raw) in
        if (case raw_memory_grace raw of Some g \<Rightarrow> skew > g | None \<Rightarrow> False)
        then Inl ''idempotency: Options.ClockSkew exceeds MemoryBackend's retention grace''
        else Inr \<lparr>opt_TTL = raw_TTL raw, opt_ClockSkew = skew,
          opt_KeyRequired = (case raw_KeyRequired raw of Some r \<Rightarrow> r | None \<Rightarrow> True)\<rparr>)"

datatype idem_error =
    MissingKeyError
  | InvalidKeyError string
  | ConflictError string
  | InFlightError string duration
  | ExpiredError string
  | DecodeError
  | ScopeError string
  | HashError string
  | BackendError string
  | HandlerError string
  | HandlerPanic
  | RecordFailed string
  | ReleaseFailed string string
  | ClaimLost "string option"

record wrap_result =
  result_Response :: string
  Replayed :: bool
  result_Key :: string

type_synonym wrap_answer = "idem_error + wrap_result"

section \<open>Stored entries\<close>

definition expired :: "options \<Rightarrow> entry \<Rightarrow> time \<Rightarrow> bool" where
  "expired opts e now \<longleftrightarrow> (case ExpiresAt e of None \<Rightarrow> False | Some t \<Rightarrow> now > t + opt_ClockSkew opts)"

definition reclaimable :: "options \<Rightarrow> entry \<Rightarrow> string \<Rightarrow> time \<Rightarrow> bool" where
  "reclaimable opts e hash now \<longleftrightarrow>
     markerRequestHash (Hash e) retryablePrefix = Some hash \<and> \<not> expired opts e now"

definition evaluateExisting :: "options \<Rightarrow> entry \<Rightarrow> string \<Rightarrow> string \<Rightarrow> time \<Rightarrow> wrap_answer" where
  "evaluateExisting opts e hash key now =
     (case markerRequestHash (Hash e) inFlightPrefix of
        Some claimed \<Rightarrow>
          if claimed \<noteq> hash then Inl (ConflictError key)
          else Inl (InFlightError key (inFlightRetryAfter (ExpiresAt e) now))
      | None \<Rightarrow>
          if expired opts e now then Inl (ExpiredError key)
          else (case markerRequestHash (Hash e) retryablePrefix of
              Some marked \<Rightarrow> if marked \<noteq> hash then Inl (ConflictError key) else Inl (InFlightError key second)
            | None \<Rightarrow>
                if Hash e \<noteq> hash then Inl (ConflictError key)
                else Inr \<lparr>result_Response = Response e, Replayed = True, result_Key = key\<rparr>))"

section \<open>The steps of a wrapped call\<close>

record call =
  c_scope :: string
  c_key :: string
  c_hash :: string
  c_token :: "8 word list"
  c_now :: time

text \<open>\<^verbatim>\<open>ErrOutcomeUnknown\<close> is \<open>Unknown\<close>; after a panic the deferred work of \<^verbatim>\<open>runClaimed\<close> leaves the claim alone.\<close>

datatype handler_outcome = Returned string | Failed string | Unknown string | Panicked

text \<open>How one access to the backend can go wrong; a vanished row matters for \<^verbatim>\<open>PutIfAbsent\<close> only.\<close>

datatype fault = NoFault | FailsBefore string | FailsAfter string | Vanished

record step_env =
  se_fault :: fault
  se_outcome :: handler_outcome
  se_clock :: time

datatype phase =
    PhGet | PhClaim | PhReclaim entry | PhRecheck | PhRun | PhRelease string | PhRecord string
  | PhLegacyRun | PhLegacyPut string | PhDone wrap_answer

definition access :: "fault \<Rightarrow> backend \<Rightarrow> 'a \<times> backend \<Rightarrow> (string + 'a) \<times> backend" where
  "access f b r = (case f of FailsBefore e \<Rightarrow> (Inl e, b) | FailsAfter e \<Rightarrow> (Inl e, snd r) | _ \<Rightarrow> (Inr (fst r), snd r))"

definition put_access :: "fault \<Rightarrow> call \<Rightarrow> entry \<Rightarrow> backend \<Rightarrow> (string + entry option \<times> bool) \<times> backend" where
  "put_access f c e b =
     (if f = Vanished \<and> backend_Get (c_scope c) (c_key c) b \<noteq> None then (Inr (None, False), b)
      else access f b (PutIfAbsent (c_scope c) (c_key c) e b))"

definition claim_hash :: "call \<Rightarrow> string" where
  "claim_hash c = newClaimHash (c_token c) (c_hash c)"

definition claim_entry :: "options \<Rightarrow> call \<Rightarrow> entry" where
  "claim_entry opts c =
     \<lparr>Hash = claim_hash c, Response = '''', CreatedAt = c_now c, ExpiresAt = Some (c_now c + opt_TTL opts)\<rparr>"

definition marker_entry :: "options \<Rightarrow> call \<Rightarrow> time \<Rightarrow> entry" where
  "marker_entry opts c clock =
     \<lparr>Hash = retryable_hash (claim_hash c), Response = '''', CreatedAt = c_now c, ExpiresAt = Some (clock + opt_TTL opts)\<rparr>"

definition final_entry :: "options \<Rightarrow> call \<Rightarrow> string \<Rightarrow> entry" where
  "final_entry opts c resp =
     \<lparr>Hash = c_hash c, Response = resp, CreatedAt = c_now c, ExpiresAt = Some (c_now c + opt_TTL opts)\<rparr>"

definition fresh_result :: "call \<Rightarrow> string \<Rightarrow> wrap_answer" where
  "fresh_result c resp = Inr \<lparr>result_Response = resp, Replayed = False, result_Key = c_key c\<rparr>"

definition evaluate :: "options \<Rightarrow> call \<Rightarrow> entry \<Rightarrow> phase" where
  "evaluate opts c e = PhDone (evaluateExisting opts e (c_hash c) (c_key c) (c_now c))"

definition with_existing :: "options \<Rightarrow> call \<Rightarrow> entry \<Rightarrow> phase" where
  "with_existing opts c e =
     (if reclaimable opts e (c_hash c) (c_now c) then PhReclaim e else evaluate opts c e)"

definition get_step :: "options \<Rightarrow> bool \<Rightarrow> call \<Rightarrow> fault \<Rightarrow> backend \<Rightarrow> phase \<times> backend" where
  "get_step opts claims c f b =
     (case access f b (backend_Get (c_scope c) (c_key c) b, b) of
        (Inl e, b') \<Rightarrow> (PhDone (Inl (BackendError e)), b')
      | (Inr None, b') \<Rightarrow> (if claims then PhClaim else PhLegacyRun, b')
      | (Inr (Some e), b') \<Rightarrow> (if claims then with_existing opts c e else evaluate opts c e, b'))"

definition claim_step :: "options \<Rightarrow> call \<Rightarrow> fault \<Rightarrow> backend \<Rightarrow> phase \<times> backend" where
  "claim_step opts c f b =
     (case put_access f c (claim_entry opts c) b of
        (Inl e, b') \<Rightarrow> (PhDone (Inl (BackendError e)), b')
      | (Inr (Some e, stored), b') \<Rightarrow> (with_existing opts c e, b')
      | (Inr (None, stored), b') \<Rightarrow> (if stored then PhRun else PhDone (Inl (InFlightError (c_key c) second)), b'))"

definition reclaim_step :: "options \<Rightarrow> call \<Rightarrow> entry \<Rightarrow> fault \<Rightarrow> backend \<Rightarrow> phase \<times> backend" where
  "reclaim_step opts c e f b =
     (case access f b (ReplaceIfHash (c_scope c) (c_key c) (Hash e) (claim_entry opts c) b) of
        (Inl err, b') \<Rightarrow> (PhDone (Inl (BackendError err)), b')
      | (Inr ok, b') \<Rightarrow> (if ok then PhRun else PhRecheck, b'))"

definition recheck_step :: "options \<Rightarrow> call \<Rightarrow> fault \<Rightarrow> backend \<Rightarrow> phase \<times> backend" where
  "recheck_step opts c f b =
     (case access f b (backend_Get (c_scope c) (c_key c) b, b) of
        (Inl e, b') \<Rightarrow> (PhDone (Inl (BackendError e)), b')
      | (Inr None, b') \<Rightarrow> (PhDone (Inl (InFlightError (c_key c) second)), b')
      | (Inr (Some e), b') \<Rightarrow> (evaluate opts c e, b'))"

fun run_phase :: "handler_outcome \<Rightarrow> phase" where
  "run_phase (Returned resp) = PhRecord resp"
| "run_phase (Failed e) = PhRelease e"
| "run_phase (Unknown e) = PhDone (Inl (HandlerError e))"
| "run_phase Panicked = PhDone (Inl HandlerPanic)"

definition release_step :: "options \<Rightarrow> call \<Rightarrow> string \<Rightarrow> fault \<Rightarrow> time \<Rightarrow> backend \<Rightarrow> phase \<times> backend" where
  "release_step opts c err f clock b =
     (case access f b (ReplaceIfHash (c_scope c) (c_key c) (claim_hash c) (marker_entry opts c clock) b) of
        (Inl e, b') \<Rightarrow> (PhDone (Inl (ReleaseFailed err e)), b')
      | (Inr released, b') \<Rightarrow> (PhDone (Inl (if released then HandlerError err else ClaimLost (Some err))), b'))"

definition record_step :: "options \<Rightarrow> call \<Rightarrow> string \<Rightarrow> fault \<Rightarrow> backend \<Rightarrow> phase \<times> backend" where
  "record_step opts c resp f b =
     (case access f b (ReplaceIfHash (c_scope c) (c_key c) (claim_hash c) (final_entry opts c resp) b) of
        (Inl e, b') \<Rightarrow> (PhDone (Inl (RecordFailed e)), b')
      | (Inr recorded, b') \<Rightarrow> (PhDone (if recorded then fresh_result c resp else Inl (ClaimLost None)), b'))"

text \<open>A backend without claims: execute, then store, and let the stored entry decide.\<close>

fun legacy_phase :: "handler_outcome \<Rightarrow> phase" where
  "legacy_phase (Returned resp) = PhLegacyPut resp"
| "legacy_phase (Failed e) = PhDone (Inl (HandlerError e))"
| "legacy_phase (Unknown e) = PhDone (Inl (HandlerError e))"
| "legacy_phase Panicked = PhDone (Inl HandlerPanic)"

definition legacy_put_step :: "options \<Rightarrow> call \<Rightarrow> string \<Rightarrow> fault \<Rightarrow> backend \<Rightarrow> phase \<times> backend" where
  "legacy_put_step opts c resp f b =
     (case put_access f c (final_entry opts c resp) b of
        (Inl e, b') \<Rightarrow> (PhDone (Inl (RecordFailed e)), b')
      | (Inr (winner, stored), b') \<Rightarrow>
          (if stored then PhDone (fresh_result c resp)
           else case winner of None \<Rightarrow> PhDone (fresh_result c resp) | Some e \<Rightarrow> evaluate opts c e, b'))"

fun wrap_step :: "options \<Rightarrow> bool \<Rightarrow> call \<Rightarrow> step_env \<Rightarrow> phase \<Rightarrow> backend \<Rightarrow> phase \<times> backend" where
  "wrap_step opts claims c env PhGet b = get_step opts claims c (se_fault env) b"
| "wrap_step opts claims c env PhClaim b = claim_step opts c (se_fault env) b"
| "wrap_step opts claims c env (PhReclaim e) b = reclaim_step opts c e (se_fault env) b"
| "wrap_step opts claims c env PhRecheck b = recheck_step opts c (se_fault env) b"
| "wrap_step opts claims c env PhRun b = (run_phase (se_outcome env), b)"
| "wrap_step opts claims c env (PhRelease err) b = release_step opts c err (se_fault env) (se_clock env) b"
| "wrap_step opts claims c env (PhRecord resp) b = record_step opts c resp (se_fault env) b"
| "wrap_step opts claims c env PhLegacyRun b = (legacy_phase (se_outcome env), b)"
| "wrap_step opts claims c env (PhLegacyPut resp) b = legacy_put_step opts c resp (se_fault env) b"
| "wrap_step opts claims c env (PhDone r) b = (PhDone r, b)"

text \<open>The call as the code runs it: its steps in order, with what the rest of the process does to the backend
  before each of them.\<close>

definition run_call ::
  "options \<Rightarrow> bool \<Rightarrow> call \<Rightarrow> (step_env \<times> (backend \<Rightarrow> backend)) list \<Rightarrow> backend \<Rightarrow> phase \<times> backend" where
  "run_call opts claims c envs b = fold (\<lambda>(env, others) (ph, b). wrap_step opts claims c env ph (others b)) envs (PhGet, b)"

section \<open>Scopes and the request\<close>

definition EncodeScope :: "string \<Rightarrow> string list \<Rightarrow> string result" where
  "EncodeScope namespace parts =
     (if CHR '':'' \<in> set namespace then Inl ''idempotency: EncodeScope namespace must not contain a colon''
      else Inr (namespace @ concat (map (\<lambda>p. '':'' @ itoa (length p) @ '':'' @ p) parts)))"

definition PrincipalScope :: "string \<Rightarrow> string result" where
  "PrincipalScope who =
     (if who = '''' then Inl ''idempotency: principal missing from context''
      else EncodeScope ''principal'' [who])"

text \<open>Decoding an object into a map of raw values accepts \<^verbatim>\<open>null\<close>; decoding \<^verbatim>\<open>null\<close> into a string leaves it empty.\<close>

definition top_level :: "json option \<Rightarrow> object option" where
  "top_level j = (case j of Some (JObj m) \<Rightarrow> Some m | Some JNull \<Rightarrow> Some [] | _ \<Rightarrow> None)"

definition string_value :: "json \<Rightarrow> string option" where
  "string_value j = (case j of JStr s \<Rightarrow> Some s | JNull \<Rightarrow> Some '''' | _ \<Rightarrow> None)"

definition SessionScope :: "string \<Rightarrow> string \<Rightarrow> json option \<Rightarrow> string result" where
  "SessionScope sessionIDField who body =
     (if who = '''' then Inl ''idempotency: principal missing from context''
      else case top_level body of
        None \<Rightarrow> Inl ''idempotency: decode request for session scope''
      | Some m \<Rightarrow>
          (case map_of m sessionIDField of
             None \<Rightarrow> Inl ''idempotency: session id field missing''
           | Some raw \<Rightarrow>
               (case string_value raw of
                  None \<Rightarrow> Inl ''idempotency: session id field is not a string''
                | Some sid \<Rightarrow>
                    if sid = '''' then Inl ''idempotency: session id field is empty''
                    else EncodeScope ''principal'' [who, ''session'', sid])))"

definition ContextIDScope :: "string \<Rightarrow> json option \<Rightarrow> string result" where
  "ContextIDScope who body =
     (if who = '''' then Inl ''idempotency: principal missing from context''
      else case top_level body of
        None \<Rightarrow> Inl ''idempotency: decode request for context_id scope''
      | Some m \<Rightarrow>
          (case map_of m ''context_id'' of
             None \<Rightarrow> EncodeScope ''principal'' [who]
           | Some raw \<Rightarrow>
               (case string_value raw of
                  None \<Rightarrow> Inl ''idempotency: context_id is not a string''
                | Some cid \<Rightarrow>
                    if cid = '''' then EncodeScope ''principal'' [who]
                    else EncodeScope ''principal'' [who, ''ctx'', cid])))"

definition extractKey :: "json option \<Rightarrow> idem_error + string" where
  "extractKey req =
     (case top_level req of
        None \<Rightarrow> Inl DecodeError
      | Some m \<Rightarrow>
          (case map_of m ''idempotency_key'' of
             None \<Rightarrow> Inr ''''
           | Some raw \<Rightarrow> (case string_value raw of None \<Rightarrow> Inl (InvalidKeyError ''not a string'') | Some s \<Rightarrow> Inr s)))"

text \<open>Everything before the first access to the backend: an error, an uncached run, or the call to make.\<close>

datatype prepared = Rejected idem_error | Uncached | Cached call

definition prepare_wrap ::
  "options \<Rightarrow> json option \<Rightarrow> string result \<Rightarrow> string result \<Rightarrow> 8 word list \<Rightarrow> time \<Rightarrow> prepared" where
  "prepare_wrap opts req scope hash token now =
     (case extractKey req of
        Inl e \<Rightarrow> Rejected e
      | Inr key \<Rightarrow>
          if key = '''' then (if opt_KeyRequired opts then Rejected MissingKeyError else Uncached)
          else (case Validate key of Some reason \<Rightarrow> Rejected (InvalidKeyError reason)
            | None \<Rightarrow>
                (case scope of Inl e \<Rightarrow> Rejected (ScopeError e)
                 | Inr s \<Rightarrow>
                     (case hash of Inl e \<Rightarrow> Rejected (HashError e)
                      | Inr h \<Rightarrow> Cached \<lparr>c_scope = s, c_key = key, c_hash = h, c_token = token, c_now = now\<rparr>))))"

fun uncached_answer :: "handler_outcome \<Rightarrow> wrap_answer" where
  "uncached_answer (Returned resp) = Inr \<lparr>result_Response = resp, Replayed = False, result_Key = ''''\<rparr>"
| "uncached_answer (Failed e) = Inl (HandlerError e)"
| "uncached_answer (Unknown e) = Inl (HandlerError e)"
| "uncached_answer Panicked = Inl HandlerPanic"

definition Wrap ::
  "options \<Rightarrow> bool \<Rightarrow> json option \<Rightarrow> string result \<Rightarrow> string result \<Rightarrow> 8 word list \<Rightarrow> time \<Rightarrow> handler_outcome \<Rightarrow>
   (step_env \<times> (backend \<Rightarrow> backend)) list \<Rightarrow> backend \<Rightarrow> phase \<times> backend" where
  "Wrap opts claims req scope hash token now direct envs b =
     (case prepare_wrap opts req scope hash token now of
        Rejected e \<Rightarrow> (PhDone (Inl e), b)
      | Uncached \<Rightarrow> (PhDone (uncached_answer direct), b)
      | Cached c \<Rightarrow> run_call opts claims c envs b)"

section \<open>Scopes are injective\<close>

definition part_enc :: "string \<Rightarrow> string" where
  "part_enc p = '':'' @ itoa (length p) @ '':'' @ p"

lemma itoa_no_colon: "CHR '':'' \<notin> set (itoa n)"
  using itoa_digits [of "CHR '':''" n] by (auto simp: is_digit_def less_eq_char_def)

lemma part_enc_append: "part_enc p @ r = part_enc q @ t \<Longrightarrow> p = q \<and> r = t"
proof -
  assume "part_enc p @ r = part_enc q @ t"
  then have "itoa (length p) @ CHR '':'' # (p @ r) = itoa (length q) @ CHR '':'' # (q @ t)"
    by (simp add: part_enc_def)
  then have "itoa (length p) = itoa (length q)" "p @ r = q @ t"
    by (simp_all add: sep_inj itoa_no_colon)
  then show ?thesis by (simp add: itoa_inj)
qed

lemma parts_inj: "concat (map part_enc ps) = concat (map part_enc qs) \<Longrightarrow> ps = qs"
proof (induction ps arbitrary: qs)
  case Nil
  then show ?case by (cases qs) (simp_all add: part_enc_def)
next
  case (Cons p ps)
  then obtain q qs' where qs: "qs = q # qs'" by (cases qs) (simp_all add: part_enc_def)
  with Cons.prems have "part_enc p @ concat (map part_enc ps) = part_enc q @ concat (map part_enc qs')" by simp
  from part_enc_append [OF this] Cons.IH qs show ?case by simp
qed

lemma EncodeScope_inj:
  assumes "EncodeScope ns ps = Inr s" "EncodeScope ns' qs = Inr s"
  shows "ns = ns' \<and> ps = qs"
proof -
  from assms have sep: "CHR '':'' \<notin> set ns" "CHR '':'' \<notin> set ns'"
    and eq: "ns @ concat (map part_enc ps) = ns' @ concat (map part_enc qs)"
    by (simp_all add: EncodeScope_def part_enc_def [abs_def] split: if_splits)
  have colon: "\<exists>t. concat (map part_enc xs) = CHR '':'' # t" if "xs \<noteq> []" for xs
    using that by (cases xs) (simp_all add: part_enc_def)
  have "ns = ns' \<and> concat (map part_enc ps) = concat (map part_enc qs)"
  proof (cases "ps = [] \<or> qs = []")
    case True
    have "CHR '':'' \<in> set (n @ concat (map part_enc xs))" if "xs \<noteq> []" for n xs
    proof -
      from colon [OF that] obtain t where t: "concat (map part_enc xs) = CHR '':'' # t" ..
      show ?thesis unfolding set_append t by simp
    qed
    with True eq sep show ?thesis
      by (cases "ps = []"; cases "qs = []") (simp, metis append_Nil2 concat.simps(1) list.simps(8), metis append_Nil2 concat.simps(1) list.simps(8), simp)
  next
    case False
    with colon obtain t t' where "concat (map part_enc ps) = CHR '':'' # t" "concat (map part_enc qs) = CHR '':'' # t'"
      by meson
    with eq sep show ?thesis by (simp add: sep_inj)
  qed
  with parts_inj show ?thesis by simp
qed

text \<open>The scopes a principal can reach, through any of the three scope functions and any request.\<close>

definition scopes_of :: "string \<Rightarrow> string set" where
  "scopes_of who = {s. PrincipalScope who = Inr s \<or> (\<exists>f body. SessionScope f who body = Inr s) \<or>
     (\<exists>body. ContextIDScope who body = Inr s)}"

lemma ContextIDScope_parts:
  assumes "ContextIDScope who body = Inr s"
  shows "\<exists>rest. EncodeScope ''principal'' (who # rest) = Inr s"
proof -
  from assms obtain m where m: "top_level body = Some m" "who \<noteq> ''''"
    by (auto simp: ContextIDScope_def split: if_splits option.splits)
  show ?thesis
  proof (cases "map_of m ''context_id''")
    case (Some raw)
    with assms m obtain cid where "string_value raw = Some cid"
      by (auto simp: ContextIDScope_def split: option.splits)
    with assms m Some show ?thesis
      by (auto simp: ContextIDScope_def split: if_splits)
  qed (use assms m in \<open>auto simp: ContextIDScope_def\<close>)
qed

lemma SessionScope_parts:
  assumes "SessionScope f who body = Inr s"
  shows "\<exists>rest. EncodeScope ''principal'' (who # rest) = Inr s"
proof -
  from assms obtain m where m: "top_level body = Some m" "who \<noteq> ''''"
    by (auto simp: SessionScope_def split: if_splits option.splits)
  with assms obtain raw where raw: "map_of m f = Some raw"
    by (auto simp: SessionScope_def split: option.splits)
  with assms m obtain sid where "string_value raw = Some sid"
    by (auto simp: SessionScope_def split: option.splits)
  with assms m raw show ?thesis by (auto simp: SessionScope_def split: if_splits)
qed

lemma scopes_of_parts: "s \<in> scopes_of who \<Longrightarrow> \<exists>rest. EncodeScope ''principal'' (who # rest) = Inr s"
  using ContextIDScope_parts SessionScope_parts
  by (auto simp: scopes_of_def PrincipalScope_def split: if_splits)

lemma Validate_key_valid: "Validate k = None \<Longrightarrow> key_valid k"
  by (auto simp: Validate_def keyPattern_def is_letter_def is_upper_def is_lower_def is_digit_def less_eq_char_def
      split: if_splits)

section \<open>What a step does\<close>

abbreviation slot :: "call \<Rightarrow> string" where
  "slot c \<equiv> scopeKey (c_scope c) (c_key c)"

fun running :: "phase \<Rightarrow> bool" where
  "running PhRun = True"
| "running (PhRelease e) = True"
| "running (PhRecord r) = True"
| "running _ = False"

fun claiming :: "phase \<Rightarrow> bool" where
  "claiming PhGet = True"
| "claiming PhClaim = True"
| "claiming (PhReclaim e) = True"
| "claiming PhRecheck = True"
| "claiming _ = False"

fun legacy :: "phase \<Rightarrow> bool" where
  "legacy PhLegacyRun = True"
| "legacy (PhLegacyPut r) = True"
| "legacy _ = False"

text \<open>A step that changes nothing in the backend: the call goes on claiming, or it is answered.\<close>

definition quiet_next :: "options \<Rightarrow> call \<Rightarrow> backend \<Rightarrow> phase \<Rightarrow> phase \<Rightarrow> bool" where
  "quiet_next opts c b ph ph' \<longleftrightarrow> \<not> running ph' \<and> \<not> legacy ph' \<and> ph \<noteq> PhRun \<and> (claiming ph' \<longrightarrow> claiming ph) \<and>
     (\<forall>e. ph' = PhReclaim e \<longrightarrow> markerRequestHash (Hash e) retryablePrefix \<noteq> None) \<and>
     (\<forall>r. ph' = PhDone (Inr r) \<longrightarrow> ph = PhDone (Inr r) \<or>
        (\<exists>e. b (slot c) = Some e \<and> evaluateExisting opts e (c_hash c) (c_key c) (c_now c) = Inr r))"

definition claim_next :: "options \<Rightarrow> call \<Rightarrow> backend \<Rightarrow> phase \<Rightarrow> phase \<Rightarrow> bool" where
  "claim_next opts c b ph ph' \<longleftrightarrow> claiming ph \<and> (ph' = PhRun \<or> (\<exists>err. ph' = PhDone (Inl err))) \<and>
     (b (slot c) = None \<or> (\<exists>e old. ph = PhReclaim e \<and> b (slot c) = Some old \<and> Hash old = Hash e))"

lemma evaluate_not [simp]: "\<not> running (evaluate opts c e)" "\<not> legacy (evaluate opts c e)" "\<not> claiming (evaluate opts c e)"
    "evaluate opts c e \<noteq> PhReclaim e'"
    "evaluate opts c e = PhDone (Inr r) \<longleftrightarrow> evaluateExisting opts e (c_hash c) (c_key c) (c_now c) = Inr r"
  by (simp_all add: evaluate_def)

lemma with_existing_next:
  "b (slot c) = Some e \<Longrightarrow> claiming ph \<Longrightarrow> quiet_next opts c b ph (with_existing opts c e)"
  by (auto simp: quiet_next_def with_existing_def reclaimable_def)

lemma get_step_cases:
  "get_step opts True c f b = (ph', b') \<Longrightarrow> b' = b \<and> quiet_next opts c b PhGet ph'"
  using with_existing_next [of b c _ PhGet opts]
  by (cases "b (slot c)"; cases f) (auto simp: get_step_def access_def backend_Get_def quiet_next_def)

lemma recheck_step_cases:
  "recheck_step opts c f b = (ph', b') \<Longrightarrow> b' = b \<and> quiet_next opts c b PhRecheck ph'"
  by (cases "b (slot c)"; cases f) (auto simp: recheck_step_def access_def backend_Get_def quiet_next_def)

lemma claim_step_cases:
  assumes "claim_step opts c f b = (ph', b')"
  shows "(b' = b \<and> quiet_next opts c b PhClaim ph') \<or>
         (b' = b(slot c \<mapsto> claim_entry opts c) \<and> claim_next opts c b PhClaim ph')"
proof (cases "b (slot c)")
  case None
  with assms show ?thesis
    by (cases f) (auto simp: claim_step_def put_access_def access_def PutIfAbsent_def backend_Get_def quiet_next_def claim_next_def)
next
  case (Some e)
  with with_existing_next [of b c e PhClaim opts] assms show ?thesis
    by (cases f) (auto simp: claim_step_def put_access_def access_def PutIfAbsent_def backend_Get_def quiet_next_def)
qed

lemma reclaim_step_cases:
  assumes "reclaim_step opts c e f b = (ph', b')"
  shows "(b' = b \<and> quiet_next opts c b (PhReclaim e) ph') \<or>
         (b' = b(slot c \<mapsto> claim_entry opts c) \<and> claim_next opts c b (PhReclaim e) ph')"
proof (cases "\<exists>old. b (slot c) = Some old \<and> Hash old = Hash e")
  case True
  with assms show ?thesis
    by (cases f) (auto simp: reclaim_step_def access_def ReplaceIfHash_def quiet_next_def claim_next_def)
next
  case False
  with assms show ?thesis
    by (cases f; cases "b (slot c)") (auto simp: reclaim_step_def access_def ReplaceIfHash_def quiet_next_def)
qed

lemma release_step_cases:
  assumes "release_step opts c err f clock b = (ph', b')"
  shows "\<exists>e. ph' = PhDone (Inl e) \<and>
     (b' = b \<or> b' = b(slot c \<mapsto> marker_entry opts c clock) \<and> (\<exists>old. b (slot c) = Some old \<and> Hash old = claim_hash c))"
  using assms
  by (cases f; cases "b (slot c)") (auto simp: release_step_def access_def ReplaceIfHash_def split: if_splits)

lemma record_step_cases:
  assumes "record_step opts c resp f b = (ph', b')"
  shows "(b' = b \<and> (\<exists>e. ph' = PhDone (Inl e))) \<or>
     (b' = b(slot c \<mapsto> final_entry opts c resp) \<and> (ph' = PhDone (fresh_result c resp) \<or> (\<exists>e. ph' = PhDone (Inl e))) \<and>
      (\<exists>old. b (slot c) = Some old \<and> Hash old = claim_hash c))"
  using assms
  by (cases f; cases "b (slot c)") (auto simp: record_step_def access_def ReplaceIfHash_def split: if_splits)

text \<open>With claims, every step is one of five.\<close>

lemma wrap_step_cases:
  assumes "wrap_step opts True c env ph b = (ph', b')" "\<not> legacy ph"
  obtains (quiet) "b' = b" "quiet_next opts c b ph ph'"
  | (claim) "b' = b(slot c \<mapsto> claim_entry opts c)" "claim_next opts c b ph ph'"
  | (run) "ph = PhRun" "b' = b" "ph' = run_phase (se_outcome env)"
  | (release) err clock where "ph = PhRelease err" "b' = b(slot c \<mapsto> marker_entry opts c clock)" "\<exists>e. ph' = PhDone (Inl e)"
      "\<exists>old. b (slot c) = Some old \<and> Hash old = claim_hash c"
  | (finalize) resp where "ph = PhRecord resp" "b' = b(slot c \<mapsto> final_entry opts c resp)"
      "ph' = PhDone (fresh_result c resp) \<or> (\<exists>e. ph' = PhDone (Inl e))"
      "\<exists>old. b (slot c) = Some old \<and> Hash old = claim_hash c"
proof (cases ph)
  case PhGet
  with assms get_step_cases quiet show ?thesis by (metis wrap_step.simps(1))
next
  case PhClaim
  with assms claim_step_cases quiet claim show ?thesis by (metis wrap_step.simps(2))
next
  case (PhReclaim e)
  with assms reclaim_step_cases quiet claim show ?thesis by (metis wrap_step.simps(3))
next
  case PhRecheck
  with assms recheck_step_cases quiet show ?thesis by (metis wrap_step.simps(4))
next
  case (PhRelease err)
  with assms release_step_cases [of opts c err "se_fault env" "se_clock env" b ph' b']
  show ?thesis by (auto simp: quiet_next_def intro: quiet release)
next
  case (PhRecord resp)
  with assms record_step_cases [of opts c resp "se_fault env" b ph' b']
  show ?thesis by (auto simp: quiet_next_def intro: quiet finalize)
next
  case (PhDone r)
  with assms show ?thesis by (intro quiet) (auto simp: quiet_next_def)
qed (use assms run in auto)

end
