(* ===== verification/Idempotency_System.thy ===== *)
theory Idempotency_System
  imports Idempotency_Store
begin

text \<open>
  Concurrent calls of \<^verbatim>\<open>Store.Wrap\<close> on one claim backend, with its sweeper
  (\<^verbatim>\<open>src/adcp/v3/idempotency/store.go\<close>, \<^verbatim>\<open>memory.go\<close>), and what retries see. The system takes any step of
  any call, or a sweep, in any order; two ghost fields log the runs of handlers and count the recorded
  responses a sweep dropped. The invariant ties the log to the entry of each slot.
\<close>

section \<open>The system\<close>

record sys =
  sy_backend :: backend
  sy_phase :: "nat \<Rightarrow> phase"
  sy_runs :: "(nat \<times> handler_outcome) list"
  sy_dropped :: "string \<Rightarrow> nat"

text \<open>A hash that is neither a claim nor a retry marker belongs to a recorded response.\<close>

definition recorded_hash :: "string \<Rightarrow> bool" where
  "recorded_hash h \<longleftrightarrow> \<not> isClaimHash h \<and> markerRequestHash h retryablePrefix = None"

definition drops :: "time \<Rightarrow> backend \<Rightarrow> string \<Rightarrow> nat" where
  "drops now b k = (case b k of Some e \<Rightarrow> if sweepable now DefaultClockSkew e \<and> recorded_hash (Hash e) then 1 else 0 | None \<Rightarrow> 0)"

definition sys_init :: sys where
  "sys_init = \<lparr>sy_backend = Map.empty, sy_phase = (\<lambda>_. PhGet), sy_runs = [], sy_dropped = (\<lambda>_. 0)\<rparr>"

inductive idem_step :: "options \<Rightarrow> nat \<Rightarrow> (nat \<Rightarrow> call) \<Rightarrow> sys \<Rightarrow> sys \<Rightarrow> bool" for opts n calls where
  call_step: "i < n \<Longrightarrow> wrap_step opts True (calls i) env (sy_phase s i) (sy_backend s) = (ph, b) \<Longrightarrow>
    idem_step opts n calls s
      (s\<lparr>sy_backend := b, sy_phase := (sy_phase s)(i := ph),
         sy_runs := sy_runs s @ (if sy_phase s i = PhRun then [(i, se_outcome env)] else [])\<rparr>)"
| sweep_step: "idem_step opts n calls s
    (s\<lparr>sy_backend := sweep now DefaultClockSkew (sy_backend s),
       sy_dropped := (\<lambda>k. sy_dropped s k + drops now (sy_backend s) k)\<rparr>)"

inductive idem_reach :: "options \<Rightarrow> nat \<Rightarrow> (nat \<Rightarrow> call) \<Rightarrow> sys \<Rightarrow> bool" for opts n calls where
  reach_init: "idem_reach opts n calls sys_init"
| reach_step: "idem_reach opts n calls s \<Longrightarrow> idem_step opts n calls s s' \<Longrightarrow> idem_reach opts n calls s'"

text \<open>A run that took effect, or may have.\<close>

fun effectful :: "handler_outcome \<Rightarrow> bool" where
  "effectful (Failed e) = False"
| "effectful _ = True"

definition effects :: "(nat \<Rightarrow> call) \<Rightarrow> sys \<Rightarrow> string \<Rightarrow> nat" where
  "effects calls s k = length (filter (\<lambda>(i, out). slot (calls i) = k \<and> effectful out) (sy_runs s))"

text \<open>The calls of a system: random tokens that differ, keys and payload hashes of the form the code produces.\<close>

definition calls_ok :: "nat \<Rightarrow> (nat \<Rightarrow> call) \<Rightarrow> bool" where
  "calls_ok n calls \<longleftrightarrow> inj_on (\<lambda>i. c_token (calls i)) {..<n} \<and>
     (\<forall>i<n. Validate (c_key (calls i)) = None \<and> recorded_hash (c_hash (calls i)))"

section \<open>The invariant\<close>

definition spent :: "nat \<Rightarrow> (nat \<Rightarrow> call) \<Rightarrow> sys \<Rightarrow> string \<Rightarrow> bool" where
  "spent n calls s k \<longleftrightarrow> (case sy_backend s k of None \<Rightarrow> False
     | Some e \<Rightarrow> recorded_hash (Hash e) \<or>
         (\<exists>i<n. Hash e = claim_hash (calls i) \<and> (\<exists>out. (i, out) \<in> set (sy_runs s) \<and> effectful out)))"

definition holders_ok :: "nat \<Rightarrow> (nat \<Rightarrow> call) \<Rightarrow> sys \<Rightarrow> bool" where
  "holders_ok n calls s \<longleftrightarrow> (\<forall>i<n. running (sy_phase s i) \<longrightarrow>
     (\<exists>e. sy_backend s (slot (calls i)) = Some e \<and> Hash e = claim_hash (calls i)))"

definition run_ok :: "(nat \<times> handler_outcome) list \<Rightarrow> nat \<Rightarrow> phase \<Rightarrow> bool" where
  "run_ok runs i ph \<longleftrightarrow> \<not> legacy ph \<and>
     (claiming ph \<or> ph = PhRun \<longrightarrow> (\<forall>out. (i, out) \<notin> set runs)) \<and>
     (\<forall>err. ph = PhRelease err \<longrightarrow> (\<forall>out. (i, out) \<in> set runs \<longrightarrow> out = Failed err)) \<and>
     (\<forall>r. ph = PhRecord r \<longrightarrow> (i, Returned r) \<in> set runs) \<and>
     (\<forall>e. ph = PhReclaim e \<longrightarrow> markerRequestHash (Hash e) retryablePrefix \<noteq> None)"

definition runs_ok :: "nat \<Rightarrow> sys \<Rightarrow> bool" where
  "runs_ok n s \<longleftrightarrow> (\<forall>i<n. run_ok (sy_runs s) i (sy_phase s i))"

definition claims_ok :: "nat \<Rightarrow> (nat \<Rightarrow> call) \<Rightarrow> sys \<Rightarrow> bool" where
  "claims_ok n calls s \<longleftrightarrow> (\<forall>k e. sy_backend s k = Some e \<and> isClaimHash (Hash e) \<longrightarrow>
     (\<exists>i<n. Hash e = claim_hash (calls i) \<and> k = slot (calls i) \<and> \<not> claiming (sy_phase s i)))"

definition counts_ok :: "nat \<Rightarrow> (nat \<Rightarrow> call) \<Rightarrow> sys \<Rightarrow> bool" where
  "counts_ok n calls s \<longleftrightarrow> (\<forall>k. effects calls s k = sy_dropped s k + (if spent n calls s k then 1 else 0))"

definition records_ok :: "options \<Rightarrow> nat \<Rightarrow> (nat \<Rightarrow> call) \<Rightarrow> sys \<Rightarrow> bool" where
  "records_ok opts n calls s \<longleftrightarrow> (\<forall>k e. sy_backend s k = Some e \<and> recorded_hash (Hash e) \<longrightarrow>
     (\<exists>j<n. (j, Returned (Response e)) \<in> set (sy_runs s) \<and> slot (calls j) = k \<and> Hash e = c_hash (calls j) \<and>
        ExpiresAt e = Some (c_now (calls j) + opt_TTL opts)))"

text \<open>A stored response answers a call with this payload, while its replay window is open.\<close>

definition answer_of :: "options \<Rightarrow> nat \<Rightarrow> (nat \<Rightarrow> call) \<Rightarrow> (nat \<times> handler_outcome) list \<Rightarrow> nat \<Rightarrow> wrap_result \<Rightarrow> bool" where
  "answer_of opts n calls runs i r \<longleftrightarrow>
     (if Replayed r
      then \<exists>j<n. (j, Returned (result_Response r)) \<in> set runs \<and> slot (calls j) = slot (calls i) \<and>
             c_hash (calls j) = c_hash (calls i) \<and>
             c_now (calls i) \<le> c_now (calls j) + opt_TTL opts + opt_ClockSkew opts
      else (i, Returned (result_Response r)) \<in> set runs)"

definition answers_ok :: "options \<Rightarrow> nat \<Rightarrow> (nat \<Rightarrow> call) \<Rightarrow> sys \<Rightarrow> bool" where
  "answers_ok opts n calls s \<longleftrightarrow> (\<forall>i<n. \<forall>r. sy_phase s i = PhDone (Inr r) \<longrightarrow> answer_of opts n calls (sy_runs s) i r)"

definition sys_inv :: "options \<Rightarrow> nat \<Rightarrow> (nat \<Rightarrow> call) \<Rightarrow> sys \<Rightarrow> bool" where
  "sys_inv opts n calls s \<longleftrightarrow> holders_ok n calls s \<and> runs_ok n s \<and> claims_ok n calls s \<and> counts_ok n calls s \<and>
     records_ok opts n calls s \<and> answers_ok opts n calls s"

lemmas inv_parts = holders_ok_def runs_ok_def run_ok_def claims_ok_def counts_ok_def records_ok_def answers_ok_def

lemma calls_inj: "calls_ok n calls \<Longrightarrow> i < n \<Longrightarrow> j < n \<Longrightarrow> claim_hash (calls i) = claim_hash (calls j) \<longleftrightarrow> i = j"
  by (auto simp: calls_ok_def claim_hash_def claim_inj inj_on_def)

lemma claim_hash_kinds [simp]:
  "isClaimHash (claim_hash c)" "\<not> recorded_hash (claim_hash c)" "\<not> recorded_hash (retryable_hash (claim_hash c))"
  "\<not> isClaimHash (retryable_hash (claim_hash c))"
  by (simp_all add: claim_hash_def recorded_hash_def retryable_of_claim)

lemma entry_fields [simp]:
  "Hash (claim_entry opts c) = claim_hash c" "Hash (marker_entry opts c t) = retryable_hash (claim_hash c)"
  "Hash (final_entry opts c r) = c_hash c" "Response (final_entry opts c r) = r"
  "ExpiresAt (final_entry opts c r) = Some (c_now c + opt_TTL opts)"
  by (simp_all add: claim_entry_def marker_entry_def final_entry_def)

lemma retry_kinds: "markerRequestHash h retryablePrefix \<noteq> None \<Longrightarrow> \<not> isClaimHash h \<and> \<not> recorded_hash h"
  using retry_not_claim by (auto simp: recorded_hash_def)

lemma sys_inv_init: "sys_inv opts n calls sys_init"
  by (simp add: sys_inv_def inv_parts sys_init_def effects_def spent_def)

section \<open>Every step keeps it\<close>

lemma sweep_entry: "sweep now g b k = Some e \<longleftrightarrow> b k = Some e \<and> \<not> sweepable now g e"
  by (auto simp: sweep_def split: option.split)

lemma claim_not_sweepable: "isClaimHash (Hash e) \<Longrightarrow> \<not> sweepable now g e"
  by (simp add: sweepable_def split: option.split)

definition swept_sys :: "time \<Rightarrow> sys \<Rightarrow> sys" where
  "swept_sys now s = s\<lparr>sy_backend := sweep now DefaultClockSkew (sy_backend s),
     sy_dropped := (\<lambda>k. sy_dropped s k + drops now (sy_backend s) k)\<rparr>"

lemma swept_fields [simp]:
  "sy_backend (swept_sys now s) = sweep now DefaultClockSkew (sy_backend s)" "sy_phase (swept_sys now s) = sy_phase s"
  "sy_runs (swept_sys now s) = sy_runs s" "sy_dropped (swept_sys now s) k = sy_dropped s k + drops now (sy_backend s) k"
  by (simp_all add: swept_sys_def)

lemma sys_inv_sweep:
  assumes "sys_inv opts n calls s"
  shows "sys_inv opts n calls (swept_sys now s)"
proof -
  let ?s = "swept_sys now s"
  have "counts_ok n calls ?s"
    unfolding counts_ok_def
  proof
    fix k
    from assms(1) have old: "effects calls s k = sy_dropped s k + (if spent n calls s k then 1 else 0)"
      by (simp add: sys_inv_def counts_ok_def)
    have "drops now (sy_backend s) k + (if spent n calls ?s k then 1 else 0) = (if spent n calls s k then 1 else 0)"
    proof (cases "sy_backend s k")
      case None
      then show ?thesis by (simp add: drops_def spent_def sweep_def)
    next
      case (Some e)
      show ?thesis
      proof (cases "sweepable now DefaultClockSkew e")
        case True
        then have "\<not> isClaimHash (Hash e)" using claim_not_sweepable by blast
        then have "Hash e \<noteq> claim_hash (calls i)" for i using claim_hash_kinds(1) by metis
        with True Some show ?thesis by (simp add: drops_def spent_def sweep_def)
      next
        case False
        with Some show ?thesis by (simp add: drops_def spent_def sweep_def)
      qed
    qed
    with old show "effects calls ?s k = sy_dropped ?s k + (if spent n calls ?s k then 1 else 0)"
      by (simp add: effects_def)
  qed
  moreover have "holders_ok n calls ?s"
    unfolding holders_ok_def
  proof (intro allI impI)
    fix i assume "i < n" "running (sy_phase ?s i)"
    with assms(1) obtain e where e: "sy_backend s (slot (calls i)) = Some e" "Hash e = claim_hash (calls i)"
      unfolding sys_inv_def holders_ok_def by auto
    then have "\<not> sweepable now DefaultClockSkew e" by (simp add: claim_not_sweepable)
    with e show "\<exists>e. sy_backend ?s (slot (calls i)) = Some e \<and> Hash e = claim_hash (calls i)"
      by (simp add: sweep_entry)
  qed
  moreover have "runs_ok n ?s" "answers_ok opts n calls ?s"
    using assms(1) by (simp_all add: sys_inv_def runs_ok_def answers_ok_def)
  moreover have "claims_ok n calls ?s"
    using assms(1) unfolding sys_inv_def claims_ok_def swept_fields sweep_entry by blast
  moreover have "records_ok opts n calls ?s"
    using assms(1) unfolding sys_inv_def records_ok_def swept_fields sweep_entry by blast
  ultimately show ?thesis by (simp add: sys_inv_def)
qed

definition after :: "nat \<Rightarrow> phase \<Rightarrow> backend \<Rightarrow> (nat \<times> handler_outcome) list \<Rightarrow> sys \<Rightarrow> sys" where
  "after i ph b runs s = s\<lparr>sy_backend := b, sy_phase := (sy_phase s)(i := ph), sy_runs := runs\<rparr>"

lemma after_fields [simp]:
  "sy_backend (after i ph b runs s) = b" "sy_phase (after i ph b runs s) = (sy_phase s)(i := ph)"
  "sy_runs (after i ph b runs s) = runs" "sy_dropped (after i ph b runs s) = sy_dropped s"
  by (simp_all add: after_def)

lemma answer_of_mono:
  assumes "answer_of opts n calls runs i r" "set runs \<subseteq> set runs'"
  shows "answer_of opts n calls runs' i r"
proof (cases "Replayed r")
  case True
  with assms show ?thesis unfolding answer_of_def by (metis subsetD)
next
  case False
  with assms show ?thesis unfolding answer_of_def by (metis subsetD)
qed

lemma evaluate_replay:
  "evaluateExisting opts e h k now = Inr r \<Longrightarrow>
     Hash e = h \<and> r = \<lparr>result_Response = Response e, Replayed = True, result_Key = k\<rparr> \<and> \<not> expired opts e now"
  by (auto simp: evaluateExisting_def split: option.splits if_splits)

lemma spent_same:
  "sy_backend s' k = sy_backend s k \<Longrightarrow> sy_runs s' = sy_runs s \<Longrightarrow> spent n calls s' k = spent n calls s k"
  by (simp add: spent_def split: option.split)

lemma effects_same: "sy_runs s' = sy_runs s \<Longrightarrow> effects calls s' k = effects calls s k"
  by (simp add: effects_def)

text \<open>The parts of the invariant as rules.\<close>

lemma holders_entry:
  assumes "sys_inv opts n calls s" "i < n" "running (sy_phase s i)"
  obtains e where "sy_backend s (slot (calls i)) = Some e" "Hash e = claim_hash (calls i)"
  using assms unfolding sys_inv_def holders_ok_def by blast

lemma claim_owner:
  assumes "sys_inv opts n calls s" "sy_backend s k = Some e" "isClaimHash (Hash e)"
  obtains i where "i < n" "Hash e = claim_hash (calls i)" "k = slot (calls i)" "\<not> claiming (sy_phase s i)"
  using assms unfolding sys_inv_def claims_ok_def by blast

lemma not_yet_run:
  "sys_inv opts n calls s \<Longrightarrow> i < n \<Longrightarrow> claiming (sy_phase s i) \<or> sy_phase s i = PhRun \<Longrightarrow> (i, out) \<notin> set (sy_runs s)"
  unfolding sys_inv_def runs_ok_def run_ok_def by blast

lemma reclaims_marker:
  "sys_inv opts n calls s \<Longrightarrow> i < n \<Longrightarrow> sy_phase s i = PhReclaim e \<Longrightarrow> markerRequestHash (Hash e) retryablePrefix \<noteq> None"
  unfolding sys_inv_def runs_ok_def run_ok_def by blast

lemma recorded_owner:
  assumes "sys_inv opts n calls s" "sy_backend s k = Some e" "recorded_hash (Hash e)"
  obtains j where "j < n" "(j, Returned (Response e)) \<in> set (sy_runs s)" "slot (calls j) = k" "Hash e = c_hash (calls j)"
    "ExpiresAt e = Some (c_now (calls j) + opt_TTL opts)"
  using assms unfolding sys_inv_def records_ok_def by blast

lemma counted: "sys_inv opts n calls s \<Longrightarrow> effects calls s k = sy_dropped s k + (if spent n calls s k then 1 else 0)"
  unfolding sys_inv_def counts_ok_def by blast

lemma answered: "sys_inv opts n calls s \<Longrightarrow> i < n \<Longrightarrow> sy_phase s i = PhDone (Inr r) \<Longrightarrow> answer_of opts n calls (sy_runs s) i r"
  unfolding sys_inv_def answers_ok_def by blast

lemma run_kept: "sys_inv opts n calls s \<Longrightarrow> i < n \<Longrightarrow> run_ok (sy_runs s) i (sy_phase s i)"
  unfolding sys_inv_def runs_ok_def by blast

text \<open>Moving one call on.\<close>

lemma run_ok_other:
  "run_ok runs j ph \<Longrightarrow> (\<And>out. (j, out) \<in> set runs' \<longleftrightarrow> (j, out) \<in> set runs) \<Longrightarrow> run_ok runs' j ph"
  unfolding run_ok_def by simp

lemma runs_ok_after:
  assumes "sys_inv opts n calls s" "run_ok runs i ph" "\<And>j out. j \<noteq> i \<Longrightarrow> (j, out) \<in> set runs \<longleftrightarrow> (j, out) \<in> set (sy_runs s)"
  shows "runs_ok n (after i ph b runs s)"
  unfolding runs_ok_def
proof (intro allI impI)
  fix j assume "j < n"
  then show "run_ok (sy_runs (after i ph b runs s)) j (sy_phase (after i ph b runs s) j)"
    using assms(2) run_ok_other [OF run_kept [OF assms(1)], of j runs] assms(3) [of j]
    by (cases "j = i") simp_all
qed

lemma answers_ok_after:
  assumes "sys_inv opts n calls s" "\<forall>r. ph = PhDone (Inr r) \<longrightarrow> answer_of opts n calls runs i r" "set (sy_runs s) \<subseteq> set runs"
  shows "answers_ok opts n calls (after i ph b runs s)"
  unfolding answers_ok_def
proof (intro allI impI)
  fix j r assume "j < n" "sy_phase (after i ph b runs s) j = PhDone (Inr r)"
  then show "answer_of opts n calls (sy_runs (after i ph b runs s)) j r"
    using answered [OF assms(1), of j r] answer_of_mono [OF _ assms(3), of opts n calls j r] assms(2)
    by (cases "j = i") simp_all
qed

lemma inv_quiet:
  assumes inv: "sys_inv opts n calls s" and ok: "calls_ok n calls" "i < n"
    and q: "quiet_next opts (calls i) (sy_backend s) (sy_phase s i) ph"
  shows "sys_inv opts n calls (after i ph (sy_backend s) (sy_runs s) s)"
proof -
  let ?s = "after i ph (sy_backend s) (sy_runs s) s"
  have qs: "\<not> running ph" "\<not> legacy ph" "claiming ph \<Longrightarrow> claiming (sy_phase s i)"
    "\<forall>e. ph = PhReclaim e \<longrightarrow> markerRequestHash (Hash e) retryablePrefix \<noteq> None"
    using q unfolding quiet_next_def by blast+
  have "answer_of opts n calls (sy_runs s) i r" if r: "ph = PhDone (Inr r)" for r
  proof -
    from q r consider "sy_phase s i = PhDone (Inr r)"
      | e where "sy_backend s (slot (calls i)) = Some e"
          "evaluateExisting opts e (c_hash (calls i)) (c_key (calls i)) (c_now (calls i)) = Inr r"
      unfolding quiet_next_def by blast
    then show ?thesis
    proof cases
      case 1
      then show ?thesis using answered [OF inv ok(2)] by simp
    next
      case 2
      note ev = evaluate_replay [OF 2(2)]
      from ok have "recorded_hash (Hash e)" using ev by (simp add: calls_ok_def)
      from recorded_owner [OF inv 2(1) this] obtain j where "j < n" "(j, Returned (Response e)) \<in> set (sy_runs s)"
        "slot (calls j) = slot (calls i)" "Hash e = c_hash (calls j)"
        "ExpiresAt e = Some (c_now (calls j) + opt_TTL opts)" .
      with ev show ?thesis unfolding answer_of_def expired_def by (auto intro!: exI [of _ j])
    qed
  qed
  with answers_ok_after [OF inv, where ph = ph and i = i and runs = "sy_runs s"] have "answers_ok opts n calls ?s" by simp
  moreover have "counts_ok n calls ?s"
    unfolding counts_ok_def using counted [OF inv] by (simp add: effects_same [of ?s s] spent_same [of ?s _ s])
  moreover have "holders_ok n calls ?s"
    using inv qs(1) unfolding sys_inv_def holders_ok_def by (simp add: fun_upd_apply)
  moreover have "runs_ok n ?s"
  proof (rule runs_ok_after [OF inv])
    show "run_ok (sy_runs s) i ph"
      using qs not_yet_run [OF inv ok(2)] by (cases ph) (simp_all add: run_ok_def)
  qed simp
  moreover have "claims_ok n calls ?s"
    unfolding claims_ok_def
  proof (intro allI impI)
    fix k e assume "sy_backend ?s k = Some e \<and> isClaimHash (Hash e)"
    then have e: "sy_backend s k = Some e" "isClaimHash (Hash e)" by simp_all
    from claim_owner [OF inv e] obtain j where "j < n" "Hash e = claim_hash (calls j)" "k = slot (calls j)"
      "\<not> claiming (sy_phase s j)" .
    with qs(3) show "\<exists>i<n. Hash e = claim_hash (calls i) \<and> k = slot (calls i) \<and> \<not> claiming (sy_phase ?s i)"
      by (intro exI [of _ j]) auto
  qed
  moreover have "records_ok opts n calls ?s" using inv unfolding sys_inv_def records_ok_def by simp
  ultimately show ?thesis by (simp add: sys_inv_def)
qed

text \<open>Before a claim is placed, the slot is empty or holds a retry marker: nobody runs, nothing is spent.\<close>

lemma claim_before:
  assumes inv: "sys_inv opts n calls s" and "i < n" "claim_next opts (calls i) (sy_backend s) (sy_phase s i) ph"
    and "sy_backend s (slot (calls i)) = Some e"
  shows "\<not> isClaimHash (Hash e)" "\<not> recorded_hash (Hash e)"
proof -
  from assms(3,4) obtain e' where "sy_phase s i = PhReclaim e'" "Hash e = Hash e'"
    unfolding claim_next_def by auto
  with reclaims_marker [OF inv \<open>i < n\<close>] have "markerRequestHash (Hash e) retryablePrefix \<noteq> None" by simp
  from retry_kinds [OF this] show "\<not> isClaimHash (Hash e)" "\<not> recorded_hash (Hash e)" by simp_all
qed

lemma not_claim: "\<not> isClaimHash h \<Longrightarrow> h \<noteq> claim_hash c"
  by auto

text \<open>Two running calls never share a slot.\<close>

lemma holder_unique:
  assumes inv: "sys_inv opts n calls s" and ok: "calls_ok n calls"
    and "i < n" "j < n" "running (sy_phase s i)" "running (sy_phase s j)" "slot (calls i) = slot (calls j)"
  shows "i = j"
proof -
  obtain e where "sy_backend s (slot (calls i)) = Some e" "Hash e = claim_hash (calls i)"
    using holders_entry [OF inv assms(3,5)] .
  moreover obtain e' where "sy_backend s (slot (calls j)) = Some e'" "Hash e' = claim_hash (calls j)"
    using holders_entry [OF inv assms(4,6)] .
  ultimately show ?thesis using assms(7) calls_inj [OF ok assms(3,4)] by simp
qed

text \<open>The entries of the other slots and their claims are untouched by a step of one call.\<close>

lemma claims_ok_after:
  assumes inv: "sys_inv opts n calls s" and "i < n" "\<not> claiming ph"
    and "isClaimHash (Hash e) \<Longrightarrow> Hash e = claim_hash (calls i)"
  shows "claims_ok n calls (after i ph ((sy_backend s)(slot (calls i) \<mapsto> e)) runs s)"
  unfolding claims_ok_def
proof (intro allI impI)
  let ?s = "after i ph ((sy_backend s)(slot (calls i) \<mapsto> e)) runs s"
  fix k e' assume e': "sy_backend ?s k = Some e' \<and> isClaimHash (Hash e')"
  show "\<exists>j<n. Hash e' = claim_hash (calls j) \<and> k = slot (calls j) \<and> \<not> claiming (sy_phase ?s j)"
  proof (cases "k = slot (calls i)")
    case True
    with e' assms show ?thesis by (intro exI [of _ i]) auto
  next
    case False
    with e' have old: "sy_backend s k = Some e'" "isClaimHash (Hash e')" by simp_all
    obtain j where "j < n" "Hash e' = claim_hash (calls j)" "k = slot (calls j)" "\<not> claiming (sy_phase s j)"
      using claim_owner [OF inv old] .
    with assms(3) show ?thesis by (intro exI [of _ j]) auto
  qed
qed

lemma holders_ok_after:
  assumes inv: "sys_inv opts n calls s" and "i < n"
    and "\<And>j. j < n \<Longrightarrow> running (sy_phase s j) \<Longrightarrow> slot (calls j) = slot (calls i) \<Longrightarrow> j = i"
    and "running ph \<Longrightarrow> Hash e = claim_hash (calls i)"
  shows "holders_ok n calls (after i ph ((sy_backend s)(slot (calls i) \<mapsto> e)) runs s)"
  unfolding holders_ok_def
proof (intro allI impI)
  let ?s = "after i ph ((sy_backend s)(slot (calls i) \<mapsto> e)) runs s"
  fix j assume j: "j < n" "running (sy_phase ?s j)"
  show "\<exists>e'. sy_backend ?s (slot (calls j)) = Some e' \<and> Hash e' = claim_hash (calls j)"
  proof (cases "j = i")
    case True
    with j assms(4) show ?thesis by simp
  next
    case False
    with j have run: "running (sy_phase s j)" by simp
    with assms(3) j False have "slot (calls j) \<noteq> slot (calls i)" by blast
    moreover obtain e' where "sy_backend s (slot (calls j)) = Some e'" "Hash e' = claim_hash (calls j)"
      using holders_entry [OF inv j(1) run] .
    ultimately show ?thesis by simp
  qed
qed

lemma records_ok_after:
  assumes inv: "sys_inv opts n calls s"
    and "recorded_hash (Hash e) \<Longrightarrow> \<exists>j<n. (j, Returned (Response e)) \<in> set runs \<and> slot (calls j) = k \<and>
           Hash e = c_hash (calls j) \<and> ExpiresAt e = Some (c_now (calls j) + opt_TTL opts)"
    and "set (sy_runs s) \<subseteq> set runs"
  shows "records_ok opts n calls (after i ph ((sy_backend s)(k \<mapsto> e)) runs s)"
  unfolding records_ok_def
proof (intro allI impI)
  let ?s = "after i ph ((sy_backend s)(k \<mapsto> e)) runs s"
  fix k' e' assume e': "sy_backend ?s k' = Some e' \<and> recorded_hash (Hash e')"
  show "\<exists>j<n. (j, Returned (Response e')) \<in> set (sy_runs ?s) \<and> slot (calls j) = k' \<and> Hash e' = c_hash (calls j) \<and>
      ExpiresAt e' = Some (c_now (calls j) + opt_TTL opts)"
  proof (cases "k' = k")
    case True
    with e' assms(2) show ?thesis by simp
  next
    case False
    with e' have old: "sy_backend s k' = Some e'" "recorded_hash (Hash e')" by simp_all
    from recorded_owner [OF inv old] assms(3) show ?thesis by (metis after_fields(3) subsetD)
  qed
qed

lemma counts_ok_after:
  assumes inv: "sys_inv opts n calls s"
    and "spent n calls (after i ph ((sy_backend s)(k \<mapsto> e)) (sy_runs s) s) k = spent n calls s k"
  shows "counts_ok n calls (after i ph ((sy_backend s)(k \<mapsto> e)) (sy_runs s) s)"
  unfolding counts_ok_def
proof
  let ?s = "after i ph ((sy_backend s)(k \<mapsto> e)) (sy_runs s) s"
  fix k'
  have "spent n calls ?s k' = spent n calls s k'"
    using assms(2) by (cases "k' = k") (simp_all add: spent_same [of ?s k' s])
  with counted [OF inv, of k'] show "effects calls ?s k' = sy_dropped ?s k' + (if spent n calls ?s k' then 1 else 0)"
    by (simp add: effects_same [of ?s s])
qed

lemma spent_entry:
  "sy_backend s k = Some e \<Longrightarrow> spent n calls s k \<longleftrightarrow> recorded_hash (Hash e) \<or>
     (\<exists>i<n. Hash e = claim_hash (calls i) \<and> (\<exists>out. (i, out) \<in> set (sy_runs s) \<and> effectful out))"
  by (simp add: spent_def)

lemma spent_claimed:
  assumes "calls_ok n calls" "i < n" "sy_backend s k = Some e" "Hash e = claim_hash (calls i)"
  shows "spent n calls s k \<longleftrightarrow> (\<exists>out. (i, out) \<in> set (sy_runs s) \<and> effectful out)"
  unfolding spent_entry [of s k e, OF assms(3)] assms(4)
  using calls_inj [OF assms(1,2)] assms(2) by auto

lemma inv_claim:
  assumes inv: "sys_inv opts n calls s" and ok: "calls_ok n calls" "i < n"
    and c: "claim_next opts (calls i) (sy_backend s) (sy_phase s i) ph"
  shows "sys_inv opts n calls (after i ph ((sy_backend s)(slot (calls i) \<mapsto> claim_entry opts (calls i))) (sy_runs s) s)"
    (is "sys_inv opts n calls ?s")
proof -
  note free = claim_before [OF inv ok(2) c]
  have claiming: "claiming (sy_phase s i)" and ph: "ph = PhRun \<or> (\<exists>err. ph = PhDone (Inl err))"
    using c unfolding claim_next_def by blast+
  note fresh = not_yet_run [OF inv ok(2) disjI1 [OF claiming]]
  have unheld: "slot (calls j) \<noteq> slot (calls i)" if j: "j < n" "running (sy_phase s j)" for j
  proof
    assume eq: "slot (calls j) = slot (calls i)"
    obtain e where "sy_backend s (slot (calls j)) = Some e" "Hash e = claim_hash (calls j)"
      using holders_entry [OF inv j] .
    with free(1) eq show False by simp
  qed
  have "spent n calls ?s (slot (calls i)) = spent n calls s (slot (calls i))"
  proof -
    have "\<not> spent n calls s (slot (calls i))"
      using free not_claim by (cases "sy_backend s (slot (calls i))") (simp add: spent_def, simp add: spent_entry)
    moreover have "\<not> spent n calls ?s (slot (calls i))"
      using fresh spent_claimed [OF ok, of ?s "slot (calls i)" "claim_entry opts (calls i)"] by simp
    ultimately show ?thesis by simp
  qed
  then have "counts_ok n calls ?s" by (rule counts_ok_after [OF inv])
  moreover have "holders_ok n calls ?s"
    using unheld by (intro holders_ok_after [OF inv ok(2)]) auto
  moreover have "runs_ok n ?s"
  proof (rule runs_ok_after [OF inv])
    show "run_ok (sy_runs s) i ph" using ph fresh by (auto simp: run_ok_def)
  qed simp
  moreover have "claims_ok n calls ?s" using ph by (intro claims_ok_after [OF inv ok(2)]) auto
  moreover have "records_ok opts n calls ?s" by (rule records_ok_after [OF inv]) simp_all
  moreover have "answers_ok opts n calls ?s" using ph by (intro answers_ok_after [OF inv]) auto
  ultimately show ?thesis by (simp add: sys_inv_def)
qed

lemma inv_release:
  assumes inv: "sys_inv opts n calls s" and ok: "calls_ok n calls" "i < n"
    and c: "sy_phase s i = PhRelease err" "sy_backend s (slot (calls i)) = Some old" "Hash old = claim_hash (calls i)"
  shows "sys_inv opts n calls (after i (PhDone (Inl e)) ((sy_backend s)(slot (calls i) \<mapsto> marker_entry opts (calls i) clock)) (sy_runs s) s)"
    (is "sys_inv opts n calls ?s")
proof -
  have failed: "out = Failed err" if "(i, out) \<in> set (sy_runs s)" for out
    using run_kept [OF inv ok(2)] that c(1) by (simp add: run_ok_def)
  have "spent n calls ?s (slot (calls i)) = spent n calls s (slot (calls i))"
  proof -
    have "\<not> spent n calls s (slot (calls i))"
      using failed spent_claimed [OF ok c(2,3)] by (metis effectful.simps(1))
    moreover have "\<not> spent n calls ?s (slot (calls i))"
      using not_claim [of "retryable_hash (claim_hash (calls i))"]
        spent_entry [of ?s "slot (calls i)" "marker_entry opts (calls i) clock"] by simp
    ultimately show ?thesis by simp
  qed
  then have "counts_ok n calls ?s" by (rule counts_ok_after [OF inv])
  moreover have "holders_ok n calls ?s"
  proof (rule holders_ok_after [OF inv ok(2)])
    fix j assume "j < n" "running (sy_phase s j)" "slot (calls j) = slot (calls i)"
    with holder_unique [OF inv ok(1) _ ok(2)] c(1) show "j = i" by simp
  qed simp
  moreover have "runs_ok n ?s"
    by (rule runs_ok_after [OF inv]) (simp_all add: run_ok_def)
  moreover have "claims_ok n calls ?s" by (intro claims_ok_after [OF inv ok(2)]) auto
  moreover have "records_ok opts n calls ?s" by (rule records_ok_after [OF inv]) simp_all
  moreover have "answers_ok opts n calls ?s" by (intro answers_ok_after [OF inv]) auto
  ultimately show ?thesis by (simp add: sys_inv_def)
qed

lemma inv_record:
  assumes inv: "sys_inv opts n calls s" and ok: "calls_ok n calls" "i < n"
    and c: "sy_phase s i = PhRecord resp" "sy_backend s (slot (calls i)) = Some old" "Hash old = claim_hash (calls i)"
    and ph: "ph = PhDone (fresh_result (calls i) resp) \<or> (\<exists>e. ph = PhDone (Inl e))"
  shows "sys_inv opts n calls (after i ph ((sy_backend s)(slot (calls i) \<mapsto> final_entry opts (calls i) resp)) (sy_runs s) s)"
    (is "sys_inv opts n calls ?s")
proof -
  have returned: "(i, Returned resp) \<in> set (sy_runs s)"
    using run_kept [OF inv ok(2)] c(1) by (simp add: run_ok_def)
  have rec: "recorded_hash (c_hash (calls i))" using ok by (simp add: calls_ok_def)
  have "spent n calls ?s (slot (calls i)) = spent n calls s (slot (calls i))"
  proof -
    have "spent n calls s (slot (calls i))"
      using returned spent_claimed [OF ok c(2,3)] by fastforce
    moreover have "spent n calls ?s (slot (calls i))"
      using rec spent_entry [of ?s "slot (calls i)" "final_entry opts (calls i) resp"] by simp
    ultimately show ?thesis by simp
  qed
  then have "counts_ok n calls ?s" by (rule counts_ok_after [OF inv])
  moreover have "holders_ok n calls ?s"
  proof (rule holders_ok_after [OF inv ok(2)])
    fix j assume "j < n" "running (sy_phase s j)" "slot (calls j) = slot (calls i)"
    with holder_unique [OF inv ok(1) _ ok(2)] c(1) show "j = i" by simp
  qed (use ph in \<open>auto simp: fresh_result_def\<close>)
  moreover have "runs_ok n ?s"
    using ph by (intro runs_ok_after [OF inv]) (auto simp: run_ok_def)
  moreover have "claims_ok n calls ?s"
    using ph rec by (intro claims_ok_after [OF inv ok(2)]) (auto simp: recorded_hash_def)
  moreover have "records_ok opts n calls ?s"
    using returned ok(2) by (intro records_ok_after [OF inv]) auto
  moreover have "answers_ok opts n calls ?s"
    using ph returned by (intro answers_ok_after [OF inv]) (auto simp: fresh_result_def answer_of_def)
  ultimately show ?thesis by (simp add: sys_inv_def)
qed

lemma inv_run:
  assumes inv: "sys_inv opts n calls s" and ok: "calls_ok n calls" "i < n" and c: "sy_phase s i = PhRun"
  shows "sys_inv opts n calls (after i (run_phase out) (sy_backend s) (sy_runs s @ [(i, out)]) s)"
    (is "sys_inv opts n calls ?s")
proof -
  note fresh = not_yet_run [OF inv ok(2) disjI2 [OF c]]
  have run: "running (sy_phase s i)" by (simp add: c)
  obtain e where e: "sy_backend s (slot (calls i)) = Some e" "Hash e = claim_hash (calls i)"
    using holders_entry [OF inv ok(2) run] .
  have "counts_ok n calls ?s"
    unfolding counts_ok_def
  proof
    fix k
    have old: "effects calls s k = sy_dropped s k + (if spent n calls s k then 1 else 0)" by (rule counted [OF inv])
    show "effects calls ?s k = sy_dropped ?s k + (if spent n calls ?s k then 1 else 0)"
    proof (cases "k = slot (calls i)")
      case True
      have "\<not> spent n calls s k" using fresh spent_claimed [OF ok e] True by simp
      moreover have "spent n calls ?s k \<longleftrightarrow> effectful out"
        using spent_claimed [OF ok, of ?s k e] e fresh True by simp
      moreover have "effects calls ?s k = effects calls s k + (if effectful out then 1 else 0)"
        by (simp add: effects_def True)
      ultimately show ?thesis using old by simp
    next
      case False
      have "spent n calls ?s k = spent n calls s k"
      proof (cases "sy_backend s k")
        case None
        then show ?thesis by (simp add: spent_def)
      next
        case (Some e')
        have "Hash e' \<noteq> claim_hash (calls i)"
        proof
          assume eq: "Hash e' = claim_hash (calls i)"
          have "isClaimHash (Hash e')" by (simp add: eq)
          from claim_owner [OF inv Some this] obtain j where "j < n" "Hash e' = claim_hash (calls j)" "k = slot (calls j)" .
          then have "i = j" using eq calls_inj [OF ok] by metis
          with \<open>k = slot (calls j)\<close> False show False by simp
        qed
        then show ?thesis using spent_entry [of s k e'] spent_entry [of ?s k e'] Some by auto
      qed
      moreover have "effects calls ?s k = effects calls s k" using False by (simp add: effects_def)
      ultimately show ?thesis using old by simp
    qed
  qed
  moreover have "holders_ok n calls ?s"
    unfolding holders_ok_def
  proof (intro allI impI)
    fix j assume "j < n" "running (sy_phase ?s j)"
    with inv e show "\<exists>e. sy_backend ?s (slot (calls j)) = Some e \<and> Hash e = claim_hash (calls j)"
      unfolding sys_inv_def holders_ok_def by (cases "j = i") simp_all
  qed
  moreover have "runs_ok n ?s"
    using fresh by (intro runs_ok_after [OF inv]) (cases out, auto simp: run_ok_def)
  moreover have "claims_ok n calls ?s"
    unfolding claims_ok_def
  proof (intro allI impI)
    fix k e' assume "sy_backend ?s k = Some e' \<and> isClaimHash (Hash e')"
    then have old: "sy_backend s k = Some e'" "isClaimHash (Hash e')" by simp_all
    obtain j where "j < n" "Hash e' = claim_hash (calls j)" "k = slot (calls j)" "\<not> claiming (sy_phase s j)"
      using claim_owner [OF inv old] .
    moreover have "\<not> claiming (run_phase out)" by (cases out) simp_all
    ultimately show "\<exists>j<n. Hash e' = claim_hash (calls j) \<and> k = slot (calls j) \<and> \<not> claiming (sy_phase ?s j)"
      by (intro exI [of _ j]) auto
  qed
  moreover have "records_ok opts n calls ?s"
    unfolding records_ok_def
  proof (intro allI impI)
    fix k e' assume "sy_backend ?s k = Some e' \<and> recorded_hash (Hash e')"
    then have old: "sy_backend s k = Some e'" "recorded_hash (Hash e')" by simp_all
    from recorded_owner [OF inv old]
    show "\<exists>j<n. (j, Returned (Response e')) \<in> set (sy_runs ?s) \<and> slot (calls j) = k \<and> Hash e' = c_hash (calls j) \<and>
        ExpiresAt e' = Some (c_now (calls j) + opt_TTL opts)"
      by (metis after_fields(3) UnCI set_append)
  qed
  moreover have "answers_ok opts n calls ?s"
    by (rule answers_ok_after [OF inv]) (cases out, auto)
  ultimately show ?thesis by (simp add: sys_inv_def)
qed

lemma sys_inv_step:
  assumes "idem_step opts n calls s s'" "sys_inv opts n calls s" "calls_ok n calls"
  shows "sys_inv opts n calls s'"
  using assms(1)
proof cases
  case (call_step i env ph b)
  note inv = assms(2) and ok = assms(3) \<open>i < n\<close>
  have "\<not> legacy (sy_phase s i)" using run_kept [OF inv ok(2)] by (simp add: run_ok_def)
  from call_step(3) this show ?thesis
  proof (cases rule: wrap_step_cases)
    case quiet
    then have "sy_phase s i \<noteq> PhRun" by (simp add: quiet_next_def)
    with inv_quiet [OF inv ok quiet(2)] call_step(1) quiet(1) show ?thesis by (simp add: after_def)
  next
    case claim
    then have "sy_phase s i \<noteq> PhRun" by (auto simp: claim_next_def)
    with inv_claim [OF inv ok claim(2)] call_step(1) claim(1) show ?thesis by (simp add: after_def)
  next
    case run
    with inv_run [OF inv ok run(1), of "se_outcome env"] call_step(1) show ?thesis by (simp add: after_def)
  next
    case (release err clock)
    from release(3,4) obtain e old where "ph = PhDone (Inl e)" "sy_backend s (slot (calls i)) = Some old"
      "Hash old = claim_hash (calls i)" by blast
    with inv_release [OF inv ok release(1)] call_step(1) release(1,2) show ?thesis by (simp add: after_def)
  next
    case (finalize resp)
    from finalize(4) obtain old where "sy_backend s (slot (calls i)) = Some old" "Hash old = claim_hash (calls i)" by blast
    with inv_record [OF inv ok finalize(1) _ _ finalize(3)] call_step(1) finalize(1,2) show ?thesis by (simp add: after_def)
  qed
next
  case (sweep_step now)
  with sys_inv_sweep [OF assms(2)] show ?thesis by (simp add: swept_sys_def)
qed

lemma sys_inv_reach: "idem_reach opts n calls s \<Longrightarrow> calls_ok n calls \<Longrightarrow> sys_inv opts n calls s"
  by (induction rule: idem_reach.induct) (simp_all add: sys_inv_init sys_inv_step)

end
