(* ===== verification/Idempotency_Retry.thy ===== *)
theory Idempotency_Retry
  imports Idempotency_System
begin

text \<open>
  What a caller of the idempotency middleware can rely on: at most one run takes effect, a replay is the
  recorded answer to the same payload, every call ends, claims fence their slot, callers never share a
  slot, and what an exact or a changed retry sees.
\<close>

section \<open>One call at a time\<close>

definition solo :: "options \<Rightarrow> call \<Rightarrow> handler_outcome \<Rightarrow> time \<Rightarrow> backend \<Rightarrow> phase \<times> backend" where
  "solo opts c out clock b =
     run_call opts True c (replicate 5 (\<lparr>se_fault = NoFault, se_outcome = out, se_clock = clock\<rparr>, \<lambda>b. b)) b"

definition steps :: "options \<Rightarrow> call \<Rightarrow> handler_outcome \<Rightarrow> time \<Rightarrow> nat \<Rightarrow> phase \<times> backend \<Rightarrow> phase \<times> backend" where
  "steps opts c out clock m =
     (\<lambda>(ph, b). wrap_step opts True c \<lparr>se_fault = NoFault, se_outcome = out, se_clock = clock\<rparr> ph b) ^^ m"

lemma steps_Suc:
  "steps opts c out clock (Suc m) (ph, b) =
     steps opts c out clock m (wrap_step opts True c \<lparr>se_fault = NoFault, se_outcome = out, se_clock = clock\<rparr> ph b)"
  by (simp add: steps_def funpow_Suc_right del: funpow.simps)

lemma steps_done [simp]: "steps opts c out clock m (PhDone r, b) = (PhDone r, b)"
  by (induction m) (simp_all add: steps_Suc, simp add: steps_def)

lemma fold_replicate_funpow: "fold f (replicate m x) y = (f x ^^ m) y"
  by (induction m arbitrary: y) (simp_all add: funpow_swap1)

lemma solo_steps: "solo opts c out clock b = steps opts c out clock (Suc (Suc 3)) (PhGet, b)"
proof -
  have "solo opts c out clock b = steps opts c out clock 5 (PhGet, b)"
    unfolding solo_def run_call_def steps_def fold_replicate_funpow by (simp add: case_prod_unfold)
  moreover have "(5 :: nat) = Suc (Suc 3)" by simp
  ultimately show ?thesis by (simp only:)
qed

lemma final_step:
  "b (slot c) = Some e \<Longrightarrow> Hash e = claim_hash c \<Longrightarrow>
     steps opts c (Returned x) clock (Suc (Suc m)) (PhRun, b) = (PhDone (fresh_result c x), b(slot c \<mapsto> final_entry opts c x))"
  "b (slot c) = Some e \<Longrightarrow> Hash e = claim_hash c \<Longrightarrow>
     steps opts c (Failed err) clock (Suc (Suc m)) (PhRun, b) =
       (PhDone (Inl (HandlerError err)), b(slot c \<mapsto> marker_entry opts c clock))"
  "steps opts c (Unknown err) clock (Suc (Suc m)) (PhRun, b) = (PhDone (Inl (HandlerError err)), b)"
  by (simp_all add: steps_Suc record_step_def release_step_def access_def ReplaceIfHash_def)

text \<open>On an empty slot the call claims it and runs; on a retry marker for its payload it takes the claim over; any
  other entry answers it.\<close>

lemma get_first:
  "steps opts c out clock (Suc m) (PhGet, b) =
     steps opts c out clock m (case b (slot c) of None \<Rightarrow> (PhClaim, b) | Some e \<Rightarrow> (with_existing opts c e, b))"
  by (simp add: steps_Suc get_step_def access_def backend_Get_def split: option.split)

lemma solo_free:
  assumes "b (slot c) = None"
  shows "solo opts c out clock b = steps opts c out clock 3 (PhRun, b(slot c \<mapsto> claim_entry opts c))"
proof -
  have "wrap_step opts True c \<lparr>se_fault = NoFault, se_outcome = out, se_clock = clock\<rparr> PhClaim b =
      (PhRun, b(slot c \<mapsto> claim_entry opts c))"
    using assms by (simp add: claim_step_def put_access_def access_def PutIfAbsent_def)
  with assms show ?thesis unfolding solo_steps get_first by (simp only: option.case steps_Suc)
qed

lemma solo_reclaim:
  assumes "b (slot c) = Some e" "reclaimable opts e (c_hash c) (c_now c)"
  shows "solo opts c out clock b = steps opts c out clock 3 (PhRun, b(slot c \<mapsto> claim_entry opts c))"
proof -
  have "wrap_step opts True c \<lparr>se_fault = NoFault, se_outcome = out, se_clock = clock\<rparr> (PhReclaim e) b =
      (PhRun, b(slot c \<mapsto> claim_entry opts c))"
    using assms by (simp add: reclaim_step_def access_def ReplaceIfHash_def)
  moreover have "with_existing opts c e = PhReclaim e" using assms(2) by (simp add: with_existing_def)
  ultimately show ?thesis using assms(1) unfolding solo_steps get_first by (simp only: option.case steps_Suc)
qed

lemma solo_existing:
  assumes "b (slot c) = Some e" "\<not> reclaimable opts e (c_hash c) (c_now c)"
  shows "solo opts c out clock b = (evaluate opts c e, b)"
proof -
  have "with_existing opts c e = evaluate opts c e" using assms(2) by (simp add: with_existing_def)
  with assms(1) show ?thesis unfolding solo_steps get_first by (simp only: option.case evaluate_def steps_done)
qed

lemma three: "(3 :: nat) = Suc (Suc 1)" by simp

lemma solo_run:
  assumes "b (slot c) = None \<or> (\<exists>e. b (slot c) = Some e \<and> reclaimable opts e (c_hash c) (c_now c))"
  shows "solo opts c (Returned x) clock b = (PhDone (fresh_result c x), b(slot c \<mapsto> final_entry opts c x))"
    "solo opts c (Failed err) clock b = (PhDone (Inl (HandlerError err)), b(slot c \<mapsto> marker_entry opts c clock))"
    "solo opts c (Unknown err) clock b = (PhDone (Inl (HandlerError err)), b(slot c \<mapsto> claim_entry opts c))"
proof -
  have "solo opts c out clock b = steps opts c out clock 3 (PhRun, b(slot c \<mapsto> claim_entry opts c))" for out
    using assms solo_free solo_reclaim by blast
  then show "solo opts c (Returned x) clock b = (PhDone (fresh_result c x), b(slot c \<mapsto> final_entry opts c x))"
    "solo opts c (Failed err) clock b = (PhDone (Inl (HandlerError err)), b(slot c \<mapsto> marker_entry opts c clock))"
    "solo opts c (Unknown err) clock b = (PhDone (Inl (HandlerError err)), b(slot c \<mapsto> claim_entry opts c))"
    unfolding three by (simp_all only: final_step fun_upd_same entry_fields fun_upd_upd)
qed

lemma recorded_markers:
  assumes "recorded_hash h"
  shows "markerRequestHash h inFlightPrefix = None" "markerRequestHash h retryablePrefix = None"
  using assms marker_isClaim [of h] unfolding recorded_hash_def by (cases "markerRequestHash h inFlightPrefix"; simp)+

lemma evaluate_final:
  assumes "recorded_hash (c_hash c)"
  shows "evaluateExisting opts (final_entry opts c x) h k now =
     (if now > c_now c + opt_TTL opts + opt_ClockSkew opts then Inl (ExpiredError k)
      else if c_hash c \<noteq> h then Inl (ConflictError k) else Inr \<lparr>result_Response = x, Replayed = True, result_Key = k\<rparr>)"
  using recorded_markers [OF assms] by (simp add: evaluateExisting_def expired_def)

lemma evaluate_marker:
  "evaluateExisting opts (marker_entry opts c clock) h k now =
     (if now > clock + opt_TTL opts + opt_ClockSkew opts then Inl (ExpiredError k)
      else if c_hash c \<noteq> h then Inl (ConflictError k) else Inl (InFlightError k second))"
  by (simp add: evaluateExisting_def expired_def claim_hash_def retryable_of_claim) (simp add: marker_entry_def)

lemma evaluate_claim:
  "evaluateExisting opts (claim_entry opts c) h k now =
     (if c_hash c \<noteq> h then Inl (ConflictError k)
      else Inl (InFlightError k (inFlightRetryAfter (Some (c_now c + opt_TTL opts)) now)))"
  by (simp add: evaluateExisting_def claim_hash_def claim_marker) (simp add: claim_entry_def)

lemma reclaimable_entries:
  "recorded_hash (c_hash c) \<Longrightarrow> \<not> reclaimable opts (final_entry opts c x) h now"
  "\<not> reclaimable opts (claim_entry opts c) h now"
  "reclaimable opts (marker_entry opts c clock) h now \<longleftrightarrow> c_hash c = h \<and> now \<le> clock + opt_TTL opts + opt_ClockSkew opts"
  using recorded_markers [of "c_hash c"]
  by (auto simp: reclaimable_def expired_def claim_hash_def claim_not_retryable retryable_of_claim)
     (auto simp: marker_entry_def)

section \<open>Properties\<close>

text \<open>C8: however the calls and the sweeper interleave and whichever accesses to the backend fail, before or after
  they took effect, the handler runs that took effect under one scope and key, or may have, are at most one more
  than the recorded responses the sweeper dropped there; and two calls never run a handler for the same
  scope and key at the same time.\<close>

theorem handler_at_most_once:
  assumes "idem_reach opts n calls s" "calls_ok n calls"
  shows "effects calls s k \<le> sy_dropped s k + 1 \<and>
         (\<forall>i<n. \<forall>j<n. running (sy_phase s i) \<and> running (sy_phase s j) \<and> slot (calls i) = slot (calls j) \<longrightarrow> i = j)"
proof -
  note inv = sys_inv_reach [OF assms]
  have "effects calls s k \<le> sy_dropped s k + 1" using counted [OF inv, of k] by simp
  moreover have "i = j" if "i < n" "j < n" "running (sy_phase s i)" "running (sy_phase s j)" "slot (calls i) = slot (calls j)" for i j
    using holder_unique [OF inv assms(2) that] .
  ultimately show ?thesis by blast
qed

text \<open>C9: a call that is answered with a replay got a response that some call with the same scope, key and payload
  hash produced by running its handler, at most the replay window and the clock skew before; any other
  successful answer is what the call's own handler returned.\<close>

theorem replay_sound:
  assumes "idem_reach opts n calls s" "calls_ok n calls" "i < n" "sy_phase s i = PhDone (Inr r)"
  shows "if Replayed r
         then \<exists>j<n. (j, Returned (result_Response r)) \<in> set (sy_runs s) \<and> slot (calls j) = slot (calls i) \<and>
                c_hash (calls j) = c_hash (calls i) \<and>
                c_now (calls i) \<le> c_now (calls j) + opt_TTL opts + opt_ClockSkew opts
         else (i, Returned (result_Response r)) \<in> set (sy_runs s)"
  using answered [OF sys_inv_reach [OF assms(1,2)] assms(3,4)] unfolding answer_of_def .

text \<open>C10: what retries see. After a success, an exact retry within the window replays the response without another
  run, a changed payload conflicts, and after the window both expire. After a failure an exact retry runs
  again and a changed payload conflicts. After an unknown outcome an exact retry is told to wait between
  one and thirty seconds, whenever it comes. No retry of a success or of an unknown outcome changes the
  stored entry.\<close>

theorem retry_semantics:
  assumes "b (slot c) = None" "slot c' = slot c" "recorded_hash (c_hash c)"
  shows "(let (ph, b1) = solo opts c (Returned x) t b in ph = PhDone (fresh_result c x) \<and>
            solo opts c' out t' b1 =
              (PhDone (if c_now c' > c_now c + opt_TTL opts + opt_ClockSkew opts then Inl (ExpiredError (c_key c'))
                 else if c_hash c \<noteq> c_hash c' then Inl (ConflictError (c_key c'))
                 else Inr \<lparr>result_Response = x, Replayed = True, result_Key = c_key c'\<rparr>), b1)) \<and>
         (let (ph, b1) = solo opts c (Failed err) t b in ph = PhDone (Inl (HandlerError err)) \<and>
            fst (solo opts c' (Returned y) t' b1) =
              PhDone (if c_now c' > t + opt_TTL opts + opt_ClockSkew opts then Inl (ExpiredError (c_key c'))
                 else if c_hash c \<noteq> c_hash c' then Inl (ConflictError (c_key c')) else fresh_result c' y)) \<and>
         (let (ph, b1) = solo opts c (Unknown err) t b in ph = PhDone (Inl (HandlerError err)) \<and>
            (\<exists>ra. second \<le> ra \<and> ra \<le> 30 * second \<and>
               solo opts c' out t' b1 =
                 (PhDone (if c_hash c \<noteq> c_hash c' then Inl (ConflictError (c_key c')) else Inl (InFlightError (c_key c') ra)), b1)))"
proof (intro conjI)
  have free: "b (slot c) = None \<or> (\<exists>e. b (slot c) = Some e \<and> reclaimable opts e (c_hash c) (c_now c))"
    using assms(1) by simp
  note run = solo_run [where opts = opts and b = b and c = c, OF free]
  let ?f = "final_entry opts c x"
  have "(b(slot c \<mapsto> ?f)) (slot c') = Some ?f" using assms(2) by simp
  note kept = solo_existing [where opts = opts and c = c' and e = ?f and b = "b(slot c \<mapsto> ?f)", OF this
      reclaimable_entries(1) [OF assms(3)]]
  show "let (ph, b1) = solo opts c (Returned x) t b in ph = PhDone (fresh_result c x) \<and>
      solo opts c' out t' b1 =
        (PhDone (if c_now c' > c_now c + opt_TTL opts + opt_ClockSkew opts then Inl (ExpiredError (c_key c'))
           else if c_hash c \<noteq> c_hash c' then Inl (ConflictError (c_key c'))
           else Inr \<lparr>result_Response = x, Replayed = True, result_Key = c_key c'\<rparr>), b1)"
    unfolding run(1) Let_def prod.case kept evaluate_def evaluate_final [OF assms(3)] by simp
  let ?u = "claim_entry opts c"
  have "(b(slot c \<mapsto> ?u)) (slot c') = Some ?u" using assms(2) by simp
  note fenced = solo_existing [where opts = opts and c = c' and e = ?u and b = "b(slot c \<mapsto> ?u)", OF this
      reclaimable_entries(2)]
  show "let (ph, b1) = solo opts c (Unknown err) t b in ph = PhDone (Inl (HandlerError err)) \<and>
      (\<exists>ra. second \<le> ra \<and> ra \<le> 30 * second \<and>
         solo opts c' out t' b1 =
           (PhDone (if c_hash c \<noteq> c_hash c' then Inl (ConflictError (c_key c')) else Inl (InFlightError (c_key c') ra)), b1))"
    unfolding run(3) Let_def prod.case fenced evaluate_def evaluate_claim
    using inFlightRetryAfter_bounds unfolding maxInFlightRetryAfter_def by blast
  let ?m = "marker_entry opts c t" and ?b = "b(slot c \<mapsto> marker_entry opts c t)"
  have here: "?b (slot c') = Some ?m" using assms(2) by simp
  have "fst (solo opts c' (Returned y) t' ?b) =
      PhDone (if c_now c' > t + opt_TTL opts + opt_ClockSkew opts then Inl (ExpiredError (c_key c'))
         else if c_hash c \<noteq> c_hash c' then Inl (ConflictError (c_key c')) else fresh_result c' y)"
  proof (cases "reclaimable opts ?m (c_hash c') (c_now c')")
    case True
    with here have "?b (slot c') = None \<or> (\<exists>e. ?b (slot c') = Some e \<and> reclaimable opts e (c_hash c') (c_now c'))"
      by blast
    from solo_run(1) [where b = ?b and c = c' and opts = opts, OF this] True show ?thesis
      unfolding reclaimable_entries(3) by simp
  next
    case False
    with solo_existing [where opts = opts and c = c' and e = ?m and b = ?b, OF here False] show ?thesis
      by (simp add: evaluate_def evaluate_marker reclaimable_entries(3)) linarith
  qed
  then show "let (ph, b1) = solo opts c (Failed err) t b in ph = PhDone (Inl (HandlerError err)) \<and>
      fst (solo opts c' (Returned y) t' b1) =
        PhDone (if c_now c' > t + opt_TTL opts + opt_ClockSkew opts then Inl (ExpiredError (c_key c'))
           else if c_hash c \<noteq> c_hash c' then Inl (ConflictError (c_key c')) else fresh_result c' y)"
    unfolding run(2) Let_def prod.case by simp
qed

section \<open>Every call ends\<close>

fun rank :: "phase \<Rightarrow> nat" where
  "rank PhGet = 5"
| "rank PhClaim = 4"
| "rank (PhReclaim e) = 3"
| "rank PhRun = 2"
| "rank PhLegacyRun = 2"
| "rank PhRecheck = 1"
| "rank (PhRelease e) = 1"
| "rank (PhRecord r) = 1"
| "rank (PhLegacyPut r) = 1"
| "rank (PhDone r) = 0"

lemma rank_evaluate [simp]: "rank (evaluate opts c e) = 0"
  by (simp add: evaluate_def)

lemma rank_with_existing [simp]: "rank (with_existing opts c e) < 4" "rank (with_existing opts c e) < 5"
  by (simp_all add: with_existing_def)

lemma rank_phases: "rank (run_phase out) \<le> 1" "rank (legacy_phase out) \<le> 1"
  by (cases out; simp)+

lemma rank_step: "ph = PhDone r \<or> rank (fst (wrap_step opts claims c env ph b)) < rank ph" if "\<And>r'. ph = PhDone r' \<Longrightarrow> r' = r"
proof (cases ph)
  case PhGet
  then show ?thesis
    by (auto simp: get_step_def split: prod.split sum.split option.split)
next
  case PhClaim
  then show ?thesis
    by (auto simp: claim_step_def split: prod.split sum.split option.split)
next
  case PhRun
  then show ?thesis using rank_phases(1) [of "se_outcome env"] by simp
next
  case PhLegacyRun
  then show ?thesis using rank_phases(2) [of "se_outcome env"] by simp
qed (use that in \<open>auto simp: reclaim_step_def recheck_step_def release_step_def record_step_def legacy_put_step_def
      split: prod.split sum.split option.split\<close>)

lemma rank_run:
  "rank (fst (fold (\<lambda>(env, others) (ph, b). wrap_step opts claims c env ph (others b)) envs st)) \<le> rank (fst st) - length envs"
proof (induction envs arbitrary: st)
  case (Cons x envs)
  obtain env others where x: "x = (env, others)" by (cases x)
  obtain ph b where st: "st = (ph, b)" by (cases st)
  let ?st = "wrap_step opts claims c env ph (others b)"
  have "rank (fst ?st) \<le> rank ph - 1"
  proof (cases "\<exists>r. ph = PhDone r")
    case False
    with rank_step [of ph undefined opts claims c env "others b"] show ?thesis by auto
  qed auto
  with Cons.IH [of ?st] show ?case by (simp add: x st)
qed simp

lemma rank_0: "rank ph = 0 \<longleftrightarrow> (\<exists>r. ph = PhDone r)"
  by (cases ph) simp_all

text \<open>Every wrapped call ends after at most five accesses and runs, with or without claims, whatever the rest of
  the process does to the backend before each of them and whichever of them fail; no retry loop can spin.\<close>

theorem call_ends:
  assumes "5 \<le> length envs"
  shows "\<exists>r. fst (run_call opts claims c envs b) = PhDone r"
proof -
  have "rank (fst (run_call opts claims c envs b)) \<le> 5 - length envs"
    unfolding run_call_def using rank_run [of opts claims c envs "(PhGet, b)"] by simp
  with assms show ?thesis by (simp add: rank_0)
qed

text \<open>A claim fences its slot: once a call has put its claim into an empty slot, it is still there after any
  sequence of reads, puts, sweeps and replacements by others, none of which names the random claim hash,
  and every later put into the slot is refused and answered with the claim.\<close>

theorem claim_fenced:
  fixes opts :: options
  assumes "Validate (c_key c) = None" "b (slot c) = None" "\<forall>oper\<in>set opers. mem.foreign (claim_hash c) oper"
  defines "b1 \<equiv> snd (PutIfAbsent (c_scope c) (c_key c) (claim_entry opts c) b)"
  shows "backend_Get (c_scope c) (c_key c) (fold mem.apply_op opers b1) = Some (claim_entry opts c) \<and>
         fst (PutIfAbsent (c_scope c) (c_key c) e (fold mem.apply_op opers b1)) = (Some (claim_entry opts c), False)"
proof -
  note valid = Validate_key_valid [OF assms(1)]
  have empty: "backend_Get (c_scope c) (c_key c) b = None" using assms(2) by (simp add: backend_Get_def)
  have put: "backend_Get (c_scope c) (c_key c) b1 = Some (claim_entry opts c)"
    unfolding b1_def using mem.get_put [OF valid valid] empty by simp
  have claim: "isClaimHash (Hash (claim_entry opts c))" by simp
  have foreign: "\<forall>oper\<in>set opers. mem.foreign (Hash (claim_entry opts c)) oper" using assms(3) by simp
  show ?thesis
    using mem.fence [OF valid put claim foreign] mem.one_claim [OF valid empty claim foreign] unfolding b1_def by simp
qed

text \<open>Callers are kept apart: scopes built by any of the three scope functions for two principals, whatever
  the session or context ids in the requests, address the same slot of the backend only when principal and
  key agree; and the encoding of a scope determines its namespace and parts.\<close>

theorem slots_separate:
  assumes "s \<in> scopes_of who" "s' \<in> scopes_of who'" "Validate key = None" "Validate key' = None"
  shows "(scopeKey s key = scopeKey s' key' \<longrightarrow> s = s' \<and> key = key' \<and> who = who') \<and>
         (\<forall>ns ns' ps qs t. EncodeScope ns ps = Inr t \<and> EncodeScope ns' qs = Inr t \<longrightarrow> ns = ns' \<and> ps = qs)"
proof (intro conjI impI allI)
  assume "scopeKey s key = scopeKey s' key'"
  then have eq: "s = s'" "key = key'"
    using scopeKey_inj [OF Validate_key_valid [OF assms(3)] Validate_key_valid [OF assms(4)]] by simp_all
  then show "s = s'" "key = key'" .
  from scopes_of_parts [OF assms(1)] scopes_of_parts [OF assms(2)] eq EncodeScope_inj show "who = who'"
    by (metis list.inject)
qed (use EncodeScope_inj in blast)+

section \<open>Witnesses\<close>

text \<open>A schedule of two equal calls: the first claims, the second finds the claim, the first runs and records, and
  a third call replays.\<close>

definition idem_options :: options where
  "idem_options = \<lparr>opt_TTL = MinTTL, opt_ClockSkew = DefaultClockSkew, opt_KeyRequired = True\<rparr>"

definition idem_call :: "nat \<Rightarrow> call" where
  "idem_call i = \<lparr>c_scope = ''principal:1:a'', c_key = ''order-2026-00001'', c_hash = ''9f'',
     c_token = replicate i 0, c_now = int i\<rparr>"

definition idem_env :: step_env where
  "idem_env = \<lparr>se_fault = NoFault, se_outcome = Returned ''ok'', se_clock = 0\<rparr>"

definition exec_call :: "nat \<Rightarrow> sys \<Rightarrow> sys" where
  "exec_call i s = (let (ph, b) = wrap_step idem_options True (idem_call i) idem_env (sy_phase s i) (sy_backend s) in
     s\<lparr>sy_backend := b, sy_phase := (sy_phase s)(i := ph),
       sy_runs := sy_runs s @ (if sy_phase s i = PhRun then [(i, se_outcome idem_env)] else [])\<rparr>)"

lemma exec_reach:
  "\<forall>i\<in>set sched. i < 3 \<Longrightarrow> idem_reach idem_options 3 idem_call s \<Longrightarrow>
     idem_reach idem_options 3 idem_call (fold exec_call sched s)"
proof (induction sched arbitrary: s)
  case (Cons i sched)
  obtain ph b where "wrap_step idem_options True (idem_call i) idem_env (sy_phase s i) (sy_backend s) = (ph, b)"
    by fastforce
  with Cons.prems(1) have "idem_step idem_options 3 idem_call s (exec_call i s)"
    using idem_step.call_step [of i 3 idem_options idem_call idem_env s ph b] by (simp add: exec_call_def)
  with Cons show ?case by (simp add: reach_step)
qed simp

lemma idem_sample_reach: "idem_reach idem_options 3 idem_call (fold exec_call [0, 0, 1, 0, 0, 2] sys_init)"
  by (rule exec_reach) (simp_all add: reach_init)

lemma idem_sample_ok: "calls_ok 3 idem_call"
proof -
  have "c_token (idem_call i) = c_token (idem_call j) \<longleftrightarrow> i = j" for i j
    by (auto simp: idem_call_def replicate_eq_replicate)
  then have "inj_on (\<lambda>i. c_token (idem_call i)) {..<3}" by (simp add: inj_on_def)
  moreover have "Validate ''order-2026-00001'' = None" "recorded_hash ''9f''" by code_simp+
  then have "Validate (c_key (idem_call i)) = None \<and> recorded_hash (c_hash (idem_call i))" for i
    by (simp add: idem_call_def)
  ultimately show ?thesis by (simp add: calls_ok_def)
qed

theorem handler_at_most_once_witness:
  "effects idem_call (fold exec_call [0, 0, 1, 0, 0, 2] sys_init) (slot (idem_call 0)) \<le>
     sy_dropped (fold exec_call [0, 0, 1, 0, 0, 2] sys_init) (slot (idem_call 0)) + 1"
  using handler_at_most_once [OF idem_sample_reach idem_sample_ok] by blast

theorem replay_sound_witness:
  "\<exists>j<3. (j, Returned ''ok'') \<in> set (sy_runs (fold exec_call [0, 0, 1, 0, 0, 2] sys_init)) \<and>
     c_hash (idem_call j) = c_hash (idem_call 2)"
proof -
  have "sy_phase (fold exec_call [0, 0, 1, 0, 0, 2] sys_init) 2 =
      PhDone (Inr \<lparr>result_Response = ''ok'', Replayed = True, result_Key = ''order-2026-00001''\<rparr>)"
    by code_simp
  from replay_sound [OF idem_sample_reach idem_sample_ok _ this] show ?thesis by auto
qed

theorem retry_semantics_witness:
  "\<exists>ra. ra \<le> 30 * second \<and>
     fst (solo idem_options (idem_call 1) (Returned ''ok'') 0 (snd (solo idem_options (idem_call 0) (Unknown ''lost'') 0 Map.empty))) =
       PhDone (Inl (InFlightError ''order-2026-00001'' ra))"
proof -
  have pre: "Map.empty (slot (idem_call 0)) = None" "slot (idem_call 1) = slot (idem_call 0)"
    "recorded_hash (c_hash (idem_call 0))" "c_hash (idem_call 0) = c_hash (idem_call 1)"
    "c_key (idem_call 1) = ''order-2026-00001''"
    by (simp, simp add: idem_call_def, code_simp, simp_all add: idem_call_def)
  note retry_semantics [where b = Map.empty and c = "idem_call 0" and c' = "idem_call 1" and opts = idem_options and
      err = "''lost''" and t = 0 and t' = 0 and out = "Returned ''ok''", OF pre(1-3), THEN conjunct2, THEN conjunct2]
  then obtain ra where "ra \<le> 30 * second"
    "solo idem_options (idem_call 1) (Returned ''ok'') 0 (snd (solo idem_options (idem_call 0) (Unknown ''lost'') 0 Map.empty)) =
       (PhDone (Inl (InFlightError ''order-2026-00001'' ra)), snd (solo idem_options (idem_call 0) (Unknown ''lost'') 0 Map.empty))"
    unfolding Let_def case_prod_unfold pre(4,5) by auto
  then show ?thesis by auto
qed

theorem call_ends_witness:
  "\<exists>r. fst (run_call idem_options False (idem_call 0) (replicate 5 (idem_env, \<lambda>b. b)) Map.empty) = PhDone r"
  by (rule call_ends) simp

theorem claim_fenced_witness:
  "backend_Get ''principal:1:a'' ''order-2026-00001''
     (sweep 10 DefaultClockSkew (snd (PutIfAbsent ''principal:1:a'' ''order-2026-00001''
        (claim_entry idem_options (idem_call 0)) Map.empty))) = Some (claim_entry idem_options (idem_call 0))"
proof -
  have "Validate (c_key (idem_call 0)) = None" by code_simp
  from claim_fenced [of "idem_call 0" Map.empty "[OpSweep 10]", OF this]
  show ?thesis by (simp add: idem_call_def)
qed

theorem slots_separate_witness:
  "scopeKey ''principal:1:a'' ''order-2026-00001'' \<noteq> scopeKey ''principal:1:b'' ''order-2026-00001''"
proof -
  have "PrincipalScope ''a'' = Inr ''principal:1:a''" "PrincipalScope ''b'' = Inr ''principal:1:b''"
    "Validate ''order-2026-00001'' = None" by code_simp+
  with slots_separate [of "''principal:1:a''" "''a''" "''principal:1:b''" "''b''" "''order-2026-00001''" "''order-2026-00001''"]
  show ?thesis by (auto simp: scopes_of_def)
qed

end
