(* ===== verification/Go_Strings.thy ===== *)
theory Go_Strings
  imports AdCP_Prelude
begin

text \<open>
  String functions of Go's standard library that several components use: \<^verbatim>\<open>strings.TrimSpace\<close> and
  \<^verbatim>\<open>strings.Split\<close>.
\<close>

text \<open>\<^verbatim>\<open>strings.TrimSpace\<close>: the UTF-8 encodings of the code points \<^verbatim>\<open>unicode.IsSpace\<close> accepts.\<close>

definition bytes :: "nat list \<Rightarrow> string" where
  "bytes ns = map char_of ns"

definition space_runes :: "string list" where
  "space_runes = map bytes ([[9], [10], [11], [12], [13], [32], [0xC2, 0x85], [0xC2, 0xA0], [0xE1, 0x9A, 0x80],
     [0xE2, 0x80, 0xA8], [0xE2, 0x80, 0xA9], [0xE2, 0x80, 0xAF], [0xE2, 0x81, 0x9F], [0xE3, 0x80, 0x80]] @
     map (\<lambda>n. [0xE2, 0x80, n]) [0x80..<0x8B])"

function strip :: "string list \<Rightarrow> string \<Rightarrow> string" where
  "strip runes s = (case find (\<lambda>r. r \<noteq> [] \<and> has_prefix s r) runes of
     None \<Rightarrow> s | Some r \<Rightarrow> strip runes (drop (length r) s))"
  by pat_completeness auto
termination
proof (relation "measure (\<lambda>(runes, s). length s)")
  fix runes s r assume "find (\<lambda>r. r \<noteq> [] \<and> has_prefix s r) runes = Some r"
  then have "r \<noteq> []" "has_prefix s r" by (auto simp: find_Some_iff)
  then show "((runes, drop (length r) s), (runes, s)) \<in> measure (\<lambda>(runes, s). length s)"
    by (cases s) (auto simp: has_prefix_def)
qed simp

declare strip.simps [simp del]

definition TrimSpace :: "string \<Rightarrow> string" where
  "TrimSpace s = rev (strip (map rev space_runes) (rev (strip space_runes s)))"

text \<open>\<^verbatim>\<open>strings.Split\<close> on a one-byte separator; the result is never empty.\<close>

fun split_on :: "char \<Rightarrow> string \<Rightarrow> string list" where
  "split_on c [] = [[]]"
| "split_on c (x # s) = (if x = c then [] # split_on c s
     else case split_on c s of [] \<Rightarrow> [[x]] | p # ps \<Rightarrow> (x # p) # ps)"

lemma split_on_none: "c \<notin> set s \<Longrightarrow> split_on c s = [s]"
  by (induction s) auto

lemma split_on_append: "c \<notin> set a \<Longrightarrow> split_on c (a @ c # s) = a # split_on c s"
  by (induction a) auto

lemma strip_id: "(\<And>r. r \<in> set runes \<Longrightarrow> r \<noteq> [] \<Longrightarrow> hd r \<noteq> hd s) \<Longrightarrow> s \<noteq> [] \<Longrightarrow> strip runes s = s"
proof -
  assume first: "\<And>r. r \<in> set runes \<Longrightarrow> r \<noteq> [] \<Longrightarrow> hd r \<noteq> hd s" and "s \<noteq> []"
  have "\<not> (r \<noteq> [] \<and> has_prefix s r)" if "r \<in> set runes" for r
    using first [OF that] by (cases r) (auto simp: has_prefix_iff)
  then have "find (\<lambda>r. r \<noteq> [] \<and> has_prefix s r) runes = None" by (simp add: find_None_iff)
  then show ?thesis by (simp add: strip.simps [of runes s])
qed

definition ident_char :: "char \<Rightarrow> bool" where
  "ident_char c \<longleftrightarrow> is_digit c \<or> is_letter c \<or> c = CHR ''-''"

lemma space_bytes: "list_all (\<lambda>r. r \<noteq> [] \<and> \<not> ident_char (hd r) \<and> \<not> ident_char (last r)) space_runes"
  by code_simp

lemma TrimSpace_id: "s \<noteq> [] \<Longrightarrow> ident_char (hd s) \<Longrightarrow> ident_char (last s) \<Longrightarrow> TrimSpace s = s"
proof -
  assume s: "s \<noteq> []" "ident_char (hd s)" "ident_char (last s)"
  have runes: "r \<noteq> [] \<and> \<not> ident_char (hd r) \<and> \<not> ident_char (last r)" if "r \<in> set space_runes" for r
    using space_bytes that by (simp add: list_all_iff)
  have "strip space_runes s = s" using s runes by (intro strip_id) metis+
  moreover have "strip (map rev space_runes) (rev s) = rev s"
  proof (rule strip_id)
    fix r assume "r \<in> set (map rev space_runes)"
    then obtain q where "q \<in> set space_runes" "r = rev q" by auto
    with runes [of q] s show "hd r \<noteq> hd (rev s)" by (auto simp: hd_rev)
  qed (simp add: s)
  ultimately show ?thesis by (simp add: TrimSpace_def)
qed

end
