(* ===== verification/Version_Negotiation.thy ===== *)
theory Version_Negotiation
  imports Go_Strings "HOL-Library.Product_Lexorder"
begin

text \<open>
  Wire-version negotiation, \<^verbatim>\<open>src/adcp/v3/version.go\<close>: parsing a release, the comparison of releases and the
  choice of the version a server answers with. The comparison is proved to be the lexicographic order of a
  key, so that "highest" is the maximum of a linear order.
\<close>

definition before_char :: "char \<Rightarrow> string \<Rightarrow> string" where
  "before_char c s = takeWhile (\<lambda>x. x \<noteq> c) s"

definition after_char :: "char \<Rightarrow> string \<Rightarrow> string" where
  "after_char c s = tl (dropWhile (\<lambda>x. x \<noteq> c) s)"

text \<open>\<^verbatim>\<open>strconv.Atoi\<close>: an optional sign, decimal digits, a value in the range of a 64-bit \<^verbatim>\<open>int\<close>.\<close>

definition Atoi :: "string \<Rightarrow> int option" where
  "Atoi s = (let neg = (has_prefix s ''-''); ds = (if neg \<or> has_prefix s ''+'' then tl s else s);
       v = (if neg then - int (digits_value ds) else int (digits_value ds)) in
     if ds = '''' \<or> \<not> list_all is_digit ds then None
     else if v < - (2 ^ 63) \<or> v \<ge> 2 ^ 63 then None else Some v)"

section \<open>Releases\<close>

record release =
  major :: int
  minor :: int
  prerelease :: string
  version :: string

definition parseNonNegativeInt :: "string \<Rightarrow> int option" where
  "parseNonNegativeInt s =
     (if s = '''' then None else case Atoi s of None \<Rightarrow> None | Some n \<Rightarrow> if n < 0 then None else Some n)"

definition validPrerelease :: "string \<Rightarrow> bool" where
  "validPrerelease s \<longleftrightarrow> (\<forall>part\<in>set (split_on CHR ''.'' s).
     part \<noteq> '''' \<and> (\<forall>c\<in>set part. is_digit c \<or> is_letter c \<or> c = CHR ''-''))"

definition wire_version :: "int \<Rightarrow> int \<Rightarrow> string \<Rightarrow> string" where
  "wire_version ma mi pre = itoa (nat ma) @ ''.'' @ itoa (nat mi) @ (if pre \<noteq> '''' then ''-'' @ pre else '''')"

definition parseADCPRelease :: "string \<Rightarrow> release option" where
  "parseADCPRelease v =
     (let s = TrimSpace v in
      if s = '''' then None
      else let s = before_char CHR ''+'' s; core = before_char CHR ''-'' s; pre = after_char CHR ''-'' s;
               parts = split_on CHR ''.'' core in
        if length parts \<noteq> 2 \<and> length parts \<noteq> 3 then None
        else case (parseNonNegativeInt (parts ! 0), parseNonNegativeInt (parts ! 1)) of
            (Some ma, Some mi) \<Rightarrow>
              if length parts = 3 \<and> parseNonNegativeInt (parts ! 2) = None then None
              else if pre \<noteq> '''' \<and> \<not> validPrerelease pre then None
              else Some \<lparr>major = ma, minor = mi, prerelease = pre, version = wire_version ma mi pre\<rparr>
          | _ \<Rightarrow> None)"

definition NormalizeADCPVersion :: "string \<Rightarrow> string option" where
  "NormalizeADCPVersion v = map_option version (parseADCPRelease v)"

definition MajorFromADCPVersion :: "string \<Rightarrow> int option" where
  "MajorFromADCPVersion v = map_option major (parseADCPRelease v)"

definition VersionEnvelopeFor :: "string \<Rightarrow> (string \<times> int) option" where
  "VersionEnvelopeFor v =
     (case NormalizeADCPVersion v of None \<Rightarrow> None
      | Some n \<Rightarrow> (case MajorFromADCPVersion n of None \<Rightarrow> None | Some m \<Rightarrow> Some (n, m)))"

section \<open>Comparison\<close>

definition compareInt :: "int \<Rightarrow> int \<Rightarrow> int" where
  "compareInt a b = (if a < b then -1 else if a > b then 1 else 0)"

fun compare_parts :: "string list \<Rightarrow> string list \<Rightarrow> int" where
  "compare_parts (a # as) (b # bs) =
     (if a = b then compare_parts as bs
      else case (parseNonNegativeInt a, parseNonNegativeInt b) of
          (Some m, Some n) \<Rightarrow> if compareInt m n \<noteq> 0 then compareInt m n else compare_parts as bs
        | (Some m, None) \<Rightarrow> -1
        | (None, Some n) \<Rightarrow> 1
        | (None, None) \<Rightarrow> if a < b then -1 else 1)"
| "compare_parts as bs = compareInt (int (length as)) (int (length bs))"

definition comparePrerelease :: "string \<Rightarrow> string \<Rightarrow> int" where
  "comparePrerelease a b = compare_parts (split_on CHR ''.'' a) (split_on CHR ''.'' b)"

definition compareADCPRelease :: "release \<Rightarrow> release \<Rightarrow> int" where
  "compareADCPRelease a b =
     (if major a \<noteq> major b then compareInt (major a) (major b)
      else if minor a \<noteq> minor b then compareInt (minor a) (minor b)
      else if prerelease a = '''' \<and> prerelease b \<noteq> '''' then 1
      else if prerelease a \<noteq> '''' \<and> prerelease b = '''' then -1
      else if prerelease a = '''' \<and> prerelease b = '''' then 0
      else comparePrerelease (prerelease a) (prerelease b))"

section \<open>Negotiation\<close>

definition SupportedADCPVersions :: "string list" where
  "SupportedADCPVersions = [''3.0'', ''3.1'', ''3.2-rc.1'', ''3.2-rc.3'', ''3.2'']"

definition DefaultADCPVersion :: string where "DefaultADCPVersion = ''3.2''"

fun parse_supported :: "string list \<Rightarrow> string set \<Rightarrow> release list" where
  "parse_supported [] seen = []"
| "parse_supported (v # vs) seen =
     (case parseADCPRelease v of
        None \<Rightarrow> parse_supported vs seen
      | Some r \<Rightarrow> if version r \<in> seen then parse_supported vs seen
                  else r # parse_supported vs (insert (version r) seen))"

definition parseSupportedADCPReleases :: "string list \<Rightarrow> release list" where
  "parseSupportedADCPReleases vs = parse_supported vs {}"

text \<open>One pass of the selection loop over the releases that are not skipped.\<close>

definition best_of :: "(release \<Rightarrow> bool) \<Rightarrow> release list \<Rightarrow> release option" where
  "best_of keep rs = fold (\<lambda>r best. if \<not> keep r then best
     else case best of None \<Rightarrow> Some r | Some b \<Rightarrow> if compareADCPRelease r b > 0 then Some r else best) rs None"

definition highestSupportedADCPRelease :: "release list \<Rightarrow> int \<Rightarrow> release option \<Rightarrow> bool \<Rightarrow> string option" where
  "highestSupportedADCPRelease supported ma mx allowPrereleaseFallback =
     (let in_scope = (\<lambda>r. ma = 0 \<or> major r = ma);
          stable = best_of (\<lambda>r. in_scope r \<and> prerelease r = '''' \<and>
            (case mx of None \<Rightarrow> True | Some m \<Rightarrow> compareADCPRelease r m \<le> 0)) supported in
      case stable of
        Some r \<Rightarrow> Some (version r)
      | None \<Rightarrow> if allowPrereleaseFallback then map_option version (best_of in_scope supported) else None)"

definition findSupportedADCPRelease :: "release list \<Rightarrow> int \<Rightarrow> int \<Rightarrow> string \<Rightarrow> release option" where
  "findSupportedADCPRelease supported ma mi pre =
     find (\<lambda>r. major r = ma \<and> minor r = mi \<and> prerelease r = pre) supported"

definition negotiate :: "string \<Rightarrow> int option \<Rightarrow> string list \<Rightarrow> string option" where
  "negotiate requestedVersion requestedMajor supported =
     (let parsed = parseSupportedADCPReleases supported;
          releases = (if parsed = [] then parseSupportedADCPReleases SupportedADCPVersions else parsed) in
      if TrimSpace requestedVersion \<noteq> '''' then
        (case parseADCPRelease requestedVersion of
           None \<Rightarrow> None
         | Some req \<Rightarrow>
             (case findSupportedADCPRelease releases (major req) (minor req) (prerelease req) of
                Some exact \<Rightarrow> Some (version exact)
              | None \<Rightarrow> if prerelease req \<noteq> '''' then None
                        else highestSupportedADCPRelease releases (major req) (Some req) False))
      else case requestedMajor of
          Some ma \<Rightarrow> if ma < 1 then None else highestSupportedADCPRelease releases ma None True
        | None \<Rightarrow> highestSupportedADCPRelease releases 0 None True)"

definition NegotiateADCPVersion :: "string \<Rightarrow> int \<Rightarrow> string list \<Rightarrow> string option" where
  "NegotiateADCPVersion requestedVersion requestedMajor supported =
     negotiate requestedVersion (if requestedMajor \<noteq> 0 then Some requestedMajor else None) supported"

section \<open>The order behind the comparison\<close>

text \<open>A dotted identifier of a prerelease: numeric ones come before the others.\<close>

datatype ident = Num int | Alnum string

instantiation ident :: linorder
begin

fun less_eq_ident :: "ident \<Rightarrow> ident \<Rightarrow> bool" where
  "less_eq_ident (Num m) (Num n) \<longleftrightarrow> m \<le> n"
| "less_eq_ident (Num m) (Alnum t) \<longleftrightarrow> True"
| "less_eq_ident (Alnum s) (Num n) \<longleftrightarrow> False"
| "less_eq_ident (Alnum s) (Alnum t) \<longleftrightarrow> s \<le> t"

definition less_ident :: "ident \<Rightarrow> ident \<Rightarrow> bool" where
  "less_ident x y \<longleftrightarrow> x \<le> y \<and> \<not> y \<le> (x :: ident)"

instance
proof
  fix x y z :: ident
  show "x \<le> x" by (cases x) simp_all
  show "x < y \<longleftrightarrow> x \<le> y \<and> \<not> y \<le> x" by (rule less_ident_def)
  show "x \<le> y \<or> y \<le> x" by (cases x; cases y) (simp_all add: linear)
  show "x \<le> y \<Longrightarrow> y \<le> x \<Longrightarrow> x = y" by (cases x; cases y) simp_all
  show "x \<le> y \<Longrightarrow> y \<le> z \<Longrightarrow> x \<le> z" by (cases x; cases y; cases z) simp_all
qed

end

lemma ident_less [simp]:
  "Num m < Num n \<longleftrightarrow> m < n" "Num m < Alnum t" "\<not> Alnum s < Num n" "Alnum s < Alnum t \<longleftrightarrow> s < t"
  by (auto simp: less_ident_def)

definition ident_of :: "string \<Rightarrow> ident" where
  "ident_of p = (case parseNonNegativeInt p of Some n \<Rightarrow> Num n | None \<Rightarrow> Alnum p)"

type_synonym release_rank = "int \<times> int \<times> bool \<times> ident list"

definition release_key :: "release \<Rightarrow> release_rank" where
  "release_key r = (major r, minor r, prerelease r = '''',
     if prerelease r = '''' then [] else map ident_of (split_on CHR ''.'' (prerelease r)))"

text \<open>The three-way result of a linear order.\<close>

definition cmp :: "'a :: linorder \<Rightarrow> 'a \<Rightarrow> int" where
  "cmp x y = (if x < y then -1 else if y < x then 1 else 0)"

lemma cmp_simps [simp]:
  "cmp x x = 0" "cmp (x # xs) (x # ys) = cmp xs ys" "x < y \<Longrightarrow> cmp (x # xs) (y # ys) = -1"
  "y < x \<Longrightarrow> cmp (x # xs) (y # ys) = 1" "cmp (x, u) (x, v) = cmp u v" "x < y \<Longrightarrow> cmp (x, u) (y, v) = -1"
  "y < x \<Longrightarrow> cmp (x, u) (y, v) = 1"
  by (auto simp: cmp_def)

lemma cmp_sign: "cmp x y > 0 \<longleftrightarrow> y < x" "cmp x y \<le> 0 \<longleftrightarrow> x \<le> y"
  by (auto simp: cmp_def)

lemma nil_less: "xs \<noteq> [] \<Longrightarrow> [] < map f xs"
  by (cases xs) simp_all

lemma compareInt_cmp: "compareInt a b = cmp a b"
  by (simp add: compareInt_def cmp_def)

lemma compare_parts_cmp: "compare_parts as bs = cmp (map ident_of as) (map ident_of bs)"
proof (induction as bs rule: compare_parts.induct)
  case (1 a as b bs)
  show ?case
  proof (cases "a = b")
    case True
    with 1 show ?thesis by simp
  next
    case False
    show ?thesis
    proof (cases "parseNonNegativeInt a"; cases "parseNonNegativeInt b")
      fix m n assume mn: "parseNonNegativeInt a = Some m" "parseNonNegativeInt b = Some n"
      then have idents: "ident_of a = Num m" "ident_of b = Num n" by (simp_all add: ident_of_def)
      consider "m < n" | "n < m" | "m = n" by linarith
      then show ?thesis
      proof cases
        case 3
        with 1 False mn idents show ?thesis by (simp add: compareInt_def)
      qed (use False mn idents in \<open>simp_all add: compareInt_def\<close>)
    next
      assume "parseNonNegativeInt a = None" "parseNonNegativeInt b = None"
      moreover from this have "ident_of a = Alnum a" "ident_of b = Alnum b" by (simp_all add: ident_of_def)
      ultimately show ?thesis using False by (cases "a < b") simp_all
    next
      fix m assume "parseNonNegativeInt a = Some m" "parseNonNegativeInt b = None"
      moreover from this have "ident_of a = Num m" "ident_of b = Alnum b" by (simp_all add: ident_of_def)
      ultimately show ?thesis using False by simp
    next
      fix n assume "parseNonNegativeInt a = None" "parseNonNegativeInt b = Some n"
      moreover from this have "ident_of a = Alnum a" "ident_of b = Num n" by (simp_all add: ident_of_def)
      ultimately show ?thesis using False by simp
    qed
  qed
qed (auto simp: compareInt_def cmp_def nil_less)

lemma compareADCPRelease_cmp: "compareADCPRelease a b = cmp (release_key a) (release_key b)"
proof (cases "major a = major b \<and> minor a = minor b")
  case True
  then show ?thesis
    by (auto simp: compareADCPRelease_def release_key_def comparePrerelease_def compare_parts_cmp)
next
  case False
  then show ?thesis
    by (auto simp: compareADCPRelease_def release_key_def compareInt_def)
qed

lemma compare_le: "compareADCPRelease a b \<le> 0 \<longleftrightarrow> release_key a \<le> release_key b"
  and compare_gt: "compareADCPRelease a b > 0 \<longleftrightarrow> release_key b < release_key a"
  by (simp_all add: compareADCPRelease_cmp cmp_sign)

lemma best_of_fold:
  "(case fold (\<lambda>r best. if \<not> keep r then best else case best of None \<Rightarrow> Some r
        | Some b \<Rightarrow> if compareADCPRelease r b > 0 then Some r else best) rs best of
      None \<Rightarrow> best = None \<and> (\<forall>r\<in>set rs. \<not> keep r)
    | Some r \<Rightarrow> (r \<in> set rs \<and> keep r \<or> best = Some r) \<and>
        (\<forall>r'\<in>set rs. keep r' \<longrightarrow> release_key r' \<le> release_key r) \<and>
        (\<forall>b. best = Some b \<longrightarrow> release_key b \<le> release_key r))"
proof (induction rs arbitrary: best)
  case (Cons x rs)
  let ?next = "if \<not> keep x then best else case best of None \<Rightarrow> Some x
      | Some b \<Rightarrow> if compareADCPRelease x b > 0 then Some x else best"
  from Cons.IH [of ?next] show ?case
    by (cases "keep x"; cases best) (auto simp: compare_gt split: option.splits if_splits)
qed (simp split: option.split)

lemma best_of_None: "best_of keep rs = None \<longleftrightarrow> (\<forall>r\<in>set rs. \<not> keep r)"
  using best_of_fold [where keep = keep and rs = rs and best = None] unfolding best_of_def by (auto split: option.splits)

lemma best_of_Some:
  "best_of keep rs = Some r \<Longrightarrow> r \<in> set rs \<and> keep r \<and> (\<forall>r'\<in>set rs. keep r' \<longrightarrow> release_key r' \<le> release_key r)"
  using best_of_fold [where keep = keep and rs = rs and best = None] unfolding best_of_def by simp

section \<open>Normal forms\<close>

lemma is_digit_ident: "is_digit c \<Longrightarrow> ident_char c"
  by (simp add: ident_char_def)

lemma itoa_nonempty: "itoa n \<noteq> []"
  by (simp add: itoa.simps [of n])

lemma not_in_itoa: "\<not> is_digit c \<Longrightarrow> c \<notin> set (itoa n)"
  using itoa_digits by blast

lemma non_digits: "\<not> is_digit CHR ''.''" "\<not> is_digit CHR ''-''" "\<not> is_digit CHR ''+''"
  by code_simp+

lemma digits_itoa: "parseNonNegativeInt (itoa n) = Some (int n)" if "int n < 2 ^ 63"
proof -
  have signs: "\<not> has_prefix (itoa n) ''-''" "\<not> has_prefix (itoa n) ''+''"
    using not_in_itoa [OF non_digits(2), of n] not_in_itoa [OF non_digits(3), of n] by (auto simp: has_prefix_iff)
  moreover have "list_all is_digit (itoa n)" by (auto simp: list_all_iff dest: itoa_digits)
  ultimately show ?thesis
    using that itoa_nonempty [of n] by (simp add: parseNonNegativeInt_def Atoi_def Let_def itoa_value del: digits_value.simps)
qed

lemma parseNonNegativeInt_bounds: "parseNonNegativeInt s = Some n \<Longrightarrow> 0 \<le> n \<and> n < 2 ^ 63"
  by (auto simp: parseNonNegativeInt_def Atoi_def Let_def split: if_splits option.splits)

lemma parse_fields:
  assumes "parseADCPRelease v = Some r"
  shows "0 \<le> major r \<and> major r < 2 ^ 63 \<and> 0 \<le> minor r \<and> minor r < 2 ^ 63 \<and>
    (prerelease r \<noteq> '''' \<longrightarrow> validPrerelease (prerelease r)) \<and>
    version r = wire_version (major r) (minor r) (prerelease r)"
  using assms parseNonNegativeInt_bounds
  by (auto simp: parseADCPRelease_def Let_def split: if_splits option.splits)

lemma split_on_Cons_ne: "split_on c s \<noteq> []"
  by (cases s) (auto split: list.split)

lemma split_on_mem: "x \<in> set s \<Longrightarrow> x = c \<or> (\<exists>p\<in>set (split_on c s). x \<in> set p)"
proof (induction s)
  case (Cons y s)
  then show ?case
    using split_on_Cons_ne [of c s] by (cases "split_on c s") auto
qed simp

lemma split_on_last: "last (split_on c s) \<noteq> [] \<Longrightarrow> s \<noteq> [] \<and> last s = last (last (split_on c s))"
proof (induction s)
  case (Cons y s)
  show ?case
  proof (cases "s = []")
    case True
    with Cons.prems show ?thesis by (auto split: if_splits)
  next
    case False
    obtain p ps where ps: "split_on c s = p # ps" using split_on_Cons_ne [of c s] by (cases "split_on c s") auto
    show ?thesis
    proof (cases "ps = []")
      case True
      with ps have "split_on c s = [p]" by simp
      moreover have "p \<noteq> []"
      proof
        assume "p = []"
        with \<open>split_on c s = [p]\<close> have "s = []"
          by (cases s) (use split_on_Cons_ne in \<open>auto split: if_splits list.splits\<close>)
        with False show False by simp
      qed
      ultimately show ?thesis using Cons False by (auto split: if_splits)
    next
      case nonempty: False
      then have "last (split_on c (y # s)) = last (split_on c s)" using ps by auto
      with Cons False show ?thesis by simp
    qed
  qed
qed simp

lemma validPrerelease_chars:
  assumes "validPrerelease pre"
  shows "x \<in> set pre \<Longrightarrow> x = CHR ''.'' \<or> ident_char x" "pre \<noteq> [] \<and> ident_char (last pre)"
proof -
  have part: "p \<noteq> [] \<and> (\<forall>x\<in>set p. ident_char x)" if "p \<in> set (split_on CHR ''.'' pre)" for p
    using assms that by (auto simp: validPrerelease_def ident_char_def)
  show "x \<in> set pre \<Longrightarrow> x = CHR ''.'' \<or> ident_char x"
    using split_on_mem [of x pre "CHR ''.''"] part by blast
  have "last (split_on CHR ''.'' pre) \<in> set (split_on CHR ''.'' pre)"
    by (rule last_in_set [OF split_on_Cons_ne])
  note this [THEN part]
  with split_on_last [of "CHR ''.''" pre] show "pre \<noteq> [] \<and> ident_char (last pre)" by auto
qed

lemma before_char_append: "c \<notin> set a \<Longrightarrow> before_char c (a @ c # s) = a" "c \<notin> set a \<Longrightarrow> after_char c (a @ c # s) = s"
  by (auto simp: before_char_def after_char_def takeWhile_tail dropWhile_append)

lemma before_char_none:
  assumes "c \<notin> set a"
  shows "before_char c a = a" "after_char c a = []"
proof -
  from assms have "takeWhile (\<lambda>x. x \<noteq> c) a = a" "dropWhile (\<lambda>x. x \<noteq> c) a = []"
    by (auto simp: takeWhile_eq_all_conv dropWhile_eq_Nil_conv)
  then show "before_char c a = a" "after_char c a = []" unfolding before_char_def after_char_def by (simp_all only: list.sel)
qed

text \<open>A wire version parses to exactly the release it was built from.\<close>

lemma parse_wire_version:
  assumes "0 \<le> ma" "ma < 2 ^ 63" "0 \<le> mi" "mi < 2 ^ 63" "pre \<noteq> '''' \<longrightarrow> validPrerelease pre"
  shows "parseADCPRelease (wire_version ma mi pre) =
     Some \<lparr>major = ma, minor = mi, prerelease = pre, version = wire_version ma mi pre\<rparr>"
proof -
  let ?core = "itoa (nat ma) @ CHR ''.'' # itoa (nat mi)"
  let ?w = "wire_version ma mi pre"
  have w: "?w = ?core @ (if pre \<noteq> '''' then CHR ''-'' # pre else [])" by (simp add: wire_version_def)
  have core: "CHR ''-'' \<notin> set ?core" "CHR ''+'' \<notin> set ?core"
    using not_in_itoa [OF non_digits(2)] not_in_itoa [OF non_digits(3)] by auto
  have plus: "CHR ''+'' \<notin> set ?w"
    using core(2) validPrerelease_chars(1) [of pre "CHR ''+''"] assms(5)
    by (auto simp: w ident_char_def is_digit_def is_letter_def is_upper_def is_lower_def less_eq_char_def)
  have first: "?w \<noteq> []" "ident_char (hd ?w)"
    using itoa_nonempty [of "nat ma"] itoa_digits [of "hd (itoa (nat ma))" "nat ma"]
    by (auto simp: w hd_append intro!: is_digit_ident)
  have "ident_char (last ?w)"
  proof (cases "pre = ''''")
    case True
    then have "last ?w = last (itoa (nat mi))" using itoa_nonempty [of "nat mi"] unfolding w by simp
    then show ?thesis
      using itoa_nonempty [of "nat mi"] itoa_digits [of "last (itoa (nat mi))" "nat mi"] by (simp add: is_digit_ident)
  next
    case False
    with assms(5) validPrerelease_chars(2) [of pre] show ?thesis by (simp add: w)
  qed
  from TrimSpace_id [OF first this] have trim: "TrimSpace ?w = ?w" .
  have cut: "before_char CHR ''+'' ?w = ?w" using plus by (rule before_char_none)
  have dash: "before_char CHR ''-'' ?w = ?core \<and> after_char CHR ''-'' ?w = pre"
  proof (cases "pre = ''''")
    case True
    then have "?w = ?core" unfolding w by simp
    with True before_char_none [OF core(1)] show ?thesis by (simp only:)
  next
    case False
    then have "?w = ?core @ CHR ''-'' # pre" unfolding w by simp
    with before_char_append [OF core(1), of pre] show ?thesis by (simp only:)
  qed
  have parts: "split_on CHR ''.'' ?core = [itoa (nat ma), itoa (nat mi)]"
    using not_in_itoa [OF non_digits(1)] by (simp add: split_on_append split_on_none)
  have nums: "parseNonNegativeInt (itoa (nat ma)) = Some ma" "parseNonNegativeInt (itoa (nat mi)) = Some mi"
    using digits_itoa [of "nat ma"] digits_itoa [of "nat mi"] assms by simp_all
  have len: "length [itoa (nat ma), itoa (nat mi)] = 2" "[itoa (nat ma), itoa (nat mi)] ! 0 = itoa (nat ma)"
    "[itoa (nat ma), itoa (nat mi)] ! 1 = itoa (nat mi)" by simp_all
  have two: "(2 :: nat) \<noteq> 2 \<longleftrightarrow> False" "(2 :: nat) = 3 \<longleftrightarrow> False" by simp_all
  have pre: "pre \<noteq> '''' \<and> \<not> validPrerelease pre \<longleftrightarrow> False" using assms(5) by blast
  show ?thesis
    unfolding parseADCPRelease_def Let_def trim cut dash [THEN conjunct1] dash [THEN conjunct2] parts len nums prod.case option.case two pre
    using first(1) by (simp only: if_False simp_thms if_cancel)
qed

section \<open>Properties\<close>

text \<open>The releases a negotiation chooses from: the parsable ones offered, else the SDK's own.\<close>

definition effective_releases :: "string list \<Rightarrow> release list" where
  "effective_releases supported =
     (let parsed = parseSupportedADCPReleases supported in
      if parsed = [] then parseSupportedADCPReleases SupportedADCPVersions else parsed)"

lemma parse_supported_in: "r \<in> set (parse_supported vs seen) \<Longrightarrow> \<exists>v\<in>set vs. parseADCPRelease v = Some r"
  by (induction vs seen rule: parse_supported.induct) (auto split: option.splits if_splits)

lemma effective_parsed: "r \<in> set (effective_releases supported) \<Longrightarrow> \<exists>v. parseADCPRelease v = Some r"
  by (auto simp: effective_releases_def Let_def parseSupportedADCPReleases_def dest: parse_supported_in split: if_splits)

lemma highest_bounded:
  assumes "\<forall>r\<in>set rs. 0 \<le> major r" "0 \<le> major req" "prerelease req = ''''"
  shows "case highestSupportedADCPRelease rs (major req) (Some req) False of
      None \<Rightarrow> \<forall>r\<in>set rs. prerelease r = '''' \<and> major r = major req \<longrightarrow> release_key req < release_key r
    | Some v \<Rightarrow> \<exists>r\<in>set rs. v = version r \<and> prerelease r = '''' \<and> major r = major req \<and> release_key r \<le> release_key req \<and>
        (\<forall>r'\<in>set rs. prerelease r' = '''' \<and> major r' = major req \<and> release_key r' \<le> release_key req \<longrightarrow>
           release_key r' \<le> release_key r)"
proof -
  let ?keep = "\<lambda>r. (major req = 0 \<or> major r = major req) \<and> prerelease r = '''' \<and> release_key r \<le> release_key req"
  have keep: "?keep r \<longleftrightarrow> prerelease r = '''' \<and> major r = major req \<and> release_key r \<le> release_key req" if "r \<in> set rs" for r
    using assms(1) that by (auto simp: release_key_def)
  have unfold: "highestSupportedADCPRelease rs (major req) (Some req) False = map_option version (best_of ?keep rs)"
    by (simp add: highestSupportedADCPRelease_def Let_def compare_le split: option.split)
  show ?thesis
  proof (cases "best_of ?keep rs")
    case None
    then have "\<forall>r\<in>set rs. \<not> ?keep r" by (simp only: best_of_None)
    with None unfold keep show ?thesis by (auto simp: not_le)
  next
    case (Some r)
    from best_of_Some [OF this] Some unfold keep show ?thesis by (auto intro!: bexI [of _ r])
  qed
qed

lemma highest_default:
  "case highestSupportedADCPRelease rs ma None True of
      None \<Rightarrow> \<forall>r\<in>set rs. \<not> (ma = 0 \<or> major r = ma)
    | Some v \<Rightarrow> \<exists>r\<in>set rs. v = version r \<and> (ma = 0 \<or> major r = ma) \<and>
        (\<forall>r'\<in>set rs. (ma = 0 \<or> major r' = ma) \<and> (prerelease r' = '''' \<or> prerelease r \<noteq> '''') \<longrightarrow>
           release_key r' \<le> release_key r) \<and>
        (prerelease r \<noteq> '''' \<longrightarrow> (\<forall>r'\<in>set rs. ma = 0 \<or> major r' = ma \<longrightarrow> prerelease r' \<noteq> ''''))"
proof -
  let ?scope = "\<lambda>r. ma = 0 \<or> major r = ma"
  let ?stable = "\<lambda>r. ?scope r \<and> prerelease r = '''' \<and> True"
  show ?thesis
  proof (cases "best_of ?stable rs")
    case (Some r)
    then have "highestSupportedADCPRelease rs ma None True = Some (version r)"
      by (simp add: highestSupportedADCPRelease_def Let_def)
    with best_of_Some [OF Some] show ?thesis by (auto intro!: bexI [of _ r])
  next
    case None
    then have high: "highestSupportedADCPRelease rs ma None True = map_option version (best_of ?scope rs)"
      by (simp add: highestSupportedADCPRelease_def Let_def)
    from None have unstable: "\<forall>r\<in>set rs. \<not> ?stable r" by (simp only: best_of_None)
    show ?thesis
    proof (cases "best_of ?scope rs")
      case None
      then have "\<forall>r\<in>set rs. \<not> ?scope r" by (simp only: best_of_None)
      with None high show ?thesis by auto
    next
      case (Some r)
      from best_of_Some [OF this] Some high unstable show ?thesis by (auto intro!: bexI [of _ r])
    qed
  qed
qed

text \<open>C36: the version a server answers with. A release pin is honoured exactly when that release is supported; a
  prerelease pin is never resolved to anything else; a stable pin is otherwise resolved to the highest
  supported stable release of the same major version that does not exceed it, and refused when there is
  none; without a pin the highest stable release in scope is chosen, and a prerelease only when nothing in
  scope is stable.\<close>

theorem negotiate_correct:
  fixes supported :: "string list" and pin :: string and ma :: int
  defines "rs \<equiv> effective_releases supported" and "answer \<equiv> NegotiateADCPVersion pin ma supported"
  shows "(\<forall>req. TrimSpace pin \<noteq> '''' \<and> parseADCPRelease pin = Some req \<longrightarrow>
            (if \<exists>r\<in>set rs. major r = major req \<and> minor r = minor req \<and> prerelease r = prerelease req
             then answer = Some (version req)
             else if prerelease req \<noteq> '''' then answer = None
             else case answer of
                 None \<Rightarrow> \<forall>r\<in>set rs. prerelease r = '''' \<and> major r = major req \<longrightarrow> release_key req < release_key r
               | Some v \<Rightarrow> \<exists>r\<in>set rs. v = version r \<and> prerelease r = '''' \<and> major r = major req \<and>
                   release_key r \<le> release_key req \<and>
                   (\<forall>r'\<in>set rs. prerelease r' = '''' \<and> major r' = major req \<and> release_key r' \<le> release_key req \<longrightarrow>
                      release_key r' \<le> release_key r))) \<and>
         (TrimSpace pin \<noteq> '''' \<and> parseADCPRelease pin = None \<longrightarrow> answer = None) \<and>
         (TrimSpace pin = '''' \<and> 0 \<le> ma \<longrightarrow>
            (case answer of
               None \<Rightarrow> \<forall>r\<in>set rs. \<not> (ma = 0 \<or> major r = ma)
             | Some v \<Rightarrow> \<exists>r\<in>set rs. v = version r \<and> (ma = 0 \<or> major r = ma) \<and>
                 (\<forall>r'\<in>set rs. (ma = 0 \<or> major r' = ma) \<and> (prerelease r' = '''' \<or> prerelease r \<noteq> '''') \<longrightarrow>
                    release_key r' \<le> release_key r) \<and>
                 (prerelease r \<noteq> '''' \<longrightarrow> (\<forall>r'\<in>set rs. ma = 0 \<or> major r' = ma \<longrightarrow> prerelease r' \<noteq> ''''))))"
proof (intro conjI allI impI)
  fix req assume pin: "TrimSpace pin \<noteq> '''' \<and> parseADCPRelease pin = Some req"
  let ?exact = "\<lambda>r. major r = major req \<and> minor r = minor req \<and> prerelease r = prerelease req"
  have answer: "answer = (case find ?exact rs of Some exact \<Rightarrow> Some (version exact)
      | None \<Rightarrow> if prerelease req \<noteq> '''' then None else highestSupportedADCPRelease rs (major req) (Some req) False)"
    using pin unfolding answer_def rs_def NegotiateADCPVersion_def negotiate_def effective_releases_def [symmetric, unfolded Let_def] Let_def
        findSupportedADCPRelease_def by simp
  have majors: "\<forall>r\<in>set rs. 0 \<le> major r" "0 \<le> major req"
    using parse_fields effective_parsed pin unfolding rs_def by blast+
  show "if \<exists>r\<in>set rs. ?exact r then answer = Some (version req)
       else if prerelease req \<noteq> '''' then answer = None
       else case answer of
           None \<Rightarrow> \<forall>r\<in>set rs. prerelease r = '''' \<and> major r = major req \<longrightarrow> release_key req < release_key r
         | Some v \<Rightarrow> \<exists>r\<in>set rs. v = version r \<and> prerelease r = '''' \<and> major r = major req \<and>
             release_key r \<le> release_key req \<and>
             (\<forall>r'\<in>set rs. prerelease r' = '''' \<and> major r' = major req \<and> release_key r' \<le> release_key req \<longrightarrow>
                release_key r' \<le> release_key r)"
  proof (cases "find ?exact rs")
    case None
    then have no: "\<not> (\<exists>r\<in>set rs. ?exact r)" by (auto simp: find_None_iff)
    show ?thesis
    proof (cases "prerelease req = ''''")
      case True
      with None answer have "answer = highestSupportedADCPRelease rs (major req) (Some req) False" by simp
      with highest_bounded [OF majors True] no True show ?thesis by (simp only: if_False simp_thms)
    next
      case False
      with None answer no show ?thesis by (simp only: if_False if_True option.case simp_thms)
    qed
  next
    case (Some r)
    then have r: "r \<in> set rs" "?exact r" by (auto simp: find_Some_iff)
    from effective_parsed [of r supported] r(1) obtain v where "parseADCPRelease v = Some r" unfolding rs_def by blast
    with parse_fields pin r(2) have "version r = version req" by metis
    with Some answer r show ?thesis by auto
  qed
next
  assume "TrimSpace pin \<noteq> '''' \<and> parseADCPRelease pin = None"
  then show "answer = None" by (simp add: answer_def NegotiateADCPVersion_def negotiate_def Let_def)
next
  assume "TrimSpace pin = '''' \<and> 0 \<le> ma"
  then have "answer = highestSupportedADCPRelease rs ma None True"
    unfolding answer_def rs_def NegotiateADCPVersion_def negotiate_def effective_releases_def [symmetric, unfolded Let_def] Let_def
    by auto
  with highest_default [of rs ma] show "case answer of
      None \<Rightarrow> \<forall>r\<in>set rs. \<not> (ma = 0 \<or> major r = ma)
    | Some v \<Rightarrow> \<exists>r\<in>set rs. v = version r \<and> (ma = 0 \<or> major r = ma) \<and>
        (\<forall>r'\<in>set rs. (ma = 0 \<or> major r' = ma) \<and> (prerelease r' = '''' \<or> prerelease r \<noteq> '''') \<longrightarrow>
           release_key r' \<le> release_key r) \<and>
        (prerelease r \<noteq> '''' \<longrightarrow> (\<forall>r'\<in>set rs. ma = 0 \<or> major r' = ma \<longrightarrow> prerelease r' \<noteq> ''''))" by simp
qed

lemma parse_samples:
  "parseADCPRelease ''3.1'' = Some \<lparr>major = 3, minor = 1, prerelease = '''', version = ''3.1''\<rparr>"
  "parseADCPRelease ''3.2'' = Some \<lparr>major = 3, minor = 2, prerelease = '''', version = ''3.2''\<rparr>"
  "parseADCPRelease ''3.2-rc.2'' = Some \<lparr>major = 3, minor = 2, prerelease = ''rc.2'', version = ''3.2-rc.2''\<rparr>"
proof -
  have w: "wire_version 3 1 '''' = ''3.1''" "wire_version 3 2 '''' = ''3.2''" "wire_version 3 2 ''rc.2'' = ''3.2-rc.2''"
    by code_simp+
  have "validPrerelease ''rc.2''" by code_simp
  with parse_wire_version [of 3 1 "''''"] parse_wire_version [of 3 2 "''''"] parse_wire_version [of 3 2 "''rc.2''"]
  show "parseADCPRelease ''3.1'' = Some \<lparr>major = 3, minor = 1, prerelease = '''', version = ''3.1''\<rparr>"
    "parseADCPRelease ''3.2'' = Some \<lparr>major = 3, minor = 2, prerelease = '''', version = ''3.2''\<rparr>"
    "parseADCPRelease ''3.2-rc.2'' = Some \<lparr>major = 3, minor = 2, prerelease = ''rc.2'', version = ''3.2-rc.2''\<rparr>"
    unfolding w by simp_all
qed

theorem negotiate_correct_witness:
  "NegotiateADCPVersion ''3.2-rc.2'' 3 [''3.1'', ''3.2''] = None"
proof -
  have trim: "TrimSpace ''3.2-rc.2'' \<noteq> ''''"
    using TrimSpace_id [of "''3.2-rc.2''"] by (simp add: ident_char_def is_digit_def less_eq_char_def)
  have rs: "effective_releases [''3.1'', ''3.2''] =
      [\<lparr>major = 3, minor = 1, prerelease = '''', version = ''3.1''\<rparr>, \<lparr>major = 3, minor = 2, prerelease = '''', version = ''3.2''\<rparr>]"
    by (simp add: effective_releases_def parseSupportedADCPReleases_def parse_samples)
  have no: "\<not> (\<exists>r\<in>set (effective_releases [''3.1'', ''3.2'']). major r = 3 \<and> minor r = 2 \<and> prerelease r = ''rc.2'')"
    unfolding rs by simp
  have "''rc.2'' \<noteq> ''''" by simp
  with no negotiate_correct [of "''3.2-rc.2''" "[''3.1'', ''3.2'']" 3, THEN conjunct1, THEN spec, THEN mp, OF conjI, OF trim parse_samples(3)]
  show ?thesis by (simp only: release.simps if_False if_True simp_thms)
qed

text \<open>Normalising a version yields its wire form, and the wire form is a fixed point: it parses back to the
  same major, minor and prerelease, so the envelope built from any accepted version carries the normalised
  version and its major number.\<close>

theorem normalize_roundtrip:
  assumes "parseADCPRelease v = Some r"
  shows "NormalizeADCPVersion v = Some (version r) \<and> parseADCPRelease (version r) = Some r \<and>
         NormalizeADCPVersion (version r) = Some (version r) \<and> VersionEnvelopeFor v = Some (version r, major r)"
proof -
  note fields = parse_fields [OF assms]
  then have "parseADCPRelease (version r) = Some r"
    using parse_wire_version [of "major r" "minor r" "prerelease r"] by simp
  with assms show ?thesis by (simp add: NormalizeADCPVersion_def VersionEnvelopeFor_def MajorFromADCPVersion_def)
qed

theorem normalize_roundtrip_witness:
  "NormalizeADCPVersion ''3.2-rc.2'' = Some ''3.2-rc.2'' \<and> VersionEnvelopeFor ''3.2-rc.2'' = Some (''3.2-rc.2'', 3)"
  using normalize_roundtrip [OF parse_samples(3)] by simp

text \<open>The comparison of releases is the lexicographic order of major number, minor number, stability (a
  prerelease precedes its release) and the dotted identifiers of the prerelease (numbers before names,
  a prefix before its extensions); so it is a total preorder, and releases compare as equal exactly when
  these agree.\<close>

theorem release_order:
  "(compareADCPRelease a b < 0 \<longleftrightarrow> release_key a < release_key b) \<and>
   (compareADCPRelease a b = 0 \<longleftrightarrow> release_key a = release_key b) \<and>
   (compareADCPRelease a b > 0 \<longleftrightarrow> release_key b < release_key a)"
  by (auto simp: compareADCPRelease_cmp cmp_def)

end
