(* ===== verification/Signal_Targeting.thy ===== *)
theory Signal_Targeting
  imports TMP_Types "HOL-Library.AList"
begin

text \<open>
  Context-signal targeting of the context agent: the profiles and keys of \<^verbatim>\<open>src/targeting/signalstore/signalstore.go\<close>
  and the request side of \<^verbatim>\<open>src/targeting/engine_signals.go\<close>. The engine reads the keys of all candidate packages
  in one batch; the main result is that the batch changes no decision. The store itself and the URL hash
  are parameters.
\<close>

section \<open>Profiles\<close>

text \<open>A \<^verbatim>\<open>KeyType\<close> is a string. The nil profile is \<^const>\<open>None\<close>; every error wraps \<^verbatim>\<open>ErrCfgUnsafe\<close>.\<close>

type_synonym key_type = string

definition allowedKeyTypes :: "key_type list" where
  "allowedKeyTypes = [''url_hash'', ''country'', ''region'', ''metro'', ''topic'', ''eidr'', ''gracenote'', ''isrc'',
     ''gtin'', ''rss_guid'', ''isbn'', ''custom'']"

definition IsAllowed :: "key_type \<Rightarrow> bool" where
  "IsAllowed kt \<longleftrightarrow> kt \<in> set allowedKeyTypes"

record cfg =
  signal_owner_id :: string
  key_types :: "key_type list"
  signal_id :: string

record profile =
  any_of :: "cfg list"
  none_of :: "cfg list"

definition Cfg_Validate :: "cfg \<Rightarrow> string option" where
  "Cfg_Validate c =
     (if signal_owner_id c = '''' then Some ''signalstore: signal_owner_id is required''
      else if signal_id c = '''' then Some ''signalstore: signal_id is required''
      else if key_types c = [] then Some ''signalstore: key_types must not be empty''
      else if list_ex (\<lambda>kt. \<not> IsAllowed kt) (key_types c) then Some ''signalstore: key_type is not allowed on context-match''
      else None)"

definition maxCfgsPerProfile :: nat where "maxCfgsPerProfile = 256"

definition Profile_Validate :: "profile option \<Rightarrow> string option" where
  "Profile_Validate p =
     (case p of None \<Rightarrow> None
      | Some p \<Rightarrow>
          if length (any_of p) + length (none_of p) > maxCfgsPerProfile then Some ''profile has too many cfgs''
          else first_some (map Cfg_Validate (any_of p) @ map Cfg_Validate (none_of p)))"

definition IsEmpty :: "profile option \<Rightarrow> bool" where
  "IsEmpty p = (case p of None \<Rightarrow> True | Some p \<Rightarrow> any_of p = [] \<and> none_of p = [])"

section \<open>Keys\<close>

text \<open>The attributes of a request, a Go map from key types to values.\<close>

type_synonym lookup_data = "(key_type \<times> string list) list"

definition values_of :: "lookup_data \<Rightarrow> key_type \<Rightarrow> string list" where
  "values_of data kt = (case map_of data kt of None \<Rightarrow> [] | Some vs \<Rightarrow> vs)"

definition keyPrefix :: string where "keyPrefix = ''signal:''"

definition Key :: "string \<Rightarrow> key_type list \<Rightarrow> string list \<Rightarrow> string" where
  "Key ownerID kts vals =
     (if ownerID = '''' \<or> kts = [] \<or> length kts \<noteq> length vals then ''''
      else keyPrefix @ ownerID @ '':'' @ join '','' kts @ '':'' @ join '','' vals)"

definition maxKeysPerCfg :: nat where "maxKeysPerCfg = 4096"

text \<open>The value sets of the dimensions: an error when the product of their sizes passes the cap, \<^const>\<open>None\<close> when one
  is missing, whichever comes first.\<close>

fun gather_sets :: "lookup_data \<Rightarrow> key_type list \<Rightarrow> nat \<Rightarrow> string list list option result" where
  "gather_sets data [] n = Inr (Some [])"
| "gather_sets data (kt # kts) n =
     (let vals = values_of data kt in
      if vals = [] then Inr None
      else let n' = n * length vals in
        if n' > maxKeysPerCfg then Inl ''expansion exceeds the cap''
        else (case gather_sets data kts n' of
            Inl e \<Rightarrow> Inl e
          | Inr None \<Rightarrow> Inr None
          | Inr (Some sets) \<Rightarrow> Inr (Some (vals # sets))))"

text \<open>The odometer: one tick advances the last index that has room and resets the ones after it. The second argument
  of \<open>tick\<close> is the position after the one examined.\<close>

fun tick :: "string list list \<Rightarrow> nat list \<Rightarrow> nat \<Rightarrow> nat list option" where
  "tick sets indices 0 = None"
| "tick sets indices (Suc pos) =
     (if indices ! pos + 1 < length (sets ! pos) then Some (indices[pos := indices ! pos + 1])
      else tick sets (indices[pos := 0]) pos)"

definition combo :: "string list list \<Rightarrow> nat list \<Rightarrow> string list" where
  "combo sets indices = map (\<lambda>i. sets ! i ! (indices ! i)) [0..<length indices]"

text \<open>Fuel is the number of combinations, the capacity the code reserves; \<open>odometer_product\<close> below shows that it is
  enough.\<close>

fun odometer :: "nat \<Rightarrow> string list list \<Rightarrow> nat list \<Rightarrow> string list list option" where
  "odometer 0 sets indices = None"
| "odometer (Suc fuel) sets indices =
     (case tick sets indices (length indices) of
        None \<Rightarrow> Some [combo sets indices]
      | Some indices' \<Rightarrow> map_option (\<lambda>cs. combo sets indices # cs) (odometer fuel sets indices'))"

definition ExpandKeys :: "cfg \<Rightarrow> lookup_data \<Rightarrow> string list result" where
  "ExpandKeys c data =
     (case Cfg_Validate c of
        Some e \<Rightarrow> Inl e
      | None \<Rightarrow>
          (case gather_sets data (key_types c) 1 of
             Inl e \<Rightarrow> Inl e
           | Inr None \<Rightarrow> Inr []
           | Inr (Some sets) \<Rightarrow>
               (case odometer (prod_list (map length sets)) sets (replicate (length sets) 0) of
                  None \<Rightarrow> Inl ''out of fuel''
                | Some combos \<Rightarrow> Inr (map (Key (signal_owner_id c) (key_types c)) combos))))"

section \<open>Matching\<close>

type_synonym fetched = "string \<rightharpoonup> string list"

definition Matches :: "cfg \<Rightarrow> lookup_data \<Rightarrow> fetched \<Rightarrow> bool result" where
  "Matches c data got =
     (case ExpandKeys c data of
        Inl e \<Rightarrow> Inl e
      | Inr keys \<Rightarrow> Inr (list_ex (\<lambda>k. case got k of None \<Rightarrow> False | Some ids \<Rightarrow> signal_id c \<in> set ids) keys))"

fun any_matches :: "cfg list \<Rightarrow> lookup_data \<Rightarrow> fetched \<Rightarrow> bool result" where
  "any_matches [] data got = Inr False"
| "any_matches (c # cs) data got =
     (case Matches c data got of
        Inl e \<Rightarrow> Inl e
      | Inr matched \<Rightarrow> if matched then Inr True else any_matches cs data got)"

definition MatchProfile :: "profile option \<Rightarrow> lookup_data \<Rightarrow> fetched \<Rightarrow> bool result" where
  "MatchProfile p data got =
     (case p of None \<Rightarrow> Inr True
      | Some q \<Rightarrow>
          if IsEmpty p then Inr True
          else (case any_matches (none_of q) data got of
              Inl e \<Rightarrow> Inl e
            | Inr True \<Rightarrow> Inr False
            | Inr False \<Rightarrow> if any_of q = [] then Inr True else any_matches (any_of q) data got))"

section \<open>The batch\<close>

definition maxKeysPerPlan :: nat where "maxKeysPerPlan = 65536"

fun add_keys :: "string list \<Rightarrow> string list \<Rightarrow> string list result" where
  "add_keys [] out = Inr out"
| "add_keys (k # ks) out =
     (if k \<in> set out then add_keys ks out
      else if length (out @ [k]) > maxKeysPerPlan then Inl ''plan exceeds the cap''
      else add_keys ks (out @ [k]))"

fun add_cfgs :: "lookup_data \<Rightarrow> cfg list \<Rightarrow> string list \<Rightarrow> string list result" where
  "add_cfgs data [] out = Inr out"
| "add_cfgs data (c # cs) out =
     (case ExpandKeys c data of
        Inl e \<Rightarrow> add_cfgs data cs out
      | Inr keys \<Rightarrow> (case add_keys keys out of Inl e \<Rightarrow> Inl e | Inr out' \<Rightarrow> add_cfgs data cs out'))"

fun plan_profiles :: "lookup_data \<Rightarrow> profile option list \<Rightarrow> string list \<Rightarrow> string list result" where
  "plan_profiles data [] out = Inr out"
| "plan_profiles data (p # ps) out =
     (case p of None \<Rightarrow> plan_profiles data ps out
      | Some q \<Rightarrow>
          if IsEmpty p then plan_profiles data ps out
          else (case add_cfgs data (any_of q) out of
              Inl e \<Rightarrow> Inl e
            | Inr out' \<Rightarrow> (case add_cfgs data (none_of q) out' of
                  Inl e \<Rightarrow> Inl e
                | Inr out'' \<Rightarrow> plan_profiles data ps out'')))"

definition PlanLookup :: "profile option list \<Rightarrow> lookup_data \<Rightarrow> string list result" where
  "PlanLookup profiles data = (if profiles = [] \<or> data = [] then Inr [] else plan_profiles data profiles [])"

fun csv_segments :: "string \<Rightarrow> string \<Rightarrow> string list" where
  "csv_segments cur [] = (if cur = '''' then [] else [cur])"
| "csv_segments cur (c # s) =
     (if c = CHR '','' then (if cur = '''' then csv_segments '''' s else cur # csv_segments '''' s)
      else csv_segments (cur @ [c]) s)"

definition splitCSV :: "string \<Rightarrow> string list" where
  "splitCSV s = csv_segments '''' s"

definition decode_value :: "string \<times> string \<Rightarrow> fetched \<Rightarrow> fetched" where
  "decode_value kv got = (let decoded = splitCSV (snd kv) in if decoded = [] then got else got(fst kv \<mapsto> decoded))"

definition DecodeValues :: "string list \<Rightarrow> string list \<Rightarrow> fetched option" where
  "DecodeValues keys vals = (if length keys \<noteq> length vals then None else Some (fold decode_value (zip keys vals) Map.empty))"

section \<open>The request side\<close>

record taxonomy =
  tax_source :: string
  tax_id :: int

definition Itoa :: "int \<Rightarrow> string" where
  "Itoa i = (if i < 0 then ''-'' @ itoa (nat (- i)) else itoa (nat i))"

definition tax_string :: "taxonomy \<Rightarrow> string" where
  "tax_string t = tax_source t @ '':'' @ Itoa (tax_id t)"

definition appendUnique :: "key_type \<Rightarrow> string \<Rightarrow> lookup_data \<Rightarrow> lookup_data" where
  "appendUnique kt v data =
     (if CHR '','' \<in> set v \<or> v \<in> set (values_of data kt) then data
      else AList.update kt (values_of data kt @ [v]) data)"

text \<open>The reference types other than the URL map to the key type of the same name.\<close>

definition artifactRefKeyType :: "string \<Rightarrow> key_type option" where
  "artifactRefKeyType t =
     (if t \<in> set [''url_hash'', ''eidr'', ''gracenote'', ''isrc'', ''gtin'', ''rss_guid'', ''isbn'', ''custom''] then Some t
      else None)"

definition add_ref :: "(string \<Rightarrow> string) \<Rightarrow> artifact_ref \<Rightarrow> lookup_data \<Rightarrow> lookup_data" where
  "add_ref HashURL ref data =
     (if ref_value ref = '''' then data
      else if ref_type ref = ''url'' then appendUnique ''url_hash'' (HashURL (ref_value ref)) data
      else case artifactRefKeyType (ref_type ref) of
          None \<Rightarrow> data
        | Some kt \<Rightarrow> appendUnique kt (ref_value ref) data)"

definition str_at :: "object \<Rightarrow> string \<Rightarrow> string" where
  "str_at m k = (case map_of m k of Some (JStr s) \<Rightarrow> s | _ \<Rightarrow> '''')"

definition metroFromGeo :: "object \<Rightarrow> string" where
  "metroFromGeo geo =
     (case map_of geo ''metro'' of
        Some (JObj m) \<Rightarrow>
          if str_at m ''system'' = '''' \<or> str_at m ''value'' = '''' then ''''
          else str_at m ''system'' @ '':'' @ str_at m ''value''
      | _ \<Rightarrow> '''')"

definition add_nonempty :: "key_type \<Rightarrow> string \<Rightarrow> lookup_data \<Rightarrow> lookup_data" where
  "add_nonempty kt v data = (if v = '''' then data else appendUnique kt v data)"

definition add_topics :: "taxonomy list \<Rightarrow> context_signals option \<Rightarrow> lookup_data \<Rightarrow> lookup_data" where
  "add_topics accepted sigs data =
     (case sigs of None \<Rightarrow> data
      | Some cs \<Rightarrow>
          let tax = \<lparr>tax_source = taxonomy_source cs, tax_id = taxonomy_id cs\<rparr> in
          if tax \<in> set accepted
          then fold (\<lambda>t data. if t = '''' then data else appendUnique ''topic'' (tax_string tax @ '':'' @ t) data) (topics cs) data
          else data)"

definition extractSignalLookupData :: "(string \<Rightarrow> string) \<Rightarrow> taxonomy list \<Rightarrow> context_request \<Rightarrow> string \<Rightarrow> lookup_data" where
  "extractSignalLookupData HashURL accepted req country =
     (let data = fold (add_ref HashURL) (cm_artifact_refs req) [];
          data = add_nonempty ''country'' country data;
          data = add_nonempty ''region'' (str_at (cm_geo req) ''region'') data;
          data = add_nonempty ''metro'' (metroFromGeo (cm_geo req)) data in
      add_topics accepted (cm_context_signals req) data)"

text \<open>Planning, one read of all keys, decoding; a misaligned answer is an error.\<close>

definition fetchSignalsForCandidates ::
  "(string list \<Rightarrow> string list result) \<Rightarrow> profile option list \<Rightarrow> lookup_data \<Rightarrow> fetched result" where
  "fetchSignalsForCandidates SignalMGet candidates data =
     (let profiles = filter (\<lambda>p. \<not> IsEmpty p) candidates in
      if data = [] \<or> profiles = [] then Inr Map.empty
      else case PlanLookup profiles data of
          Inl e \<Rightarrow> Inl e
        | Inr [] \<Rightarrow> Inr Map.empty
        | Inr keys \<Rightarrow>
            (case SignalMGet keys of
               Inl e \<Rightarrow> Inl e
             | Inr vals \<Rightarrow>
                 (case DecodeValues keys vals of
                    None \<Rightarrow> Inl ''signalstore: SignalMGet returned a misaligned answer''
                  | Some got \<Rightarrow> Inr got)))"

definition signalsPass :: "profile option \<Rightarrow> lookup_data \<Rightarrow> fetched result \<Rightarrow> bool" where
  "signalsPass p data fetch \<longleftrightarrow>
     (if IsEmpty p then True
      else case fetch of
          Inl e \<Rightarrow> False
        | Inr got \<Rightarrow> (case MatchProfile p data got of Inl e \<Rightarrow> False | Inr pass \<Rightarrow> pass))"

section \<open>The odometer enumerates the product\<close>

declare tick.simps(2) [simp del]

lemma tick_Cons:
  "n \<le> length is \<Longrightarrow>
   tick (s # ss) (i # is) (Suc n) =
     (case tick ss is n of
        Some is' \<Rightarrow> Some (i # is')
      | None \<Rightarrow> if i + 1 < length s then Some ((i + 1) # replicate n 0 @ drop n is) else None)"
proof (induction n arbitrary: "is")
  case 0
  then show ?case by (simp add: tick.simps(2))
next
  case (Suc n)
  show ?case
  proof (cases "is ! n + 1 < length (ss ! n)")
    case True
    then show ?thesis by (simp add: tick.simps(2) [of _ _ "Suc n"] tick.simps(2) [of ss "is" n])
  next
    case False
    from Suc.prems have "replicate n (0::nat) @ drop n (is[n := 0]) = replicate n 0 @ 0 # drop (Suc n) is"
      by (simp add: Cons_nth_drop_Suc [symmetric])
    also have "\<dots> = replicate (Suc n) 0 @ drop (Suc n) is"
      by (simp add: replicate_app_Cons_same)
    finally have zeros: "replicate n (0::nat) @ drop n (is[n := 0]) = replicate (Suc n) 0 @ drop (Suc n) is" .
    have "tick (s # ss) (i # is) (Suc (Suc n)) = tick (s # ss) (i # is[n := 0]) (Suc n)"
      using False by (subst tick.simps(2)) simp
    also have "\<dots> = (case tick ss (is[n := 0]) n of
        Some is' \<Rightarrow> Some (i # is')
      | None \<Rightarrow> if i + 1 < length s then Some ((i + 1) # replicate n 0 @ drop n (is[n := 0])) else None)"
      by (rule Suc.IH) (use Suc.prems in simp)
    also have "tick ss (is[n := 0]) n = tick ss is (Suc n)"
      using False by (simp add: tick.simps(2) [of ss "is" n])
    finally show ?thesis unfolding zeros .
  qed
qed

definition indices_of :: "string list list \<Rightarrow> nat list list" where
  "indices_of sets = product_lists (map (\<lambda>s. [0..<length s]) sets)"

text \<open>A chain: every element ticks to the next one, the last one is final.\<close>

fun chain :: "string list list \<Rightarrow> nat list list \<Rightarrow> bool" where
  "chain sets [] \<longleftrightarrow> False"
| "chain sets [x] \<longleftrightarrow> tick sets x (length x) = None"
| "chain sets (x # y # xs) \<longleftrightarrow> tick sets x (length x) = Some y \<and> chain sets (y # xs)"

lemma odometer_chain:
  "chain sets (x # xs) \<Longrightarrow> Suc (length xs) \<le> fuel \<Longrightarrow> odometer fuel sets x = Some (map (combo sets) (x # xs))"
proof (induction xs arbitrary: x fuel)
  case Nil
  then show ?case by (cases fuel) simp_all
next
  case (Cons y xs)
  then obtain m where fuel: "fuel = Suc m" by (cases fuel) simp_all
  with Cons have "odometer m sets y = Some (map (combo sets) (y # xs))" by simp
  with Cons.prems fuel show ?case by simp
qed

text \<open>The block of a first index: the chain of the rest, then the next block.\<close>

lemma chain_block:
  assumes "chain ss is" "\<forall>x\<in>set is. length x = length ss"
    and "rest = [] \<and> \<not> Suc i < length s \<or>
      (\<exists>ys. rest = (Suc i # replicate (length ss) 0) # ys \<and> chain (s # ss) rest \<and> Suc i < length s)"
  shows "chain (s # ss) (map (Cons i) is @ rest)"
  using assms(1,2)
proof (induction "is" rule: induct_list012)
  case (2 x)
  have "tick (s # ss) (i # x) (Suc (length x)) =
      (if Suc i < length s then Some (Suc i # replicate (length ss) 0) else None)"
    by (subst tick_Cons) (use 2 in simp_all)
  with assms(3) show ?case by (cases "Suc i < length s") auto
next
  case (3 x y xs)
  have "tick (s # ss) (i # x) (Suc (length x)) = Some (i # y)"
    by (subst tick_Cons) (use 3 in simp_all)
  with 3 show ?case by simp
qed simp

lemma product_indices: "product_lists (map (\<lambda>s. [0..<length s]) sets) \<noteq> [] \<longleftrightarrow> [] \<notin> set sets"
  by (induction sets) (auto simp: concat_eq_Nil_conv)

lemma indices_hd: "[] \<notin> set sets \<Longrightarrow> \<exists>xs. indices_of sets = replicate (length sets) 0 # xs"
proof (induction sets)
  case (Cons s ss)
  then obtain xs where "indices_of ss = replicate (length ss) 0 # xs" by auto
  moreover from Cons.prems have "[0..<length s] = 0 # [1..<length s]" using upt_conv_Cons [of 0 "length s"] by fastforce
  ultimately show ?case by (simp add: indices_of_def)
qed (simp add: indices_of_def)

lemma indices_chain: "[] \<notin> set sets \<Longrightarrow> chain sets (indices_of sets)"
proof (induction sets)
  case (Cons s ss)
  define V where "V = indices_of ss"
  have chain: "chain ss V" using Cons by (simp add: V_def)
  have len: "\<forall>x\<in>set V. length x = length ss"
    unfolding V_def indices_of_def using in_set_product_lists_length by fastforce
  obtain xs where V: "V = replicate (length ss) 0 # xs" using indices_hd Cons.prems by (auto simp: V_def)
  have "i < length s \<Longrightarrow> chain (s # ss) (concat (map (\<lambda>i. map (Cons i) V) [i..<length s]))" for i
  proof (induction "length s - i" arbitrary: i)
    case (Suc m)
    let ?rest = "concat (map (\<lambda>i. map (Cons i) V) [Suc i..<length s])"
    have "?rest = [] \<and> \<not> Suc i < length s \<or>
        (\<exists>ys. ?rest = (Suc i # replicate (length ss) 0) # ys \<and> chain (s # ss) ?rest \<and> Suc i < length s)"
    proof (cases "Suc i < length s")
      case True
      with Suc(1) [of "Suc i"] Suc(2) have "chain (s # ss) ?rest" by simp
      moreover from True V have "\<exists>ys. ?rest = (Suc i # replicate (length ss) 0) # ys"
        by (simp add: upt_conv_Cons)
      ultimately show ?thesis using True by blast
    qed simp
    from chain_block [OF chain len this] Suc.prems show ?case by (simp add: upt_conv_Cons)
  qed simp
  from this [of 0] Cons.prems show ?case by (cases s) (simp_all add: indices_of_def V_def)
qed (simp add: indices_of_def)

lemma combo_Cons: "combo (s # ss) (i # is) = s ! i # combo ss is"
  unfolding combo_def by (simp add: map_upt_Suc del: upt_Suc)

lemma combo_indices: "map (combo sets) (indices_of sets) = product_lists sets"
proof (induction sets)
  case (Cons s ss)
  have "map (combo (s # ss)) (indices_of (s # ss)) =
      concat (map (\<lambda>i. map (Cons (s ! i)) (map (combo ss) (indices_of ss))) [0..<length s])"
    by (simp add: indices_of_def map_concat comp_def combo_Cons)
  also have "\<dots> = concat (map (\<lambda>x. map (Cons x) (product_lists ss)) (map ((!) s) [0..<length s]))"
    unfolding Cons.IH by (simp add: comp_def)
  finally show ?case by (simp add: map_nth)
qed (simp add: indices_of_def combo_def)

lemma length_indices: "length (indices_of sets) = prod_list (map length sets)"
  unfolding combo_indices [of sets, THEN arg_cong [where f = length], unfolded length_map]
  by (simp add: length_product_lists prod_list.eq_foldr foldr_map comp_def)

lemma odometer_product:
  assumes "[] \<notin> set sets"
  shows "odometer (prod_list (map length sets)) sets (replicate (length sets) 0) = Some (product_lists sets)"
proof -
  obtain xs where xs: "indices_of sets = replicate (length sets) 0 # xs" using indices_hd [OF assms] ..
  have "Suc (length xs) \<le> prod_list (map length sets)" using length_indices [of sets] xs by simp
  with odometer_chain [of sets] indices_chain [OF assms] xs combo_indices [of sets] show ?thesis by metis
qed

section \<open>Which keys a cfg expands to\<close>

text \<open>A cfg is unsafe when it is malformed or when the dimensions before the first missing one multiply past the
  cap.\<close>

definition over_cap :: "lookup_data \<Rightarrow> key_type list \<Rightarrow> bool" where
  "over_cap data kts \<longleftrightarrow> (\<exists>m\<le>length kts. (\<forall>kt\<in>set (take m kts). values_of data kt \<noteq> []) \<and>
     prod_list (map (\<lambda>kt. length (values_of data kt)) (take m kts)) > maxKeysPerCfg)"

definition cfg_unsafe :: "lookup_data \<Rightarrow> cfg \<Rightarrow> bool" where
  "cfg_unsafe data c \<longleftrightarrow> Cfg_Validate c \<noteq> None \<or> over_cap data (key_types c)"

definition expansion :: "lookup_data \<Rightarrow> cfg \<Rightarrow> string list" where
  "expansion data c = map (Key (signal_owner_id c) (key_types c)) (product_lists (map (values_of data) (key_types c)))"

lemma gather_error:
  "n \<le> maxKeysPerCfg \<Longrightarrow>
   isl (gather_sets data kts n) \<longleftrightarrow> (\<exists>m\<le>length kts. (\<forall>kt\<in>set (take m kts). values_of data kt \<noteq> []) \<and>
     n * prod_list (map (\<lambda>kt. length (values_of data kt)) (take m kts)) > maxKeysPerCfg)"
proof (induction kts arbitrary: n)
  case (Cons kt kts)
  let ?v = "values_of data kt"
  let ?trip = "\<lambda>n kts m. (\<forall>k\<in>set (take m kts). values_of data k \<noteq> []) \<and>
     n * prod_list (map (\<lambda>k. length (values_of data k)) (take m kts)) > maxKeysPerCfg"
  have split: "(\<exists>m\<le>length (kt # kts). ?trip n (kt # kts) m) \<longleftrightarrow>
      ?v \<noteq> [] \<and> (\<exists>m\<le>length kts. ?trip (n * length ?v) kts m)"
  proof
    assume "\<exists>m\<le>length (kt # kts). ?trip n (kt # kts) m"
    then obtain m where m: "m \<le> length (kt # kts)" "?trip n (kt # kts) m" by blast
    with Cons.prems obtain k where "m = Suc k" by (cases m) auto
    with m show "?v \<noteq> [] \<and> (\<exists>m\<le>length kts. ?trip (n * length ?v) kts m)" by (auto simp: mult.assoc)
  next
    assume "?v \<noteq> [] \<and> (\<exists>m\<le>length kts. ?trip (n * length ?v) kts m)"
    then obtain m where "?v \<noteq> []" "m \<le> length kts" "?trip (n * length ?v) kts m" by blast
    then show "\<exists>m\<le>length (kt # kts). ?trip n (kt # kts) m" by (intro exI [of _ "Suc m"]) (simp add: mult.assoc)
  qed
  show ?case
  proof (cases "?v = [] \<or> n * length ?v > maxKeysPerCfg")
    case True
    moreover have "\<exists>m\<le>length kts. ?trip (n * length ?v) kts m" if "n * length ?v > maxKeysPerCfg"
      using that by (intro exI [of _ 0]) simp
    ultimately show ?thesis unfolding split by auto
  next
    case False
    then have "isl (gather_sets data (kt # kts) n) \<longleftrightarrow> isl (gather_sets data kts (n * length ?v))"
      by (auto simp: Let_def split: sum.split option.split)
    with False Cons.IH [of "n * length ?v"] show ?thesis unfolding split by simp
  qed
qed simp

lemma gather_value:
  "gather_sets data kts n = Inr r \<Longrightarrow>
     r = (if \<exists>kt\<in>set kts. values_of data kt = [] then None else Some (map (values_of data) kts))"
proof (induction kts arbitrary: n r)
  case (Cons kt kts)
  show ?case
  proof (cases "values_of data kt = []")
    case False
    with Cons.prems obtain r' where r': "gather_sets data kts (n * length (values_of data kt)) = Inr r'"
      by (auto simp: Let_def split: if_splits sum.splits)
    with Cons.prems False have "r = map_option (Cons (values_of data kt)) r'"
      by (cases r') (auto simp: Let_def split: if_splits)
    with Cons.IH [OF r'] False show ?thesis by simp
  qed (use Cons.prems in simp)
qed simp

lemma product_lists_empty: "[] \<in> set sets \<Longrightarrow> product_lists sets = []"
  by (induction sets) auto

lemma ExpandKeys_safe: "\<not> cfg_unsafe data c \<Longrightarrow> ExpandKeys c data = Inr (expansion data c)"
proof -
  assume safe: "\<not> cfg_unsafe data c"
  then have valid: "Cfg_Validate c = None" by (simp add: cfg_unsafe_def)
  from safe gather_error [of 1 data "key_types c"] have "\<not> isl (gather_sets data (key_types c) 1)"
    by (simp add: cfg_unsafe_def over_cap_def maxKeysPerCfg_def)
  then obtain r where r: "gather_sets data (key_types c) 1 = Inr r" by (cases "gather_sets data (key_types c) 1") auto
  note dims = gather_value [OF r]
  show ?thesis
  proof (cases "\<exists>kt\<in>set (key_types c). values_of data kt = []")
    case True
    then have "[] \<in> set (map (values_of data) (key_types c))" by force
    from product_lists_empty [OF this] True dims show ?thesis
      by (simp add: ExpandKeys_def valid r [simplified] expansion_def)
  next
    case False
    then have "[] \<notin> set (map (values_of data) (key_types c))" by auto
    from odometer_product [OF this] False dims show ?thesis
      by (simp add: ExpandKeys_def valid r [simplified] expansion_def)
  qed
qed

lemma ExpandKeys_unsafe: "cfg_unsafe data c \<Longrightarrow> isl (ExpandKeys c data)"
  using gather_error [of 1 data "key_types c"]
  by (auto simp: cfg_unsafe_def over_cap_def ExpandKeys_def maxKeysPerCfg_def split: option.split sum.split)

lemma expansion_bound: "\<not> cfg_unsafe data c \<Longrightarrow> length (expansion data c) \<le> maxKeysPerCfg"
proof (cases "\<exists>kt\<in>set (key_types c). values_of data kt = []")
  case True
  then have "[] \<in> set (map (values_of data) (key_types c))" by force
  then show ?thesis by (simp add: expansion_def product_lists_empty)
next
  case False
  assume "\<not> cfg_unsafe data c"
  with False have "prod_list (map (\<lambda>kt. length (values_of data kt)) (key_types c)) \<le> maxKeysPerCfg"
    unfolding cfg_unsafe_def over_cap_def by (metis linorder_not_le order_refl take_all)
  then show ?thesis
    by (simp add: expansion_def length_product_lists prod_list.eq_foldr foldr_map comp_def)
qed

section \<open>Reading a store\<close>

text \<open>What the code's answer should be, key by key: the signal is listed under one of the keys of the cfg.\<close>

definition hit :: "(string \<Rightarrow> string) \<Rightarrow> lookup_data \<Rightarrow> cfg \<Rightarrow> bool" where
  "hit st data c \<longleftrightarrow> (\<exists>k\<in>set (expansion data c). signal_id c \<in> set (splitCSV (st k)))"

definition agrees :: "(string \<Rightarrow> string) \<Rightarrow> fetched \<Rightarrow> string set \<Rightarrow> bool" where
  "agrees st got K \<longleftrightarrow> (\<forall>k\<in>K. (case got k of None \<Rightarrow> [] | Some ids \<Rightarrow> ids) = splitCSV (st k))"

lemma Matches_spec:
  assumes "\<not> cfg_unsafe data c \<longrightarrow> agrees st got (set (expansion data c))"
  shows "\<not> cfg_unsafe data c \<Longrightarrow> Matches c data got = Inr (hit st data c)"
    and "cfg_unsafe data c \<Longrightarrow> isl (Matches c data got)"
proof -
  assume safe: "\<not> cfg_unsafe data c"
  moreover have "(case got k of None \<Rightarrow> False | Some ids \<Rightarrow> signal_id c \<in> set ids) \<longleftrightarrow> signal_id c \<in> set (splitCSV (st k))"
    if "k \<in> set (expansion data c)" for k
    using assms safe that unfolding agrees_def by (cases "got k") auto
  ultimately show "Matches c data got = Inr (hit st data c)"
    by (auto simp: Matches_def ExpandKeys_safe hit_def list_ex_iff)
next
  assume "cfg_unsafe data c"
  from ExpandKeys_unsafe [OF this] show "isl (Matches c data got)"
    by (cases "ExpandKeys c data") (simp_all add: Matches_def)
qed

text \<open>The first cfg that is unsafe or hit decides a list of cfgs.\<close>

definition first_decides :: "(string \<Rightarrow> string) \<Rightarrow> lookup_data \<Rightarrow> cfg list \<Rightarrow> bool" where
  "first_decides st data cs \<longleftrightarrow>
     (\<exists>pre c post. cs = pre @ c # post \<and> (\<forall>x\<in>set pre. \<not> cfg_unsafe data x) \<and> \<not> cfg_unsafe data c \<and> hit st data c)"

lemma first_decides_Cons:
  "first_decides st data (c # cs) \<longleftrightarrow> \<not> cfg_unsafe data c \<and> (hit st data c \<or> first_decides st data cs)"
proof
  assume "first_decides st data (c # cs)"
  then obtain pre d post where d: "c # cs = pre @ d # post" "\<forall>x\<in>set pre. \<not> cfg_unsafe data x"
    "\<not> cfg_unsafe data d" "hit st data d" unfolding first_decides_def by blast
  then show "\<not> cfg_unsafe data c \<and> (hit st data c \<or> first_decides st data cs)"
  proof (cases pre)
    case (Cons p pre')
    with d have "cs = pre' @ d # post" "\<forall>x\<in>set pre'. \<not> cfg_unsafe data x" "\<not> cfg_unsafe data c" by simp_all
    with d show ?thesis unfolding first_decides_def by blast
  qed (use d in simp)
next
  assume "\<not> cfg_unsafe data c \<and> (hit st data c \<or> first_decides st data cs)"
  then consider "\<not> cfg_unsafe data c" "hit st data c" | "\<not> cfg_unsafe data c" "first_decides st data cs" by blast
  then show "first_decides st data (c # cs)"
  proof cases
    case 1
    then have "c # cs = [] @ c # cs \<and> (\<forall>x\<in>set []. \<not> cfg_unsafe data x) \<and> \<not> cfg_unsafe data c \<and> hit st data c" by simp
    then show ?thesis unfolding first_decides_def by blast
  next
    case 2
    then obtain pre d post where "cs = pre @ d # post" "\<forall>x\<in>set pre. \<not> cfg_unsafe data x"
      "\<not> cfg_unsafe data d" "hit st data d" unfolding first_decides_def by blast
    with 2 have "c # cs = (c # pre) @ d # post \<and> (\<forall>x\<in>set (c # pre). \<not> cfg_unsafe data x) \<and>
        \<not> cfg_unsafe data d \<and> hit st data d" by simp
    then show ?thesis unfolding first_decides_def by blast
  qed
qed

lemma any_matches_spec:
  assumes "\<forall>c\<in>set cs. \<not> cfg_unsafe data c \<longrightarrow> agrees st got (set (expansion data c))"
  shows "any_matches cs data got = Inr True \<longleftrightarrow> first_decides st data cs"
    and "any_matches cs data got = Inr False \<longleftrightarrow> (\<forall>c\<in>set cs. \<not> cfg_unsafe data c \<and> \<not> hit st data c)"
proof -
  have "(any_matches cs data got = Inr True \<longleftrightarrow> first_decides st data cs) \<and>
      (any_matches cs data got = Inr False \<longleftrightarrow> (\<forall>c\<in>set cs. \<not> cfg_unsafe data c \<and> \<not> hit st data c))"
    using assms
  proof (induction cs)
    case (Cons c cs)
    then have agree: "\<not> cfg_unsafe data c \<longrightarrow> agrees st got (set (expansion data c))" by simp
    have step: "first_decides st data (c # cs) \<longleftrightarrow> \<not> cfg_unsafe data c \<and> (hit st data c \<or> first_decides st data cs)"
      by (rule first_decides_Cons)
    show ?case
    proof (cases "cfg_unsafe data c")
      case True
      with Matches_spec(2) [OF agree] step show ?thesis by (auto split: sum.split)
    next
      case False
      with Matches_spec(1) [OF agree] step Cons show ?thesis by auto
    qed
  qed (simp add: first_decides_def)
  then show "any_matches cs data got = Inr True \<longleftrightarrow> first_decides st data cs"
    "any_matches cs data got = Inr False \<longleftrightarrow> (\<forall>c\<in>set cs. \<not> cfg_unsafe data c \<and> \<not> hit st data c)" by simp_all
qed

definition profile_cfgs :: "profile option \<Rightarrow> cfg list" where
  "profile_cfgs p = (case p of None \<Rightarrow> [] | Some q \<Rightarrow> any_of q @ none_of q)"

definition profile_accepts :: "(string \<Rightarrow> string) \<Rightarrow> lookup_data \<Rightarrow> profile option \<Rightarrow> bool" where
  "profile_accepts st data p \<longleftrightarrow> (case p of None \<Rightarrow> True
     | Some q \<Rightarrow> (\<forall>c\<in>set (none_of q). \<not> cfg_unsafe data c \<and> \<not> hit st data c) \<and>
         (any_of q = [] \<or> first_decides st data (any_of q)))"

lemma MatchProfile_spec:
  assumes "\<forall>c\<in>set (profile_cfgs p). \<not> cfg_unsafe data c \<longrightarrow> agrees st got (set (expansion data c))"
  shows "MatchProfile p data got = Inr True \<longleftrightarrow> profile_accepts st data p"
proof (cases p)
  case (Some q)
  with assms have agree: "\<forall>c\<in>set (none_of q). \<not> cfg_unsafe data c \<longrightarrow> agrees st got (set (expansion data c))"
    "\<forall>c\<in>set (any_of q). \<not> cfg_unsafe data c \<longrightarrow> agrees st got (set (expansion data c))"
    by (simp_all add: profile_cfgs_def)
  note none = any_matches_spec(2) [OF agree(1)] and any = any_matches_spec(1) [OF agree(2)]
  show ?thesis
  proof (cases "any_matches (none_of q) data got = Inr False")
    case True
    with none any Some show ?thesis by (simp add: MatchProfile_def profile_accepts_def IsEmpty_def)
  next
    case False
    then have "MatchProfile p data got \<noteq> Inr True"
      by (auto simp: Some MatchProfile_def IsEmpty_def split: sum.split bool.split)
    moreover from False none have "\<not> profile_accepts st data p" by (auto simp: Some profile_accepts_def)
    ultimately show ?thesis by simp
  qed
qed (simp add: MatchProfile_def profile_accepts_def)

section \<open>The plan covers every safe cfg\<close>

definition wanted :: "lookup_data \<Rightarrow> cfg list \<Rightarrow> string set" where
  "wanted data cs = (\<Union>c\<in>{c \<in> set cs. \<not> cfg_unsafe data c}. set (expansion data c))"

lemma wanted_simps [simp]:
  "wanted data [] = {}" "wanted data (c # cs) = (if cfg_unsafe data c then {} else set (expansion data c)) \<union> wanted data cs"
  "wanted data (cs @ ds) = wanted data cs \<union> wanted data ds"
  by (auto simp: wanted_def)

lemma wanted_mono: "set cs \<subseteq> set ds \<Longrightarrow> wanted data cs \<subseteq> wanted data ds"
  unfolding wanted_def by blast

definition grows :: "string set \<Rightarrow> string list \<Rightarrow> string list \<Rightarrow> bool" where
  "grows K out out' \<longleftrightarrow> set out' = set out \<union> K \<and> (distinct out \<longrightarrow> distinct out') \<and>
     (length out \<le> maxKeysPerPlan \<longrightarrow> length out' \<le> maxKeysPerPlan)"

lemma grows_refl: "grows {} out out"
  by (simp add: grows_def)

lemma grows_trans: "grows K out out' \<Longrightarrow> grows L out' out'' \<Longrightarrow> grows (K \<union> L) out out''"
  by (auto simp: grows_def)

lemma add_keys_grows: "add_keys ks out = Inr out' \<Longrightarrow> grows (set ks) out out'"
proof (induction ks arbitrary: out)
  case (Cons k ks)
  show ?case
  proof (cases "k \<in> set out")
    case True
    with Cons show ?thesis by (auto simp: grows_def)
  next
    case False
    with Cons.prems have cap: "length (out @ [k]) \<le> maxKeysPerPlan" and rest: "add_keys ks (out @ [k]) = Inr out'"
      by (simp_all split: if_splits)
    from Cons.IH [OF rest] False cap show ?thesis by (auto simp: grows_def)
  qed
qed (simp add: grows_refl)

lemma add_cfgs_grows: "add_cfgs data cs out = Inr out' \<Longrightarrow> grows (wanted data cs) out out'"
proof (induction cs arbitrary: out)
  case (Cons c cs)
  show ?case
  proof (cases "cfg_unsafe data c")
    case True
    with ExpandKeys_unsafe obtain e where "ExpandKeys c data = Inl e" by (metis isl_def)
    with Cons True show ?thesis by simp
  next
    case False
    with Cons.prems obtain mid where mid: "add_keys (expansion data c) out = Inr mid" "add_cfgs data cs mid = Inr out'"
      by (auto simp: ExpandKeys_safe split: sum.splits)
    from grows_trans [OF add_keys_grows [OF mid(1)] Cons.IH [OF mid(2)]] False show ?thesis by simp
  qed
qed (simp add: grows_refl)

lemma plan_grows: "plan_profiles data ps out = Inr out' \<Longrightarrow> grows (wanted data (concat (map profile_cfgs ps))) out out'"
proof (induction ps arbitrary: out)
  case (Cons p ps)
  show ?case
  proof (cases "IsEmpty p")
    case True
    then have "profile_cfgs p = []" by (auto simp: IsEmpty_def profile_cfgs_def split: option.splits)
    with Cons True show ?thesis by (auto split: option.splits)
  next
    case False
    then obtain q where p: "p = Some q" by (cases p) (auto simp: IsEmpty_def)
    with Cons.prems False obtain o1 o2 where o: "add_cfgs data (any_of q) out = Inr o1" "add_cfgs data (none_of q) o1 = Inr o2"
      "plan_profiles data ps o2 = Inr out'"
      by (auto split: sum.splits)
    from grows_trans [OF grows_trans [OF add_cfgs_grows [OF o(1)] add_cfgs_grows [OF o(2)]] Cons.IH [OF o(3)]]
    show ?thesis by (simp add: p profile_cfgs_def Un_assoc)
  qed
qed (simp add: grows_refl)

lemma PlanLookup_grows:
  "PlanLookup ps data = Inr keys \<Longrightarrow> data \<noteq> [] \<Longrightarrow> grows (wanted data (concat (map profile_cfgs ps))) [] keys"
  using plan_grows [of data ps "[]" keys] by (cases ps) (simp_all add: PlanLookup_def grows_refl)

section \<open>Decoding\<close>

lemma decode_fold:
  "fold decode_value (zip keys (map st keys)) got k =
     (if k \<in> set keys \<and> splitCSV (st k) \<noteq> [] then Some (splitCSV (st k)) else got k)"
  by (induction keys arbitrary: got) (auto simp: decode_value_def Let_def)

lemma DecodeValues_agrees:
  "DecodeValues keys (map st keys) = Some got \<Longrightarrow> agrees st got (set keys)"
  by (auto simp: DecodeValues_def agrees_def decode_fold)

section \<open>One package's decision does not depend on the batch\<close>

text \<open>A missing key type never hits, so without attributes no key is needed.\<close>

lemma hit_no_data: "Cfg_Validate c = None \<Longrightarrow> \<not> hit st [] c"
proof -
  assume "Cfg_Validate c = None"
  then obtain kt kts where "key_types c = kt # kts" by (cases "key_types c") (auto simp: Cfg_Validate_def split: if_splits)
  then have "expansion [] c = []" by (simp add: expansion_def values_of_def)
  then show ?thesis by (simp add: hit_def)
qed

lemma wanted_agrees:
  assumes "agrees st got K" "wanted data cs \<subseteq> K"
  shows "\<forall>c\<in>set cs. \<not> cfg_unsafe data c \<longrightarrow> agrees st got (set (expansion data c))"
  using assms by (auto simp: agrees_def wanted_def)

lemma fetch_agrees:
  assumes "fetchSignalsForCandidates (\<lambda>ks. Inr (map st ks)) ps data = Inr got" "p \<in> set ps"
  shows "\<forall>c\<in>set (profile_cfgs p). \<not> cfg_unsafe data c \<longrightarrow> agrees st got (set (expansion data c))"
proof (cases "data = [] \<or> IsEmpty p")
  case True
  have "expansion [] c = []" if "\<not> cfg_unsafe [] c" for c
    using that by (cases "key_types c") (auto simp: expansion_def cfg_unsafe_def Cfg_Validate_def values_of_def split: if_splits)
  moreover have "profile_cfgs p = []" if "IsEmpty p"
    using that by (auto simp: IsEmpty_def profile_cfgs_def split: option.splits)
  ultimately show ?thesis using True by (auto simp: agrees_def)
next
  case False
  let ?ps = "filter (\<lambda>p. \<not> IsEmpty p) ps"
  from False assms(2) have p: "p \<in> set ?ps" "data \<noteq> []" "?ps \<noteq> []" by (auto simp: filter_empty_conv)
  with assms(1) obtain keys where keys: "PlanLookup ?ps data = Inr keys"
    by (auto simp: fetchSignalsForCandidates_def Let_def split: if_splits sum.splits)
  note grows = PlanLookup_grows [OF keys p(2)]
  have "set (profile_cfgs p) \<subseteq> set (concat (map profile_cfgs ?ps))" using p(1) by auto
  from wanted_mono [OF this, of data] grows have sub: "wanted data (profile_cfgs p) \<subseteq> set keys"
    by (simp add: grows_def)
  have "agrees st got (set keys)"
  proof (cases keys)
    case Nil
    then show ?thesis by (simp add: agrees_def)
  next
    case (Cons k ks)
    with assms(1) keys p have "DecodeValues keys (map st keys) = Some got"
      by (auto simp: fetchSignalsForCandidates_def Let_def split: if_splits option.splits)
    then show ?thesis by (rule DecodeValues_agrees)
  qed
  from wanted_agrees [OF this sub] show ?thesis .
qed

text \<open>The batch fails only at its request-wide cap.\<close>

lemma fetch_fails_iff:
  "isl (fetchSignalsForCandidates (\<lambda>ks. Inr (map st ks)) ps data) \<longleftrightarrow>
     data \<noteq> [] \<and> isl (PlanLookup (filter (\<lambda>p. \<not> IsEmpty p) ps) data)"
proof -
  have "filter (\<lambda>p. \<not> IsEmpty p) ps = [] \<Longrightarrow> PlanLookup (filter (\<lambda>p. \<not> IsEmpty p) ps) data = Inr []"
    by (simp add: PlanLookup_def)
  then show ?thesis
    by (auto simp: fetchSignalsForCandidates_def Let_def DecodeValues_def split: sum.split list.split)
qed

text \<open>Batching is transparent: whatever other candidates are in the request, a package passes the signal stage
  exactly when its own profile accepts the stored values read key by key: no blocked signal is listed, no
  cfg that had to be consulted is unsafe, and, when it names wanted signals, one of them is listed. A failed
  read or a plan past the request-wide cap refuses every package with a profile.\<close>

lemma signals_batch_transparent:
  fixes st :: "string \<Rightarrow> string"
  defines "mget \<equiv> (\<lambda>ks. Inr (map st ks) :: string list result)"
  assumes "p \<in> set ps" "\<not> IsEmpty p"
  shows "(signalsPass p data (fetchSignalsForCandidates mget ps data) \<longleftrightarrow>
            \<not> (data \<noteq> [] \<and> isl (PlanLookup (filter (\<lambda>p. \<not> IsEmpty p) ps) data)) \<and> profile_accepts st data p) \<and>
         \<not> signalsPass p data (Inl err)"
proof (intro conjI)
  show "\<not> signalsPass p data (Inl err)" using assms(3) by (simp add: signalsPass_def)
  show "signalsPass p data (fetchSignalsForCandidates mget ps data) \<longleftrightarrow>
      \<not> (data \<noteq> [] \<and> isl (PlanLookup (filter (\<lambda>p. \<not> IsEmpty p) ps) data)) \<and> profile_accepts st data p"
  proof (cases "fetchSignalsForCandidates mget ps data")
    case (Inl e)
    then show ?thesis using fetch_fails_iff [of st ps data] assms(3) by (simp add: signalsPass_def mget_def)
  next
    case (Inr got)
    note agree = fetch_agrees [OF Inr [unfolded mget_def] assms(2)]
    from Inr fetch_fails_iff [of st ps data] have "\<not> (data \<noteq> [] \<and> isl (PlanLookup (filter (\<lambda>p. \<not> IsEmpty p) ps) data))"
      by (simp add: mget_def)
    moreover have "signalsPass p data (Inr got) \<longleftrightarrow> MatchProfile p data got = Inr True"
      using assms(3) by (auto simp: signalsPass_def split: sum.split)
    ultimately show ?thesis using Inr MatchProfile_spec [OF agree] by simp
  qed
qed

section \<open>What a profile's decision rests on\<close>

text \<open>The value an aligned answer gives to a key.\<close>

definition value_read :: "string list \<Rightarrow> string list \<Rightarrow> string \<Rightarrow> string" where
  "value_read keys vals k = (case map_of (zip keys vals) k of None \<Rightarrow> '''' | Some v \<Rightarrow> v)"

text \<open>The profile accepts by values that were read: \<open>keys\<close> holds every key that a safe cfg of the profile
  consults, one read of them was answered, value by value, and by these values no blocked signal is
  listed, no consulted cfg is unsafe, and a wanted signal is listed when the profile names any. A profile
  that consults no key needs no read.\<close>

definition read_accepts :: "(string list \<Rightarrow> string list result) \<Rightarrow> profile option \<Rightarrow> lookup_data \<Rightarrow> bool" where
  "read_accepts mget p data \<longleftrightarrow>
     (\<exists>keys vals. wanted data (profile_cfgs p) \<subseteq> set keys \<and> length vals = length keys \<and>
        (keys = [] \<or> mget keys = Inr vals) \<and> profile_accepts (value_read keys vals) data p)"

lemma value_read_map:
  assumes "distinct keys" "length vals = length keys"
  shows "map (value_read keys vals) keys = vals"
proof (rule nth_equalityI)
  fix i assume i: "i < length (map (value_read keys vals) keys)"
  with assms have "map_of (zip keys vals) (keys ! i) = Some (vals ! i)" by (simp add: map_of_zip_nth)
  with i show "map (value_read keys vals) keys ! i = vals ! i" by (simp add: value_read_def)
qed (simp add: assms(2))

lemma wanted_no_data: "wanted [] cs = {}"
proof -
  have "expansion [] c = []" if "\<not> cfg_unsafe [] c" for c
    using that by (cases "key_types c") (auto simp: expansion_def cfg_unsafe_def Cfg_Validate_def values_of_def split: if_splits)
  then show ?thesis by (auto simp: wanted_def)
qed

lemma fetch_reads:
  assumes "fetchSignalsForCandidates mget ps data = Inr got" "p \<in> set ps" "\<not> IsEmpty p" "MatchProfile p data got = Inr True"
  shows "read_accepts mget p data"
proof -
  have fin: "read_accepts mget p data"
    if sub: "wanted data (profile_cfgs p) \<subseteq> set keys" and read: "length vals = length keys" "keys = [] \<or> mget keys = Inr vals"
      and agree: "agrees (value_read keys vals) got (set keys)" for keys vals
    using MatchProfile_spec [OF wanted_agrees [OF agree sub]] assms(4) sub read unfolding read_accepts_def by blast
  have no_key: "read_accepts mget p data" if "wanted data (profile_cfgs p) = {}"
    by (rule fin [of "[]" "[]"]) (simp_all add: that agrees_def)
  show ?thesis
  proof (cases "data = []")
    case True
    show ?thesis by (rule no_key) (simp add: True wanted_no_data)
  next
    case False
    let ?ps = "filter (\<lambda>p. \<not> IsEmpty p) ps"
    from assms(2,3) have p: "p \<in> set ?ps" by simp
    then have ne: "?ps \<noteq> []" by (metis empty_iff list.set(1))
    with False assms(1) obtain keys where keys: "PlanLookup ?ps data = Inr keys"
      by (auto simp: fetchSignalsForCandidates_def Let_def split: sum.splits)
    note grows = PlanLookup_grows [OF keys False]
    have "set (profile_cfgs p) \<subseteq> set (concat (map profile_cfgs ?ps))" using p by auto
    from wanted_mono [OF this, of data] grows have sub: "wanted data (profile_cfgs p) \<subseteq> set keys" and dist: "distinct keys"
      by (simp_all add: grows_def)
    show ?thesis
    proof (cases keys)
      case Nil
      show ?thesis by (rule no_key) (use sub Nil in simp)
    next
      case (Cons k ks)
      with assms(1) keys False ne obtain vals where vals: "mget keys = Inr vals" "DecodeValues keys vals = Some got"
        by (auto simp: fetchSignalsForCandidates_def Let_def split: sum.splits option.splits)
      then have len: "length vals = length keys" by (simp add: DecodeValues_def split: if_splits)
      have "agrees (value_read keys vals) got (set keys)"
        by (rule DecodeValues_agrees) (simp add: value_read_map [OF dist len] vals(2))
      from fin [OF sub len _ this] vals(1) show ?thesis by simp
    qed
  qed
qed

section \<open>The keys of a plan\<close>

lemma Cfg_Validate_None:
  "Cfg_Validate c = None \<longleftrightarrow> signal_owner_id c \<noteq> '''' \<and> signal_id c \<noteq> '''' \<and> key_types c \<noteq> [] \<and> (\<forall>kt\<in>set (key_types c). IsAllowed kt)"
  by (auto simp: Cfg_Validate_def list_ex_iff)

text \<open>A key with its parts: a well-formed cfg and one value of the request per dimension.\<close>

definition key_of_cfg :: "lookup_data \<Rightarrow> cfg \<Rightarrow> string list \<Rightarrow> bool" where
  "key_of_cfg data c vs \<longleftrightarrow> Cfg_Validate c = None \<and> list_all2 (\<lambda>v kt. v \<in> set (values_of data kt)) vs (key_types c)"

lemma in_expansion: "k \<in> set (expansion data c) \<longleftrightarrow>
    (\<exists>vs. k = Key (signal_owner_id c) (key_types c) vs \<and> list_all2 (\<lambda>v kt. v \<in> set (values_of data kt)) vs (key_types c))"
  by (auto simp: expansion_def product_lists_set list_all2_map2)

text \<open>A cfg expands to one key per combination of the request's values, in lexicographic order and without
  missing or repeating a combination, at most 4096; it fails exactly when it is malformed or the dimensions
  before the first one without values multiply past that cap.\<close>

theorem ExpandKeys_product:
  "if cfg_unsafe data c then isl (ExpandKeys c data)
   else ExpandKeys c data =
          Inr (map (Key (signal_owner_id c) (key_types c)) (product_lists (map (values_of data) (key_types c)))) \<and>
        length (product_lists (map (values_of data) (key_types c))) \<le> 4096"
  using ExpandKeys_safe [of data c] ExpandKeys_unsafe [of data c] expansion_bound [of data c]
  by (auto simp: expansion_def maxKeysPerCfg_def)

section \<open>The attributes of a request\<close>

definition wf_data :: "lookup_data \<Rightarrow> bool" where
  "wf_data data \<longleftrightarrow> (\<forall>kt. distinct (values_of data kt) \<and> (\<forall>v\<in>set (values_of data kt). CHR '','' \<notin> set v) \<and>
     (values_of data kt \<noteq> [] \<longrightarrow> IsAllowed kt))"

lemma values_appendUnique:
  "values_of (appendUnique kt v data) kt' =
     (if kt = kt' \<and> CHR '','' \<notin> set v \<and> v \<notin> set (values_of data kt) then values_of data kt @ [v] else values_of data kt')"
  by (auto simp: appendUnique_def values_of_def update_conv')

lemma wf_append: "wf_data data \<Longrightarrow> IsAllowed kt \<Longrightarrow> wf_data (appendUnique kt v data)"
  by (auto simp: wf_data_def values_appendUnique)

lemma wf_add_nonempty: "wf_data data \<Longrightarrow> IsAllowed kt \<Longrightarrow> wf_data (add_nonempty kt v data)"
  by (simp add: add_nonempty_def wf_append)

lemma wf_fold: "(\<And>x data. wf_data data \<Longrightarrow> wf_data (f x data)) \<Longrightarrow> wf_data data \<Longrightarrow> wf_data (fold f xs data)"
  by (induction xs arbitrary: data) simp_all

lemma artifactRefKeyType_allowed: "artifactRefKeyType t = Some kt \<Longrightarrow> IsAllowed kt"
  by (auto simp: artifactRefKeyType_def IsAllowed_def allowedKeyTypes_def split: if_splits)

lemma allowed_types [simp]:
  "IsAllowed ''url_hash''" "IsAllowed ''country''" "IsAllowed ''region''" "IsAllowed ''metro''" "IsAllowed ''topic''"
  by (simp_all add: IsAllowed_def allowedKeyTypes_def)

lemma wf_add_ref: "wf_data data \<Longrightarrow> wf_data (add_ref HashURL ref data)"
  using artifactRefKeyType_allowed by (auto simp: add_ref_def intro: wf_append split: option.split)

lemma wf_add_topics: "wf_data data \<Longrightarrow> wf_data (add_topics accepted sigs data)"
  by (auto simp: add_topics_def Let_def intro!: wf_fold wf_append split: option.split)

lemma wf_extract: "wf_data (extractSignalLookupData HashURL accepted req country)"
proof -
  have "wf_data []" by (simp add: wf_data_def values_of_def)
  then show ?thesis
    unfolding extractSignalLookupData_def Let_def
    by (intro wf_add_topics wf_add_nonempty wf_fold wf_add_ref) simp_all
qed

lemma allowed_plain: "IsAllowed kt \<Longrightarrow> CHR '','' \<notin> set kt \<and> CHR '':'' \<notin> set kt"
  by (auto simp: IsAllowed_def allowedKeyTypes_def)

lemma join_plain: "\<forall>x\<in>set xs. c \<notin> set x \<Longrightarrow> c \<noteq> d \<Longrightarrow> c \<notin> set (join [d] xs)"
  by (induction xs rule: induct_list012) auto

lemma Key_inj:
  assumes "o1 \<noteq> ''''" "o2 \<noteq> ''''" "CHR '':'' \<notin> set o1" "CHR '':'' \<notin> set o2"
    and "k1 \<noteq> []" "k2 \<noteq> []" "\<forall>kt\<in>set k1. IsAllowed kt" "\<forall>kt\<in>set k2. IsAllowed kt"
    and "length k1 = length v1" "length k2 = length v2"
    and "\<forall>v\<in>set v1. CHR '','' \<notin> set v" "\<forall>v\<in>set v2. CHR '','' \<notin> set v"
    and "Key o1 k1 v1 = Key o2 k2 v2"
  shows "o1 = o2 \<and> k1 = k2 \<and> v1 = v2"
proof -
  have types: "CHR '':'' \<notin> set (join '','' k1)" "CHR '':'' \<notin> set (join '','' k2)"
    using join_plain [of k1 "CHR '':''" "CHR '',''"] join_plain [of k2 "CHR '':''" "CHR '',''"] assms(7,8) allowed_plain
    by simp_all
  from assms have "o1 @ CHR '':'' # (join '','' k1 @ CHR '':'' # join '','' v1) =
      o2 @ CHR '':'' # (join '','' k2 @ CHR '':'' # join '','' v2)"
    by (simp add: Key_def)
  then have "o1 = o2" "join '','' k1 = join '','' k2" "join '','' v1 = join '','' v2"
    using assms(3,4) types by (simp_all add: sep_inj)
  moreover from this(2) have "k1 = k2" using join_inj [of k1 "CHR '',''" k2] assms(5-8) allowed_plain by blast
  moreover have "v1 \<noteq> []" "v2 \<noteq> []" using assms(5,6,9,10) by auto
  with join_inj [of v1 "CHR '',''" v2] assms(11,12) calculation(3) have "v1 = v2" by blast
  ultimately show ?thesis by simp
qed

text \<open>C35: the keys a request reads name their cfg and their values: when owners contain no colon, two equal keys come
  from the same owner, the same key types and the same values of the request, so no attribute value a
  publisher sends can stand for another one; and every key type is a context attribute of the closed list.\<close>

theorem signal_keys_separate:
  assumes "key_of_cfg (extractSignalLookupData h acc req country) c vs"
    and "key_of_cfg (extractSignalLookupData h acc' req' country') c' vs'"
    and "CHR '':'' \<notin> set (signal_owner_id c)" "CHR '':'' \<notin> set (signal_owner_id c')"
    and "Key (signal_owner_id c) (key_types c) vs = Key (signal_owner_id c') (key_types c') vs'"
  shows "signal_owner_id c = signal_owner_id c' \<and> key_types c = key_types c' \<and> vs = vs' \<and> set (key_types c) \<subseteq> set allowedKeyTypes"
proof -
  have plain: "\<forall>v\<in>set ws. CHR '','' \<notin> set v"
    if "wf_data data" "list_all2 (\<lambda>v kt. v \<in> set (values_of data kt)) ws kts" for data ws kts
    using that(2) by (induction ws kts rule: list_all2_induct) (use that(1) in \<open>auto simp: wf_data_def\<close>)
  note valid = assms(1,2) [unfolded key_of_cfg_def Cfg_Validate_None]
  have "list_all2 (\<lambda>v kt. v \<in> set (values_of (extractSignalLookupData h acc req country) kt)) vs (key_types c)"
    "list_all2 (\<lambda>v kt. v \<in> set (values_of (extractSignalLookupData h acc' req' country') kt)) vs' (key_types c')"
    using valid by simp_all
  note dims = this
  from Key_inj [OF _ _ assms(3,4) _ _ _ _ _ _ _ _ assms(5)] valid plain [OF wf_extract dims(1)] plain [OF wf_extract dims(2)]
    list_all2_lengthD [OF dims(1)] list_all2_lengthD [OF dims(2)]
  show ?thesis by (auto simp: IsAllowed_def)
qed

text \<open>A plan reads only keys of well-formed cfgs of the candidates, each of them once and at most 65536 in all;
  their key types are context attributes, so the identity keyspace is out of reach.\<close>

theorem plan_keys_allowed:
  assumes "PlanLookup ps data = Inr keys"
  shows "distinct keys \<and> length keys \<le> 65536 \<and>
         (\<forall>k\<in>set keys. \<exists>p\<in>set ps. \<exists>c\<in>set (profile_cfgs p). \<exists>vs. k = Key (signal_owner_id c) (key_types c) vs \<and>
            key_of_cfg data c vs \<and> set (key_types c) \<subseteq> set allowedKeyTypes)"
proof (cases "data = []")
  case False
  note grows = PlanLookup_grows [OF assms False]
  have "\<exists>p\<in>set ps. \<exists>c\<in>set (profile_cfgs p). \<exists>vs. k = Key (signal_owner_id c) (key_types c) vs \<and>
      key_of_cfg data c vs \<and> set (key_types c) \<subseteq> set allowedKeyTypes" if "k \<in> set keys" for k
  proof -
    from that grows obtain c where c: "c \<in> set (concat (map profile_cfgs ps))" "\<not> cfg_unsafe data c" "k \<in> set (expansion data c)"
      by (auto simp: grows_def wanted_def)
    then have "Cfg_Validate c = None" by (simp add: cfg_unsafe_def)
    with c show ?thesis by (fastforce simp: in_expansion key_of_cfg_def Cfg_Validate_None IsAllowed_def)
  qed
  with grows show ?thesis by (simp add: grows_def maxKeysPerPlan_def)
qed (use assms in \<open>simp add: PlanLookup_def\<close>)

text \<open>An owner id with a colon can reach the keys of another owner.\<close>

lemma owner_colon_collides: "Key ''a'' [''custom''] [''region:US''] = Key ''a:custom'' [''region''] [''US'']"
  by (simp add: Key_def)

section \<open>Witnesses\<close>

definition us_news :: cfg where
  "us_news = \<lparr>signal_owner_id = ''42'', key_types = [''country'', ''topic''], signal_id = ''s1''\<rparr>"

definition us_blocked :: cfg where
  "us_blocked = \<lparr>signal_owner_id = ''7'', key_types = [''country''], signal_id = ''b''\<rparr>"

definition signal_ps :: "profile option list" where
  "signal_ps = [Some \<lparr>any_of = [], none_of = [us_blocked]\<rparr>, None, Some \<lparr>any_of = [us_news], none_of = [us_blocked]\<rparr>]"

definition signal_data :: lookup_data where
  "signal_data = [(''country'', [''US'']), (''topic'', [''iab:7:1'', ''iab:7:2''])]"

definition signal_st :: "string \<Rightarrow> string" where
  "signal_st k = (if k = ''signal:42:country,topic:US,iab:7:2'' then ''s0,,s1'' else '''')"

lemma sample_expansions:
  "ExpandKeys us_news signal_data = Inr [''signal:42:country,topic:US,iab:7:1'', ''signal:42:country,topic:US,iab:7:2'']"
  "ExpandKeys us_blocked signal_data = Inr [''signal:7:country:US'']"
  by code_simp+

lemma sample_plan:
  "PlanLookup signal_ps signal_data =
     Inr [''signal:7:country:US'', ''signal:42:country,topic:US,iab:7:1'', ''signal:42:country,topic:US,iab:7:2'']"
  "PlanLookup (filter (\<lambda>p. \<not> IsEmpty p) signal_ps) signal_data = PlanLookup signal_ps signal_data"
proof -
  have "signal_data \<noteq> []" by (simp add: signal_data_def)
  then show plan: "PlanLookup signal_ps signal_data =
     Inr [''signal:7:country:US'', ''signal:42:country,topic:US,iab:7:1'', ''signal:42:country,topic:US,iab:7:2'']"
    by (simp add: PlanLookup_def signal_ps_def IsEmpty_def sample_expansions maxKeysPerPlan_def)
  show "PlanLookup (filter (\<lambda>p. \<not> IsEmpty p) signal_ps) signal_data = PlanLookup signal_ps signal_data"
    by (simp add: PlanLookup_def signal_ps_def IsEmpty_def sample_expansions maxKeysPerPlan_def)
qed

lemma sample_safe: "\<not> cfg_unsafe signal_data us_news" "\<not> cfg_unsafe signal_data us_blocked"
  using ExpandKeys_unsafe sample_expansions by fastforce+

lemma sample_hits: "hit signal_st signal_data us_news" "\<not> hit signal_st signal_data us_blocked"
proof -
  have "expansion signal_data us_news = [''signal:42:country,topic:US,iab:7:1'', ''signal:42:country,topic:US,iab:7:2'']"
    "expansion signal_data us_blocked = [''signal:7:country:US'']"
    using ExpandKeys_safe sample_safe sample_expansions by fastforce+
  then show "hit signal_st signal_data us_news" "\<not> hit signal_st signal_data us_blocked"
    by (simp_all add: hit_def signal_st_def splitCSV_def us_news_def us_blocked_def)
qed

theorem signals_batch_transparent_witness:
  "signalsPass (Some \<lparr>any_of = [us_news], none_of = [us_blocked]\<rparr>) signal_data
     (fetchSignalsForCandidates (\<lambda>ks. Inr (map signal_st ks)) signal_ps signal_data)"
proof -
  have "first_decides signal_st signal_data [us_news]"
    by (simp add: first_decides_Cons sample_safe sample_hits)
  then have "profile_accepts signal_st signal_data (Some \<lparr>any_of = [us_news], none_of = [us_blocked]\<rparr>)"
    by (simp add: profile_accepts_def sample_safe sample_hits)
  moreover have "\<not> isl (PlanLookup (filter (\<lambda>p. \<not> IsEmpty p) signal_ps) signal_data)"
    using sample_plan by (simp add: signal_ps_def IsEmpty_def)
  ultimately show ?thesis
    using signals_batch_transparent [of "Some \<lparr>any_of = [us_news], none_of = [us_blocked]\<rparr>" signal_ps signal_data signal_st]
    by (simp add: signal_ps_def IsEmpty_def)
qed

definition signal_request :: context_request where
  "signal_request = \<lparr>cm_schema = '''', cm_adcp_version = '''', cm_adcp_major_version = 3, cm_type = '''', cm_protocol_version = '''',
     cm_request_id = '''', cm_property_rid = '''', cm_property_id = '''', cm_property_type = '''', cm_placement_id = '''',
     cm_seller_agent_url = '''', cm_artifact = None, cm_artifact_refs = [\<lparr>ref_type = ''isbn'', ref_value = ''9''\<rparr>],
     cm_geo = [], cm_context_signals = None, cm_package_ids = []\<rparr>"

theorem signal_keys_separate_witness: "set [''country'', ''isbn''] \<subseteq> set allowedKeyTypes"
proof -
  let ?c = "\<lparr>signal_owner_id = ''42'', key_types = [''country'', ''isbn''], signal_id = ''s1''\<rparr>"
  let ?data = "extractSignalLookupData (\<lambda>u. u) [] signal_request ''US''"
  have "values_of ?data ''country'' = [''US'']" "values_of ?data ''isbn'' = [''9'']" by code_simp+
  moreover have "Cfg_Validate ?c = None" by code_simp
  ultimately have "key_of_cfg ?data ?c [''US'', ''9'']" by (simp add: key_of_cfg_def)
  from signal_keys_separate [OF this this] show ?thesis by simp
qed

theorem plan_keys_allowed_witness:
  "distinct [''signal:7:country:US'', ''signal:42:country,topic:US,iab:7:1'', ''signal:42:country,topic:US,iab:7:2'']"
proof -
  from plan_keys_allowed [OF sample_plan(1)] show ?thesis by blast
qed

end
