(* ===== verification/Key_Store.thy ===== *)
theory Key_Store
  imports AdCP_Prelude "HOL-Library.List_Lexorder" "HOL-Library.Char_ord"
begin

text \<open>
  The key-value surface the targeting stores are written against, with the in-memory semantics of
  \<^verbatim>\<open>src/targeting/mediabuystore/mock.go\<close> and \<^verbatim>\<open>src/targeting/topicstore/mock.go\<close>: sets of strings and strings, both
  addressed by keys. The laws the services rely on are a locale, interpreted on this model.
\<close>

record kv =
  kv_sets :: "string \<rightharpoonup> string list"
  kv_strings :: "string \<rightharpoonup> string"

definition kv_empty :: kv where
  "kv_empty = \<lparr>kv_sets = Map.empty, kv_strings = Map.empty\<rparr>"

text \<open>A set is kept as the sorted list of its members, the order in which it is read.\<close>

definition SetMembers :: "string \<Rightarrow> kv \<Rightarrow> string list" where
  "SetMembers key st = (case kv_sets st key of None \<Rightarrow> [] | Some s \<Rightarrow> s)"

definition SetAdd :: "string \<Rightarrow> string list \<Rightarrow> kv \<Rightarrow> kv" where
  "SetAdd key members st =
     (if members = [] then st
      else st\<lparr>kv_sets := (kv_sets st)(key \<mapsto> fold insort_insert members (SetMembers key st))\<rparr>)"

definition SetRemove :: "string \<Rightarrow> string list \<Rightarrow> kv \<Rightarrow> kv" where
  "SetRemove key members st =
     (case kv_sets st key of
        None \<Rightarrow> st
      | Some s \<Rightarrow>
          if members = [] then st
          else let s' = filter (\<lambda>x. x \<notin> set members) s in
            st\<lparr>kv_sets := (kv_sets st)(key := if s' = [] then None else Some s')\<rparr>)"

definition Del :: "string list \<Rightarrow> kv \<Rightarrow> kv" where
  "Del keys st = st\<lparr>kv_sets := fold (\<lambda>k m. m(k := None)) keys (kv_sets st),
     kv_strings := fold (\<lambda>k m. m(k := None)) keys (kv_strings st)\<rparr>"

definition kv_Get :: "string \<Rightarrow> kv \<Rightarrow> string option" where
  "kv_Get key st = kv_strings st key"

definition kv_Set :: "string \<Rightarrow> string \<Rightarrow> kv \<Rightarrow> kv" where
  "kv_Set key val st = st\<lparr>kv_strings := (kv_strings st)(key \<mapsto> val)\<rparr>"

definition MGet :: "string list \<Rightarrow> kv \<Rightarrow> string list" where
  "MGet keys st = map (\<lambda>k. case kv_strings st k of None \<Rightarrow> '''' | Some v \<Rightarrow> v) keys"

definition SetIntersect :: "string list \<Rightarrow> kv \<Rightarrow> string list" where
  "SetIntersect keys st =
     (case keys of [] \<Rightarrow> []
      | k # ks \<Rightarrow> filter (\<lambda>x. \<forall>k'\<in>set ks. x \<in> set (SetMembers k' st)) (SetMembers k st))"

section \<open>The contract of the store\<close>

text \<open>Values of one key change only by operations on that key; a set answers membership.\<close>

locale set_store =
  fixes members :: "string \<Rightarrow> 's \<Rightarrow> string list"
    and add :: "string \<Rightarrow> string list \<Rightarrow> 's \<Rightarrow> 's"
    and remove :: "string \<Rightarrow> string list \<Rightarrow> 's \<Rightarrow> 's"
    and del :: "string list \<Rightarrow> 's \<Rightarrow> 's"
  assumes members_add: "set (members k (add k' xs s)) = (if k = k' then set xs else {}) \<union> set (members k s)"
    and members_remove: "set (members k (remove k' xs s)) = set (members k s) - (if k = k' then set xs else {})"
    and members_del: "members k (del ks s) = (if k \<in> set ks then [] else members k s)"
begin

text \<open>Deleting a key and adding the new members replaces the set and touches no other one.\<close>

lemma replace_set: "set (members k (add k' xs (del [k'] s))) = (if k = k' then set xs else set (members k s))"
  by (simp add: members_add members_del)

lemma add_mono: "set (members k s) \<subseteq> set (members k (add k' xs s))"
  by (auto simp: members_add)

end

locale string_store = set_store +
  fixes get :: "string \<Rightarrow> 's \<Rightarrow> string option"
    and put :: "string \<Rightarrow> string \<Rightarrow> 's \<Rightarrow> 's"
  assumes get_put: "get k (put k' v s) = (if k = k' then Some v else get k s)"
    and get_add: "get k (add k' xs s) = get k s"
    and get_remove: "get k (remove k' xs s) = get k s"
    and get_del: "get k (del ks s) = (if k \<in> set ks then None else get k s)"
    and members_put: "members k (put k' v s) = members k s"
begin

text \<open>A record and its entry in an index: written in this order, the entry never lacks its record.\<close>

lemma indexed_record:
  "get r (add i xs (put r v s)) = Some v" "set (members i (add i xs (put r v s))) = set xs \<union> set (members i s)"
  by (simp_all add: get_add get_put members_add members_put)

end

lemma set_fold_insort: "set (fold insort_insert xs s) = set xs \<union> set s"
  by (induction xs arbitrary: s) (auto simp: set_insort_insert)

lemma fold_delete: "fold (\<lambda>k m. m(k := None)) ks m k = (if k \<in> set ks then None else m k)"
  by (induction ks arbitrary: m) auto

interpretation kv: string_store SetMembers SetAdd SetRemove Del kv_Get kv_Set
proof
  fix k k' v :: string and xs ks :: "string list" and s :: kv
  show "set (SetMembers k (SetAdd k' xs s)) = (if k = k' then set xs else {}) \<union> set (SetMembers k s)"
    by (auto simp: SetMembers_def SetAdd_def set_fold_insort)
  show "set (SetMembers k (SetRemove k' xs s)) = set (SetMembers k s) - (if k = k' then set xs else {})"
    by (auto simp: SetMembers_def SetRemove_def Let_def filter_empty_conv split: option.split)
  show "SetMembers k (Del ks s) = (if k \<in> set ks then [] else SetMembers k s)"
    by (simp add: SetMembers_def Del_def fold_delete)
  show "kv_Get k (kv_Set k' v s) = (if k = k' then Some v else kv_Get k s)" by (simp add: kv_Get_def kv_Set_def)
  show "kv_Get k (SetAdd k' xs s) = kv_Get k s" by (simp add: kv_Get_def SetAdd_def)
  show "kv_Get k (SetRemove k' xs s) = kv_Get k s" by (simp add: kv_Get_def SetRemove_def Let_def split: option.split)
  show "kv_Get k (Del ks s) = (if k \<in> set ks then None else kv_Get k s)" by (simp add: kv_Get_def Del_def fold_delete)
  show "SetMembers k (kv_Set k' v s) = SetMembers k s" by (simp add: SetMembers_def kv_Set_def)
qed

lemma SetIntersect_two: "set (SetIntersect [k, k'] st) = set (SetMembers k st) \<inter> set (SetMembers k' st)"
  by (auto simp: SetIntersect_def)

section \<open>Store faults\<close>

text \<open>Any access can fail; a write that fails leaves the store as it was and the operation returns the error.\<close>

type_synonym store_fault = "string option"

definition attempt :: "store_fault \<Rightarrow> (kv \<Rightarrow> kv) \<Rightarrow> kv \<Rightarrow> kv \<times> string option" where
  "attempt f op st = (case f of None \<Rightarrow> (op st, None) | Some e \<Rightarrow> (st, Some e))"

definition then_attempt :: "kv \<times> string option \<Rightarrow> store_fault \<Rightarrow> (kv \<Rightarrow> kv) \<Rightarrow> kv \<times> string option" where
  "then_attempt r f op = (case snd r of None \<Rightarrow> attempt f op (fst r) | Some e \<Rightarrow> r)"

lemma attempt_simps [simp]:
  "attempt None op st = (op st, None)" "attempt (Some e) op st = (st, Some e)"
  "then_attempt (st, None) f op = attempt f op st" "then_attempt (st, Some e) f op = (st, Some e)"
  by (simp_all add: attempt_def then_attempt_def)

end
