(* ===== verification/Identity_Targeting.thy ===== *)
theory Identity_Targeting
  imports TMP_Types
begin

text \<open>
  The identity side of the targeting engine: segment rules (\<^verbatim>\<open>src/targeting/identity_config.go\<close>), audience membership
  and frequency caps with their in-memory stores (\<^verbatim>\<open>audience\<close>, \<^verbatim>\<open>fcap\<close>), the audience engine
  (\<^verbatim>\<open>identity_engine.go\<close>). The token hash is a parameter.
\<close>

section \<open>Segment rules\<close>

record segment_rule =
  all_of :: "string list"
  some_of :: "string list"
  none_of_segs :: "string list"

text \<open>A nil rule gates nothing.\<close>

definition rule_IsEmpty :: "segment_rule option \<Rightarrow> bool" where
  "rule_IsEmpty r = (case r of None \<Rightarrow> True | Some r \<Rightarrow> all_of r = [] \<and> some_of r = [] \<and> none_of_segs r = [])"

text \<open>First occurrences only, as the loop with its seen map keeps them.\<close>

definition add_seen :: "string list \<Rightarrow> string list \<Rightarrow> string list" where
  "add_seen segs out = fold (\<lambda>s out. if s \<in> set out then out else out @ [s]) segs out"

definition Segments :: "segment_rule option \<Rightarrow> string list" where
  "Segments r = (case r of None \<Rightarrow> []
     | Some r \<Rightarrow> add_seen (none_of_segs r) (add_seen (some_of r) (add_seen (all_of r) [])))"

definition rule_Matches :: "segment_rule option \<Rightarrow> string list \<Rightarrow> bool" where
  "rule_Matches r userSegments =
     (case r of None \<Rightarrow> True
      | Some r \<Rightarrow>
          if list_ex (\<lambda>s. s \<notin> set userSegments) (all_of r) then False
          else if some_of r \<noteq> [] \<and> \<not> list_ex (\<lambda>s. s \<in> set userSegments) (some_of r) then False
          else if list_ex (\<lambda>s. s \<in> set userSegments) (none_of_segs r) then False
          else True)"

record package_identity_config =
  TargetSegments :: "segment_rule option"
  RequiresVerifiedIdentity :: bool

section \<open>Store errors\<close>

text \<open>What the callers distinguish: a deadline, a cancellation, anything else.\<close>

datatype store_error = DeadlineExceeded | Canceled | StoreFailed string

section \<open>Frequency caps\<close>

record field =
  f_seller :: string
  f_package :: string

definition fieldString :: "field \<Rightarrow> string" where
  "fieldString f = f_seller f @ '':'' @ f_package f"

definition identityKey :: "(string \<Rightarrow> string) \<Rightarrow> string \<Rightarrow> string" where
  "identityKey Hash userIdentity = ''fcap:'' @ Hash userIdentity"

text \<open>The in-memory store: per key and field a value and an expiry, \<^const>\<open>None\<close> for the zero time.\<close>

type_synonym fcap_store = "string \<Rightarrow> string \<rightharpoonup> (string \<times> time option)"

definition SetFields :: "string \<Rightarrow> string list \<Rightarrow> time option \<Rightarrow> fcap_store \<Rightarrow> fcap_store" where
  "SetFields key fs expireAt st = st(key := fold (\<lambda>f m. m(f \<mapsto> (''1'', expireAt))) fs (st key))"

definition field_exists :: "time \<Rightarrow> fcap_store \<Rightarrow> string \<Rightarrow> string \<Rightarrow> bool" where
  "field_exists now st key f =
     (case st key f of
        None \<Rightarrow> False
      | Some (v, None) \<Rightarrow> True
      | Some (v, Some t) \<Rightarrow> \<not> now > t)"

definition FieldExistsBatch :: "time \<Rightarrow> fcap_store \<Rightarrow> (string \<times> string) list \<Rightarrow> bool list" where
  "FieldExistsBatch now st lookups = map (\<lambda>(k, f). field_exists now st k f) lookups"

definition RecordCap :: "(string \<Rightarrow> string) \<Rightarrow> string \<Rightarrow> field list \<Rightarrow> time option \<Rightarrow> fcap_store \<Rightarrow> fcap_store" where
  "RecordCap Hash user fs expireAt st =
     (if fs = [] then st else SetFields (identityKey Hash user) (map fieldString fs) expireAt st)"

definition SetFieldsBatch :: "(string \<times> string list \<times> time option) list \<Rightarrow> fcap_store \<Rightarrow> fcap_store" where
  "SetFieldsBatch batches st = fold (\<lambda>(k, fs, e) st. SetFields k fs e st) batches st"

record cap_batch =
  cb_user :: string
  cb_fields :: "field list"
  cb_expire_at :: "time option"

definition RecordCapBatch :: "(string \<Rightarrow> string) \<Rightarrow> cap_batch list \<Rightarrow> fcap_store \<Rightarrow> fcap_store" where
  "RecordCapBatch Hash batches st =
     (let storeBatches = map (\<lambda>b. (identityKey Hash (cb_user b), map fieldString (cb_fields b), cb_expire_at b))
        (filter (\<lambda>b. cb_fields b \<noteq> []) batches) in
      if storeBatches = [] then st else SetFieldsBatch storeBatches st)"

definition IsCapped :: "(string \<Rightarrow> string) \<Rightarrow> time \<Rightarrow> fcap_store \<Rightarrow> string \<Rightarrow> field \<Rightarrow> bool" where
  "IsCapped Hash now st user f = field_exists now st (identityKey Hash user) (fieldString f)"

definition MaxInt :: nat where "MaxInt = 2 ^ 63 - 1"

text \<open>The cross product is laid out identity by identity; the answer for a field is the disjunction over them. The
  store answers with an error or one boolean per lookup.\<close>

definition IsCappedAny ::
  "(string \<Rightarrow> string) \<Rightarrow> ((string \<times> string) list \<Rightarrow> store_error + bool list) \<Rightarrow> string list \<Rightarrow> field list \<Rightarrow>
   store_error + bool list" where
  "IsCappedAny Hash batch identities fs =
     (let n = length fs in
      if fs = [] then Inr []
      else if identities = [] then Inr (replicate n False)
      else if length identities > MaxInt div n then Inl (StoreFailed ''fcap: identity-field cross-product overflows'')
      else
        let buf = concat (map (\<lambda>i. map (\<lambda>f. (identityKey Hash i, fieldString f)) fs) identities) in
        case batch buf of
          Inl e \<Rightarrow> Inl e
        | Inr results \<Rightarrow>
            Inr (fold (\<lambda>i. fold (\<lambda>j out. if results ! (i * n + j) then out[j := True] else out) [0..<n])
              [0..<length identities] (replicate n False)))"

definition IsCappedBatch :: "(string \<Rightarrow> string) \<Rightarrow> time \<Rightarrow> fcap_store \<Rightarrow> (string \<times> field) list \<Rightarrow> bool list" where
  "IsCappedBatch Hash now st lookups =
     (if lookups = [] then []
      else FieldExistsBatch now st (map (\<lambda>(u, f). (identityKey Hash u, fieldString f)) lookups))"

section \<open>Audience membership\<close>

text \<open>Per user key and audience the encoded score. A score that is not finite is \<^const>\<open>None\<close>; a finite one is its decimal
  form.\<close>

type_synonym audience_store = "string \<Rightarrow> string \<rightharpoonup> string"

record audience_upsert =
  up_audience :: string
  up_add :: "(string \<times> string option) list"
  up_remove :: "string list"

definition userKey :: "string \<Rightarrow> string" where
  "userKey h = ''audience:user:'' @ h"

definition hset :: "string \<times> string \<times> string \<Rightarrow> audience_store \<Rightarrow> audience_store" where
  "hset it st = (case it of (k, f, v) \<Rightarrow> st(k := (st k)(f \<mapsto> v)))"

definition hdel :: "string \<times> string list \<Rightarrow> audience_store \<Rightarrow> audience_store" where
  "hdel it st = (case it of (k, fs) \<Rightarrow> st(k := fold (\<lambda>f m. m(f := None)) fs (st k)))"

text \<open>A batch can fail after an arbitrary part of its items, in an arbitrary order, has been applied: a fault lists the
  positions of those items beside the error.\<close>

type_synonym partial_fault = "(nat list \<times> string) option"

definition applied_part :: "nat list \<Rightarrow> 'a list \<Rightarrow> 'a list" where
  "applied_part is items = map ((!) items) (filter (\<lambda>i. i < length items) is)"

definition HSetBatch :: "partial_fault \<Rightarrow> (string \<times> string \<times> string) list \<Rightarrow> audience_store \<Rightarrow> audience_store \<times> string option" where
  "HSetBatch fault items st =
     (case fault of None \<Rightarrow> (fold hset items st, None) | Some (is, e) \<Rightarrow> (fold hset (applied_part is items) st, Some e))"

definition HDelBatch :: "partial_fault \<Rightarrow> (string \<times> string list) list \<Rightarrow> audience_store \<Rightarrow> audience_store \<times> string option" where
  "HDelBatch fault items st =
     (case fault of None \<Rightarrow> (fold hdel items st, None) | Some (is, e) \<Rightarrow> (fold hdel (applied_part is items) st, Some e))"

definition hset_items :: "(string \<Rightarrow> string) \<Rightarrow> audience_upsert list \<Rightarrow> (string \<times> string \<times> string) list" where
  "hset_items Hash upserts =
     concat (map (\<lambda>u. map (\<lambda>(t, score). (userKey (Hash t), up_audience u, the score)) (up_add u)) upserts)"

text \<open>The removals are grouped per user key; the keys are taken in the order in which they first occur.\<close>

definition removals :: "(string \<Rightarrow> string) \<Rightarrow> audience_upsert list \<Rightarrow> (string \<times> string) list" where
  "removals Hash upserts = concat (map (\<lambda>u. map (\<lambda>t. (userKey (Hash t), up_audience u)) (up_remove u)) upserts)"

definition hdel_items :: "(string \<Rightarrow> string) \<Rightarrow> audience_upsert list \<Rightarrow> (string \<times> string list) list" where
  "hdel_items Hash upserts =
     (let rs = removals Hash upserts in
      map (\<lambda>k. (k, map snd (filter (\<lambda>r. fst r = k) rs))) (remdups (map fst rs)))"

definition UpsertBatch ::
  "(string \<Rightarrow> string) \<Rightarrow> partial_fault \<Rightarrow> partial_fault \<Rightarrow> audience_upsert list \<Rightarrow> audience_store \<Rightarrow>
   audience_store \<times> string option" where
  "UpsertBatch Hash del_fault set_fault upserts st =
     (if upserts = [] then (st, None)
      else if list_ex (\<lambda>u. list_ex (\<lambda>(t, score). score = None) (up_add u)) upserts
      then (st, Some ''audience: non-finite score'')
      else
        let sets = hset_items Hash upserts; dels = hdel_items Hash upserts in
        case (if dels = [] then (st, None) else HDelBatch del_fault dels st) of
          (st1, Some e) \<Rightarrow> (st1, Some e)
        | (st1, None) \<Rightarrow> if sets = [] then (st1, None) else HSetBatch set_fault sets st1)"

definition Upsert ::
  "(string \<Rightarrow> string) \<Rightarrow> partial_fault \<Rightarrow> partial_fault \<Rightarrow> audience_upsert \<Rightarrow> audience_store \<Rightarrow>
   audience_store \<times> string option" where
  "Upsert Hash del_fault set_fault u st =
     (if up_add u = [] \<and> up_remove u = [] then (st, None) else UpsertBatch Hash del_fault set_fault [u] st)"

definition hexists :: "audience_store \<Rightarrow> string \<times> string \<Rightarrow> bool" where
  "hexists st l = (case l of (k, f) \<Rightarrow> st k f \<noteq> None)"

definition IsMemberBatch ::
  "(string \<Rightarrow> string) \<Rightarrow> ((string \<times> string) list \<Rightarrow> store_error + bool list) \<Rightarrow> (string \<times> string) list \<Rightarrow>
   store_error + bool list" where
  "IsMemberBatch Hash batch lookups =
     (if lookups = [] then Inr [] else batch (map (\<lambda>(user, aud). (userKey (Hash user), aud)) lookups))"

text \<open>Scores are read back with \<^verbatim>\<open>strconv.ParseFloat\<close>, a parameter; what it rejects counts as zero.\<close>

definition HGetAll :: "audience_store \<Rightarrow> string \<Rightarrow> string \<rightharpoonup> string" where
  "HGetAll st key = st key"

definition decodeScoreMap :: "(string \<Rightarrow> string option) \<Rightarrow> (string \<rightharpoonup> string) \<Rightarrow> string \<rightharpoonup> string" where
  "decodeScoreMap ParseFloat raw =
     (\<lambda>a. map_option (\<lambda>v. case ParseFloat v of None \<Rightarrow> ''0'' | Some score \<Rightarrow> score) (raw a))"

definition Memberships ::
  "(string \<Rightarrow> string) \<Rightarrow> (string \<Rightarrow> string option) \<Rightarrow> audience_store \<Rightarrow> string \<Rightarrow> string \<rightharpoonup> string" where
  "Memberships Hash ParseFloat st user = decodeScoreMap ParseFloat (HGetAll st (userKey (Hash user)))"

definition MembershipsBatch ::
  "(string \<Rightarrow> string) \<Rightarrow> (string \<Rightarrow> string option) \<Rightarrow> audience_store \<Rightarrow> string list \<Rightarrow> (string \<rightharpoonup> string) list" where
  "MembershipsBatch Hash ParseFloat st users =
     (if users = [] then []
      else map (decodeScoreMap ParseFloat) (map (HGetAll st) (map (\<lambda>t. userKey (Hash t)) users)))"

definition is_member :: "(string \<Rightarrow> string) \<Rightarrow> audience_store \<Rightarrow> string \<Rightarrow> string \<Rightarrow> bool" where
  "is_member Hash st user aud \<longleftrightarrow> st (userKey (Hash user)) aud \<noteq> None"

section \<open>The audience engine\<close>

type_synonym id_configs = "string \<rightharpoonup> package_identity_config"

definition target_of :: "id_configs \<Rightarrow> string \<Rightarrow> segment_rule option" where
  "target_of cfgs p = (case cfgs p of None \<Rightarrow> None | Some c \<Rightarrow> TargetSegments c)"

text \<open>The code collects the segments from a map in any order; the order does not reach the result.\<close>

definition collectTargetSegments :: "id_configs \<Rightarrow> string list \<Rightarrow> string list" where
  "collectTargetSegments cfgs pkgIDs = fold (\<lambda>p out. add_seen (Segments (target_of cfgs p)) out) pkgIDs []"

definition resolveUserSegments ::
  "((string \<times> string) list \<Rightarrow> store_error + bool list) option \<Rightarrow> string list \<Rightarrow> string list \<Rightarrow> store_error + string list" where
  "resolveUserSegments member_batch users segs =
     (case member_batch of
        None \<Rightarrow> Inr []
      | Some batch \<Rightarrow>
          if users = [] \<or> segs = [] then Inr []
          else
            let lookups = concat (map (\<lambda>u. map (\<lambda>s. (u, s)) segs) users) in
            case batch lookups of
              Inl e \<Rightarrow> Inl e
            | Inr results \<Rightarrow>
                Inr (map (\<lambda>i. snd (lookups ! i)) (filter (\<lambda>i. results ! i) [0..<length lookups])))"

definition EvaluateIdentityResolved ::
  "((string \<times> string) list \<Rightarrow> store_error + bool list) option \<Rightarrow> id_configs \<Rightarrow> string list \<Rightarrow> string list \<Rightarrow>
   store_error + (string \<times> bool) list" where
  "EvaluateIdentityResolved member_batch cfgs users pkgIDs =
     (case resolveUserSegments member_batch users (collectTargetSegments cfgs pkgIDs) of
        Inl e \<Rightarrow> Inl e
      | Inr userSegments \<Rightarrow>
          Inr (map (\<lambda>p. (p,
            if cfgs p \<noteq> None \<and> \<not> rule_IsEmpty (target_of cfgs p)
            then \<not> (member_batch = None \<or> \<not> rule_Matches (target_of cfgs p) userSegments)
            else True)) pkgIDs))"

section \<open>Segment rules: the collected segments suffice\<close>

lemma set_add_seen [simp]: "set (add_seen xs out) = set xs \<union> set out"
proof (induction xs arbitrary: out)
  case (Cons x xs)
  have "add_seen (x # xs) out = add_seen xs (if x \<in> set out then out else out @ [x])" by (simp add: add_seen_def)
  then show ?case using Cons by auto
qed (simp add: add_seen_def)

lemma distinct_add_seen: "distinct out \<Longrightarrow> distinct (add_seen xs out)"
proof (induction xs arbitrary: out)
  case (Cons x xs)
  have "add_seen (x # xs) out = add_seen xs (if x \<in> set out then out else out @ [x])" by (simp add: add_seen_def)
  then show ?case using Cons by auto
qed (simp add: add_seen_def)

lemma set_Segments: "set (Segments (Some r)) = set (all_of r) \<union> set (some_of r) \<union> set (none_of_segs r)"
  by (auto simp: Segments_def)

lemma distinct_Segments: "distinct (Segments r)"
  by (simp add: Segments_def distinct_add_seen split: option.split)

lemma Segments_empty: "Segments r = [] \<longleftrightarrow> rule_IsEmpty r"
proof (cases r)
  case (Some r')
  then show ?thesis using set_Segments [of r'] by (auto simp: rule_IsEmpty_def simp flip: set_empty)
qed (simp add: Segments_def rule_IsEmpty_def)

text \<open>What a rule asks of a user, as a predicate on membership.\<close>

definition rule_holds :: "segment_rule option \<Rightarrow> (string \<Rightarrow> bool) \<Rightarrow> bool" where
  "rule_holds r M =
     (case r of None \<Rightarrow> True
      | Some r \<Rightarrow> list_all M (all_of r) \<and> (some_of r = [] \<or> list_ex M (some_of r)) \<and> \<not> list_ex M (none_of_segs r))"

lemma rule_Matches_holds:
  assumes "\<And>s. s \<in> set (Segments r) \<Longrightarrow> s \<in> set segs \<longleftrightarrow> M s"
  shows "rule_Matches r segs \<longleftrightarrow> rule_holds r M"
proof (cases r)
  case (Some r')
  have *: "s \<in> set segs \<longleftrightarrow> M s" if "s \<in> set (all_of r') \<union> set (some_of r') \<union> set (none_of_segs r')" for s
    using assms [of s] that by (simp add: Some set_Segments)
  show ?thesis
    using * by (auto simp: Some rule_Matches_def rule_holds_def list_ex_iff list_all_iff)
qed (simp add: rule_Matches_def rule_holds_def)

lemma rule_holds_empty: "rule_IsEmpty r \<Longrightarrow> rule_holds r M"
  by (auto simp: rule_IsEmpty_def rule_holds_def split: option.splits)

lemma set_collectTargetSegments:
  "set (collectTargetSegments cfgs ps) = (\<Union>p\<in>set ps. set (Segments (target_of cfgs p)))"
proof -
  have "set (fold (\<lambda>p. add_seen (Segments (target_of cfgs p))) ps out) =
      (\<Union>p\<in>set ps. set (Segments (target_of cfgs p))) \<union> set out" for out
    by (induction ps arbitrary: out) auto
  then show ?thesis by (simp add: collectTargetSegments_def)
qed

section \<open>The cross product of batched lookups\<close>

text \<open>Rows of one length: the entry of row \<open>i\<close> and column \<open>j\<close> stands at \<open>i * n + j\<close>.\<close>

lemma nth_cross:
  "i < length xs \<Longrightarrow> j < length ys \<Longrightarrow>
   concat (map (\<lambda>x. map (g x) ys) xs) ! (i * length ys + j) = g (xs ! i) (ys ! j)"
proof (induction xs arbitrary: i)
  case (Cons x xs)
  then show ?case by (cases i) (simp_all add: nth_append)
qed simp

lemma length_cross: "length (concat (map (\<lambda>x. map (g x) ys) xs)) = length xs * length ys"
  by (induction xs) simp_all

lemma cross_index_bound: "i < m \<Longrightarrow> j < n \<Longrightarrow> i * n + j < m * (n :: nat)"
proof -
  assume "i < m" "j < n"
  then have "i * n + j < Suc i * n" by simp
  also have "\<dots> \<le> m * n" using \<open>i < m\<close> by (intro mult_le_mono1) simp
  finally show ?thesis .
qed

lemma fold_mark:
  "fold (\<lambda>j out. if P j then out[j := True] else out) js out = map (\<lambda>j. out ! j \<or> (j \<in> set js \<and> P j)) [0..<length out]"
proof (induction js arbitrary: out)
  case Nil
  then show ?case by (simp add: map_nth)
next
  case (Cons k js)
  have "out[k := True] ! x \<longleftrightarrow> out ! x \<or> x = k" if "x < length out" for x
    using that by (cases "x = k") simp_all
  then show ?case by (cases "P k") (auto simp: Cons.IH)
qed

lemma fold_mark_rows:
  "length out = n \<Longrightarrow> fold (\<lambda>i. fold (\<lambda>j out. if P i j then out[j := True] else out) [0..<n]) is out =
   map (\<lambda>j. out ! j \<or> (\<exists>i\<in>set is. P i j)) [0..<n]"
proof (induction "is" arbitrary: out)
  case Nil
  then show ?case using map_nth [of out] by simp
next
  case (Cons i "is")
  let ?m = "\<lambda>j out. if P i j then out[j := True] else out"
  have "fold ?m [0..<n] out = map (\<lambda>j. out ! j \<or> P i j) [0..<n]"
    using fold_mark [of "P i" "[0..<n]" out] Cons.prems by (simp cong: map_cong)
  then show ?case using Cons.IH [of "map (\<lambda>j. out ! j \<or> P i j) [0..<n]"] by simp
qed

lemma IsCapped_lookup:
  "case_prod (field_exists now st) (identityKey Hash i, fieldString f) = IsCapped Hash now st i f"
  by (simp add: IsCapped_def)

lemma IsCappedAny_eq:
  "IsCappedAny Hash (\<lambda>q. Inr (FieldExistsBatch now st q)) ids fs =
     (if fs \<noteq> [] \<and> length ids > MaxInt div length fs
      then Inl (StoreFailed ''fcap: identity-field cross-product overflows'')
      else Inr (map (\<lambda>f. list_ex (\<lambda>i. IsCapped Hash now st i f) ids) fs))"
proof -
  let ?g = "\<lambda>i f. (identityKey Hash i, fieldString f)"
  let ?buf = "concat (map (\<lambda>i. map (?g i) fs) ids)"
  let ?r = "FieldExistsBatch now st ?buf"
  have at: "?r ! (i * length fs + j) = IsCapped Hash now st (ids ! i) (fs ! j)" if "i < length ids" "j < length fs" for i j
    using that cross_index_bound [of i "length ids" j "length fs"]
    by (simp add: FieldExistsBatch_def length_cross nth_cross IsCapped_def)
  have rows: "map (\<lambda>j. replicate (length fs) False ! j \<or> (\<exists>i\<in>set [0..<length ids]. ?r ! (i * length fs + j))) [0..<length fs] =
      map (\<lambda>f. list_ex (\<lambda>i. IsCapped Hash now st i f) ids) fs"
    by (rule nth_equalityI) (auto simp: at list_ex_iff in_set_conv_nth Bex_def)
  show ?thesis
    using fold_mark_rows [of "replicate (length fs) False" "length fs" "\<lambda>i j. ?r ! (i * length fs + j)" "[0..<length ids]"] rows
    by (auto simp: IsCappedAny_def Let_def map_replicate_const)
qed

text \<open>A batched cap check answers, field by field, whether at least one identity is capped on the field: the index
  arithmetic of the cross product confuses neither identities nor fields. No identity means no cap, a product that
  does not fit the integer range is refused, and an error of the store is passed on, never read as \<open>not capped\<close>.\<close>

theorem IsCappedAny_spec:
  "IsCappedAny Hash (\<lambda>q. Inr (FieldExistsBatch now st q)) ids fs =
     (if fs \<noteq> [] \<and> length ids > MaxInt div length fs
      then Inl (StoreFailed ''fcap: identity-field cross-product overflows'')
      else Inr (map (\<lambda>f. list_ex (\<lambda>i. IsCapped Hash now st i f) ids) fs)) \<and>
   (fs \<noteq> [] \<and> ids \<noteq> [] \<longrightarrow> isl (IsCappedAny Hash (\<lambda>q. Inl e) ids fs))"
proof -
  have "isl (IsCappedAny Hash (\<lambda>q. Inl e) ids fs)" if "fs \<noteq> [] \<and> ids \<noteq> []"
    using that by (simp add: IsCappedAny_def Let_def)
  then show ?thesis using IsCappedAny_eq by blast
qed

section \<open>Recording and reading caps\<close>

lemma fold_put: "fold (\<lambda>f m. m(f \<mapsto> v)) fs m g = (if g \<in> set fs then Some v else m g)"
  by (induction fs arbitrary: m) auto

lemma field_exists_SetFields:
  "field_exists now (SetFields k fs e st) k' f =
     (if k' = k \<and> f \<in> set fs then (case e of None \<Rightarrow> True | Some t \<Rightarrow> \<not> now > t) else field_exists now st k' f)"
  by (auto simp: field_exists_def SetFields_def fold_put)

lemma IsCapped_RecordCap:
  "IsCapped Hash now (RecordCap Hash u fs e st) u' f =
     (if Hash u' = Hash u \<and> fieldString f \<in> fieldString ` set fs
      then (case e of None \<Rightarrow> True | Some t \<Rightarrow> now \<le> t) else IsCapped Hash now st u' f)"
  by (auto simp: IsCapped_def RecordCap_def field_exists_SetFields identityKey_def not_less split: option.split)

lemma RecordCapBatch_fold:
  "RecordCapBatch Hash bs st = fold (\<lambda>b. RecordCap Hash (cb_user b) (cb_fields b) (cb_expire_at b)) bs st"
proof -
  let ?item = "\<lambda>b. (identityKey Hash (cb_user b), map fieldString (cb_fields b), cb_expire_at b)"
  have "SetFieldsBatch (map ?item (filter (\<lambda>b. cb_fields b \<noteq> []) bs)) st =
      fold (\<lambda>b. RecordCap Hash (cb_user b) (cb_fields b) (cb_expire_at b)) bs st"
    by (induction bs arbitrary: st) (auto simp: SetFieldsBatch_def RecordCap_def)
  then show ?thesis by (auto simp: RecordCapBatch_def SetFieldsBatch_def Let_def)
qed

text \<open>The field name is not a faithful encoding: the separator may occur in both parts.\<close>

lemma fieldString_ambiguous:
  "\<exists>f g. f_seller f \<noteq> f_seller g \<and> f_package f \<noteq> f_package g \<and> fieldString f = fieldString g"
  by (intro exI [of _ "\<lparr>f_seller = ''https://x'', f_package = ''8443:p''\<rparr>"]
      exI [of _ "\<lparr>f_seller = ''https://x:8443'', f_package = ''p''\<rparr>"]) (simp add: fieldString_def)

lemma fieldString_inj:
  "CHR '':'' \<notin> set (f_package f) \<Longrightarrow> CHR '':'' \<notin> set (f_package g) \<Longrightarrow> fieldString f = fieldString g \<longleftrightarrow> f = g"
proof -
  assume free: "CHR '':'' \<notin> set (f_package f)" "CHR '':'' \<notin> set (f_package g)"
  have "fieldString f = fieldString g \<longleftrightarrow> rev (fieldString f) = rev (fieldString g)" by simp
  also have "\<dots> \<longleftrightarrow> rev (f_package f) @ CHR '':'' # rev (f_seller f) = rev (f_package g) @ CHR '':'' # rev (f_seller g)"
    by (simp add: fieldString_def)
  also have "\<dots> \<longleftrightarrow> f = g" using free by (simp add: sep_inj) (auto intro: field.equality)
  finally show ?thesis .
qed

text \<open>A cap is seen exactly for the identities with the same hash and the fields with the same name, up to and
  including its expiry; nothing else changes, and a batch of caps is its caps one after the other.\<close>

theorem caps_read_back:
  "IsCapped Hash now (RecordCapBatch Hash (bs @ [b]) st) u f =
     (if Hash u = Hash (cb_user b) \<and> fieldString f \<in> fieldString ` set (cb_fields b)
      then (case cb_expire_at b of None \<Rightarrow> True | Some t \<Rightarrow> now \<le> t)
      else IsCapped Hash now (RecordCapBatch Hash bs st) u f)"
  by (simp add: RecordCapBatch_fold IsCapped_RecordCap)

section \<open>Audience updates\<close>

lemma fold_hset:
  "fold hset its st k f = (case map_of (rev (map (\<lambda>(k, f, v). ((k, f), v)) its)) (k, f) of None \<Rightarrow> st k f | Some v \<Rightarrow> Some v)"
  by (induction its arbitrary: st) (auto simp: hset_def map_add_def split: option.splits)

lemma fold_forget: "fold (\<lambda>f m. m(f := None)) fs m g = (if g \<in> set fs then None else m g)"
  by (induction fs arbitrary: m) auto

definition hdel_keys :: "(string \<times> string list) list \<Rightarrow> (string \<times> string) set" where
  "hdel_keys its = (\<Union>(k, fs)\<in>set its. Pair k ` set fs)"

lemma fold_hdel: "fold hdel its st k f = (if (k, f) \<in> hdel_keys its then None else st k f)"
proof (induction its arbitrary: st)
  case (Cons it its)
  obtain k' fs where it: "it = (k', fs)" by fastforce
  have *: "hdel it st k f = (if k' = k \<and> f \<in> set fs then None else st k f)"
    by (simp add: it hdel_def fold_forget)
  show ?case unfolding fold_simps comp_apply Cons.IH * by (auto simp: it hdel_keys_def)
qed (simp add: hdel_keys_def)

lemma hdel_keys_items: "hdel_keys (hdel_items Hash us) = set (removals Hash us)"
  by (force simp: hdel_keys_def hdel_items_def Let_def)

lemma hdel_keys_mono: "set its \<subseteq> set its' \<Longrightarrow> hdel_keys its \<subseteq> hdel_keys its'"
  by (auto simp: hdel_keys_def)

lemma hdel_items_Nil: "hdel_items Hash us = [] \<longleftrightarrow> removals Hash us = []"
  by (simp add: hdel_items_def Let_def)

lemma applied_part_set: "set (applied_part is items) \<subseteq> set items"
  by (auto simp: applied_part_def)

text \<open>The membership after a batch: what the batch adds it keeps, whatever it removes; what it only removes is gone.\<close>

definition adds :: "(string \<Rightarrow> string) \<Rightarrow> audience_upsert list \<Rightarrow> string \<Rightarrow> string \<Rightarrow> bool" where
  "adds Hash us t a = list_ex (\<lambda>u. up_audience u = a \<and> list_ex (\<lambda>(t', s). Hash t' = Hash t) (up_add u)) us"

definition drops :: "(string \<Rightarrow> string) \<Rightarrow> audience_upsert list \<Rightarrow> string \<Rightarrow> string \<Rightarrow> bool" where
  "drops Hash us t a = list_ex (\<lambda>u. up_audience u = a \<and> list_ex (\<lambda>t'. Hash t' = Hash t) (up_remove u)) us"

definition finite_scores :: "audience_upsert list \<Rightarrow> bool" where
  "finite_scores us = list_all (\<lambda>u. list_all (\<lambda>(t, score). score \<noteq> None) (up_add u)) us"

lemma finite_scores_iff: "finite_scores us \<longleftrightarrow> \<not> list_ex (\<lambda>u. list_ex (\<lambda>(t, score). score = None) (up_add u)) us"
  by (auto simp: finite_scores_def list_all_iff list_ex_iff split: prod.splits)

lemma hset_items_adds:
  "(\<exists>v. (userKey (Hash t), a, v) \<in> set (hset_items Hash us)) \<longleftrightarrow> adds Hash us t a"
  by (force simp: hset_items_def adds_def list_ex_iff userKey_def)

lemma removals_drops: "(userKey (Hash t), a) \<in> set (removals Hash us) \<longleftrightarrow> drops Hash us t a"
  by (auto simp: removals_def drops_def list_ex_iff userKey_def image_iff) metis+

lemma fold_hset_member:
  "(fold hset its st k f \<noteq> None) \<longleftrightarrow> (\<exists>v. (k, f, v) \<in> set its) \<or> st k f \<noteq> None"
  by (induction its arbitrary: st) (auto simp: hset_def split: if_splits)

lemma UpsertBatch_ok:
  "finite_scores us \<Longrightarrow>
   UpsertBatch Hash None None us st = (fold hset (hset_items Hash us) (fold hdel (hdel_items Hash us) st), None)"
  by (auto simp: UpsertBatch_def finite_scores_iff Let_def HSetBatch_def HDelBatch_def)
    (simp_all add: hset_items_def hdel_items_def removals_def)

lemma UpsertBatch_refused: "us \<noteq> [] \<Longrightarrow> \<not> finite_scores us \<Longrightarrow> UpsertBatch Hash df sf us st = (st, Some ''audience: non-finite score'')"
  by (simp add: UpsertBatch_def finite_scores_iff)

definition touched :: "(string \<Rightarrow> string) \<Rightarrow> audience_upsert list \<Rightarrow> string \<Rightarrow> string \<Rightarrow> bool" where
  "touched Hash us k f \<longleftrightarrow> (k, f) \<in> set (removals Hash us) \<or> (k, f) \<in> (\<lambda>(k, f, v). (k, f)) ` set (hset_items Hash us)"

definition agree_outside :: "(string \<Rightarrow> string) \<Rightarrow> audience_upsert list \<Rightarrow> audience_store \<Rightarrow> audience_store \<Rightarrow> bool" where
  "agree_outside Hash us st st' \<longleftrightarrow> (\<forall>k f. \<not> touched Hash us k f \<longrightarrow> st' k f = st k f)"

lemma fold_hset_other:
  "set its \<subseteq> set (hset_items Hash us) \<Longrightarrow> agree_outside Hash us st (fold hset its st)"
proof (unfold agree_outside_def, intro allI impI)
  fix k f assume sub: "set its \<subseteq> set (hset_items Hash us)" and "\<not> touched Hash us k f"
  then have "(k, f) \<notin> (\<lambda>(k, f, v). (k, f)) ` set its" unfolding touched_def by blast
  then show "fold hset its st k f = st k f"
    by (induction its arbitrary: st) (auto simp: hset_def split: if_splits)
qed

lemma fold_hdel_other:
  "set its \<subseteq> set (hdel_items Hash us) \<Longrightarrow> agree_outside Hash us st (fold hdel its st)"
proof (unfold agree_outside_def, intro allI impI)
  fix k f assume sub: "set its \<subseteq> set (hdel_items Hash us)" and "\<not> touched Hash us k f"
  then have "(k, f) \<notin> hdel_keys its"
    using hdel_keys_mono [OF sub] by (auto simp: touched_def hdel_keys_items)
  then show "fold hdel its st k f = st k f" by (simp add: fold_hdel)
qed

lemma agree_trans: "agree_outside Hash us a b \<Longrightarrow> agree_outside Hash us b c \<Longrightarrow> agree_outside Hash us a c"
  by (simp add: agree_outside_def)

lemma agree_refl: "agree_outside Hash us a a"
  by (simp add: agree_outside_def)

lemma UpsertBatch_touches: "agree_outside Hash us st (fst (UpsertBatch Hash df sf us st))"
proof -
  have del: "agree_outside Hash us st (fst (HDelBatch df (hdel_items Hash us) st))"
    by (cases df) (auto simp: HDelBatch_def intro: fold_hdel_other [OF subset_refl] fold_hdel_other [OF applied_part_set])
  have set: "agree_outside Hash us a (fst (HSetBatch sf (hset_items Hash us) a))" for a
    by (cases sf) (auto simp: HSetBatch_def intro: fold_hset_other [OF subset_refl] fold_hset_other [OF applied_part_set])
  show ?thesis
    using del set agree_trans [OF del set] agree_refl
    by (auto simp: UpsertBatch_def Let_def split: prod.split option.split)
qed

lemma batch_absorbs:
  assumes "agree_outside Hash us st st'"
  shows "fold hset (hset_items Hash us) (fold hdel (hdel_items Hash us) st') =
    fold hset (hset_items Hash us) (fold hdel (hdel_items Hash us) st)"
proof (intro ext)
  fix k f
  show "fold hset (hset_items Hash us) (fold hdel (hdel_items Hash us) st') k f =
      fold hset (hset_items Hash us) (fold hdel (hdel_items Hash us) st) k f"
  proof (cases "touched Hash us k f")
    case False
    then have "fold hdel (hdel_items Hash us) st' k f = fold hdel (hdel_items Hash us) st k f"
      using assms by (simp add: fold_hdel agree_outside_def)
    then show ?thesis unfolding fold_hset by (simp split: option.split)
  next
    case True
    show ?thesis
    proof (cases "(k, f) \<in> set (removals Hash us)")
      case False
      with True have "map_of (rev (map (\<lambda>(k, f, v). ((k, f), v)) (hset_items Hash us))) (k, f) \<noteq> None"
        by (simp add: touched_def map_of_eq_None_iff image_image split_def)
      then show ?thesis unfolding fold_hset by (auto split: option.split)
    qed (simp add: fold_hset fold_hdel hdel_keys_items split: option.split)
  qed
qed

text \<open>After a batch the members of an audience are those it adds and those it did not remove, so an addition wins
  over a removal in one batch. A batch that fails halfway, whatever part of its deletions and insertions it has applied,
  touches no other membership, and repeating it ends in the state an undisturbed run would have reached.\<close>

theorem UpsertBatch_converges:
  "(finite_scores us \<longrightarrow>
      is_member Hash (fst (UpsertBatch Hash None None us st)) t a =
        (adds Hash us t a \<or> is_member Hash st t a \<and> \<not> drops Hash us t a)) \<and>
   fst (UpsertBatch Hash None None us (fst (UpsertBatch Hash df sf us st))) = fst (UpsertBatch Hash None None us st) \<and>
   (is_member Hash (fst (UpsertBatch Hash df sf us st)) t a \<noteq> is_member Hash st t a \<longrightarrow>
      adds Hash us t a \<or> drops Hash us t a)"
proof (intro conjI impI)
  show "is_member Hash (fst (UpsertBatch Hash None None us st)) t a =
       (adds Hash us t a \<or> is_member Hash st t a \<and> \<not> drops Hash us t a)" if "finite_scores us"
    unfolding is_member_def UpsertBatch_ok [OF that] fst_conv fold_hset_member
    by (auto simp: hset_items_adds fold_hdel hdel_keys_items removals_drops)
  show "fst (UpsertBatch Hash None None us (fst (UpsertBatch Hash df sf us st))) = fst (UpsertBatch Hash None None us st)"
  proof (cases "finite_scores us")
    case True
    then show ?thesis by (simp add: UpsertBatch_ok batch_absorbs [OF UpsertBatch_touches])
  next
    case False
    then have "us \<noteq> []" by (auto simp: finite_scores_def)
    with False show ?thesis by (simp add: UpsertBatch_refused)
  qed
  show "adds Hash us t a \<or> drops Hash us t a"
    if "is_member Hash (fst (UpsertBatch Hash df sf us st)) t a \<noteq> is_member Hash st t a"
  proof -
    have "touched Hash us (userKey (Hash t)) a"
      using that UpsertBatch_touches [of Hash us st df sf] unfolding agree_outside_def is_member_def by metis
    then show ?thesis
      unfolding touched_def removals_drops hset_items_adds [symmetric] by auto
  qed
qed

lemma Memberships_dom: "Memberships Hash ParseFloat st t a \<noteq> None \<longleftrightarrow> is_member Hash st t a"
  by (simp add: Memberships_def decodeScoreMap_def HGetAll_def is_member_def)

section \<open>The audience engine decides by the full membership\<close>

text \<open>The members of the in-memory store, asked in one batch.\<close>

definition store_members ::
  "(string \<Rightarrow> string) \<Rightarrow> audience_store \<Rightarrow> (string \<times> string) list \<Rightarrow> store_error + bool list" where
  "store_members Hash st = IsMemberBatch Hash (\<lambda>q. Inr (map (hexists st) q))"

lemma store_members_eq: "store_members Hash st q = Inr (map (\<lambda>(u, a). is_member Hash st u a) q)"
  by (auto simp: store_members_def IsMemberBatch_def is_member_def hexists_def split_def)

lemma set_index_filter:
  "set (map (\<lambda>i. g (xs ! i)) (filter (\<lambda>i. map P xs ! i) [0..<length xs])) = g ` {x \<in> set xs. P x}"
proof -
  have "{i \<in> set [0..<length xs]. map P xs ! i} = {i. i < length xs \<and> P (xs ! i)}" by auto
  moreover have "{x \<in> set xs. P x} = (!) xs ` {i. i < length xs \<and> P (xs ! i)}" by (force simp: set_conv_nth)
  ultimately show ?thesis by (simp only: set_map set_filter image_image)
qed

lemma resolveUserSegments_members:
  "\<exists>segs'. resolveUserSegments (Some (store_members Hash st)) users segs = Inr segs' \<and>
     set segs' = {s \<in> set segs. \<exists>u\<in>set users. is_member Hash st u s}"
proof -
  let ?ls = "concat (map (\<lambda>u. map (Pair u) segs) users)"
  let ?r = "map (\<lambda>(u, a). is_member Hash st u a) ?ls"
  have "set (map (\<lambda>i. snd (?ls ! i)) (filter (\<lambda>i. ?r ! i) [0..<length ?ls])) =
      snd ` {l \<in> set ?ls. is_member Hash st (fst l) (snd l)}"
    using set_index_filter [of snd ?ls "\<lambda>(u, a). is_member Hash st u a"] by (simp add: split_def)
  also have "\<dots> = {s \<in> set segs. \<exists>u\<in>set users. is_member Hash st u s}" by force
  finally show ?thesis by (auto simp: resolveUserSegments_def store_members_eq Let_def)
qed

lemma has_rule: "cfgs p \<noteq> None \<and> \<not> rule_IsEmpty (target_of cfgs p) \<longleftrightarrow> \<not> rule_IsEmpty (target_of cfgs p)"
  by (auto simp: target_of_def rule_IsEmpty_def split: option.split)

lemma engine_full_membership:
  "EvaluateIdentityResolved (Some (store_members Hash st)) cfgs users pkgs =
     Inr (map (\<lambda>p. (p, rule_holds (target_of cfgs p) (\<lambda>s. \<exists>u\<in>set users. is_member Hash st u s))) pkgs)"
proof -
  let ?M = "\<lambda>s. \<exists>u\<in>set users. is_member Hash st u s"
  obtain segs where segs: "resolveUserSegments (Some (store_members Hash st)) users (collectTargetSegments cfgs pkgs) = Inr segs"
    "set segs = {s \<in> set (collectTargetSegments cfgs pkgs). ?M s}"
    using resolveUserSegments_members by blast
  have "rule_Matches (target_of cfgs p) segs \<longleftrightarrow> rule_holds (target_of cfgs p) ?M" if "p \<in> set pkgs" for p
    using that by (intro rule_Matches_holds) (auto simp: segs set_collectTargetSegments)
  then show ?thesis
    by (simp only: EvaluateIdentityResolved_def segs sum.case has_rule) (simp add: rule_holds_empty)
qed

lemma engine_blind:
  "EvaluateIdentityResolved None cfgs users pkgs = Inr (map (\<lambda>p. (p, rule_IsEmpty (target_of cfgs p))) pkgs)"
  by (simp only: EvaluateIdentityResolved_def resolveUserSegments_def option.case sum.case has_rule) simp

lemma engine_fails:
  assumes "users \<noteq> []" "list_ex (\<lambda>p. \<not> rule_IsEmpty (target_of cfgs p)) pkgs"
  shows "EvaluateIdentityResolved (Some (\<lambda>q. Inl e)) cfgs users pkgs = Inl e"
proof -
  from assms(2) obtain p where "p \<in> set pkgs" "\<not> rule_IsEmpty (target_of cfgs p)" by (auto simp: list_ex_iff)
  then have "set (collectTargetSegments cfgs pkgs) \<noteq> {}"
    by (auto simp: set_collectTargetSegments simp flip: Segments_empty)
  with assms(1) show ?thesis by (auto simp: EvaluateIdentityResolved_def resolveUserSegments_def Let_def)
qed

text \<open>C34: with a healthy audience store a package is eligible exactly when its rule holds of everything the store knows
  about any identity of the request, although only the segments the requested rules mention are looked up. Without an
  audience service exactly the packages without a rule are eligible, and a failing store gives the error, never a
  membership of nothing.\<close>

theorem EvaluateIdentityResolved_full:
  "EvaluateIdentityResolved (Some (store_members Hash st)) cfgs users pkgs =
     Inr (map (\<lambda>p. (p, rule_holds (target_of cfgs p) (\<lambda>s. \<exists>u\<in>set users. is_member Hash st u s))) pkgs) \<and>
   EvaluateIdentityResolved None cfgs users pkgs = Inr (map (\<lambda>p. (p, rule_IsEmpty (target_of cfgs p))) pkgs) \<and>
   (users \<noteq> [] \<and> list_ex (\<lambda>p. \<not> rule_IsEmpty (target_of cfgs p)) pkgs \<longrightarrow>
      EvaluateIdentityResolved (Some (\<lambda>q. Inl e)) cfgs users pkgs = Inl e)"
  using engine_full_membership engine_blind engine_fails by blast

section \<open>Witnesses\<close>

theorem IsCappedAny_spec_witness:
  "isl (IsCappedAny id (\<lambda>q. Inl Canceled) [''u''] [\<lparr>f_seller = ''s'', f_package = ''p''\<rparr>])"
  using IsCappedAny_spec [of id 0 "\<lambda>_. Map.empty" "[''u'']" "[\<lparr>f_seller = ''s'', f_package = ''p''\<rparr>]" Canceled] by blast

definition sample_upserts :: "audience_upsert list" where
  "sample_upserts = [\<lparr>up_audience = ''a'', up_add = [(''u'', Some ''0'')], up_remove = [''u'', ''v'']\<rparr>]"

definition sample_members :: audience_store where
  "sample_members = (\<lambda>_. Map.empty)(''audience:user:v'' := [''a'' \<mapsto> ''0''])"

theorem UpsertBatch_converges_witness:
  "is_member id (fst (UpsertBatch id None None sample_upserts sample_members)) ''u'' ''a'' \<and>
   \<not> is_member id (fst (UpsertBatch id None None sample_upserts sample_members)) ''v'' ''a''"
proof -
  have "finite_scores sample_upserts" "adds id sample_upserts ''u'' ''a''" "\<not> adds id sample_upserts ''v'' ''a''"
    "drops id sample_upserts ''v'' ''a''"
    by code_simp+
  then show ?thesis
    using UpsertBatch_converges [of sample_upserts id sample_members "''u''" "''a''" None None]
      UpsertBatch_converges [of sample_upserts id sample_members "''v''" "''a''" None None] by blast
qed

definition sample_configs :: id_configs where
  "sample_configs = [''p'' \<mapsto> \<lparr>TargetSegments = Some \<lparr>all_of = [], some_of = [], none_of_segs = [''a'']\<rparr>,
     RequiresVerifiedIdentity = False\<rparr>]"

theorem EvaluateIdentityResolved_full_witness:
  "EvaluateIdentityResolved (Some (\<lambda>q. Inl DeadlineExceeded)) sample_configs [''v''] [''p'', ''q''] = Inl DeadlineExceeded"
proof -
  have "list_ex (\<lambda>p. \<not> rule_IsEmpty (target_of sample_configs p)) [''p'', ''q'']" by code_simp
  then show ?thesis using EvaluateIdentityResolved_full [of id sample_members sample_configs "[''v'']" "[''p'', ''q'']"] by blast
qed

end
