(* ===== verification/Verified_Identity.thy ===== *)
theory Verified_Identity
  imports Identity_Targeting
begin

text \<open>
  Verified identities: the receiver that trusts no attestation before a verifier has accepted it
  (\<^verbatim>\<open>src/targeting/verified_identity.go\<close>, \<^verbatim>\<open>verified_identity_receiver.go\<close>) and the stage of the identity agent
  built on it (\<^verbatim>\<open>identityagent/verified_identity_stage.go\<close>). The verifier, the opening of a sealed payload with the
  decoding of its plaintext, the parser of expiry times and the age policy are parameters.
\<close>

section \<open>Identities and claims\<close>

text \<open>A claim set is a list of which only membership matters.\<close>

record verified_identity =
  vi_nullifier :: string
  vi_relying_party :: string
  vi_claims :: "string list"

definition CapKey :: "verified_identity \<Rightarrow> string" where
  "CapKey vi = ''vid:'' @ vi_relying_party vi @ '':'' @ vi_nullifier vi"

record verify_context =
  v_request_id :: string
  v_country :: string
  v_expected_rp :: string
  v_now :: time

type_synonym verifier = "attestation \<Rightarrow> verify_context \<Rightarrow> verified_identity option"

definition closed_claims :: "string list" where
  "closed_claims = [''unique_human'', ''age_over_13'', ''age_over_16'', ''age_over_18'', ''age_over_21'']"

definition IsClosedClaim :: "string \<Rightarrow> bool" where
  "IsClosedClaim c \<longleftrightarrow> c \<in> set closed_claims"

definition NormalizeClaims :: "string list \<Rightarrow> string list" where
  "NormalizeClaims claims = filter IsClosedClaim claims"

text \<open>\<^verbatim>\<open>strconv.Atoi\<close>: an optional sign, decimal digits, a 64-bit range.\<close>

definition Atoi :: "string \<Rightarrow> int option" where
  "Atoi s =
     (let neg = has_prefix s ''-''; ds = (if neg \<or> has_prefix s ''+'' then tl s else s);
          v = (if neg then - int (digits_value ds) else int (digits_value ds)) in
      if ds = '''' \<or> \<not> list_all is_digit ds \<or> v < - (2 ^ 63) \<or> v \<ge> 2 ^ 63 then None else Some v)"

definition parseAgeOver :: "string \<Rightarrow> int option" where
  "parseAgeOver c = (case cut_prefix c ''age_over_'' of None \<Rightarrow> None | Some n \<Rightarrow> Atoi n)"

definition ClaimsSatisfy :: "verified_identity \<Rightarrow> string \<Rightarrow> bool" where
  "ClaimsSatisfy vi required \<longleftrightarrow>
     (if required \<in> set (vi_claims vi) then True
      else case parseAgeOver required of
          None \<Rightarrow> False
        | Some want \<Rightarrow> list_ex (\<lambda>c. case parseAgeOver c of None \<Rightarrow> False | Some got \<Rightarrow> got \<ge> want) (vi_claims vi))"

section \<open>Checks before and after the verifier\<close>

definition LocalPreCheck :: "(string \<Rightarrow> time option) \<Rightarrow> attestation \<Rightarrow> verify_context \<Rightarrow> string option" where
  "LocalPreCheck parse_time att vctx =
     (if att_signal_binding att = '''' then Some ''no_binding''
      else if att_expires_at att \<noteq> '''' \<and>
        (case parse_time (att_expires_at att) of None \<Rightarrow> True | Some t \<Rightarrow> \<not> t > v_now vctx) then Some ''expired''
      else if v_expected_rp vctx = '''' \<or> att_relying_party_id att \<noteq> v_expected_rp vctx then Some ''rp_mismatch''
      else None)"

text \<open>What an observer is told.\<close>

datatype credential_event = Dropped string | VerifierFailed

definition verifyOne ::
  "(string \<Rightarrow> time option) \<Rightarrow> verifier \<Rightarrow> attestation \<Rightarrow> verify_context \<Rightarrow>
   verified_identity option \<times> credential_event list" where
  "verifyOne parse_time Verify att vctx =
     (case LocalPreCheck parse_time att vctx of
        Some reason \<Rightarrow> (None, [Dropped reason])
      | None \<Rightarrow>
          (case Verify att vctx of
             None \<Rightarrow> (None, [VerifierFailed])
           | Some vi \<Rightarrow>
               if vi_relying_party vi \<noteq> v_expected_rp vctx then (None, [Dropped ''rp_mismatch_postverify''])
               else (Some (vi\<lparr>vi_claims := NormalizeClaims (vi_claims vi)\<rparr>), [])))"

section \<open>The two carriers\<close>

record recipient_key =
  rk_private :: string
  rk_relying_party :: string

definition MaxSealedCredentials :: nat where "MaxSealedCredentials = 8"
definition MaxSealedPayloadBytes :: nat where "MaxSealedPayloadBytes = 8192"

definition receive_credential ::
  "(string \<Rightarrow> time option) \<Rightarrow> (string \<Rightarrow> string \<Rightarrow> attestation option) \<Rightarrow> verifier \<Rightarrow> (string \<times> recipient_key) list \<Rightarrow>
   verify_context \<Rightarrow> sealed_credential \<Rightarrow> verified_identity option \<times> credential_event list" where
  "receive_credential parse_time Open Verify keys vctx c =
     (if audience_kid c = '''' \<or> payload c = '''' then (None, [Dropped ''malformed_sealed''])
      else case map_of keys (audience_kid c) of
          None \<Rightarrow> (None, [])
        | Some rk \<Rightarrow>
            if length (payload c) > MaxSealedPayloadBytes then (None, [Dropped ''open_failed''])
            else (case Open (rk_private rk) (payload c) of
                None \<Rightarrow> (None, [Dropped ''open_failed''])
              | Some att \<Rightarrow> verifyOne parse_time Verify att (vctx\<lparr>v_expected_rp := rk_relying_party rk\<rparr>)))"

definition OpenAndVerify ::
  "(string \<Rightarrow> time option) \<Rightarrow> (string \<Rightarrow> string \<Rightarrow> attestation option) \<Rightarrow> verifier option \<Rightarrow>
   (string \<times> recipient_key) list \<Rightarrow> sealed_credential list \<Rightarrow> verify_context \<Rightarrow>
   verified_identity list \<times> credential_event list" where
  "OpenAndVerify parse_time Open verifier keys creds vctx =
     (case verifier of
        None \<Rightarrow> ([], [])
      | Some Verify \<Rightarrow>
          if keys = [] \<or> creds = [] then ([], [])
          else
            let answers = map (receive_credential parse_time Open Verify keys vctx)
              (if length creds > MaxSealedCredentials then take MaxSealedCredentials creds else creds) in
            (List.map_filter fst answers, concat (map snd answers)))"

definition VerifyAttestations ::
  "(string \<Rightarrow> time option) \<Rightarrow> verifier option \<Rightarrow> identity_token list \<Rightarrow> verify_context \<Rightarrow>
   verified_identity list \<times> credential_event list" where
  "VerifyAttestations parse_time verifier ids vctx =
     (case verifier of
        None \<Rightarrow> ([], [])
      | Some Verify \<Rightarrow>
          if v_expected_rp vctx = '''' \<or> ids = [] then ([], [])
          else
            let answers = map (\<lambda>i. case attestation_of i of
                None \<Rightarrow> (None, [])
              | Some att \<Rightarrow> verifyOne parse_time Verify att vctx) ids in
            (List.map_filter fst answers, concat (map snd answers)))"

section \<open>The gate\<close>

record requirement =
  RequiresVerifiedHuman :: bool
  RequiresAge :: bool
  RequiredAge :: string

definition rejects_verified :: "requirement \<Rightarrow> verified_identity list \<Rightarrow> bool" where
  "rejects_verified r verified \<longleftrightarrow>
     (if \<not> RequiresVerifiedHuman r \<and> \<not> RequiresAge r then False
      else if verified = [] then True
      else RequiresAge r \<and> \<not> list_ex (\<lambda>vi. ClaimsSatisfy vi (RequiredAge r)) verified)"

definition RejectByVerifiedIdentity :: "(string \<times> requirement) list \<Rightarrow> verified_identity list \<Rightarrow> string list" where
  "RejectByVerifiedIdentity reqs verified = map fst (filter (\<lambda>(p, r). rejects_verified r verified) reqs)"

section \<open>The stage of the identity agent\<close>

record vid_service =
  vs_verifier :: "verifier option"
  vs_recipient_keys :: "(string \<times> recipient_key) list"
  vs_relying_party :: string
  vs_age_resolver :: "(string \<Rightarrow> string \<Rightarrow> string option) option"

datatype stage_outcome = OutcomePass | OutcomeFail | OutcomeTimeout | OutcomeError | OutcomeCanceled | OutcomeUndecodable

definition runVerifiedIdentityStage ::
  "(string \<Rightarrow> time option) \<Rightarrow> (string \<Rightarrow> string \<Rightarrow> attestation option) \<Rightarrow> time \<Rightarrow> vid_service \<Rightarrow> identity_request \<Rightarrow>
   verified_identity list \<times> stage_outcome" where
  "runVerifiedIdentityStage parse_time Open now s req =
     (if Option.is_none (vs_verifier s) then ([], OutcomePass)
      else
        let sealed = vs_recipient_keys s \<noteq> [] \<and> im_sealed_credentials req \<noteq> [];
            inband = vs_relying_party s \<noteq> '''' \<and> im_identities req \<noteq> [] in
        if \<not> sealed \<and> \<not> inband then ([], OutcomePass)
        else
          let vctx = \<lparr>v_request_id = im_request_id req, v_country = im_country req, v_expected_rp = '''', v_now = now\<rparr>;
              (vs1, ev1) = (if sealed
                then OpenAndVerify parse_time Open (vs_verifier s) (vs_recipient_keys s) (im_sealed_credentials req) vctx
                else ([], []));
              (vs2, ev2) = (if inband
                then VerifyAttestations parse_time (vs_verifier s) (im_identities req) (vctx\<lparr>v_expected_rp := vs_relying_party s\<rparr>)
                else ([], [])) in
          (vs1 @ vs2, if VerifierFailed \<in> set (ev1 @ ev2) then OutcomeError else OutcomePass))"

definition package_requirement ::
  "vid_service \<Rightarrow> string \<Rightarrow> id_configs \<Rightarrow> string \<Rightarrow> requirement" where
  "package_requirement s country cfgs p =
     (let human = (case cfgs p of None \<Rightarrow> False | Some c \<Rightarrow> RequiresVerifiedIdentity c) in
      case vs_age_resolver s of
        None \<Rightarrow> \<lparr>RequiresVerifiedHuman = human, RequiresAge = False, RequiredAge = ''''\<rparr>
      | Some resolve \<Rightarrow>
          (case resolve p country of
             None \<Rightarrow> \<lparr>RequiresVerifiedHuman = human, RequiresAge = False, RequiredAge = ''''\<rparr>
           | Some claim \<Rightarrow> \<lparr>RequiresVerifiedHuman = human, RequiresAge = True, RequiredAge = claim\<rparr>))"

definition computeVerifiedIdentityGate ::
  "vid_service \<Rightarrow> identity_request \<Rightarrow> id_configs \<Rightarrow> string list \<Rightarrow> verified_identity list \<Rightarrow> string list" where
  "computeVerifiedIdentityGate s req cfgs pkgs verified =
     RejectByVerifiedIdentity (map (\<lambda>p. (p, package_requirement s (im_country req) cfgs p)) pkgs) verified"

section \<open>No trust without verification\<close>

text \<open>What makes an attestation count for a relying party: the local checks pass, the verifier accepts it and binds it
  to the same party, and the identity keeps only claims of the closed vocabulary.\<close>

definition accepted ::
  "(string \<Rightarrow> time option) \<Rightarrow> verifier \<Rightarrow> attestation \<Rightarrow> verify_context \<Rightarrow> verified_identity \<Rightarrow> bool" where
  "accepted parse_time Verify att vctx vi \<longleftrightarrow>
     att_signal_binding att \<noteq> '''' \<and>
     (att_expires_at att = '''' \<or> (\<exists>t. parse_time (att_expires_at att) = Some t \<and> v_now vctx < t)) \<and>
     v_expected_rp vctx \<noteq> '''' \<and> att_relying_party_id att = v_expected_rp vctx \<and>
     (\<exists>vi'. Verify att vctx = Some vi' \<and> vi_relying_party vi' = v_expected_rp vctx \<and>
        vi = vi'\<lparr>vi_claims := filter IsClosedClaim (vi_claims vi')\<rparr>)"

lemma LocalPreCheck_None:
  "LocalPreCheck parse_time att vctx = None \<longleftrightarrow>
     att_signal_binding att \<noteq> '''' \<and>
     (att_expires_at att = '''' \<or> (\<exists>t. parse_time (att_expires_at att) = Some t \<and> v_now vctx < t)) \<and>
     v_expected_rp vctx \<noteq> '''' \<and> att_relying_party_id att = v_expected_rp vctx"
  by (auto simp: LocalPreCheck_def split: option.splits)

lemma verifyOne_accepted: "fst (verifyOne parse_time Verify att vctx) = Some vi \<longleftrightarrow> accepted parse_time Verify att vctx vi"
  using LocalPreCheck_None [of parse_time att vctx]
  by (auto simp: verifyOne_def accepted_def NormalizeClaims_def split: option.splits)

text \<open>The attestations a request carries for this receiver, with the party each is to be checked against.\<close>

definition sealed_for ::
  "(string \<Rightarrow> string \<Rightarrow> attestation option) \<Rightarrow> (string \<times> recipient_key) list \<Rightarrow> sealed_credential list \<Rightarrow>
   attestation \<Rightarrow> string \<Rightarrow> bool" where
  "sealed_for Open keys creds att rp \<longleftrightarrow>
     (\<exists>c\<in>set (take MaxSealedCredentials creds). \<exists>rk. audience_kid c \<noteq> '''' \<and> payload c \<noteq> '''' \<and>
        length (payload c) \<le> MaxSealedPayloadBytes \<and> map_of keys (audience_kid c) = Some rk \<and>
        Open (rk_private rk) (payload c) = Some att \<and> rp = rk_relying_party rk)"

definition carried ::
  "(string \<Rightarrow> string \<Rightarrow> attestation option) \<Rightarrow> vid_service \<Rightarrow> identity_request \<Rightarrow> attestation \<Rightarrow> string \<Rightarrow> bool" where
  "carried Open s req att rp \<longleftrightarrow>
     sealed_for Open (vs_recipient_keys s) (im_sealed_credentials req) att rp \<or>
     (\<exists>i\<in>set (im_identities req). attestation_of i = Some att) \<and> rp = vs_relying_party s"

lemma set_map_filter: "set (List.map_filter f xs) = {y. \<exists>x\<in>set xs. f x = Some y}"
  by (force simp: List.map_filter_def)

lemma length_map_filter: "length (List.map_filter f xs) \<le> length xs"
  by (simp add: List.map_filter_def le_trans [OF length_filter_le])

lemma receive_credential_accepted:
  "fst (receive_credential parse_time Open Verify keys vctx c) = Some vi \<longleftrightarrow>
     (\<exists>rk att. audience_kid c \<noteq> '''' \<and> payload c \<noteq> '''' \<and> length (payload c) \<le> MaxSealedPayloadBytes \<and>
        map_of keys (audience_kid c) = Some rk \<and> Open (rk_private rk) (payload c) = Some att \<and>
        accepted parse_time Verify att (vctx\<lparr>v_expected_rp := rk_relying_party rk\<rparr>) vi)"
  by (auto simp: receive_credential_def verifyOne_accepted not_less split: option.split)

lemma OpenAndVerify_set:
  "vi \<in> set (fst (OpenAndVerify parse_time Open (Some Verify) keys creds vctx)) \<longleftrightarrow>
     (\<exists>att rp. sealed_for Open keys creds att rp \<and> accepted parse_time Verify att (vctx\<lparr>v_expected_rp := rp\<rparr>) vi)"
proof -
  have all: "(if length creds > MaxSealedCredentials then take MaxSealedCredentials creds else creds) = take MaxSealedCredentials creds"
    by simp
  show ?thesis
    unfolding OpenAndVerify_def all
    by (auto simp: Let_def List.map_filter_simps(1) set_map_filter receive_credential_accepted sealed_for_def)
qed

lemma OpenAndVerify_bounded: "length (fst (OpenAndVerify parse_time Open verifier keys creds vctx)) \<le> MaxSealedCredentials"
  by (auto simp: OpenAndVerify_def Let_def min_def split: option.split
      intro: le_trans [OF length_map_filter])

lemma VerifyAttestations_set:
  "vi \<in> set (fst (VerifyAttestations parse_time (Some Verify) ids vctx)) \<longleftrightarrow>
     (\<exists>i\<in>set ids. \<exists>att. attestation_of i = Some att \<and> accepted parse_time Verify att vctx vi)"
proof (cases "v_expected_rp vctx = '''' \<or> ids = []")
  case True
  then show ?thesis by (auto simp: VerifyAttestations_def accepted_def)
next
  case False
  then show ?thesis
    by (auto simp: VerifyAttestations_def Let_def set_map_filter verifyOne_accepted split: option.splits)
qed

text \<open>C30: a sealed credential yields a verified identity exactly when it is one of the first eight, its envelope is
  complete and within the size limit, a held key opens it, the opened attestation is bound to the request, not expired
  and for the party of that very key, and the verifier accepts it for that party; of its claims only the closed ones
  survive. At most eight identities come back, and none at all without a verifier.\<close>

theorem OpenAndVerify_sound:
  "(vi \<in> set (fst (OpenAndVerify parse_time Open (Some Verify) keys creds vctx)) \<longleftrightarrow>
      (\<exists>att rp. sealed_for Open keys creds att rp \<and> accepted parse_time Verify att (vctx\<lparr>v_expected_rp := rp\<rparr>) vi)) \<and>
   length (fst (OpenAndVerify parse_time Open verifier keys creds vctx)) \<le> 8 \<and>
   OpenAndVerify parse_time Open None keys creds vctx = ([], [])"
  using OpenAndVerify_bounded [of parse_time Open verifier keys creds vctx]
  by (simp add: OpenAndVerify_set) (simp add: MaxSealedCredentials_def OpenAndVerify_def)

lemma stage_verified_set:
  assumes "vs_verifier s = Some Verify"
  shows "vi \<in> set (fst (runVerifiedIdentityStage parse_time Open now s req)) \<longleftrightarrow>
    (\<exists>att rp. carried Open s req att rp \<and>
       accepted parse_time Verify att
         \<lparr>v_request_id = im_request_id req, v_country = im_country req, v_expected_rp = rp, v_now = now\<rparr> vi)"
proof -
  let ?vctx = "\<lparr>v_request_id = im_request_id req, v_country = im_country req, v_expected_rp = '''', v_now = now\<rparr>"
  let ?o = "OpenAndVerify parse_time Open (Some Verify) (vs_recipient_keys s) (im_sealed_credentials req) ?vctx"
  let ?v = "VerifyAttestations parse_time (Some Verify) (im_identities req) (?vctx\<lparr>v_expected_rp := vs_relying_party s\<rparr>)"
  have off: "?o = ([], [])" if "vs_recipient_keys s = [] \<or> im_sealed_credentials req = []"
    using that by (auto simp: OpenAndVerify_def)
  have off': "?v = ([], [])" if "vs_relying_party s = '''' \<or> im_identities req = []"
    using that by (auto simp: VerifyAttestations_def)
  have "fst (runVerifiedIdentityStage parse_time Open now s req) = fst ?o @ fst ?v"
    using assms off off' by (auto simp: runVerifiedIdentityStage_def Let_def split_def)
  then have "vi \<in> set (fst (runVerifiedIdentityStage parse_time Open now s req)) \<longleftrightarrow> vi \<in> set (fst ?o) \<or> vi \<in> set (fst ?v)"
    by simp
  also have "\<dots> \<longleftrightarrow> (\<exists>att rp. carried Open s req att rp \<and>
      accepted parse_time Verify att (?vctx\<lparr>v_expected_rp := rp\<rparr>) vi)"
    unfolding OpenAndVerify_set VerifyAttestations_set carried_def by auto
  finally show ?thesis by simp
qed

lemma stage_without_verifier: "vs_verifier s = None \<Longrightarrow> runVerifiedIdentityStage parse_time Open now s req = ([], OutcomePass)"
  by (simp add: runVerifiedIdentityStage_def)

lemma gate_set:
  "p \<in> set (computeVerifiedIdentityGate s req cfgs pkgs verified) \<longleftrightarrow>
     p \<in> set pkgs \<and> rejects_verified (package_requirement s (im_country req) cfgs p) verified"
  by (force simp: computeVerifiedIdentityGate_def RejectByVerifiedIdentity_def)

definition demands :: "requirement \<Rightarrow> bool" where
  "demands r \<longleftrightarrow> RequiresVerifiedHuman r \<or> RequiresAge r"

lemma rejects_iff:
  "rejects_verified r verified \<longleftrightarrow>
     demands r \<and> \<not> (\<exists>vi\<in>set verified. RequiresAge r \<longrightarrow> ClaimsSatisfy vi (RequiredAge r))"
  by (cases verified) (auto simp: rejects_verified_def demands_def list_ex_iff)

text \<open>The gate rejects a package exactly when it demands a verified human or an age and no attestation of the
  request, sealed or in band, is accepted by the verifier with the demanded claim. In particular nothing passes a
  demand without a verifier.\<close>

theorem verified_gate_exact:
  assumes "r = package_requirement s (im_country req) cfgs p"
    and "verified = fst (runVerifiedIdentityStage parse_time Open now s req)"
  shows "p \<in> set (computeVerifiedIdentityGate s req cfgs pkgs verified) \<longleftrightarrow>
    p \<in> set pkgs \<and> demands r \<and>
    \<not> (\<exists>Verify att rp vi. vs_verifier s = Some Verify \<and> carried Open s req att rp \<and>
        accepted parse_time Verify att
          \<lparr>v_request_id = im_request_id req, v_country = im_country req, v_expected_rp = rp, v_now = now\<rparr> vi \<and>
        (RequiresAge r \<longrightarrow> ClaimsSatisfy vi (RequiredAge r)))"
proof (cases "vs_verifier s")
  case None
  then show ?thesis by (auto simp: gate_set rejects_iff assms stage_without_verifier)
next
  case (Some Verify)
  show ?thesis
    unfolding gate_set rejects_iff assms Bex_def stage_verified_set [OF Some] using Some by auto
qed

section \<open>Ages and cap keys\<close>

text \<open>An age demand is met by that age or an older one, and by nothing else of the vocabulary.\<close>

lemma age_claims:
  "parseAgeOver ''age_over_13'' = Some 13" "parseAgeOver ''age_over_16'' = Some 16"
  "parseAgeOver ''age_over_18'' = Some 18" "parseAgeOver ''age_over_21'' = Some 21"
  "parseAgeOver ''unique_human'' = None" "parseAgeOver '''' = None"
  by code_simp+

lemma vocabulary_ages:
  "list_all (\<lambda>c. case parseAgeOver c of None \<Rightarrow> True
     | Some got \<Rightarrow> \<not> 18 \<le> got \<or> c = ''age_over_18'' \<or> c = ''age_over_21'') closed_claims"
  by code_simp

lemma accepted_closed: "accepted parse_time Verify att vctx vi \<Longrightarrow> set (vi_claims vi) \<subseteq> set closed_claims"
  by (auto simp: accepted_def IsClosedClaim_def)

lemma adult_claims:
  assumes "set (vi_claims vi) \<subseteq> set closed_claims"
  shows "ClaimsSatisfy vi ''age_over_18'' \<longleftrightarrow> ''age_over_18'' \<in> set (vi_claims vi) \<or> ''age_over_21'' \<in> set (vi_claims vi)"
proof -
  have older: "(case parseAgeOver c of None \<Rightarrow> False | Some got \<Rightarrow> got \<ge> want) \<longleftrightarrow>
      (\<exists>got. parseAgeOver c = Some got \<and> want \<le> got)" for c want
    by (simp split: option.split)
  have sat: "ClaimsSatisfy vi ''age_over_18'' \<longleftrightarrow> ''age_over_18'' \<in> set (vi_claims vi) \<or>
      (\<exists>c\<in>set (vi_claims vi). \<exists>got. parseAgeOver c = Some got \<and> 18 \<le> got)"
    unfolding ClaimsSatisfy_def age_claims option.case list_ex_iff older by simp
  have old: "c = ''age_over_18'' \<or> c = ''age_over_21''"
    if "c \<in> set closed_claims" "parseAgeOver c = Some got" "18 \<le> got" for c got
    using bspec [OF vocabulary_ages [unfolded list_all_iff] that(1)] that(2,3) by (simp only: option.case simp_thms)
  have "\<exists>got. parseAgeOver ''age_over_21'' = Some got \<and> 18 \<le> got" by (simp add: age_claims)
  then show ?thesis unfolding sat using old assms by blast
qed

lemma CapKey_parties: "CapKey vi = CapKey vi' \<Longrightarrow> vi_nullifier vi = vi_nullifier vi' \<Longrightarrow> vi_relying_party vi = vi_relying_party vi'"
  by (simp add: CapKey_def)

lemma CapKey_inj:
  "CHR '':'' \<notin> set (vi_relying_party vi) \<Longrightarrow> CHR '':'' \<notin> set (vi_relying_party vi') \<Longrightarrow>
   CapKey vi = CapKey vi' \<longleftrightarrow> vi_relying_party vi = vi_relying_party vi' \<and> vi_nullifier vi = vi_nullifier vi'"
  by (simp add: CapKey_def sep_inj)

text \<open>Without that restriction two parties can share a key.\<close>

lemma CapKey_collides:
  "\<exists>vi vi'. vi_relying_party vi \<noteq> vi_relying_party vi' \<and> CapKey vi = CapKey vi'"
  by (intro exI [of _ "\<lparr>vi_nullifier = ''1'', vi_relying_party = ''rp:a'', vi_claims = []\<rparr>"]
      exI [of _ "\<lparr>vi_nullifier = ''a:1'', vi_relying_party = ''rp'', vi_claims = []\<rparr>"]) (simp add: CapKey_def)

section \<open>Witness\<close>

definition sample_attestation :: attestation where
  "sample_attestation = \<lparr>att_issuer = [], att_scheme = ''world_id'', att_relying_party_id = ''rp1'', att_action = '''',
     att_claims = [''age_over_21''], att_verification_level = '''', att_signal_binding = ''b'', att_proof = [],
     att_expires_at = ''''\<rparr>"

definition sample_identity_request :: identity_request where
  "sample_identity_request = \<lparr>im_schema = '''', im_adcp_version = '''', im_adcp_major_version = 3, im_type = '''',
     im_protocol_version = '''', im_request_id = ''r1'', im_seller_agent_url = ''s'',
     im_identities = [\<lparr>user_token = ''t'', uid_type = ''world_id'', attestation_of = Some sample_attestation\<rparr>],
     im_country = ''NL'', im_package_ids = [''p''], im_consent = [], im_sealed_credentials = []\<rparr>"

definition sample_vid_service :: vid_service where
  "sample_vid_service = \<lparr>vs_verifier = Some (\<lambda>att vctx. Some \<lparr>vi_nullifier = ''n'',
       vi_relying_party = att_relying_party_id att, vi_claims = att_claims att\<rparr>),
     vs_recipient_keys = [], vs_relying_party = ''rp1'', vs_age_resolver = Some (\<lambda>p country. Some ''age_over_18'')\<rparr>"

theorem verified_gate_exact_witness:
  "''p'' \<notin> set (computeVerifiedIdentityGate sample_vid_service sample_identity_request Map.empty [''p'']
      (fst (runVerifiedIdentityStage (\<lambda>_. None) (\<lambda>_ _. None) 0 sample_vid_service sample_identity_request)))"
proof -
  let ?V = "\<lambda>att vctx. Some \<lparr>vi_nullifier = ''n'', vi_relying_party = att_relying_party_id att, vi_claims = att_claims att\<rparr>"
  let ?vi = "\<lparr>vi_nullifier = ''n'', vi_relying_party = ''rp1'', vi_claims = [''age_over_21'']\<rparr>"
  let ?r = "package_requirement sample_vid_service (im_country sample_identity_request) Map.empty ''p''"
  have V: "vs_verifier sample_vid_service = Some ?V" by (simp add: sample_vid_service_def)
  have c: "carried (\<lambda>_ _. None) sample_vid_service sample_identity_request sample_attestation ''rp1''"
    by (simp add: carried_def sample_identity_request_def sample_vid_service_def)
  have a: "accepted (\<lambda>_. None) ?V sample_attestation
      \<lparr>v_request_id = im_request_id sample_identity_request, v_country = im_country sample_identity_request,
       v_expected_rp = ''rp1'', v_now = 0\<rparr> ?vi"
    by (simp add: accepted_def sample_attestation_def IsClosedClaim_def closed_claims_def)
  have s: "ClaimsSatisfy ?vi (RequiredAge ?r)" by code_simp
  show ?thesis
    unfolding verified_gate_exact [OF refl refl] using V c a s by blast
qed

end
