(* ===== verification/Identity_Config.thy ===== *)
theory Identity_Config
  imports Identity_Targeting
begin

text \<open>
  The snapshot service of the identity agent (\<^verbatim>\<open>src/targeting/identityconfig\<close>): building a snapshot, applying
  deltas, the lookups, the resolution of a request's packages, the retried first load and the start/stop life cycle. The
  canonicalisation of seller URLs and the source's answers are parameters. An association list stands for a Go map, its
  order for the iteration order.
\<close>

section \<open>Snapshots\<close>

type_synonym cfg_key = "string \<times> string"
type_synonym entry = "cfg_key \<times> segment_rule option"

record snapshot =
  sn_configs :: "entry list"
  sn_last_updated :: time

record delta =
  upserted :: "entry list"
  removed :: "cfg_key list"
  d_last_updated :: time

record snapshot_data =
  byKey :: "(cfg_key \<times> segment_rule option) list"
  bySeller :: "(string \<times> entry list) list"
  lastUpdatedAt :: time

definition canonicalSellerKey :: "(string \<Rightarrow> string option) \<Rightarrow> string \<Rightarrow> string" where
  "canonicalSellerKey canon raw =
     (if raw = '''' then '''' else case canon raw of None \<Rightarrow> raw | Some c \<Rightarrow> c)"

definition canonicalizeEntry :: "(string \<Rightarrow> string option) \<Rightarrow> cfg_key \<Rightarrow> cfg_key" where
  "canonicalizeEntry canon k = (canonicalSellerKey canon (fst k), snd k)"

definition emptySnapshot :: snapshot_data where
  "emptySnapshot = \<lparr>byKey = [], bySeller = [], lastUpdatedAt = 0\<rparr>"

definition add_entry :: "entry \<Rightarrow> (string \<times> entry list) list \<Rightarrow> (string \<times> entry list) list" where
  "add_entry e m = AList.map_default (fst (fst e)) [e] (\<lambda>es. es @ [e]) m"

definition install_entry :: "(string \<Rightarrow> string option) \<Rightarrow> entry \<Rightarrow> snapshot_data \<Rightarrow> snapshot_data" where
  "install_entry canon e out =
     (let key = canonicalizeEntry canon (fst e) in
      out\<lparr>byKey := AList.update key (snd e) (byKey out), bySeller := add_entry (key, snd e) (bySeller out)\<rparr>)"

definition buildSnapshot :: "(string \<Rightarrow> string option) \<Rightarrow> snapshot \<Rightarrow> snapshot_data" where
  "buildSnapshot canon s =
     fold (install_entry canon) (sn_configs s) \<lparr>byKey = [], bySeller = [], lastUpdatedAt = sn_last_updated s\<rparr>"

definition applyDelta :: "(string \<Rightarrow> string option) \<Rightarrow> snapshot_data \<Rightarrow> delta \<Rightarrow> snapshot_data" where
  "applyDelta canon current d =
     (let m1 = fold (\<lambda>(k, rule) m. AList.update (canonicalizeEntry canon k) rule m) (upserted d) (byKey current);
          m2 = fold (\<lambda>k m. AList.delete (canonicalizeEntry canon k) m) (removed d) m1 in
      \<lparr>byKey = m2, bySeller = fold add_entry m2 [],
       lastUpdatedAt = (if d_last_updated d < lastUpdatedAt current then lastUpdatedAt current else d_last_updated d)\<rparr>)"

datatype refresh_outcome = RefreshSuccess | RefreshError

text \<open>A refresh gets the source's answer to the current watermark; the installed snapshot is the state.\<close>

definition refreshDelta ::
  "(string \<Rightarrow> string option) \<Rightarrow> string + delta \<Rightarrow> snapshot_data \<Rightarrow> snapshot_data \<times> refresh_outcome \<times> string option" where
  "refreshDelta canon answer current =
     (case answer of
        Inl e \<Rightarrow> (current, RefreshError, Some e)
      | Inr d \<Rightarrow>
          if upserted d = [] \<and> removed d = []
          then (if lastUpdatedAt current < d_last_updated d then current\<lparr>lastUpdatedAt := d_last_updated d\<rparr> else current,
                RefreshSuccess, None)
          else (applyDelta canon current d, RefreshSuccess, None))"

section \<open>Lookups\<close>

definition config_Lookup ::
  "(string \<Rightarrow> string option) \<Rightarrow> snapshot_data \<Rightarrow> string \<Rightarrow> string \<Rightarrow> segment_rule option option" where
  "config_Lookup canon snap seller pkg = map_of (byKey snap) (canonicalSellerKey canon seller, pkg)"

definition config_Get :: "(string \<Rightarrow> string option) \<Rightarrow> snapshot_data \<Rightarrow> string \<Rightarrow> string \<Rightarrow> segment_rule option" where
  "config_Get canon snap seller pkg =
     (case map_of (byKey snap) (canonicalSellerKey canon seller, pkg) of None \<Rightarrow> None | Some rule \<Rightarrow> rule)"

definition GetBySeller :: "(string \<Rightarrow> string option) \<Rightarrow> snapshot_data \<Rightarrow> string \<Rightarrow> entry list" where
  "GetBySeller canon snap seller =
     (case map_of (bySeller snap) (canonicalSellerKey canon seller) of None \<Rightarrow> [] | Some entries \<Rightarrow> entries)"

definition config_Len :: "snapshot_data \<Rightarrow> nat" where
  "config_Len snap = length (byKey snap)"

text \<open>The effective packages of a request with their configurations.\<close>

definition identity_config :: "segment_rule option \<Rightarrow> package_identity_config" where
  "identity_config rule = \<lparr>TargetSegments = rule, RequiresVerifiedIdentity = False\<rparr>"

definition ResolveRequest ::
  "(string \<Rightarrow> string option) \<Rightarrow> snapshot_data \<Rightarrow> string \<Rightarrow> string list \<Rightarrow> string list \<times> id_configs" where
  "ResolveRequest canon snap seller requested =
     (if requested = [] then
        let entries = GetBySeller canon snap seller in
        fold (\<lambda>((s, p), rule) (eff, cfgs). (eff @ [p], cfgs(p \<mapsto> identity_config rule))) entries ([], Map.empty)
      else
        fold (\<lambda>p (eff, cfgs).
          case config_Lookup canon snap seller p of
            None \<Rightarrow> (eff, cfgs)
          | Some rule \<Rightarrow> (eff @ [p], cfgs(p \<mapsto> identity_config rule))) requested ([], Map.empty))"

section \<open>The first load\<close>

datatype backoff = BackoffConstant | BackoffExponential | OtherBackoff int

record retry_config =
  rc_initial :: duration
  rc_max :: duration
  rc_backoff :: backoff
  rc_max_attempts :: int
  rc_deadline :: duration

definition retry_defaults :: "retry_config \<Rightarrow> retry_config" where
  "retry_defaults cfg =
     (let cfg = (if rc_initial cfg \<le> 0 then cfg\<lparr>rc_initial := second\<rparr> else cfg) in
      if rc_max cfg < rc_initial cfg then cfg\<lparr>rc_max := rc_initial cfg\<rparr> else cfg)"

definition nextBackoff :: "duration \<Rightarrow> retry_config \<Rightarrow> duration" where
  "nextBackoff current cfg =
     (case rc_backoff cfg of
        BackoffExponential \<Rightarrow> min (wrap64 (current * 2)) (rc_max cfg)
      | _ \<Rightarrow> rc_initial cfg)"

datatype load_error = LoadFailed string | Exhausted nat string | Aborted nat | UnknownMode

text \<open>Attempt \<open>n\<close> answers \<open>load n\<close> after \<open>cost n\<close> nanoseconds. The wait ends with the timer or, when it comes first, the
  end of the context at \<open>stop\<close>; when both are due at once either may be seen, as \<open>tie n\<close> says. A timer of a negative
  duration is due at once.\<close>

record source_run =
  load :: "nat \<Rightarrow> string + snapshot"
  cost :: "nat \<Rightarrow> duration"
  tie :: "nat \<Rightarrow> bool"

partial_function (option) loadAllWithRetry ::
  "retry_config \<Rightarrow> source_run \<Rightarrow> time option \<Rightarrow> nat \<Rightarrow> duration \<Rightarrow> time \<Rightarrow> (load_error + snapshot) option" where
  "loadAllWithRetry cfg run stop attempt wait now =
     (let t = now + cost run attempt; due = t + max 0 wait in
      case load run attempt of
        Inr s \<Rightarrow> Some (Inr s)
      | Inl e \<Rightarrow>
          if 0 < rc_max_attempts cfg \<and> rc_max_attempts cfg \<le> int attempt then Some (Inl (Exhausted attempt e))
          else if (case stop of None \<Rightarrow> False | Some d \<Rightarrow> d < due \<or> d = due \<and> tie run attempt)
          then Some (Inl (Aborted attempt))
          else loadAllWithRetry cfg run stop (attempt + 1) (nextBackoff wait cfg) due)"

datatype start_mode = FailFast | RetryMode | BestEffort | OtherMode int

text \<open>The end of the caller's context, if any, bounds the load together with the configured deadline.\<close>

definition load_stop :: "retry_config \<Rightarrow> time \<Rightarrow> time option \<Rightarrow> time option" where
  "load_stop cfg now ctx_end =
     (if 0 < rc_deadline cfg
      then Some (case ctx_end of None \<Rightarrow> now + rc_deadline cfg | Some t \<Rightarrow> min t (now + rc_deadline cfg))
      else ctx_end)"

definition loadAllOnce ::
  "(string \<Rightarrow> string option) \<Rightarrow> string + snapshot \<Rightarrow> snapshot_data \<Rightarrow> snapshot_data \<times> refresh_outcome \<times> load_error option" where
  "loadAllOnce canon answer current =
     (case answer of
        Inl e \<Rightarrow> (current, RefreshError, Some (LoadFailed e))
      | Inr s \<Rightarrow> (buildSnapshot canon s, RefreshSuccess, None))"

definition initialLoad ::
  "(string \<Rightarrow> string option) \<Rightarrow> start_mode \<Rightarrow> retry_config \<Rightarrow> source_run \<Rightarrow> time option \<Rightarrow> time \<Rightarrow> snapshot_data \<Rightarrow>
   (snapshot_data \<times> load_error option) option" where
  "initialLoad canon mode cfg run ctx_end now current =
     (case mode of
        FailFast \<Rightarrow> (case loadAllOnce canon (load run 1) current of (s, _, e) \<Rightarrow> Some (s, e))
      | BestEffort \<Rightarrow> (case loadAllOnce canon (load run 1) current of (s, _, e) \<Rightarrow> Some (s, None))
      | RetryMode \<Rightarrow>
          (let cfg = retry_defaults cfg in
           case loadAllWithRetry cfg run (load_stop cfg now ctx_end) 1 (rc_initial cfg) now of
             None \<Rightarrow> None
           | Some (Inl e) \<Rightarrow> Some (current, Some e)
           | Some (Inr s) \<Rightarrow> Some (buildSnapshot canon s, None))
      | OtherMode m \<Rightarrow> Some (current, Some UnknownMode))"

section \<open>Refinement of a map\<close>

text \<open>What a snapshot stands for, and what a delta does to it.\<close>

definition registered :: "snapshot_data \<Rightarrow> cfg_key \<rightharpoonup> segment_rule option" where
  "registered snap = map_of (byKey snap)"

definition abs_delta ::
  "(string \<Rightarrow> string option) \<Rightarrow> delta \<Rightarrow> (cfg_key \<rightharpoonup> segment_rule option) \<Rightarrow> cfg_key \<rightharpoonup> segment_rule option" where
  "abs_delta canon d A =
     (A ++ map_of (rev (map (\<lambda>(k, r). (canonicalizeEntry canon k, r)) (upserted d))))
       |` (- canonicalizeEntry canon ` set (removed d))"

text \<open>The two indexes agree.\<close>

definition coherent :: "snapshot_data \<Rightarrow> bool" where
  "coherent snap \<longleftrightarrow> distinct (map fst (byKey snap)) \<and>
     (\<forall>s. (case map_of (bySeller snap) s of None \<Rightarrow> [] | Some es \<Rightarrow> es) = filter (\<lambda>e. fst (fst e) = s) (byKey snap))"

definition entries_of :: "string \<Rightarrow> (string \<times> entry list) list \<Rightarrow> entry list" where
  "entries_of s m = (case map_of m s of None \<Rightarrow> [] | Some es \<Rightarrow> es)"

lemma map_default_lookup:
  "map_of (AList.map_default k v f m) s =
     (if s = k then Some (case map_of m k of None \<Rightarrow> v | Some v' \<Rightarrow> f v') else map_of m s)"
  by (induction m) auto

lemma entries_of_add: "entries_of s (add_entry e m) = entries_of s m @ (if fst (fst e) = s then [e] else [])"
  by (simp add: entries_of_def add_entry_def map_default_lookup split: option.split)

lemma entries_of_fold: "entries_of s (fold add_entry es m) = entries_of s m @ filter (\<lambda>e. fst (fst e) = s) es"
  by (induction es arbitrary: m) (simp_all add: entries_of_add)

lemma coherent_iff:
  "coherent snap \<longleftrightarrow> distinct (map fst (byKey snap)) \<and>
     (\<forall>s. entries_of s (bySeller snap) = filter (\<lambda>e. fst (fst e) = s) (byKey snap))"
  by (simp add: coherent_def entries_of_def)

lemma fold_update:
  "map_of (fold (\<lambda>(k, r) m. AList.update (c k) r m) us m) = map_of m ++ map_of (rev (map (\<lambda>(k, r). (c k, r)) us))"
  by (induction us arbitrary: m) (auto simp: update_conv' map_add_def split: option.split)

lemma distinct_fold_update:
  "distinct (map fst m) \<Longrightarrow> distinct (map fst (fold (\<lambda>(k, r) m. AList.update (c k) r m) us m))"
  by (induction us arbitrary: m) (auto simp: distinct_update)

lemma fold_delete_restrict:
  "map_of (fold (\<lambda>k m. AList.delete (c k) m) ks m) = map_of m |` (- c ` set ks)"
  by (induction ks arbitrary: m) (auto simp: delete_conv' restrict_map_def)

lemma distinct_fold_delete:
  "distinct (map fst m) \<Longrightarrow> distinct (map fst (fold (\<lambda>k m. AList.delete (c k) m) ks m))"
  by (induction ks arbitrary: m) (auto simp: distinct_delete)

lemma applyDelta_refines:
  "registered (applyDelta canon cur d) = abs_delta canon d (registered cur)"
  by (simp add: registered_def applyDelta_def abs_delta_def Let_def fold_update fold_delete_restrict)

lemma applyDelta_coherent: "coherent cur \<Longrightarrow> coherent (applyDelta canon cur d)"
  by (simp add: coherent_iff applyDelta_def Let_def entries_of_fold distinct_fold_update distinct_fold_delete)
    (simp add: entries_of_def)

lemma abs_delta_nothing: "upserted d = [] \<Longrightarrow> removed d = [] \<Longrightarrow> abs_delta canon d A = A"
  by (simp add: abs_delta_def restrict_map_def)

lemma watermark_update [simp]:
  "registered (cur\<lparr>lastUpdatedAt := t\<rparr>) = registered cur" "coherent (cur\<lparr>lastUpdatedAt := t\<rparr>) = coherent cur"
  by (simp_all add: registered_def coherent_def)

lemma refreshDelta_refines:
  "registered (fst (refreshDelta canon a cur)) = (case a of Inl e \<Rightarrow> registered cur | Inr d \<Rightarrow> abs_delta canon d (registered cur))"
  by (auto simp: refreshDelta_def applyDelta_refines abs_delta_nothing split: sum.split)

lemma refreshDelta_coherent: "coherent cur \<Longrightarrow> coherent (fst (refreshDelta canon a cur))"
  by (auto simp: refreshDelta_def applyDelta_coherent split: sum.split)

lemma refreshDelta_watermark:
  "lastUpdatedAt (fst (refreshDelta canon a cur)) =
     (case a of Inl e \<Rightarrow> lastUpdatedAt cur | Inr d \<Rightarrow> max (lastUpdatedAt cur) (d_last_updated d))"
  by (auto simp: refreshDelta_def applyDelta_def Let_def split: sum.split)

text \<open>A history of answers, folded by the service and by the specification.\<close>

definition refresh_all :: "(string \<Rightarrow> string option) \<Rightarrow> (string + delta) list \<Rightarrow> snapshot_data \<Rightarrow> snapshot_data" where
  "refresh_all canon answers cur = fold (\<lambda>a s. fst (refreshDelta canon a s)) answers cur"

definition received :: "(string + delta) list \<Rightarrow> delta list" where
  "received answers = List.map_filter (\<lambda>a. case a of Inl e \<Rightarrow> None | Inr d \<Rightarrow> Some d) answers"

lemma refresh_all_refines:
  "registered (refresh_all canon answers cur) = fold (abs_delta canon) (received answers) (registered cur)"
  by (induction answers arbitrary: cur)
    (auto simp: refresh_all_def received_def List.map_filter_simps refreshDelta_refines split: sum.split)

lemma refresh_all_coherent: "coherent cur \<Longrightarrow> coherent (refresh_all canon answers cur)"
  by (induction answers arbitrary: cur) (simp_all add: refresh_all_def refreshDelta_coherent)

lemma refresh_all_watermark:
  "lastUpdatedAt (refresh_all canon answers cur) = fold max (map d_last_updated (received answers)) (lastUpdatedAt cur)"
  by (induction answers arbitrary: cur)
    (auto simp: refresh_all_def received_def List.map_filter_simps refreshDelta_watermark max.commute split: sum.split)

text \<open>C31: however many refreshes succeed or fail, the snapshot stands for the map the deltas describe, applied one
  after the other to the map it started from: a lookup answers from that map, a seller's entries are exactly its
  entries, each once, and the watermark is the latest one received, never earlier than before.\<close>

lemma GetBySeller_coherent:
  "coherent snap \<Longrightarrow> GetBySeller canon snap seller = filter (\<lambda>e. fst (fst e) = canonicalSellerKey canon seller) (byKey snap)"
  by (simp add: coherent_def GetBySeller_def)

lemma coherent_map_of: "coherent snap \<Longrightarrow> (k, r) \<in> set (byKey snap) \<longleftrightarrow> registered snap k = Some r"
  by (simp add: coherent_def registered_def)

theorem refresh_refines:
  assumes "coherent cur" and "snap = refresh_all canon answers cur"
    and "A = fold (abs_delta canon) (received answers) (registered cur)"
  shows "config_Lookup canon snap seller pkg = A (canonicalSellerKey canon seller, pkg) \<and>
    set (GetBySeller canon snap seller) = {(k, r). A k = Some r \<and> fst k = canonicalSellerKey canon seller} \<and>
    distinct (map fst (GetBySeller canon snap seller)) \<and>
    lastUpdatedAt snap = fold max (map d_last_updated (received answers)) (lastUpdatedAt cur)"
proof -
  have coh: "coherent snap" by (simp add: assms refresh_all_coherent)
  have A: "registered snap = A" by (simp add: assms refresh_all_refines)
  have "config_Lookup canon snap seller pkg = A (canonicalSellerKey canon seller, pkg)"
    by (simp add: config_Lookup_def A [unfolded registered_def])
  moreover have "set (GetBySeller canon snap seller) = {(k, r). A k = Some r \<and> fst k = canonicalSellerKey canon seller}"
    unfolding GetBySeller_coherent [OF coh] A [symmetric] by (auto simp: coherent_map_of [OF coh])
  moreover have "distinct (map fst (GetBySeller canon snap seller))"
    using coh by (simp add: GetBySeller_coherent distinct_map_filter coherent_def)
  ultimately show ?thesis by (simp add: assms refresh_all_watermark)
qed

section \<open>The first snapshot\<close>

definition canonical_keys :: "(string \<Rightarrow> string option) \<Rightarrow> snapshot \<Rightarrow> cfg_key list" where
  "canonical_keys canon s = map (\<lambda>e. canonicalizeEntry canon (fst e)) (sn_configs s)"

lemma update_fresh: "k \<notin> fst ` set m \<Longrightarrow> AList.update k v m = m @ [(k, v)]"
  by (induction m) auto

lemma buildSnapshot_fold:
  assumes "distinct (map fst (byKey out) @ map (\<lambda>e. canonicalizeEntry canon (fst e)) cs)"
    and "\<And>s. entries_of s (bySeller out) = filter (\<lambda>e. fst (fst e) = s) (byKey out)"
  shows "coherent (fold (install_entry canon) cs out)"
  using assms
proof (induction cs arbitrary: out)
  case Nil
  then show ?case by (simp add: coherent_iff)
next
  case (Cons c cs)
  obtain k r where c: "c = (k, r)" by fastforce
  have fresh: "AList.update (canonicalizeEntry canon k) r (byKey out) = byKey out @ [(canonicalizeEntry canon k, r)]"
    using Cons.prems(1) by (intro update_fresh) (auto simp: c)
  show ?case
    using Cons.IH [of "out\<lparr>byKey := byKey out @ [(canonicalizeEntry canon k, r)],
        bySeller := add_entry (canonicalizeEntry canon k, r) (bySeller out)\<rparr>"] Cons.prems
    by (simp add: c install_entry_def Let_def fresh entries_of_add)
qed

lemma buildSnapshot_coherent: "distinct (canonical_keys canon s) \<Longrightarrow> coherent (buildSnapshot canon s)"
  by (simp add: buildSnapshot_def canonical_keys_def buildSnapshot_fold entries_of_def)

lemma emptySnapshot_coherent: "coherent emptySnapshot"
  by (simp add: emptySnapshot_def coherent_def)

lemma buildSnapshot_registered:
  "registered (buildSnapshot canon s) = map_of (rev (map (\<lambda>(k, r). (canonicalizeEntry canon k, r)) (sn_configs s)))"
proof -
  have "byKey (fold (install_entry canon) cs out) =
      fold (\<lambda>(k, r) m. AList.update (canonicalizeEntry canon k) r m) cs (byKey out)" for cs out
    by (induction cs arbitrary: out) (auto simp: install_entry_def Let_def)
  then show ?thesis by (simp add: registered_def buildSnapshot_def fold_update)
qed

text \<open>Two spellings of one seller URL in the first load: the lookups see the last row, the seller's list both.\<close>

lemma duplicate_rows_incoherent:
  assumes "canon ''HTTP://S'' = Some ''http://s''" "canon ''http://s'' = Some ''http://s''"
  shows "let snap = buildSnapshot canon \<lparr>sn_configs = [((''HTTP://S'', ''p''), Some r), ((''http://s'', ''p''), None)],
      sn_last_updated = 0\<rparr> in
    config_Lookup canon snap ''http://s'' ''p'' = Some None \<and>
    GetBySeller canon snap ''http://s'' = [((''http://s'', ''p''), Some r), ((''http://s'', ''p''), None)]"
  using assms
  by (simp add: buildSnapshot_def install_entry_def Let_def canonicalizeEntry_def canonicalSellerKey_def config_Lookup_def GetBySeller_def add_entry_def)

section \<open>The packages of a request\<close>

text \<open>Without requested packages a request is evaluated for every package registered for the seller, each once;
  with requested packages for those of them that are registered, in the order requested. Each carries the rule the map
  holds, and a package that is not registered leaves no trace.\<close>

lemma resolve_all_fold:
  "fold (\<lambda>((s, p), rule) (eff, cfgs). (eff @ [p], cfgs(p \<mapsto> identity_config rule))) es (eff, cfgs) =
     (eff @ map (snd \<circ> fst) es, cfgs ++ map_of (rev (map (\<lambda>((s, p), rule). (p, identity_config rule)) es)))"
  by (induction es arbitrary: eff cfgs) (auto simp: map_add_def fun_eq_iff split: option.split)

lemma resolve_some_fold:
  "fold (\<lambda>p (eff, cfgs). case L p of None \<Rightarrow> (eff, cfgs) | Some rule \<Rightarrow> (eff @ [p], cfgs(p \<mapsto> identity_config rule))) ps (eff, cfgs) =
     (eff @ filter (\<lambda>p. L p \<noteq> None) ps, \<lambda>p. if p \<in> set ps \<and> L p \<noteq> None then map_option identity_config (L p) else cfgs p)"
  by (induction ps arbitrary: eff cfgs) (auto simp: fun_eq_iff split: option.split)

lemma option_eq_by: "(\<And>c. x = Some c \<longleftrightarrow> y = Some c) \<Longrightarrow> x = y"
  by (cases x; cases y) auto

lemma ResolveRequest_spec:
  assumes "coherent snap" and "ResolveRequest canon snap seller requested = (eff, cfgs)"
  shows "(if requested = []
      then distinct eff \<and> set eff = {p. config_Lookup canon snap seller p \<noteq> None}
      else eff = filter (\<lambda>p. config_Lookup canon snap seller p \<noteq> None) requested) \<and>
    cfgs p = (if p \<in> set eff then map_option identity_config (config_Lookup canon snap seller p) else None)"
proof (cases "requested = []")
  case False
  then have "eff = filter (\<lambda>p. config_Lookup canon snap seller p \<noteq> None) requested"
    "cfgs = (\<lambda>p. if p \<in> set requested \<and> config_Lookup canon snap seller p \<noteq> None
       then map_option identity_config (config_Lookup canon snap seller p) else None)"
    using assms(2) by (simp_all add: ResolveRequest_def resolve_some_fold)
  then show ?thesis using False by auto
next
  case True
  let ?S = "canonicalSellerKey canon seller"
  let ?es = "filter (\<lambda>e. fst (fst e) = ?S) (byKey snap)"
  let ?ps = "map (\<lambda>((s, p), rule). (p, identity_config rule)) ?es"
  have out: "eff = map (snd \<circ> fst) ?es" "cfgs = map_of (rev ?ps)"
    using assms(2) True by (simp_all add: ResolveRequest_def Let_def resolve_all_fold GetBySeller_coherent [OF assms(1)])
  have "distinct (map fst ?es)" using assms(1) by (simp add: coherent_def distinct_map_filter)
  moreover have "inj_on snd (set (map fst ?es))" by (auto simp: inj_on_def)
  ultimately have dist: "distinct eff" unfolding out map_map [symmetric] by (simp only: distinct_map [of snd])
  have mem: "((?S, q), r) \<in> set ?es \<longleftrightarrow> config_Lookup canon snap seller q = Some r" for q r
    using coherent_map_of [OF assms(1), of "(?S, q)" r] by (simp add: config_Lookup_def registered_def)
  have set_eff: "q \<in> set eff \<longleftrightarrow> config_Lookup canon snap seller q \<noteq> None" for q
    using mem [of q] by (force simp: out)
  have "map fst ?ps = eff" by (simp add: out split_def)
  with dist have "map_of (rev ?ps) q = Some c \<longleftrightarrow> (q, c) \<in> set ?ps" for q c
    by (simp add: map_of_eq_Some_iff flip: rev_map)
  moreover have "(q, c) \<in> set ?ps \<longleftrightarrow> map_option identity_config (config_Lookup canon snap seller q) = Some c" for q c
  proof -
    have "(q, c) \<in> set ?ps \<longleftrightarrow> (\<exists>r. ((?S, q), r) \<in> set ?es \<and> c = identity_config r)" by force
    then show ?thesis unfolding mem by auto
  qed
  ultimately have "cfgs q = map_option identity_config (config_Lookup canon snap seller q)" for q
    unfolding out by (intro option_eq_by) simp
  then show ?thesis using True dist set_eff by auto
qed

section \<open>The retried first load returns\<close>

lemma nextBackoff_bounds:
  assumes "0 < wait" "wait \<le> rc_max cfg" "0 < rc_initial cfg" "rc_initial cfg \<le> rc_max cfg" "rc_max cfg < 2 ^ 62"
  shows "0 < nextBackoff wait cfg" "nextBackoff wait cfg \<le> rc_max cfg"
proof -
  have "wrap64 (wait * 2) = wait * 2" using assms by (intro wrap64_id) auto
  then show "0 < nextBackoff wait cfg" "nextBackoff wait cfg \<le> rc_max cfg"
    using assms by (auto simp: nextBackoff_def split: backoff.split)
qed

lemma retry_defaults_bounds:
  assumes "rc_initial cfg < 2 ^ 62" "rc_max cfg < 2 ^ 62"
  shows "0 < rc_initial (retry_defaults cfg)" "rc_initial (retry_defaults cfg) \<le> rc_max (retry_defaults cfg)"
    "rc_max (retry_defaults cfg) < 2 ^ 62"
  using assms by (auto simp: retry_defaults_def Let_def second_def)

lemma retry_defaults_keeps [simp]:
  "rc_max_attempts (retry_defaults cfg) = rc_max_attempts cfg" "rc_deadline (retry_defaults cfg) = rc_deadline cfg"
  by (auto simp: retry_defaults_def Let_def)

text \<open>Each of three bounds makes the loop end: a number of attempts, a later success, an end of the context. A bound is a
  measure that the next iteration lowers.\<close>

lemma retry_measure:
  fixes \<mu> :: "nat \<Rightarrow> time \<Rightarrow> nat"
  assumes cfg: "0 < rc_initial cfg" "rc_initial cfg \<le> rc_max cfg" "rc_max cfg < 2 ^ 62"
    and cost: "\<And>n. 0 \<le> cost run n"
    and dec: "\<And>a t due e. t < due \<Longrightarrow> load run a = Inl e \<Longrightarrow>
      \<not> (0 < rc_max_attempts cfg \<and> rc_max_attempts cfg \<le> int a) \<Longrightarrow> (\<And>d. stop = Some d \<Longrightarrow> due \<le> d) \<Longrightarrow> Q a \<Longrightarrow>
      Q (a + 1) \<and> \<mu> (a + 1) due < \<mu> a t"
  shows "0 < wait \<Longrightarrow> wait \<le> rc_max cfg \<Longrightarrow> Q attempt \<Longrightarrow>
    \<exists>r. loadAllWithRetry cfg run stop attempt wait now = Some r"
proof (induction "\<mu> attempt now" arbitrary: attempt wait now rule: less_induct)
  case less
  let ?due = "now + cost run attempt + max 0 wait"
  show ?case
  proof (cases "\<exists>e. load run attempt = Inl e \<and> \<not> (0 < rc_max_attempts cfg \<and> rc_max_attempts cfg \<le> int attempt) \<and>
      \<not> (case stop of None \<Rightarrow> False | Some d \<Rightarrow> d < ?due \<or> d = ?due \<and> tie run attempt)")
    case True
    then obtain e where e: "load run attempt = Inl e" "\<not> (0 < rc_max_attempts cfg \<and> rc_max_attempts cfg \<le> int attempt)"
      and go: "\<not> (case stop of None \<Rightarrow> False | Some d \<Rightarrow> d < ?due \<or> d = ?due \<and> tie run attempt)" by blast
    have "now < ?due" using less.prems(1) cost [of attempt] by simp
    then have "Q (attempt + 1) \<and> \<mu> (attempt + 1) ?due < \<mu> attempt now"
      using e go less.prems(3) by (intro dec) auto
    then have "\<exists>r. loadAllWithRetry cfg run stop (attempt + 1) (nextBackoff wait cfg) ?due = Some r"
      using less.prems cfg by (intro less.hyps nextBackoff_bounds) auto
    then show ?thesis using e go by (subst loadAllWithRetry.simps) (simp add: Let_def)
  next
    case False
    then show ?thesis by (subst loadAllWithRetry.simps) (auto simp: Let_def split: sum.split)
  qed
qed

lemma retry_returns:
  assumes "0 < rc_initial cfg" "rc_initial cfg \<le> rc_max cfg" "rc_max cfg < 2 ^ 62" "\<And>n. 0 \<le> cost run n"
    and "0 < rc_max_attempts cfg \<or> stop \<noteq> None \<or> (\<exists>n\<ge>attempt. \<exists>s. load run n = Inr s)"
    and "0 < wait" "wait \<le> rc_max cfg"
  shows "\<exists>r. loadAllWithRetry cfg run stop attempt wait now = Some r"
  using assms(5)
proof (elim disjE)
  assume "0 < rc_max_attempts cfg"
  then show ?thesis
    using assms(1-4,6,7)
    by (intro retry_measure [where \<mu> = "\<lambda>a t. nat (rc_max_attempts cfg - int a)" and Q = "\<lambda>_. True"]) auto
next
  assume "stop \<noteq> None"
  then obtain d where "stop = Some d" by blast
  then show ?thesis
    using assms(1-4,6,7)
    by (intro retry_measure [where \<mu> = "\<lambda>a t. nat (d - t)" and Q = "\<lambda>_. True"]) auto
next
  assume "\<exists>n\<ge>attempt. \<exists>s. load run n = Inr s"
  then obtain n s where n: "attempt \<le> n" "load run n = Inr s" by blast
  have dec: "a + 1 \<le> n \<and> n - (a + 1) < n - a" if "a \<le> n" "load run a = Inl e" for a e
    using that n(2) by (cases "a = n") auto
  show ?thesis
    by (rule retry_measure [where \<mu> = "\<lambda>a t. n - a" and Q = "\<lambda>a. a \<le> n"]) (fact assms(1) assms(2) assms(3) assms(4) assms(6) assms(7) n(1) | (rule dec; assumption))+
qed

text \<open>What a result means.\<close>

definition result_explained :: "retry_config \<Rightarrow> source_run \<Rightarrow> time option \<Rightarrow> nat \<Rightarrow> load_error + snapshot \<Rightarrow> bool" where
  "result_explained cfg run stop attempt r =
     (case r of
        Inr s \<Rightarrow> (\<exists>k\<ge>attempt. load run k = Inr s \<and> (\<forall>j. attempt \<le> j \<and> j < k \<longrightarrow> isl (load run j)))
      | Inl (Exhausted n e) \<Rightarrow> 0 < rc_max_attempts cfg \<and> rc_max_attempts cfg \<le> int n \<and>
          (\<forall>j. attempt \<le> j \<and> j \<le> n \<longrightarrow> isl (load run j))
      | Inl (Aborted n) \<Rightarrow> stop \<noteq> None \<and> (\<forall>j. attempt \<le> j \<and> j \<le> n \<longrightarrow> isl (load run j))
      | Inl _ \<Rightarrow> False)"

lemma result_explained_Suc:
  assumes "load run attempt = Inl e" "result_explained cfg run stop (attempt + 1) r"
  shows "result_explained cfg run stop attempt r"
proof -
  have failed: "isl (load run j)" if "attempt \<le> j" "attempt + 1 \<le> j \<longrightarrow> isl (load run j)" for j
    using that assms(1) by (cases "j = attempt") auto
  show ?thesis
  proof (cases r)
    case (Inl err)
    then show ?thesis using assms(2) failed by (cases err) (auto simp: result_explained_def)
  next
    case (Inr s)
    then obtain k where "attempt + 1 \<le> k" "load run k = Inr s" "\<forall>j. attempt + 1 \<le> j \<and> j < k \<longrightarrow> isl (load run j)"
      using assms(2) by (auto simp: result_explained_def)
    then show ?thesis using failed by (auto simp: Inr result_explained_def intro!: exI [of _ k])
  qed
qed

lemma three_way:
  "(if P then Some a else if (case st of None \<Rightarrow> False | Some d \<Rightarrow> Q d) then Some b else c) = Some r \<Longrightarrow>
   r = a \<and> P \<or> r = b \<and> st \<noteq> None \<or> c = Some r"
  by (cases st) (auto split: if_split_asm)

lemma retry_explained: "loadAllWithRetry cfg run stop attempt wait now = Some r \<Longrightarrow> result_explained cfg run stop attempt r"
proof (induction rule: loadAllWithRetry.raw_induct [rotated, consumes 1, case_names 1])
  case (1 self cfg run stop attempt wait now r)
  show ?case
  proof (cases "load run attempt")
    case (Inr s)
    with 1(2) show ?thesis by (auto simp: Let_def result_explained_def intro!: exI [of _ attempt])
  next
      case (Inl e)
    let ?due = "now + cost run attempt + max 0 wait"
    have "(if 0 < rc_max_attempts cfg \<and> rc_max_attempts cfg \<le> int attempt then Some (Inl (Exhausted attempt e))
        else if (case stop of None \<Rightarrow> False | Some d \<Rightarrow> d < ?due \<or> d = ?due \<and> tie run attempt) then Some (Inl (Aborted attempt))
        else self cfg run stop (attempt + 1) (nextBackoff wait cfg) ?due) = Some r"
      using 1(2) by (simp add: Inl Let_def)
    from three_way [OF this] have "r = Inl (Exhausted attempt e) \<and> 0 < rc_max_attempts cfg \<and> rc_max_attempts cfg \<le> int attempt \<or>
        r = Inl (Aborted attempt) \<and> stop \<noteq> None \<or>
        self cfg run stop (attempt + 1) (nextBackoff wait cfg) ?due = Some r"
      by blast
    then consider "r = Inl (Exhausted attempt e)" "0 < rc_max_attempts cfg" "rc_max_attempts cfg \<le> int attempt"
      | "r = Inl (Aborted attempt)" "stop \<noteq> None"
      | "self cfg run stop (attempt + 1) (nextBackoff wait cfg) ?due = Some r"
      by blast
    then show ?thesis
    proof cases
      case 3
      then show ?thesis by (intro result_explained_Suc [OF Inl] 1(1))
    qed (auto simp: result_explained_def Inl dest!: le_antisym)
  qed
qed

text \<open>C32: the retried first load returns whenever the attempts, a deadline or the caller's context bound it, or the
  source answers at last; without such a bound it keeps trying until that answer. If it succeeds the installed snapshot
  is built from the first successful answer, and if it fails the installed snapshot stays.\<close>

theorem first_load_returns:
  assumes "rc_initial cfg < 2 ^ 62" "rc_max cfg < 2 ^ 62" "\<forall>n. 0 \<le> cost run n"
    and "0 < rc_max_attempts cfg \<or> 0 < rc_deadline cfg \<or> ctx_end \<noteq> None \<or> (\<exists>n\<ge>1. \<exists>s. load run n = Inr s)"
  shows "\<exists>snap err. initialLoad canon RetryMode cfg run ctx_end now cur = Some (snap, err) \<and>
    (case err of
       None \<Rightarrow> \<exists>k\<ge>1. \<exists>s. load run k = Inr s \<and> (\<forall>j. 1 \<le> j \<and> j < k \<longrightarrow> isl (load run j)) \<and> snap = buildSnapshot canon s
     | Some e \<Rightarrow> snap = cur \<and> (0 < rc_max_attempts cfg \<or> 0 < rc_deadline cfg \<or> ctx_end \<noteq> None))"
proof -
  let ?cfg = "retry_defaults cfg"
  let ?stop = "load_stop ?cfg now ctx_end"
  have stop: "?stop \<noteq> None \<longleftrightarrow> 0 < rc_deadline cfg \<or> ctx_end \<noteq> None" by (simp add: load_stop_def)
  have "\<exists>r. loadAllWithRetry ?cfg run ?stop 1 (rc_initial ?cfg) now = Some r"
    using assms retry_defaults_bounds [OF assms(1,2)] stop by (intro retry_returns) auto
  then obtain r where r: "loadAllWithRetry ?cfg run ?stop 1 (rc_initial ?cfg) now = Some r" by blast
  show ?thesis
  proof (cases r)
    case (Inl e)
    then show ?thesis using retry_explained [OF r] r stop
      by (cases e) (auto simp: initialLoad_def Let_def result_explained_def)
  next
    case (Inr s)
    then show ?thesis using retry_explained [OF r] r
      by (auto simp: initialLoad_def Let_def result_explained_def)
  qed
qed

section \<open>Witnesses\<close>

definition sample_delta :: delta where
  "sample_delta = \<lparr>upserted = [((''S'', ''p''), None), ((''S'', ''q''), None)], removed = [(''S'', ''q'')], d_last_updated = 7\<rparr>"

theorem refresh_refines_witness:
  "config_Lookup (\<lambda>_. Some ''s'') (refresh_all (\<lambda>_. Some ''s'') [Inl ''down'', Inr sample_delta] emptySnapshot) ''S'' ''p'' = Some None \<and>
   lastUpdatedAt (refresh_all (\<lambda>_. Some ''s'') [Inl ''down'', Inr sample_delta] emptySnapshot) = 7"
proof -
  let ?canon = "\<lambda>_ :: string. Some ''s''"
  have "received [Inl ''down'', Inr sample_delta] = [sample_delta]" by (simp add: received_def List.map_filter_simps)
  moreover have "abs_delta ?canon sample_delta Map.empty (''s'', ''p'') = Some None"
    by (simp add: abs_delta_def sample_delta_def canonicalizeEntry_def canonicalSellerKey_def restrict_map_def)
  ultimately show ?thesis
    using refresh_refines [OF emptySnapshot_coherent refl refl, of ?canon "[Inl ''down'', Inr sample_delta]" "''S''" "''p''"]
    by (simp add: registered_def emptySnapshot_def canonicalSellerKey_def sample_delta_def)
qed

theorem first_load_returns_witness:
  "\<exists>snap. initialLoad (\<lambda>_. None) RetryMode \<lparr>rc_initial = 0, rc_max = 0, rc_backoff = BackoffExponential, rc_max_attempts = 0, rc_deadline = 0\<rparr>
     \<lparr>load = (\<lambda>n. if n < 3 then Inl ''down'' else Inr \<lparr>sn_configs = [], sn_last_updated = 5\<rparr>), cost = (\<lambda>_. 1), tie = (\<lambda>_. False)\<rparr>
     None 0 emptySnapshot = Some (snap, None)"
  using first_load_returns [of "\<lparr>rc_initial = 0, rc_max = 0, rc_backoff = BackoffExponential, rc_max_attempts = 0, rc_deadline = 0\<rparr>"
      "\<lparr>load = (\<lambda>n. if n < 3 then Inl ''down'' else Inr \<lparr>sn_configs = [], sn_last_updated = 5\<rparr>), cost = (\<lambda>_. 1), tie = (\<lambda>_. False)\<rparr>"
      None "\<lambda>_. None" 0 emptySnapshot]
  by (force split: option.splits)

end
