(* ===== verification/Config_Lifecycle.thy ===== *)
theory Config_Lifecycle
  imports AdCP_Prelude
begin

text \<open>
  Starting and stopping the snapshot service (\<^verbatim>\<open>Start\<close>, \<^verbatim>\<open>Stop\<close> and the end of \<^verbatim>\<open>refreshLoop\<close> in
  \<^verbatim>\<open>src/targeting/identityconfig/service.go\<close>), as steps at the granularity of the sections under the mutex. A call of
  \<^verbatim>\<open>Start\<close> is numbered; the number also names its context and its loop.
\<close>

datatype start_result = Started | AlreadyStarted | LoadError | StoppedDuringLoad

datatype phase = Fresh | Loading | Returned start_result

record lifecycle =
  running :: bool
  cancel_of :: "nat option"
  done_of :: "nat option"
  cancelled :: "nat list"
  loops :: "nat list"
  phase_of :: "nat \<Rightarrow> phase"

definition lc_init :: lifecycle where
  "lc_init = \<lparr>running = False, cancel_of = None, done_of = None, cancelled = [], loops = [], phase_of = (\<lambda>_. Fresh)\<rparr>"

text \<open>The first section of \<^verbatim>\<open>Start\<close>.\<close>

definition begin_start :: "nat \<Rightarrow> lifecycle \<Rightarrow> lifecycle option" where
  "begin_start i s =
     (if phase_of s i \<noteq> Fresh then None
      else if running s
      then Some (s\<lparr>phase_of := (phase_of s)(i := Returned AlreadyStarted), cancelled := i # cancelled s\<rparr>)
      else Some (s\<lparr>running := True, cancel_of := Some i, phase_of := (phase_of s)(i := Loading)\<rparr>))"

text \<open>The section after a failed load, which a cancelled context makes fail as well.\<close>

definition load_failed :: "nat \<Rightarrow> lifecycle \<Rightarrow> lifecycle option" where
  "load_failed i s =
     (if phase_of s i \<noteq> Loading then None
      else Some (s\<lparr>running := False, cancel_of := None, cancelled := i # cancelled s,
        phase_of := (phase_of s)(i := Returned LoadError)\<rparr>))"

text \<open>The section after a load that succeeded, with the loop it launches.\<close>

definition load_succeeded :: "nat \<Rightarrow> lifecycle \<Rightarrow> lifecycle option" where
  "load_succeeded i s =
     (if phase_of s i \<noteq> Loading then None
      else if \<not> running s
      then Some (s\<lparr>cancelled := i # cancelled s, phase_of := (phase_of s)(i := Returned StoppedDuringLoad)\<rparr>)
      else Some (s\<lparr>done_of := Some i, loops := i # loops s, phase_of := (phase_of s)(i := Returned Started)\<rparr>))"

text \<open>\<^verbatim>\<open>Stop\<close> cancels and then waits for the loop whose channel it took.\<close>

definition lc_stop :: "lifecycle \<Rightarrow> lifecycle" where
  "lc_stop s =
     (if \<not> running s then s
      else s\<lparr>running := False, cancel_of := None, done_of := None,
        cancelled := (case cancel_of s of None \<Rightarrow> cancelled s | Some i \<Rightarrow> i # cancelled s)\<rparr>)"

definition loop_exit :: "nat \<Rightarrow> lifecycle \<Rightarrow> lifecycle option" where
  "loop_exit i s =
     (if i \<in> set (loops s) \<and> i \<in> set (cancelled s) then Some (s\<lparr>loops := removeAll i (loops s)\<rparr>) else None)"

text \<open>The reachable states; with \<open>serial\<close> no call of \<^verbatim>\<open>Start\<close> begins while another one is loading.\<close>

inductive reach :: "bool \<Rightarrow> lifecycle \<Rightarrow> bool" for serial :: bool where
  init: "reach serial lc_init"
| begins: "reach serial s \<Longrightarrow> (serial \<Longrightarrow> \<forall>j. phase_of s j \<noteq> Loading) \<Longrightarrow> begin_start i s = Some s' \<Longrightarrow> reach serial s'"
| failed: "reach serial s \<Longrightarrow> load_failed i s = Some s' \<Longrightarrow> reach serial s'"
| succeeded: "reach serial s \<Longrightarrow> load_succeeded i s = Some s' \<Longrightarrow> reach serial s'"
| stops: "reach serial s \<Longrightarrow> reach serial (lc_stop s)"
| exits: "reach serial s \<Longrightarrow> loop_exit i s = Some s' \<Longrightarrow> reach serial s'"

lemmas lc_step_defs = begin_start_def load_failed_def load_succeeded_def lc_stop_def loop_exit_def

text \<open>While the service runs, one call owns the cancel function. Nothing else is alive: every other loop is cancelled, no
  other call is loading.\<close>

definition owner :: "nat \<Rightarrow> lifecycle \<Rightarrow> bool" where
  "owner i s \<longleftrightarrow> running s \<and> cancel_of s = Some i"

definition live_loop :: "nat \<Rightarrow> lifecycle \<Rightarrow> bool" where
  "live_loop i s \<longleftrightarrow> i \<in> set (loops s) \<and> i \<notin> set (cancelled s)"

definition lc_inv :: "lifecycle \<Rightarrow> bool" where
  "lc_inv s \<longleftrightarrow>
     (\<forall>i. live_loop i s \<longrightarrow> owner i s \<and> done_of s = Some i) \<and>
     (\<forall>i. phase_of s i = Loading \<longrightarrow> i \<notin> set (loops s) \<and> (running s \<longrightarrow> owner i s)) \<and>
     (\<forall>i j. phase_of s i = Loading \<longrightarrow> phase_of s j = Loading \<longrightarrow> i = j) \<and>
     (\<forall>i. phase_of s i = Fresh \<longrightarrow> i \<notin> set (loops s) \<and> i \<notin> set (cancelled s)) \<and>
     (running s \<longrightarrow> (\<exists>i. owner i s \<and> (phase_of s i = Loading \<and> i \<notin> set (cancelled s) \<or> live_loop i s)))"

lemma lc_inv_begin:
  assumes "lc_inv s" "\<forall>j. phase_of s j \<noteq> Loading" "begin_start i s = Some s'"
  shows "lc_inv s'"
proof (cases "running s")
  case True
  with assms(3) have "phase_of s i = Fresh"
    "s' = s\<lparr>phase_of := (phase_of s)(i := Returned AlreadyStarted), cancelled := i # cancelled s\<rparr>"
    by (auto simp: begin_start_def split: if_splits)
  then show ?thesis using assms(1,2) True unfolding lc_inv_def owner_def live_loop_def by simp metis
next
  case False
  with assms(3) have "phase_of s i = Fresh"
    "s' = s\<lparr>running := True, cancel_of := Some i, phase_of := (phase_of s)(i := Loading)\<rparr>"
    by (auto simp: begin_start_def split: if_splits)
  then show ?thesis using assms(1,2) False unfolding lc_inv_def owner_def live_loop_def by simp metis
qed

lemma lc_inv_failed:
  assumes "lc_inv s" "load_failed i s = Some s'"
  shows "lc_inv s'"
proof -
  from assms(2) have "phase_of s i = Loading" "s' = s\<lparr>running := False, cancel_of := None, cancelled := i # cancelled s,
      phase_of := (phase_of s)(i := Returned LoadError)\<rparr>"
    by (auto simp: load_failed_def split: if_splits)
  then show ?thesis using assms(1) unfolding lc_inv_def owner_def live_loop_def by simp (metis option.inject)
qed

lemma lc_inv_succeeded:
  assumes "lc_inv s" "load_succeeded i s = Some s'"
  shows "lc_inv s'"
proof (cases "running s")
  case True
  with assms(2) have "phase_of s i = Loading"
    "s' = s\<lparr>done_of := Some i, loops := i # loops s, phase_of := (phase_of s)(i := Returned Started)\<rparr>"
    by (auto simp: load_succeeded_def split: if_splits)
  then show ?thesis using assms(1) True unfolding lc_inv_def owner_def live_loop_def by simp (metis option.inject)
next
  case False
  with assms(2) have "phase_of s i = Loading"
    "s' = s\<lparr>cancelled := i # cancelled s, phase_of := (phase_of s)(i := Returned StoppedDuringLoad)\<rparr>"
    by (auto simp: load_succeeded_def split: if_splits)
  then show ?thesis using assms(1) False unfolding lc_inv_def owner_def live_loop_def by simp
qed

lemma lc_inv_stop:
  assumes "lc_inv s"
  shows "lc_inv (lc_stop s)"
proof (cases "running s")
  case True
  then obtain i where i: "cancel_of s = Some i" "phase_of s i = Loading \<or> i \<in> set (loops s)"
    using assms unfolding lc_inv_def owner_def live_loop_def by blast
  then have "phase_of s i \<noteq> Fresh" using assms unfolding lc_inv_def by (metis phase.distinct(1))
  moreover have "lc_stop s = s\<lparr>running := False, cancel_of := None, done_of := None, cancelled := i # cancelled s\<rparr>"
    using True i by (simp add: lc_stop_def)
  moreover note i(1)
  ultimately show ?thesis using assms unfolding lc_inv_def owner_def live_loop_def by simp (metis option.inject)
qed (simp add: lc_stop_def assms)

lemma lc_inv_exit:
  assumes "lc_inv s" "loop_exit i s = Some s'"
  shows "lc_inv s'"
proof -
  from assms(2) have i: "i \<in> set (cancelled s)" and s': "s' = s\<lparr>loops := removeAll i (loops s)\<rparr>"
    by (auto simp: loop_exit_def split: if_splits)
  have "live_loop j s' = live_loop j s" "owner j s' = owner j s" for j
    using i by (auto simp: s' live_loop_def owner_def)
  moreover have "running s' = running s" "done_of s' = done_of s" "cancelled s' = cancelled s" "phase_of s' = phase_of s"
    "set (loops s') \<subseteq> set (loops s)"
    by (auto simp: s')
  ultimately show ?thesis using assms(1) unfolding lc_inv_def by (simp add: subset_iff) blast
qed

lemma lc_inv_reach: "reach True s \<Longrightarrow> lc_inv s"
proof (induction rule: reach.induct)
  case init
  then show ?case by (simp add: lc_inv_def live_loop_def owner_def lc_init_def)
qed (blast intro: lc_inv_begin lc_inv_failed lc_inv_succeeded lc_inv_stop lc_inv_exit)+

text \<open>C33: as long as no call of \<^verbatim>\<open>Start\<close> begins while another is loading, at most one refresh loop is alive, a stop
  leaves none alive whatever the load was doing, and a service that runs and is not loading has its loop.\<close>

theorem one_live_loop:
  assumes "reach True s"
  shows "(live_loop i s \<and> live_loop j s \<longrightarrow> i = j) \<and> \<not> live_loop i (lc_stop s) \<and>
    (running s \<and> (\<forall>k. phase_of s k \<noteq> Loading) \<longrightarrow> (\<exists>k. live_loop k s))"
proof -
  have inv: "lc_inv s" and stop: "lc_inv (lc_stop s)" using lc_inv_reach assms reach.stops by blast+
  have "\<not> owner i (lc_stop s)" by (simp add: owner_def lc_stop_def)
  then have "\<not> live_loop i (lc_stop s)" using stop unfolding lc_inv_def by blast
  moreover have "live_loop i s \<and> live_loop j s \<longrightarrow> i = j" using inv unfolding lc_inv_def owner_def by (metis option.inject)
  moreover have "running s \<and> (\<forall>k. phase_of s k \<noteq> Loading) \<longrightarrow> (\<exists>k. live_loop k s)" using inv unfolding lc_inv_def by blast
  ultimately show ?thesis by blast
qed

text \<open>Sequences of steps as lists of operations.\<close>

fun run_steps :: "(lifecycle \<Rightarrow> lifecycle option) list \<Rightarrow> lifecycle \<Rightarrow> lifecycle option" where
  "run_steps [] s = Some s"
| "run_steps (f # fs) s = (case f s of None \<Rightarrow> None | Some s' \<Rightarrow> run_steps fs s')"

definition leaking_run :: "(lifecycle \<Rightarrow> lifecycle option) list" where
  "leaking_run = [begin_start 0, (\<lambda>s. Some (lc_stop s)), begin_start 1, load_succeeded 1, load_failed 0]"

lemma reach_run_steps:
  "reach False s \<Longrightarrow> (\<And>f. f \<in> set fs \<Longrightarrow> \<exists>i. f = begin_start i \<or> f = load_failed i \<or> f = load_succeeded i \<or> f = (\<lambda>s. Some (lc_stop s))) \<Longrightarrow>
   run_steps fs s = Some s' \<Longrightarrow> reach False s'"
proof (induction fs arbitrary: s)
  case (Cons f fs)
  then obtain s1 where s1: "f s = Some s1" "run_steps fs s1 = Some s'" by (auto split: option.splits)
  obtain i where "f = begin_start i \<or> f = load_failed i \<or> f = load_succeeded i \<or> f = (\<lambda>s. Some (lc_stop s))"
    using Cons.prems(2) [OF list.set_intros(1)] by blast
  then have "reach False s1" using Cons.prems(1) s1(1) reach.begins [of False s i s1] reach.failed [of False s i s1]
      reach.succeeded [of False s i s1] reach.stops [of False s] by auto
  then show ?case using Cons.IH s1(2) Cons.prems(2) by simp
qed simp

text \<open>Without that restriction a stop during the first load and a second start reach a state in which the service counts
  as stopped, so that a stop does nothing, while a loop runs that nothing will cancel.\<close>

theorem overlapping_starts_leak: "\<exists>s. reach False s \<and> \<not> running s \<and> lc_stop s = s \<and> live_loop 1 s \<and> loop_exit 1 s = None"
proof -
  obtain s where s: "run_steps leaking_run lc_init = Some s" "\<not> running s" "loops s = [1]" "cancelled s = [0, 0]"
    by (simp add: leaking_run_def lc_init_def lc_step_defs)
  have "reach False s" by (rule reach_run_steps [OF reach.init _ s(1)]) (auto simp: leaking_run_def)
  with s show ?thesis by (intro exI [of _ s]) (simp add: lc_stop_def live_loop_def loop_exit_def)
qed

theorem one_live_loop_witness:
  "\<exists>s. run_steps [begin_start 0, load_succeeded 0] lc_init = Some s \<and> live_loop 0 s \<and> \<not> live_loop 0 (lc_stop s)"
proof -
  obtain s1 s where s1: "begin_start 0 lc_init = Some s1" and s: "load_succeeded 0 s1 = Some s" "loops s = [0]" "cancelled s = []"
    by (simp add: begin_start_def load_succeeded_def lc_init_def)
  have "\<forall>j. phase_of lc_init j \<noteq> Loading" by (simp add: lc_init_def)
  then have "reach True s" using s1 s(1) reach.init reach.begins reach.succeeded by metis
  from one_live_loop [OF this] s s1 show ?thesis by (auto simp: live_loop_def)
qed

end
