(* ===== verification/Identity_Service.thy ===== *)
theory Identity_Service
  imports Verified_Identity Identity_Config
begin

text \<open>
  The pipeline of the identity agent (\<^verbatim>\<open>src/targeting/identityagent/service.go\<close>): the packages of a request are
  resolved, verified identities are collected, then the frequency-cap stage and the audience stage run in parallel and
  are joined. A stage that decides every package it looks at cancels the other one; a schedule says which stage finished
  first and whether the other one's store call still observed the cancellation. The stores are parameters: a batch
  of lookups is answered or fails.
\<close>

type_synonym batch_store = "(string \<times> string) list \<Rightarrow> store_error + bool list"

record decode_summary =
  WireCount :: nat
  SuccessCount :: nat

record identity_service =
  is_fcap :: batch_store
  is_engine_audience :: "batch_store option"
  is_audience_svc :: bool
  is_strict :: bool
  is_vid :: vid_service

definition canonicalizeSellerAgentURL :: "(string \<Rightarrow> string option) \<Rightarrow> string \<Rightarrow> string" where
  "canonicalizeSellerAgentURL canon raw =
     (if raw = '''' then '''' else case canon raw of None \<Rightarrow> raw | Some c \<Rightarrow> c)"

definition packagesWithSegmentRules :: "id_configs \<Rightarrow> string list \<Rightarrow> string list" where
  "packagesWithSegmentRules cfgs pkgIDs =
     filter (\<lambda>id. case cfgs id of None \<Rightarrow> False | Some c \<Rightarrow> \<not> rule_IsEmpty (TargetSegments c)) pkgIDs"

definition stageErrorOutcome :: "store_error \<Rightarrow> stage_outcome" where
  "stageErrorOutcome e = (case e of DeadlineExceeded \<Rightarrow> OutcomeTimeout | Canceled \<Rightarrow> OutcomeCanceled | StoreFailed _ \<Rightarrow> OutcomeError)"

section \<open>The stages\<close>

record fcap_result =
  cappedByPkg :: "string list"
  fcap_outcome :: stage_outcome

definition allCapped :: "fcap_result \<Rightarrow> string list \<Rightarrow> bool" where
  "allCapped r pkgIDs = (if pkgIDs = [] then False else list_all (\<lambda>id. id \<in> set (cappedByPkg r)) pkgIDs)"

definition cap_identities :: "identity_request \<Rightarrow> verified_identity list \<Rightarrow> string list" where
  "cap_identities req verified =
     (if verified \<noteq> [] then map CapKey verified else map user_token (im_identities req))"

definition undecodable :: "bool \<Rightarrow> verified_identity list \<Rightarrow> decode_summary \<Rightarrow> bool" where
  "undecodable strict verified dsum \<longleftrightarrow>
     verified = [] \<and> WireCount dsum > 0 \<and>
     (SuccessCount dsum = 0 \<or> strict \<and> SuccessCount dsum < WireCount dsum)"

definition runFcapStage ::
  "(string \<Rightarrow> string) \<Rightarrow> batch_store \<Rightarrow> bool \<Rightarrow> identity_request \<Rightarrow> string \<Rightarrow> string list \<Rightarrow> verified_identity list \<Rightarrow>
   decode_summary \<Rightarrow> fcap_result" where
  "runFcapStage Hash store strict req canonicalSeller pkgIDs verified dsum =
     (if undecodable strict verified dsum
      then \<lparr>cappedByPkg = pkgIDs, fcap_outcome = OutcomeUndecodable\<rparr>
      else
        let fs = map (\<lambda>p. \<lparr>f_seller = canonicalSeller, f_package = p\<rparr>) pkgIDs in
        case IsCappedAny Hash store (cap_identities req verified) fs of
          Inl e \<Rightarrow> \<lparr>cappedByPkg = pkgIDs, fcap_outcome = stageErrorOutcome e\<rparr>
        | Inr capped \<Rightarrow>
            if length capped \<noteq> length pkgIDs then \<lparr>cappedByPkg = pkgIDs, fcap_outcome = OutcomeError\<rparr>
            else \<lparr>cappedByPkg = map fst (filter snd (zip pkgIDs capped)),
                  fcap_outcome = (if list_all id capped \<and> pkgIDs \<noteq> [] then OutcomeFail else OutcomePass)\<rparr>)"

record audience_result =
  rejected_pkgs :: "string list"
  audience_outcome :: stage_outcome

definition allRejected :: "audience_result \<Rightarrow> string list \<Rightarrow> bool" where
  "allRejected r pkgsWithSegments =
     (if pkgsWithSegments = [] then False else list_all (\<lambda>id. id \<in> set (rejected_pkgs r)) pkgsWithSegments)"

definition runAudienceStage ::
  "batch_store option \<Rightarrow> identity_request \<Rightarrow> id_configs \<Rightarrow> string list \<Rightarrow> string list \<Rightarrow> audience_result" where
  "runAudienceStage store req cfgs effectivePkgIDs pkgsWithSegments =
     (case EvaluateIdentityResolved store cfgs (map user_token (im_identities req)) effectivePkgIDs of
        Inl e \<Rightarrow> \<lparr>rejected_pkgs = pkgsWithSegments, audience_outcome = stageErrorOutcome e\<rparr>
      | Inr eligibility \<Rightarrow>
          let rejected = remdups (map fst (filter (\<lambda>(p, ok). p \<in> set pkgsWithSegments \<and> \<not> ok) eligibility)) in
          \<lparr>rejected_pkgs = rejected,
           audience_outcome = (if pkgsWithSegments \<noteq> [] \<and> length rejected = length (remdups pkgsWithSegments)
             then OutcomeFail else OutcomePass)\<rparr>)"

section \<open>Joining\<close>

definition joinResults ::
  "string list \<Rightarrow> string list \<Rightarrow> fcap_result \<Rightarrow> audience_result \<Rightarrow> string list \<Rightarrow> (string \<times> bool) list" where
  "joinResults pkgIDs pkgsWithSegments fc aud vidRejected =
     map (\<lambda>id. (id,
       if id \<in> set (cappedByPkg fc) then False
       else if id \<in> set pkgsWithSegments \<and> id \<in> set (rejected_pkgs aud) then False
       else if id \<in> set vidRejected then False
       else True)) pkgIDs"

datatype status = StatusOK | StatusTimeout | StatusProviderUnavailable

definition terminalStatus :: "stage_outcome \<Rightarrow> stage_outcome \<Rightarrow> stage_outcome \<Rightarrow> status" where
  "terminalStatus fcapOutcome audOutcome vidOutcome =
     (if fcapOutcome = OutcomeTimeout \<or> audOutcome = OutcomeTimeout \<or> vidOutcome = OutcomeTimeout then StatusTimeout
      else if fcapOutcome = OutcomeError \<or> audOutcome = OutcomeError \<or> vidOutcome = OutcomeError then StatusProviderUnavailable
      else StatusOK)"

record identity_result =
  res_request_id :: string
  eligibility :: "(string \<times> bool) list"
  res_verified :: "verified_identity list"
  res_status :: status

text \<open>Which stage finishes first, and whether the other one's store call sees a cancellation by it.\<close>

datatype schedule = FcapFirst bool | AudienceFirst bool

definition when_cancelled :: "bool \<Rightarrow> batch_store \<Rightarrow> batch_store" where
  "when_cancelled c store = (if c then (\<lambda>_. Inl Canceled) else store)"

text \<open>Without an audience service the packages with rules are rejected.\<close>

definition audience_run :: "identity_service \<Rightarrow> identity_request \<Rightarrow> id_configs \<Rightarrow> string list \<Rightarrow> bool \<Rightarrow> audience_result" where
  "audience_run s req cfgs pkgs c =
     (let ruled = packagesWithSegmentRules cfgs pkgs in
      if is_audience_svc s \<and> ruled \<noteq> []
      then runAudienceStage (map_option (when_cancelled c) (is_engine_audience s)) req cfgs pkgs ruled
      else if ruled \<noteq> [] then \<lparr>rejected_pkgs = ruled, audience_outcome = OutcomeFail\<rparr>
      else \<lparr>rejected_pkgs = [], audience_outcome = OutcomePass\<rparr>)"

definition EvaluateWithDecode ::
  "(string \<Rightarrow> string) \<Rightarrow> (string \<Rightarrow> string option) \<Rightarrow> (string \<Rightarrow> time option) \<Rightarrow> (string \<Rightarrow> string \<Rightarrow> attestation option) \<Rightarrow>
   time \<Rightarrow> snapshot_data \<Rightarrow> identity_service \<Rightarrow> schedule \<Rightarrow> identity_request \<Rightarrow> decode_summary \<Rightarrow> identity_result" where
  "EvaluateWithDecode Hash canon parse_time Open now snap s sched req dsum =
     (let seller = canonicalizeSellerAgentURL canon (im_seller_agent_url req);
          (pkgs, cfgs) = ResolveRequest canon snap seller (im_package_ids req) in
      if pkgs = []
      then \<lparr>res_request_id = im_request_id req, eligibility = [], res_verified = [], res_status = StatusOK\<rparr>
      else
        let (verified, vidOutcome) = runVerifiedIdentityStage parse_time Open now (is_vid s) req;
            vidRejected = computeVerifiedIdentityGate (is_vid s) req cfgs pkgs verified;
            ruled = packagesWithSegmentRules cfgs pkgs;
            needed = (is_audience_svc s \<and> ruled \<noteq> []);
            fcap = (\<lambda>c. runFcapStage Hash (when_cancelled c (is_fcap s)) (is_strict s) req seller pkgs verified dsum);
            audience = audience_run s req cfgs pkgs;
            (fc, aud) = (case sched of
                FcapFirst seen \<Rightarrow> (fcap False, audience (seen \<and> allCapped (fcap False) pkgs))
              | AudienceFirst seen \<Rightarrow>
                  (fcap (seen \<and> needed \<and> allRejected (audience False) ruled), audience False)) in
        \<lparr>res_request_id = im_request_id req, eligibility = joinResults pkgs ruled fc aud vidRejected,
         res_verified = verified, res_status = terminalStatus (fcap_outcome fc) (audience_outcome aud) vidOutcome\<rparr>)"

definition Evaluate ::
  "(string \<Rightarrow> string) \<Rightarrow> (string \<Rightarrow> string option) \<Rightarrow> (string \<Rightarrow> time option) \<Rightarrow> (string \<Rightarrow> string \<Rightarrow> attestation option) \<Rightarrow>
   time \<Rightarrow> snapshot_data \<Rightarrow> identity_service \<Rightarrow> schedule \<Rightarrow> identity_request \<Rightarrow> identity_result" where
  "Evaluate Hash canon parse_time Open now snap s sched req =
     EvaluateWithDecode Hash canon parse_time Open now snap s sched req \<lparr>WireCount = 0, SuccessCount = 0\<rparr>"

section \<open>Stores that answer truthfully or fail\<close>

definition healthy_caps :: "time \<Rightarrow> fcap_store \<Rightarrow> batch_store" where
  "healthy_caps now st = (\<lambda>q. Inr (FieldExistsBatch now st q))"

definition truthful :: "batch_store \<Rightarrow> batch_store \<Rightarrow> bool" where
  "truthful healthy store \<longleftrightarrow> (\<forall>q. store q = healthy q \<or> isl (store q))"

lemma truthful_cancelled: "truthful healthy store \<Longrightarrow> truthful healthy (when_cancelled c store)"
  by (simp add: truthful_def when_cancelled_def)

lemma truthful_refl: "truthful healthy healthy"
  by (simp add: truthful_def)

text \<open>Both stages ask one batch: they behave as with the healthy store or pass its error on.\<close>

lemma IsCappedAny_truthful:
  assumes "truthful healthy store"
  shows "IsCappedAny Hash store ids fs = IsCappedAny Hash healthy ids fs \<or> isl (IsCappedAny Hash store ids fs)"
proof -
  let ?buf = "concat (map (\<lambda>i. map (\<lambda>f. (identityKey Hash i, fieldString f)) fs) ids)"
  have "store ?buf = healthy ?buf \<or> isl (store ?buf)" using assms by (simp add: truthful_def)
  then show ?thesis by (cases "store ?buf") (auto simp: IsCappedAny_def Let_def)
qed

lemma resolveUserSegments_truthful:
  assumes "truthful healthy store"
  shows "resolveUserSegments (Some store) users segs = resolveUserSegments (Some healthy) users segs \<or>
    isl (resolveUserSegments (Some store) users segs)"
proof -
  let ?ls = "concat (map (\<lambda>u. map (\<lambda>s. (u, s)) segs) users)"
  show ?thesis
  proof (cases "store ?ls")
    case (Inr r)
    then have "healthy ?ls = Inr r" using assms by (metis truthful_def sum.disc(2))
    with Inr show ?thesis by (simp add: resolveUserSegments_def Let_def)
  qed (auto simp: resolveUserSegments_def Let_def)
qed

lemma EvaluateIdentityResolved_truthful:
  assumes "truthful healthy store"
  shows "EvaluateIdentityResolved (Some store) cfgs users pkgs = EvaluateIdentityResolved (Some healthy) cfgs users pkgs \<or>
    isl (EvaluateIdentityResolved (Some store) cfgs users pkgs)"
  using resolveUserSegments_truthful [OF assms, of users "collectTargetSegments cfgs pkgs"]
  by (auto simp: EvaluateIdentityResolved_def split: sum.splits)

section \<open>What the stages decide\<close>

definition seller_field :: "string \<Rightarrow> string \<Rightarrow> field" where
  "seller_field seller p = \<lparr>f_seller = seller, f_package = p\<rparr>"

definition is_capped :: "(string \<Rightarrow> string) \<Rightarrow> time \<Rightarrow> fcap_store \<Rightarrow> string list \<Rightarrow> string \<Rightarrow> string \<Rightarrow> bool" where
  "is_capped Hash now st ids seller p = list_ex (\<lambda>i. IsCapped Hash now st i (seller_field seller p)) ids"

lemma zip_map_filter: "map fst (filter snd (zip ps (map g ps))) = filter g ps"
  by (induction ps) simp_all

lemma healthy_IsCappedAny:
  "IsCappedAny Hash (healthy_caps now st) ids (map (\<lambda>p. \<lparr>f_seller = seller, f_package = p\<rparr>) pkgs) =
     (if pkgs \<noteq> [] \<and> length ids > MaxInt div length pkgs
      then Inl (StoreFailed ''fcap: identity-field cross-product overflows'')
      else Inr (map (is_capped Hash now st ids seller) pkgs))"
  unfolding healthy_caps_def IsCappedAny_eq by (simp add: is_capped_def seller_field_def)

lemma fcap_stage_sound:
  assumes "truthful (healthy_caps now st) store" and "p \<in> set pkgs"
    and "p \<notin> set (cappedByPkg (runFcapStage Hash store strict req seller pkgs verified dsum))"
  shows "\<not> undecodable strict verified dsum \<and> \<not> is_capped Hash now st (cap_identities req verified) seller p"
proof -
  let ?fs = "map (\<lambda>p. \<lparr>f_seller = seller, f_package = p\<rparr>) pkgs" and ?ids = "cap_identities req verified"
  from assms(2,3) obtain capped where ok: "\<not> undecodable strict verified dsum"
    "IsCappedAny Hash store ?ids ?fs = Inr capped" "p \<notin> set (map fst (filter snd (zip pkgs capped)))"
    by (fastforce simp: runFcapStage_def Let_def split: sum.splits if_splits)
  then have "IsCappedAny Hash (healthy_caps now st) ?ids ?fs = Inr capped"
    using IsCappedAny_truthful [OF assms(1), of Hash ?ids ?fs] by simp
  then have "capped = map (is_capped Hash now st ?ids seller) pkgs"
    unfolding healthy_IsCappedAny by (auto split: if_splits)
  with ok assms(2) show ?thesis by (simp add: zip_map_filter del: map_map)
qed

lemma fcap_stage_healthy:
  assumes "\<not> undecodable strict verified dsum" "pkgs \<noteq> []"
    and "length (cap_identities req verified) \<le> MaxInt div length pkgs"
  shows "runFcapStage Hash (healthy_caps now st) strict req seller pkgs verified dsum =
    \<lparr>cappedByPkg = filter (is_capped Hash now st (cap_identities req verified) seller) pkgs,
     fcap_outcome = (if list_all (is_capped Hash now st (cap_identities req verified) seller) pkgs
       then OutcomeFail else OutcomePass)\<rparr>"
  using assms
  by (simp add: runFcapStage_def Let_def healthy_IsCappedAny zip_map_filter list.pred_map comp_def)

lemma fcap_stage_cancelled:
  assumes "\<not> undecodable strict verified dsum" "pkgs \<noteq> []" "cap_identities req verified \<noteq> []"
    and "length (cap_identities req verified) \<le> MaxInt div length pkgs"
  shows "runFcapStage Hash (when_cancelled True store) strict req seller pkgs verified dsum =
    \<lparr>cappedByPkg = pkgs, fcap_outcome = OutcomeCanceled\<rparr>"
  using assms by (simp add: runFcapStage_def Let_def IsCappedAny_def when_cancelled_def stageErrorOutcome_def)

lemma ruled_iff: "p \<in> set (packagesWithSegmentRules cfgs pkgs) \<longleftrightarrow> p \<in> set pkgs \<and> \<not> rule_IsEmpty (target_of cfgs p)"
  by (auto simp: packagesWithSegmentRules_def target_of_def rule_IsEmpty_def split: option.splits)

definition member_of :: "(string \<Rightarrow> string) \<Rightarrow> audience_store \<Rightarrow> identity_request \<Rightarrow> string \<Rightarrow> bool" where
  "member_of Hash ast req s \<longleftrightarrow> (\<exists>i\<in>set (im_identities req). is_member Hash ast (user_token i) s)"

lemma engine_healthy:
  "EvaluateIdentityResolved (Some (store_members Hash ast)) cfgs (map user_token (im_identities req)) pkgs =
     Inr (map (\<lambda>p. (p, rule_holds (target_of cfgs p) (member_of Hash ast req))) pkgs)"
proof -
  have "member_of Hash ast req = (\<lambda>s. \<exists>u\<in>set (map user_token (im_identities req)). is_member Hash ast u s)"
    by (simp add: member_of_def fun_eq_iff)
  then show ?thesis using engine_full_membership [of Hash ast cfgs "map user_token (im_identities req)" pkgs] by simp
qed

lemma audience_stage_sound:
  assumes "\<And>store'. store = Some store' \<Longrightarrow> truthful (store_members Hash ast) store'"
    and "p \<in> set (packagesWithSegmentRules cfgs pkgs)"
    and "p \<notin> set (rejected_pkgs (runAudienceStage store req cfgs pkgs (packagesWithSegmentRules cfgs pkgs)))"
  shows "rule_holds (target_of cfgs p) (member_of Hash ast req)"
proof -
  have p: "p \<in> set pkgs" "\<not> rule_IsEmpty (target_of cfgs p)" using assms(2) by (auto simp: ruled_iff)
  let ?users = "map user_token (im_identities req)"
  obtain elig where e: "EvaluateIdentityResolved store cfgs ?users pkgs = Inr elig" "(p, False) \<notin> set elig"
  proof (cases "EvaluateIdentityResolved store cfgs ?users pkgs")
    case (Inl err)
    then show ?thesis using assms(2,3) by (simp add: runAudienceStage_def)
  next
    case (Inr elig)
    have "(p, False) \<notin> set elig"
    proof
      assume "(p, False) \<in> set elig"
      then have "p \<in> fst ` {x \<in> set elig. (\<lambda>(p, ok). p \<in> set (packagesWithSegmentRules cfgs pkgs) \<and> \<not> ok) x}"
        using assms(2) by (intro image_eqI [of _ _ "(p, False)"]) auto
      then show False using assms(3) by (simp add: runAudienceStage_def Inr Let_def)
    qed
    with Inr show ?thesis using that by blast
  qed
  show ?thesis
  proof (cases store)
    case None
    with e p show ?thesis using engine_blind [of cfgs ?users pkgs] by force
  next
    case (Some store')
    have "EvaluateIdentityResolved (Some (store_members Hash ast)) cfgs ?users pkgs = Inr elig"
      using e(1) EvaluateIdentityResolved_truthful [OF assms(1) [OF Some], of cfgs ?users pkgs] by (simp add: Some)
    then show ?thesis using e(2) p(1) unfolding engine_healthy by auto
  qed
qed

lemma audience_stage_healthy:
  assumes "ruled = packagesWithSegmentRules cfgs pkgs"
  shows "p \<in> set (rejected_pkgs (runAudienceStage (Some (store_members Hash ast)) req cfgs pkgs ruled)) \<longleftrightarrow>
    p \<in> set ruled \<and> \<not> rule_holds (target_of cfgs p) (member_of Hash ast req)"
    and "audience_outcome (runAudienceStage (Some (store_members Hash ast)) req cfgs pkgs ruled) \<in> {OutcomePass, OutcomeFail}"
proof -
  show "p \<in> set (rejected_pkgs (runAudienceStage (Some (store_members Hash ast)) req cfgs pkgs ruled)) \<longleftrightarrow>
      p \<in> set ruled \<and> \<not> rule_holds (target_of cfgs p) (member_of Hash ast req)"
    by (auto simp: runAudienceStage_def engine_healthy Let_def assms ruled_iff image_iff)
  show "audience_outcome (runAudienceStage (Some (store_members Hash ast)) req cfgs pkgs ruled) \<in> {OutcomePass, OutcomeFail}"
    by (simp add: runAudienceStage_def engine_healthy Let_def)
qed

section \<open>Every schedule is safe\<close>

lemma set_joinResults:
  "(p, True) \<in> set (joinResults pkgs ruled fc aud vid) \<longleftrightarrow>
     p \<in> set pkgs \<and> p \<notin> set (cappedByPkg fc) \<and> \<not> (p \<in> set ruled \<and> p \<in> set (rejected_pkgs aud)) \<and> p \<notin> set vid"
  by (auto simp: joinResults_def split: if_splits)

text \<open>Every run is a join of one result of each stage, each with or without a cancellation.\<close>

lemma evaluate_join:
  assumes "ResolveRequest canon snap (canonicalizeSellerAgentURL canon (im_seller_agent_url req)) (im_package_ids req) = (pkgs, cfgs)"
    and "pkgs \<noteq> []" and "runVerifiedIdentityStage parse_time Open now (is_vid s) req = (verified, oc)"
  obtains c c' where
    "EvaluateWithDecode Hash canon parse_time Open now snap s sched req dsum =
      (let fc = runFcapStage Hash (when_cancelled c (is_fcap s)) (is_strict s) req
                  (canonicalizeSellerAgentURL canon (im_seller_agent_url req)) pkgs verified dsum;
           aud = audience_run s req cfgs pkgs c' in
       \<lparr>res_request_id = im_request_id req,
        eligibility = joinResults pkgs (packagesWithSegmentRules cfgs pkgs) fc aud
          (computeVerifiedIdentityGate (is_vid s) req cfgs pkgs verified),
        res_verified = verified, res_status = terminalStatus (fcap_outcome fc) (audience_outcome aud) oc\<rparr>)"
    "case sched of
       FcapFirst seen \<Rightarrow> \<not> c \<and> c' = (seen \<and> allCapped (runFcapStage Hash (is_fcap s) (is_strict s) req
         (canonicalizeSellerAgentURL canon (im_seller_agent_url req)) pkgs verified dsum) pkgs)
     | AudienceFirst seen \<Rightarrow> \<not> c' \<and> c = (seen \<and> is_audience_svc s \<and> packagesWithSegmentRules cfgs pkgs \<noteq> [] \<and>
         allRejected (audience_run s req cfgs pkgs False) (packagesWithSegmentRules cfgs pkgs))"
proof (cases sched)
  case (FcapFirst seen)
  then show ?thesis
    using assms by (intro that [of False]) (simp_all add: EvaluateWithDecode_def when_cancelled_def Let_def)
next
  case (AudienceFirst seen)
  then show ?thesis
    using assms by (intro that [of _ False]) (simp_all add: EvaluateWithDecode_def when_cancelled_def Let_def)
qed

lemma eligible_gates:
  assumes coh: "coherent snap"
    and caps: "truthful (healthy_caps t st) (is_fcap s)"
    and members: "\<forall>store. is_engine_audience s = Some store \<longrightarrow> truthful (store_members Hash ast) store"
    and r: "r = EvaluateWithDecode Hash canon parse_time Open now snap s sched req dsum"
    and elig: "(p, True) \<in> set (eligibility r)"
    and verified: "verified = fst (runVerifiedIdentityStage parse_time Open now (is_vid s) req)"
    and seller: "seller = canonicalizeSellerAgentURL canon (im_seller_agent_url req)"
  shows "\<exists>rule. config_Lookup canon snap seller p = Some rule \<and> (im_package_ids req = [] \<or> p \<in> set (im_package_ids req)) \<and>
    \<not> is_capped Hash t st (cap_identities req verified) seller p \<and> \<not> undecodable (is_strict s) verified dsum \<and>
    rule_holds rule (member_of Hash ast req) \<and>
    \<not> rejects_verified (package_requirement (is_vid s) (im_country req) [p \<mapsto> identity_config rule] p) verified"
proof -
  obtain pkgs cfgs where res: "ResolveRequest canon snap seller (im_package_ids req) = (pkgs, cfgs)" by fastforce
  obtain oc where vid: "runVerifiedIdentityStage parse_time Open now (is_vid s) req = (verified, oc)"
    using verified by (cases "runVerifiedIdentityStage parse_time Open now (is_vid s) req") simp
  have "pkgs \<noteq> []" using elig res by (auto simp: r EvaluateWithDecode_def Let_def seller)
  then obtain c c' where join: "eligibility r =
      joinResults pkgs (packagesWithSegmentRules cfgs pkgs)
        (runFcapStage Hash (when_cancelled c (is_fcap s)) (is_strict s) req seller pkgs verified dsum)
        (audience_run s req cfgs pkgs c') (computeVerifiedIdentityGate (is_vid s) req cfgs pkgs verified)"
    using evaluate_join [OF res [unfolded seller] _ vid] by (metis (no_types, lifting) r seller identity_result.select_convs(2))
  have p: "p \<in> set pkgs" and cap: "p \<notin> set (cappedByPkg (runFcapStage Hash (when_cancelled c (is_fcap s)) (is_strict s) req seller pkgs verified dsum))"
    and seg: "\<not> (p \<in> set (packagesWithSegmentRules cfgs pkgs) \<and> p \<in> set (rejected_pkgs (audience_run s req cfgs pkgs c')))"
    and gate: "p \<notin> set (computeVerifiedIdentityGate (is_vid s) req cfgs pkgs verified)"
    using elig unfolding join set_joinResults by blast+
  obtain rule where rule: "config_Lookup canon snap seller p = Some rule" "cfgs p = Some (identity_config rule)"
    "im_package_ids req = [] \<or> p \<in> set (im_package_ids req)"
    using ResolveRequest_spec [OF coh res, of p] p by (auto split: if_splits)
  have "\<not> undecodable (is_strict s) verified dsum \<and> \<not> is_capped Hash t st (cap_identities req verified) seller p"
    by (rule fcap_stage_sound [OF truthful_cancelled [OF caps] p cap])
  moreover have "rule_holds (target_of cfgs p) (member_of Hash ast req)"
  proof (cases "p \<in> set (packagesWithSegmentRules cfgs pkgs)")
    case True
    then have "p \<notin> set (rejected_pkgs (runAudienceStage (map_option (when_cancelled c') (is_engine_audience s)) req cfgs pkgs
        (packagesWithSegmentRules cfgs pkgs)))"
      using seg by (auto simp: audience_run_def Let_def split: if_splits)
    then show ?thesis
      using members by (intro audience_stage_sound [OF _ True]) (auto simp: truthful_cancelled)
  next
    case False
    then show ?thesis using p by (intro rule_holds_empty) (simp add: ruled_iff)
  qed
  then have "rule_holds rule (member_of Hash ast req)" by (simp add: target_of_def rule identity_config_def)
  moreover have "\<not> rejects_verified (package_requirement (is_vid s) (im_country req) [p \<mapsto> identity_config rule] p) verified"
    using gate p by (simp add: gate_set package_requirement_def rule)
  ultimately show ?thesis using rule by blast
qed

text \<open>Whichever stage finishes first, whatever is cancelled and whatever store fails, a package is reported eligible
  only if it is registered for the seller and, when packages were requested, is one of them; no identity the caps are
  checked for is capped on it, and the identities could be decoded; its segment rule holds of what the audience store
  knows; and the verified-identity gate lets it pass.\<close>

theorem eligible_sound:
  assumes coh: "coherent snap"
    and caps: "truthful (healthy_caps t st) (is_fcap s)"
    and members: "\<forall>store. is_engine_audience s = Some store \<longrightarrow> truthful (store_members Hash ast) store"
    and r: "r = EvaluateWithDecode Hash canon parse_time Open now snap s sched req dsum"
    and elig: "(p, True) \<in> set (eligibility r)"
    and verified: "verified = fst (runVerifiedIdentityStage parse_time Open now (is_vid s) req)"
    and seller: "seller = canonicalizeSellerAgentURL canon (im_seller_agent_url req)"
  shows "\<exists>rule. config_Lookup canon snap seller p = Some rule \<and> (im_package_ids req = [] \<or> p \<in> set (im_package_ids req)) \<and>
    \<not> is_capped Hash t st (cap_identities req verified) seller p \<and> \<not> undecodable (is_strict s) verified dsum \<and>
    rule_holds rule (member_of Hash ast req) \<and>
    \<not> rejects_verified (package_requirement (is_vid s) (im_country req) [p \<mapsto> identity_config rule] p) verified"
  by (rule eligible_gates [OF coh caps members r elig verified seller])

section \<open>What a schedule can change\<close>

lemma vid_outcome_cases: "snd (runVerifiedIdentityStage parse_time Open now s req) \<in> {OutcomePass, OutcomeError}"
  by (simp add: runVerifiedIdentityStage_def Let_def split: prod.split)

lemma audience_stage_cancelled:
  "audience_outcome (runAudienceStage (Some (when_cancelled True store)) req cfgs pkgs ruled) \<in> {OutcomePass, OutcomeFail, OutcomeCanceled}"
proof -
  have canceled: "e = Canceled" if "EvaluateIdentityResolved (Some (when_cancelled True store)) cfgs users pkgs = Inl e" for users e
    using that by (auto simp: EvaluateIdentityResolved_def resolveUserSegments_def when_cancelled_def Let_def split: sum.splits if_splits)
  show ?thesis
  proof (cases "EvaluateIdentityResolved (Some (when_cancelled True store)) cfgs (map user_token (im_identities req)) pkgs")
    case (Inl e)
    then show ?thesis using canceled [OF Inl] by (simp add: runAudienceStage_def stageErrorOutcome_def)
  qed (simp add: runAudienceStage_def Let_def)
qed

lemma allRejected_iff: "allRejected r ruled \<longleftrightarrow> ruled \<noteq> [] \<and> set ruled \<subseteq> set (rejected_pkgs r)"
  by (auto simp: allRejected_def list_all_iff)

lemma allCapped_iff: "allCapped r pkgs \<longleftrightarrow> pkgs \<noteq> [] \<and> set pkgs \<subseteq> set (cappedByPkg r)"
  by (auto simp: allCapped_def list_all_iff)

lemma joinResults_eq:
  assumes "\<And>p. p \<in> set pkgs \<Longrightarrow> E p \<longleftrightarrow> p \<notin> set (cappedByPkg fc) \<and> \<not> (p \<in> set ruled \<and> p \<in> set (rejected_pkgs aud)) \<and> p \<notin> set vid"
  shows "joinResults pkgs ruled fc aud vid = map (\<lambda>p. (p, E p)) pkgs"
  using assms by (auto simp: joinResults_def)

lemma when_cancelled_False [simp]: "when_cancelled False store = store"
  by (simp add: when_cancelled_def)

lemma audience_run_healthy:
  assumes "is_audience_svc s" "is_engine_audience s = Some (store_members Hash ast)" "ruled = packagesWithSegmentRules cfgs pkgs"
  shows "p \<in> set (rejected_pkgs (audience_run s req cfgs pkgs False)) \<longleftrightarrow>
      p \<in> set ruled \<and> \<not> rule_holds (target_of cfgs p) (member_of Hash ast req)"
    and "audience_outcome (audience_run s req cfgs pkgs c) \<in> {OutcomePass, OutcomeFail, OutcomeCanceled}"
proof -
  show "p \<in> set (rejected_pkgs (audience_run s req cfgs pkgs False)) \<longleftrightarrow>
      p \<in> set ruled \<and> \<not> rule_holds (target_of cfgs p) (member_of Hash ast req)"
    using audience_stage_healthy(1) [OF assms(3), of p Hash ast req] assms by (auto simp: audience_run_def Let_def)
  show "audience_outcome (audience_run s req cfgs pkgs c) \<in> {OutcomePass, OutcomeFail, OutcomeCanceled}"
    using audience_stage_healthy(2) [OF assms(3), of Hash ast req]
      audience_stage_cancelled [of "store_members Hash ast" req cfgs pkgs ruled] assms
    by (cases c) (auto simp: audience_run_def Let_def)
qed

lemma evaluate_schedules:
  assumes stores: "is_fcap s = healthy_caps t st" "is_audience_svc s" "is_engine_audience s = Some (store_members Hash ast)"
    and res: "ResolveRequest canon snap seller (im_package_ids req) = (pkgs, cfgs)" "pkgs \<noteq> []"
    and seller: "seller = canonicalizeSellerAgentURL canon (im_seller_agent_url req)"
    and vid: "runVerifiedIdentityStage parse_time Open now (is_vid s) req = (verified, oc)"
    and ids: "\<not> undecodable (is_strict s) verified dsum" "cap_identities req verified \<noteq> []"
      "length (cap_identities req verified) \<le> MaxInt div length pkgs"
    and r: "r = EvaluateWithDecode Hash canon parse_time Open now snap s sched req dsum"
    and ruled: "ruled = packagesWithSegmentRules cfgs pkgs"
    and race: "race \<longleftrightarrow> sched = AudienceFirst True \<and> ruled \<noteq> [] \<and>
      list_all (\<lambda>p. \<not> rule_holds (target_of cfgs p) (member_of Hash ast req)) ruled"
  shows "eligibility r = map (\<lambda>p. (p, \<not> is_capped Hash t st (cap_identities req verified) seller p \<and>
      rule_holds (target_of cfgs p) (member_of Hash ast req) \<and>
      p \<notin> set (computeVerifiedIdentityGate (is_vid s) req cfgs pkgs verified) \<and> \<not> race)) pkgs \<and>
    res_status r = (if oc = OutcomeError then StatusProviderUnavailable else StatusOK)"
proof -
  let ?cap = "is_capped Hash t st (cap_identities req verified) seller"
  let ?holds = "\<lambda>p. rule_holds (target_of cfgs p) (member_of Hash ast req)"
  let ?fc = "\<lambda>c. runFcapStage Hash (when_cancelled c (is_fcap s)) (is_strict s) req seller pkgs verified dsum"
  obtain c c' where join: "r = (let fc = ?fc c; aud = audience_run s req cfgs pkgs c' in
       \<lparr>res_request_id = im_request_id req, eligibility = joinResults pkgs (packagesWithSegmentRules cfgs pkgs) fc aud
          (computeVerifiedIdentityGate (is_vid s) req cfgs pkgs verified),
        res_verified = verified, res_status = terminalStatus (fcap_outcome fc) (audience_outcome aud) oc\<rparr>)"
    and sched: "case sched of
       FcapFirst seen \<Rightarrow> \<not> c \<and> c' = (seen \<and> allCapped (?fc False) pkgs)
     | AudienceFirst seen \<Rightarrow> \<not> c' \<and> c = (seen \<and> is_audience_svc s \<and> ruled \<noteq> [] \<and>
         allRejected (audience_run s req cfgs pkgs False) ruled)"
    using evaluate_join [OF res(1) [unfolded seller] res(2) vid, of Hash sched dsum] unfolding r seller ruled
    by (metis when_cancelled_False)
  have fc: "?fc False = \<lparr>cappedByPkg = filter ?cap pkgs, fcap_outcome = (if list_all ?cap pkgs then OutcomeFail else OutcomePass)\<rparr>"
    using fcap_stage_healthy [OF ids(1) res(2) ids(3)] by (simp add: stores)
  have fc_cancelled: "?fc True = \<lparr>cappedByPkg = pkgs, fcap_outcome = OutcomeCanceled\<rparr>"
    by (rule fcap_stage_cancelled [OF ids(1) res(2) ids(2,3)])
  note aud = audience_run_healthy [OF stores(2,3) ruled]
  have raced: "c \<longleftrightarrow> race"
    using sched by (auto simp: race allRejected_iff aud list_all_iff stores subset_iff split: schedule.splits)
  have all_capped: "c' \<Longrightarrow> p \<in> set pkgs \<Longrightarrow> ?cap p" for p
    using sched fc by (auto simp: allCapped_iff split: schedule.splits)
  have elig: "eligibility r = map (\<lambda>p. (p, \<not> ?cap p \<and> ?holds p \<and>
      p \<notin> set (computeVerifiedIdentityGate (is_vid s) req cfgs pkgs verified) \<and> \<not> race)) pkgs"
    unfolding join Let_def identity_result.select_convs
  proof (rule joinResults_eq)
    fix p assume p: "p \<in> set pkgs"
    have no_rule: "p \<notin> set ruled \<Longrightarrow> ?holds p" using p by (auto simp: ruled ruled_iff intro: rule_holds_empty)
    show "(\<not> ?cap p \<and> ?holds p \<and> p \<notin> set (computeVerifiedIdentityGate (is_vid s) req cfgs pkgs verified) \<and> \<not> race) =
        (p \<notin> set (cappedByPkg (?fc c)) \<and>
         \<not> (p \<in> set (packagesWithSegmentRules cfgs pkgs) \<and> p \<in> set (rejected_pkgs (audience_run s req cfgs pkgs c'))) \<and>
         p \<notin> set (computeVerifiedIdentityGate (is_vid s) req cfgs pkgs verified))"
    proof (cases c)
      case True
      then show ?thesis using p raced by (simp add: fc_cancelled)
    next
      case False
      then show ?thesis
        using p raced fc all_capped no_rule aud(1) [of p] by (cases c') (auto simp flip: ruled)
    qed
  qed
  have "fcap_outcome (?fc c) \<in> {OutcomePass, OutcomeFail, OutcomeCanceled}" using fc fc_cancelled by (cases c) simp_all
  moreover have "oc \<in> {OutcomePass, OutcomeError}" using vid_outcome_cases [of parse_time Open now "is_vid s" req] vid by simp
  ultimately have "res_status r = (if oc = OutcomeError then StatusProviderUnavailable else StatusOK)"
    using aud(2) [of req c'] by (auto simp: join Let_def terminalStatus_def)
  with elig show ?thesis by blast
qed

text \<open>C29: with healthy stores and decodable identities the answer is exactly the conjunction of the three gates and the
  status reports nothing but a failing verifier, whatever the schedule, with one exception: when the audience stage
  finishes first, rejects every package that has a rule, and the cap check still sees its cancellation, every package is
  reported ineligible, also one that has no rule and passes every gate.\<close>

theorem evaluate_exact:
  assumes stores: "is_fcap s = healthy_caps t st" "is_audience_svc s" "is_engine_audience s = Some (store_members Hash ast)"
    and res: "ResolveRequest canon snap seller (im_package_ids req) = (pkgs, cfgs)" "pkgs \<noteq> []"
    and seller: "seller = canonicalizeSellerAgentURL canon (im_seller_agent_url req)"
    and vid: "runVerifiedIdentityStage parse_time Open now (is_vid s) req = (verified, oc)"
    and ids: "\<not> undecodable (is_strict s) verified dsum" "cap_identities req verified \<noteq> []"
      "length (cap_identities req verified) \<le> MaxInt div length pkgs"
    and r: "r = EvaluateWithDecode Hash canon parse_time Open now snap s sched req dsum"
    and ruled: "ruled = packagesWithSegmentRules cfgs pkgs"
    and race: "race \<longleftrightarrow> sched = AudienceFirst True \<and> ruled \<noteq> [] \<and>
      list_all (\<lambda>p. \<not> rule_holds (target_of cfgs p) (member_of Hash ast req)) ruled"
  shows "eligibility r = map (\<lambda>p. (p, \<not> is_capped Hash t st (cap_identities req verified) seller p \<and>
      rule_holds (target_of cfgs p) (member_of Hash ast req) \<and>
      p \<notin> set (computeVerifiedIdentityGate (is_vid s) req cfgs pkgs verified) \<and> \<not> race)) pkgs \<and>
    res_status r = (if oc = OutcomeError then StatusProviderUnavailable else StatusOK)"
  by (rule evaluate_schedules [OF assms])

section \<open>Witnesses\<close>

definition demo_snapshot :: snapshot_data where
  "demo_snapshot = buildSnapshot (\<lambda>_. None) \<lparr>sn_configs = [((''s'', ''p''), Some \<lparr>all_of = [''a''], some_of = [], none_of_segs = []\<rparr>),
     ((''s'', ''q''), None)], sn_last_updated = 0\<rparr>"

definition demo_service :: identity_service where
  "demo_service = \<lparr>is_fcap = healthy_caps 0 (\<lambda>_. Map.empty), is_engine_audience = Some (store_members id (\<lambda>_. Map.empty)),
     is_audience_svc = True, is_strict = False,
     is_vid = \<lparr>vs_verifier = None, vs_recipient_keys = [], vs_relying_party = '''', vs_age_resolver = None\<rparr>\<rparr>"

definition demo_request :: identity_request where
  "demo_request = sample_identity_request\<lparr>im_seller_agent_url := ''s'', im_package_ids := [''p'', ''q'']\<rparr>"

definition demo_answer :: "schedule \<Rightarrow> identity_result" where
  "demo_answer sched = EvaluateWithDecode id (\<lambda>_. None) (\<lambda>_. None) (\<lambda>_ _. None) 0 demo_snapshot demo_service sched demo_request
     \<lparr>WireCount = 1, SuccessCount = 1\<rparr>"

definition demo_configs :: id_configs where
  "demo_configs = snd (ResolveRequest (\<lambda>_. None) demo_snapshot ''s'' [''p'', ''q''])"

lemma demo_facts:
  "canonicalizeSellerAgentURL (\<lambda>_. None) (im_seller_agent_url demo_request) = ''s''"
  "ResolveRequest (\<lambda>_. None) demo_snapshot ''s'' (im_package_ids demo_request) = ([''p'', ''q''], demo_configs)"
  "runVerifiedIdentityStage (\<lambda>_. None) (\<lambda>_ _. None) 0 (is_vid demo_service) demo_request = ([], OutcomePass)"
  "cap_identities demo_request [] = [''t'']"
  "packagesWithSegmentRules demo_configs [''p'', ''q''] = [''p'']"
  "is_fcap demo_service = healthy_caps 0 (\<lambda>_. Map.empty)" "is_audience_svc demo_service"
  "is_engine_audience demo_service = Some (store_members id (\<lambda>_. Map.empty))"
proof -
  have "fst (ResolveRequest (\<lambda>_. None) demo_snapshot ''s'' (im_package_ids demo_request)) = [''p'', ''q'']" by code_simp
  then show "ResolveRequest (\<lambda>_. None) demo_snapshot ''s'' (im_package_ids demo_request) = ([''p'', ''q''], demo_configs)"
    by (simp add: demo_configs_def demo_request_def prod_eq_iff)
  show "canonicalizeSellerAgentURL (\<lambda>_. None) (im_seller_agent_url demo_request) = ''s''" by code_simp
  show "cap_identities demo_request [] = [''t'']" by code_simp
  show "packagesWithSegmentRules demo_configs [''p'', ''q''] = [''p'']" by code_simp
qed (simp_all add: demo_service_def stage_without_verifier)

lemma demo_gates:
  "\<not> is_capped id 0 (\<lambda>_. Map.empty) [''t''] ''s'' p"
  "rule_holds (target_of demo_configs ''q'') M" "\<not> rule_holds (target_of demo_configs ''p'') (member_of id (\<lambda>_. Map.empty) demo_request)"
  "computeVerifiedIdentityGate (is_vid demo_service) demo_request demo_configs [''p'', ''q''] [] = []"
proof -
  have "target_of demo_configs ''q'' = None" "target_of demo_configs ''p'' = Some \<lparr>all_of = [''a''], some_of = [], none_of_segs = []\<rparr>"
    by code_simp+
  then show "rule_holds (target_of demo_configs ''q'') M"
    "\<not> rule_holds (target_of demo_configs ''p'') (member_of id (\<lambda>_. Map.empty) demo_request)"
    by (simp_all add: rule_holds_def member_of_def is_member_def)
  show "computeVerifiedIdentityGate (is_vid demo_service) demo_request demo_configs [''p'', ''q''] [] = []" by code_simp
qed (simp add: is_capped_def IsCapped_def field_exists_def)

text \<open>The race is real: a package without a rule, capped for nobody, is lost when the audience stage wins.\<close>

theorem evaluate_exact_witness:
  "eligibility (demo_answer (AudienceFirst False)) = [(''p'', False), (''q'', True)] \<and>
   eligibility (demo_answer (AudienceFirst True)) = [(''p'', False), (''q'', False)] \<and>
   res_status (demo_answer (AudienceFirst True)) = StatusOK"
proof -
  have "\<not> undecodable (is_strict demo_service) [] \<lparr>WireCount = 1, SuccessCount = 1\<rparr>" by code_simp
  moreover have "length (cap_identities demo_request []) \<le> MaxInt div length [''p'', ''q'']"
    by (simp add: demo_facts MaxInt_def Suc_le_eq div_greater_zero_iff)
  ultimately have exact: "eligibility (demo_answer sched) = map (\<lambda>p. (p, \<not> is_capped id 0 (\<lambda>_. Map.empty) (cap_identities demo_request []) ''s'' p \<and>
      rule_holds (target_of demo_configs p) (member_of id (\<lambda>_. Map.empty) demo_request) \<and>
      p \<notin> set (computeVerifiedIdentityGate (is_vid demo_service) demo_request demo_configs [''p'', ''q''] []) \<and>
      \<not> (sched = AudienceFirst True \<and> packagesWithSegmentRules demo_configs [''p'', ''q''] \<noteq> [] \<and>
        list_all (\<lambda>p. \<not> rule_holds (target_of demo_configs p) (member_of id (\<lambda>_. Map.empty) demo_request))
          (packagesWithSegmentRules demo_configs [''p'', ''q''])))) [''p'', ''q''] \<and>
    res_status (demo_answer sched) = (if OutcomePass = OutcomeError then StatusProviderUnavailable else StatusOK)" for sched
    by (intro evaluate_exact [OF demo_facts(6-8,2) _ demo_facts(1) [symmetric] demo_facts(3) _ _ _ demo_answer_def refl refl])
      (simp_all add: demo_facts)
  show ?thesis using exact [of "AudienceFirst False"] exact [of "AudienceFirst True"] by (simp add: demo_facts demo_gates)
qed

theorem eligible_sound_witness: "\<not> is_capped id 0 (\<lambda>_. Map.empty) (cap_identities demo_request []) ''s'' ''q''"
proof -
  have coh: "coherent demo_snapshot" unfolding demo_snapshot_def by (rule buildSnapshot_coherent) code_simp
  have "\<not> undecodable (is_strict demo_service) [] \<lparr>WireCount = 1, SuccessCount = 1\<rparr>" by code_simp
  then have e: "(''q'', True) \<in> set (eligibility (demo_answer (FcapFirst False)))"
    using evaluate_schedules [OF demo_facts(6-8,2) _ demo_facts(1) [symmetric] demo_facts(3) _ _ _ demo_answer_def refl refl,
        of "FcapFirst False"]
    by (simp add: demo_facts demo_gates MaxInt_def Suc_le_eq div_greater_zero_iff)
  have c: "truthful (healthy_caps 0 (\<lambda>_. Map.empty)) (is_fcap demo_service)"
    "\<forall>store. is_engine_audience demo_service = Some store \<longrightarrow> truthful (store_members id (\<lambda>_. Map.empty)) store"
    by (simp_all add: demo_facts truthful_refl)
  show ?thesis
    using eligible_sound [OF coh c demo_answer_def e refl demo_facts(1) [symmetric]]
    unfolding demo_facts(3) fst_conv by blast
qed

end
