(* ===== verification/Tmpx_Token.thy ===== *)
theory Tmpx_Token
  imports TMP_Types
begin

text \<open>
  TMPX exposure tokens: the binary plaintext, the HPKE envelope and the wire form (\<^verbatim>\<open>src/tmproto/tmpx.go\<close>,
  \<^verbatim>\<open>tmpx_open.go\<close>). The primitives of the cipher suite (X25519, HKDF with
  SHA-256, ChaCha20-Poly1305) are fields of a record of functions; randomness and the clock are arguments. Byte strings
  are HOL strings.
\<close>

section \<open>Unpadded base64url, strict\<close>

definition b64_digit :: "nat \<Rightarrow> char" where
  "b64_digit n = (if n < 26 then char_of (65 + n) else if n < 52 then char_of (71 + n) else if n < 62 then char_of (n - 4)
     else if n = 62 then CHR ''-'' else CHR ''_'')"

definition b64_value :: "char \<Rightarrow> nat option" where
  "b64_value c =
     (if is_upper c then Some (of_char c - 65) else if is_lower c then Some (of_char c - 71)
      else if is_digit c then Some (of_char c + 4) else if c = CHR ''-'' then Some 62 else if c = CHR ''_'' then Some 63
      else None)"

fun b64_encode :: "string \<Rightarrow> string" where
  "b64_encode [] = []"
| "b64_encode [a] = (let a = of_char a in [b64_digit (a div 4), b64_digit (a mod 4 * 16)])"
| "b64_encode [a, b] = (let a = of_char a; b = of_char b in
     [b64_digit (a div 4), b64_digit (a mod 4 * 16 + b div 16), b64_digit (b mod 16 * 4)])"
| "b64_encode (a # b # c # s) = (let a = of_char a; b = of_char b; c = of_char c in
     [b64_digit (a div 4), b64_digit (a mod 4 * 16 + b div 16), b64_digit (b mod 16 * 4 + c div 64), b64_digit (c mod 64)]) @
     b64_encode s"

text \<open>The decoder skips line ends; strict means that the unused bits of the last digit are zero.\<close>

fun b64_values :: "nat list \<Rightarrow> string option" where
  "b64_values [] = Some []"
| "b64_values [x] = None"
| "b64_values [x, y] = (if y mod 16 = 0 then Some [char_of (x * 4 + y div 16)] else None)"
| "b64_values [x, y, z] =
     (if z mod 4 = 0 then Some [char_of (x * 4 + y div 16), char_of (y mod 16 * 16 + z div 4)] else None)"
| "b64_values (x # y # z # w # vs) =
     map_option (\<lambda>s. [char_of (x * 4 + y div 16), char_of (y mod 16 * 16 + z div 4), char_of (z mod 4 * 64 + w)] @ s)
       (b64_values vs)"

definition b64_decode :: "string \<Rightarrow> string option" where
  "b64_decode s =
     (let vs = map b64_value (filter (\<lambda>c. c \<noteq> CHR 0x0A \<and> c \<noteq> CHR 0x0D) s) in
      if list_ex (\<lambda>v. v = None) vs then None else b64_values (map the vs))"

definition EncodedLen :: "nat \<Rightarrow> nat" where
  "EncodedLen n = n div 3 * 4 + (n mod 3 * 8 + 5) div 6"

definition DecodedLen :: "nat \<Rightarrow> nat" where
  "DecodedLen n = n * 6 div 8"

section \<open>The plaintext\<close>

definition TmpxFormatVersion :: nat where "TmpxFormatVersion = 1"
definition TmpxMaxKidLen :: nat where "TmpxMaxKidLen = 8"
definition TmpxHeaderBytes :: nat where "TmpxHeaderBytes = 16"
definition TmpxHPKEOverheadBytes :: nat where "TmpxHPKEOverheadBytes = 48"
definition TmpxMaxWireBytes :: nat where "TmpxMaxWireBytes = 255"
definition TmpxMaxSlots :: nat where "TmpxMaxSlots = 2"
definition TmpxMaxReassembledWireBytes :: nat where "TmpxMaxReassembledWireBytes = TmpxMaxSlots * TmpxMaxWireBytes"
definition tmpxMaxPayloadBytes :: nat where "tmpxMaxPayloadBytes = 32 + TmpxHeaderBytes + 255 * (1 + 48) + 16"
definition TmpxSealedMaxWireBytes :: nat where "TmpxSealedMaxWireBytes = TmpxMaxKidLen + 1 + 8192"

definition TmpxTokenSize :: "nat \<Rightarrow> nat option" where
  "TmpxTokenSize typeID =
     (if typeID \<in> set [1, 2, 3, 4, 7, 8, 9] then Some 32
      else if typeID = 5 then Some 48
      else if typeID = 10 then Some 48
      else if typeID = 6 then Some 16
      else None)"

record tmpx_entry =
  e_type :: nat
  e_token :: string

definition be32 :: "int \<Rightarrow> string" where
  "be32 t = (let n = nat (t mod 2 ^ 32) in
     [char_of (n div 2 ^ 24), char_of (n div 2 ^ 16 mod 256), char_of (n div 2 ^ 8 mod 256), char_of (n mod 256)])"

definition encode_entries :: "tmpx_entry list \<Rightarrow> string" where
  "encode_entries es = concat (map (\<lambda>e. char_of (e_type e) # e_token e) es)"

text \<open>The nonce is what the random reader yields, \<^const>\<open>None\<close> when it fails.\<close>

definition EncodeTmpxPlaintext :: "string \<Rightarrow> tmpx_entry list \<Rightarrow> int \<Rightarrow> string option \<Rightarrow> string result" where
  "EncodeTmpxPlaintext country es unix nonce =
     (if length country \<noteq> 2 \<or> \<not> list_all is_upper country then Inl ''country invalid''
      else if length es > 255 then Inl ''entries exceed maximum''
      else if list_ex (\<lambda>e. TmpxTokenSize (e_type e) \<noteq> Some (length (e_token e))) es then Inl ''entry invalid''
      else case nonce of
          None \<Rightarrow> Inl ''nonce read''
        | Some r \<Rightarrow> Inr ([char_of TmpxFormatVersion] @ be32 unix @ country @ take 8 r @ [char_of (length es)] @ encode_entries es))"

definition TmpxWireSize :: "nat \<Rightarrow> nat \<Rightarrow> nat" where
  "TmpxWireSize kidLen entriesBytes =
     kidLen + 1 + EncodedLen (TmpxHeaderBytes + TmpxHPKEOverheadBytes + entriesBytes)"

section \<open>HPKE, base mode\<close>

record suite =
  pub :: "string \<Rightarrow> string"
  ecdh :: "string \<Rightarrow> string \<Rightarrow> string option"
  hkdf_extract :: "string \<Rightarrow> string \<Rightarrow> string option"
  hkdf_expand :: "string \<Rightarrow> string \<Rightarrow> nat \<Rightarrow> string option"
  aead_seal :: "string \<Rightarrow> string \<Rightarrow> string \<Rightarrow> string \<Rightarrow> string"
  aead_open :: "string \<Rightarrow> string \<Rightarrow> string \<Rightarrow> string \<Rightarrow> string option"

definition be16 :: "nat \<Rightarrow> string" where
  "be16 n = [char_of (n div 256 mod 256), char_of (n mod 256)]"

definition buildHPKESuiteID :: "nat \<Rightarrow> nat \<Rightarrow> nat \<Rightarrow> string" where
  "buildHPKESuiteID kem kdf aead = ''HPKE'' @ be16 kem @ be16 kdf @ be16 aead"

definition buildHPKEKEMSuiteID :: "nat \<Rightarrow> string" where
  "buildHPKEKEMSuiteID kem = ''KEM'' @ be16 kem"

definition labeledExtract :: "suite \<Rightarrow> string \<Rightarrow> string \<Rightarrow> string \<Rightarrow> string \<Rightarrow> string option" where
  "labeledExtract c salt label ikm suiteID = hkdf_extract c (''HPKE-v1'' @ suiteID @ label @ ikm) salt"

definition labeledExpand :: "suite \<Rightarrow> string \<Rightarrow> string \<Rightarrow> string \<Rightarrow> nat \<Rightarrow> string \<Rightarrow> string option" where
  "labeledExpand c prk label info len suiteID =
     (if len > 65535 then None else hkdf_expand c prk (be16 len @ ''HPKE-v1'' @ suiteID @ label @ info) len)"

definition dhkemExtractAndExpand :: "suite \<Rightarrow> string \<Rightarrow> string \<Rightarrow> string \<Rightarrow> nat \<Rightarrow> string option" where
  "dhkemExtractAndExpand c dh kemContext kemSuiteID len =
     (case labeledExtract c '''' ''eae_prk'' dh kemSuiteID of
        None \<Rightarrow> None
      | Some eaePrk \<Rightarrow> labeledExpand c eaePrk ''shared_secret'' kemContext len kemSuiteID)"

definition tmpx_suite :: string where "tmpx_suite = buildHPKESuiteID 0x20 1 3"
definition tmpx_kem_suite :: string where "tmpx_kem_suite = buildHPKEKEMSuiteID 0x20"

text \<open>The key schedule both directions run: key and nonce of the single message.\<close>

definition key_schedule :: "suite \<Rightarrow> string \<Rightarrow> string \<Rightarrow> (string \<times> string) option" where
  "key_schedule c sharedSecret info =
     (case labeledExtract c '''' ''psk_id_hash'' '''' tmpx_suite of None \<Rightarrow> None | Some pskIDHash \<Rightarrow>
      (case labeledExtract c '''' ''info_hash'' info tmpx_suite of None \<Rightarrow> None | Some infoHash \<Rightarrow>
       (let ctxt = [CHR 0x00] @ pskIDHash @ infoHash in
        case labeledExtract c sharedSecret ''secret'' '''' tmpx_suite of None \<Rightarrow> None | Some secret \<Rightarrow>
        (case labeledExpand c secret ''key'' ctxt 32 tmpx_suite of None \<Rightarrow> None | Some key \<Rightarrow>
         (case labeledExpand c secret ''base_nonce'' ctxt 12 tmpx_suite of None \<Rightarrow> None | Some baseNonce \<Rightarrow>
          Some (key, baseNonce))))))"

definition hpkeSealBase ::
  "suite \<Rightarrow> string \<Rightarrow> string \<Rightarrow> string \<Rightarrow> string \<Rightarrow> string \<Rightarrow> (string \<times> string) option" where
  "hpkeSealBase c pkR skE info aad plaintext =
     (case ecdh c skE pkR of None \<Rightarrow> None | Some dh \<Rightarrow>
      (let enc = pub c skE in
       case dhkemExtractAndExpand c dh (enc @ pkR) tmpx_kem_suite 32 of None \<Rightarrow> None | Some sharedSecret \<Rightarrow>
       (case key_schedule c sharedSecret info of None \<Rightarrow> None | Some (key, nonce) \<Rightarrow>
        Some (enc, aead_seal c key nonce plaintext aad))))"

text \<open>A public key is any 32 bytes.\<close>

definition hpkeOpenBase :: "suite \<Rightarrow> string \<Rightarrow> string \<Rightarrow> string \<Rightarrow> string \<Rightarrow> string \<Rightarrow> string option" where
  "hpkeOpenBase c skR enc info aad ct =
     (if length enc \<noteq> 32 then None
      else case ecdh c skR enc of None \<Rightarrow> None | Some dh \<Rightarrow>
       (case dhkemExtractAndExpand c dh (enc @ pub c skR) tmpx_kem_suite 32 of None \<Rightarrow> None | Some sharedSecret \<Rightarrow>
        (case key_schedule c sharedSecret info of None \<Rightarrow> None | Some (key, nonce) \<Rightarrow>
         aead_open c key nonce ct aad)))"

section \<open>The wire form\<close>

definition isTmpxKidChar :: "char \<Rightarrow> bool" where
  "isTmpxKidChar c \<longleftrightarrow> is_upper c \<or> is_lower c \<or> is_digit c \<or> c = CHR ''-'' \<or> c = CHR ''_''"

definition validateTmpxKid :: "string \<Rightarrow> string option" where
  "validateTmpxKid kid =
     (if length kid = 0 \<or> length kid > TmpxMaxKidLen then Some ''kid invalid''
      else if list_ex (\<lambda>c. \<not> isTmpxKidChar c) kid then Some ''kid invalid'' else None)"

record tmpx_recipient =
  r_kid :: string
  r_public :: "string option"

definition SealTmpx :: "suite \<Rightarrow> tmpx_recipient \<Rightarrow> string \<Rightarrow> string \<Rightarrow> string option \<Rightarrow> string result" where
  "SealTmpx c recipient info plaintext ephemeral =
     (case validateTmpxKid (r_kid recipient) of
        Some e \<Rightarrow> Inl e
      | None \<Rightarrow>
          (case r_public recipient of
             None \<Rightarrow> Inl ''public key required''
           | Some pkR \<Rightarrow>
               (case ephemeral of
                  None \<Rightarrow> Inl ''ephemeral key''
                | Some skE \<Rightarrow>
                    (case hpkeSealBase c pkR skE info '''' plaintext of
                       None \<Rightarrow> Inl ''hpke''
                     | Some (enc, ct) \<Rightarrow> Inr (r_kid recipient @ ''.'' @ b64_encode (enc @ ct))))))"

definition splitTmpxWire :: "string \<Rightarrow> nat \<Rightarrow> (string \<times> string) result" where
  "splitTmpxWire wire maxWire =
     (if length wire > maxWire then Inl ''wire string exceeds maximum''
      else
        let kid = takeWhile (\<lambda>c. c \<noteq> CHR ''.'') wire in
        if CHR ''.'' \<notin> set wire \<or> kid = '''' \<or> length kid > TmpxMaxKidLen then Inl ''wire string missing valid kid prefix''
        else if validateTmpxKid kid \<noteq> None then Inl ''wire string missing valid kid prefix''
        else Inr (kid, drop (length kid + 1) wire))"

definition TmpxKid :: "string \<Rightarrow> string result" where
  "TmpxKid wire = map_sum id fst (splitTmpxWire wire TmpxMaxReassembledWireBytes)"

definition openTmpxWire :: "suite \<Rightarrow> string option \<Rightarrow> string \<Rightarrow> string \<Rightarrow> nat \<Rightarrow> (string \<times> string) result" where
  "openTmpxWire c skR info wire maxWire =
     (case skR of
        None \<Rightarrow> Inl ''private key required''
      | Some sk \<Rightarrow>
          (case splitTmpxWire wire maxWire of
             Inl e \<Rightarrow> Inl e
           | Inr (kid, text) \<Rightarrow>
               if DecodedLen (length text) > tmpxMaxPayloadBytes then Inl ''payload too large''
               else (case b64_decode text of
                   None \<Rightarrow> Inl ''base64url decode''
                 | Some data \<Rightarrow>
                     if length data < 32 + 16 then Inl ''payload too short''
                     else (case hpkeOpenBase c sk (take 32 data) info '''' (drop 32 data) of
                         None \<Rightarrow> Inl ''hpke open''
                       | Some pt \<Rightarrow> Inr (pt, kid)))))"

definition OpenTmpx :: "suite \<Rightarrow> string option \<Rightarrow> string \<Rightarrow> string \<Rightarrow> (string \<times> string) result" where
  "OpenTmpx c skR info wire = openTmpxWire c skR info wire TmpxMaxReassembledWireBytes"

definition OpenSealedCredential :: "suite \<Rightarrow> string option \<Rightarrow> string \<Rightarrow> string \<Rightarrow> (string \<times> string) result" where
  "OpenSealedCredential c skR info wire = openTmpxWire c skR info wire TmpxSealedMaxWireBytes"

section \<open>Base64 round trip\<close>

lemma b64_digit_value: "n < 64 \<Longrightarrow> b64_value (b64_digit n) = Some n"
proof -
  assume "n < 64"
  then consider "n < 26" | "26 \<le> n" "n < 52" | "52 \<le> n" "n < 62" | "n = 62" | "n = 63" by linarith
  then show ?thesis
    by cases (auto simp: b64_digit_def b64_value_def char_class_defs)
qed

lemma b64_digit_plain:
  assumes "n < 64"
  shows "b64_digit n \<noteq> CHR 0x0A \<and> b64_digit n \<noteq> CHR 0x0D \<and> b64_digit n \<noteq> CHR ''.''"
proof -
  have "b64_value (CHR 0x0A) = None" "b64_value (CHR 0x0D) = None" "b64_value (CHR ''.'') = None"
    by (simp_all add: b64_value_def char_class_defs)
  with b64_digit_value [OF assms] show ?thesis by (metis option.distinct(1))
qed

text \<open>The digits of the encoding as numbers.\<close>

fun sextets :: "string \<Rightarrow> nat list" where
  "sextets [] = []"
| "sextets [a] = (let a = of_char a in [a div 4, a mod 4 * 16])"
| "sextets [a, b] = (let a = of_char a; b = of_char b in [a div 4, a mod 4 * 16 + b div 16, b mod 16 * 4])"
| "sextets (a # b # c # s) = (let a = of_char a; b = of_char b; c = of_char c in
     [a div 4, a mod 4 * 16 + b div 16, b mod 16 * 4 + c div 64, c mod 64]) @ sextets s"

lemma b64_encode_sextets: "b64_encode s = map b64_digit (sextets s)"
  by (induction s rule: b64_encode.induct) (simp_all add: Let_def)

lemma byte_less: "of_char (c :: char) < (256 :: nat)"
  by simp

lemma sextet_less:
  fixes a b :: nat
  assumes "a < 256" "b < 256"
  shows "a div 4 < 64" "a mod 4 * 16 + b div 16 < 64" "a mod 4 * 16 < 64" "a mod 16 * 4 + b div 64 < 64" "b mod 16 * 4 < 64"
proof -
  have "a mod 4 \<le> 3" "a mod 16 \<le> 15" "b mod 16 \<le> 15" "b div 16 \<le> 15" "b div 64 \<le> 3" using assms by (simp_all add: less_Suc_eq_le [symmetric] less_mult_imp_div_less)
  then show "a mod 4 * 16 + b div 16 < 64" "a mod 4 * 16 < 64" "a mod 16 * 4 + b div 64 < 64" "b mod 16 * 4 < 64" by linarith+
  show "a div 4 < 64" using assms by auto
qed

lemma sextets_less: "v \<in> set (sextets s) \<Longrightarrow> v < 64"
proof (induction s rule: sextets.induct)
  case (2 a)
  then show ?case using sextet_less [OF byte_less [of a] byte_less [of a]] by (auto simp: Let_def)
next
  case (3 a b)
  then show ?case using sextet_less [OF byte_less [of a] byte_less [of b]] by (auto simp: Let_def)
next
  case (4 a b c s)
  then show ?case using sextet_less [OF byte_less [of a] byte_less [of b]] sextet_less [OF byte_less [of b] byte_less [of c]]
    by (auto simp: Let_def)
qed simp

lemma byte_quotients:
  "of_char b div 16 div 16 = (0 :: nat)" "of_char b div 16 mod 16 = (of_char b div 16 :: nat)"
  "of_char b div 64 div 4 = (0 :: nat)" "of_char b div 64 mod 4 = (of_char b div 64 :: nat)"
proof -
  have "of_char b div 16 < (16 :: nat)" "of_char b div 64 < (4 :: nat)"
    using byte_less [of b] by (simp_all add: less_mult_imp_div_less)
  then show "of_char b div 16 div 16 = (0 :: nat)" "of_char b div 16 mod 16 = (of_char b div 16 :: nat)"
    "of_char b div 64 div 4 = (0 :: nat)" "of_char b div 64 mod 4 = (of_char b div 64 :: nat)"
    by simp_all
qed

lemma sextets_values: "b64_values (sextets s) = Some s"
  by (induction s rule: sextets.induct) (simp_all add: Let_def byte_quotients)

lemma b64_decode_encode: "b64_decode (b64_encode s) = Some s"
proof -
  have "filter (\<lambda>c. c \<noteq> CHR 0x0A \<and> c \<noteq> CHR 0x0D) (b64_encode s) = b64_encode s"
    by (auto simp: b64_encode_sextets filter_id_conv dest!: sextets_less b64_digit_plain)
  moreover have "map b64_value (b64_encode s) = map Some (sextets s)"
    by (auto simp: b64_encode_sextets dest!: sextets_less b64_digit_value)
  ultimately show ?thesis by (simp add: b64_decode_def list_ex_iff sextets_values comp_def)
qed

lemma length_b64_encode: "length (b64_encode s) = EncodedLen (length s)"
proof (induction s rule: b64_encode.induct)
  case (4 a b c s)
  have "(3 + length s) div 3 = 1 + length s div 3" by simp
  then show ?case using 4 by (simp add: EncodedLen_def Let_def)
qed (simp_all add: EncodedLen_def Let_def)

lemma DecodedLen_EncodedLen: "DecodedLen (EncodedLen n) = n"
proof -
  obtain q r where n: "n = 3 * q + r" "r < 3"
    by (metis mod_less_divisor mult_div_mod_eq zero_less_numeral)
  have parts: "n div 3 = q" "n mod 3 = r" using n by simp_all
  have "(8 * r + 5) div 6 * 6 div 8 = r" if "r < 3" for r :: nat
    using that by (cases r; simp; cases "r - 1"; simp)
  then have r: "(r * 8 + 5) div 6 * 6 div 8 = r" using n(2) by (simp add: ac_simps)
  have "(q * 4 + x) * 6 div 8 = 3 * q + x * 6 div 8" for x
    using div_mult_self1 [of 8 "x * 6" "3 * q"] by (simp add: algebra_simps)
  then show ?thesis unfolding DecodedLen_def EncodedLen_def parts by (simp only: r n(1))
qed

section \<open>The envelope opens\<close>

text \<open>What the primitives promise: both sides of a key agreement get the same secret, authenticated decryption inverts
  encryption and costs 16 bytes, and a public key has 32 bytes.\<close>

definition sound_suite :: "suite \<Rightarrow> bool" where
  "sound_suite c \<longleftrightarrow>
     (\<forall>a b. ecdh c a (pub c b) = ecdh c b (pub c a)) \<and>
     (\<forall>k n m aad. aead_open c k n (aead_seal c k n m aad) aad = Some m \<and> length (aead_seal c k n m aad) = length m + 16) \<and>
     (\<forall>a. length (pub c a) = 32)"

lemma hpke_opens:
  assumes "sound_suite c" "hpkeSealBase c (pub c skR) skE info aad pt = Some (enc, ct)"
  shows "hpkeOpenBase c skR enc info aad ct = Some pt" "length enc = 32" "length ct = length pt + 16"
proof -
  from assms(2) obtain dh ss k n where parts: "ecdh c skE (pub c skR) = Some dh" "enc = pub c skE"
    "dhkemExtractAndExpand c dh (enc @ pub c skR) tmpx_kem_suite 32 = Some ss" "key_schedule c ss info = Some (k, n)"
    "ct = aead_seal c k n pt aad"
    by (auto simp: hpkeSealBase_def Let_def split: option.splits)
  moreover have "ecdh c skR (pub c skE) = Some dh" using parts(1) assms(1) by (simp add: sound_suite_def)
  ultimately show "hpkeOpenBase c skR enc info aad ct = Some pt" "length enc = 32" "length ct = length pt + 16"
    using assms(1) by (simp_all add: hpkeOpenBase_def sound_suite_def)
qed

lemma kid_no_dot: "validateTmpxKid kid = None \<Longrightarrow> CHR ''.'' \<notin> set kid \<and> kid \<noteq> [] \<and> length kid \<le> TmpxMaxKidLen"
  by (auto simp: validateTmpxKid_def list_ex_iff isTmpxKidChar_def char_class_defs split: if_splits)

lemma takeWhile_dot:
  assumes "CHR ''.'' \<notin> set s"
  shows "takeWhile (\<lambda>c. c \<noteq> CHR ''.'') (s @ ''.'' @ t) = s"
  using assms by (induction s) auto

lemma split_sealed:
  assumes "validateTmpxKid kid = None" "length (kid @ ''.'' @ text) \<le> maxWire"
  shows "splitTmpxWire (kid @ ''.'' @ text) maxWire = Inr (kid, text)"
proof -
  have "takeWhile (\<lambda>c. c \<noteq> CHR ''.'') (kid @ ''.'' @ text) = kid"
    by (rule takeWhile_dot) (use kid_no_dot [OF assms(1)] in blast)
  then show ?thesis using kid_no_dot [OF assms(1)] assms by (simp add: splitTmpxWire_def)
qed

lemma SealTmpx_wire:
  assumes "SealTmpx c r info pt eph = Inr token"
  obtains pkR skE enc ct where "validateTmpxKid (r_kid r) = None" "r_public r = Some pkR" "eph = Some skE"
    "hpkeSealBase c pkR skE info '''' pt = Some (enc, ct)" "token = r_kid r @ ''.'' @ b64_encode (enc @ ct)"
  using assms by (auto simp: SealTmpx_def split: option.splits)

lemma SealTmpx_opens:
  assumes suite: "sound_suite c" and seal: "SealTmpx c r info pt eph = Inr token" and key: "r_public r = Some (pub c skR)"
  obtains enc ct where "validateTmpxKid (r_kid r) = None" "token = r_kid r @ ''.'' @ b64_encode (enc @ ct)"
    "hpkeOpenBase c skR enc info '''' ct = Some pt" "length enc = 32" "length ct = length pt + 16"
proof -
  obtain pkR skE enc ct where parts: "validateTmpxKid (r_kid r) = None" "r_public r = Some pkR" "eph = Some skE"
    "hpkeSealBase c pkR skE info '''' pt = Some (enc, ct)" "token = r_kid r @ ''.'' @ b64_encode (enc @ ct)"
    by (rule SealTmpx_wire [OF seal])
  have "pkR = pub c skR" using parts(2) key by simp
  from hpke_opens [OF suite parts(4) [unfolded this]] show ?thesis by (rule that [OF parts(1, 5)])
qed

lemma sealed_length:
  assumes "sound_suite c" "SealTmpx c r info pt eph = Inr token" "r_public r = Some (pub c skR)"
  shows "length token = length (r_kid r) + 1 + EncodedLen (length pt + TmpxHPKEOverheadBytes)"
  by (rule SealTmpx_opens [OF assms]) (simp add: length_b64_encode TmpxHPKEOverheadBytes_def ac_simps)

lemma seal_open:
  assumes suite: "sound_suite c" and seal: "SealTmpx c r info pt eph = Inr token" and key: "r_public r = Some (pub c skR)"
    and size: "length token \<le> maxWire" "length pt \<le> 12511"
  shows "openTmpxWire c (Some skR) info token maxWire = Inr (pt, r_kid r)"
proof -
  obtain enc ct where parts: "validateTmpxKid (r_kid r) = None" "token = r_kid r @ ''.'' @ b64_encode (enc @ ct)"
    "hpkeOpenBase c skR enc info '''' ct = Some pt" "length enc = 32" "length ct = length pt + 16"
    by (rule SealTmpx_opens [OF suite seal key])
  have "splitTmpxWire token maxWire = Inr (r_kid r, b64_encode (enc @ ct))"
    unfolding parts(2) by (rule split_sealed [OF parts(1)]) (use size parts(2) in simp)
  moreover have "\<not> DecodedLen (length (b64_encode (enc @ ct))) > tmpxMaxPayloadBytes"
    using size(2) parts(4, 5) by (simp add: length_b64_encode DecodedLen_EncodedLen tmpxMaxPayloadBytes_def TmpxHeaderBytes_def)
  moreover have "\<not> length (enc @ ct) < 32 + 16" using parts(4, 5) by simp
  ultimately show ?thesis using parts(3-5) by (simp add: openTmpxWire_def b64_decode_encode)
qed

lemma EncodeTmpxPlaintext_parts:
  assumes "EncodeTmpxPlaintext country es unix nonce = Inr p"
  obtains r where "nonce = Some r" "length country = 2" "length es \<le> 255"
    "list_all (\<lambda>e. TmpxTokenSize (e_type e) = Some (length (e_token e))) es"
    "p = [char_of TmpxFormatVersion] @ be32 unix @ country @ take 8 r @ [char_of (length es)] @ encode_entries es"
  using assms by (auto simp: EncodeTmpxPlaintext_def list_ex_iff list_all_iff split: if_splits option.splits)

lemma length_be32 [simp]: "length (be32 t) = 4"
  by (simp add: be32_def Let_def)

lemma length_plaintext:
  assumes "EncodeTmpxPlaintext country es unix (Some n) = Inr p" "length n = 8"
  shows "length p = TmpxHeaderBytes + length (encode_entries es)"
  by (rule EncodeTmpxPlaintext_parts [OF assms(1)]) (use assms(2) in \<open>simp add: TmpxHeaderBytes_def\<close>)


section \<open>The plaintext determines its contents\<close>

lemma char_of_inj: "\<lbrakk>char_of a = (char_of b :: char); a < 256; b < (256 :: nat)\<rbrakk> \<Longrightarrow> a = b"
  by (metis char_of_eq_iff of_char_of mod_less)

lemma be32_inj:
  assumes "be32 t = be32 u"
  shows "t mod 2 ^ 32 = u mod 2 ^ 32"
proof -
  define n m where "n = nat (t mod 2 ^ 32)" and "m = nat (u mod 2 ^ 32)"
  have less: "n < 2 ^ 32" "m < 2 ^ 32" by (simp_all add: n_def m_def)
  then have hi: "n div 2 ^ 24 < 256" "m div 2 ^ 24 < 256" by simp_all
  from assms have "char_of (n div 2 ^ 24) = (char_of (m div 2 ^ 24) :: char)"
    "char_of (n div 2 ^ 16 mod 256) = (char_of (m div 2 ^ 16 mod 256) :: char)"
    "char_of (n div 2 ^ 8 mod 256) = (char_of (m div 2 ^ 8 mod 256) :: char)"
    "char_of (n mod 256) = (char_of (m mod 256) :: char)"
    unfolding be32_def Let_def n_def m_def by (simp_all only: list.inject)
  then have parts: "n div 2 ^ 24 = m div 2 ^ 24" "n div 2 ^ 16 mod 256 = m div 2 ^ 16 mod 256"
    "n div 2 ^ 8 mod 256 = m div 2 ^ 8 mod 256" "n mod 256 = m mod 256"
    using hi by (auto dest!: char_of_inj)
  have split: "k = ((k div 2 ^ 24 * 256 + k div 2 ^ 16 mod 256) * 256 + k div 2 ^ 8 mod 256) * 256 + k mod 256" for k :: nat
  proof -
    have "k div 2 ^ 16 = k div 2 ^ 8 div 256" "k div 2 ^ 24 = k div 2 ^ 16 div 256" "k div 2 ^ 8 = k div 256"
      by (simp_all add: div_mult2_eq [symmetric])
    then show ?thesis by (simp only: div_mult_mod_eq)
  qed
  have "n = m" using split [of n] split [of m] unfolding parts by (rule trans [OF _ sym])
  then show ?thesis by (simp add: n_def m_def nat_eq_iff2)
qed

lemma type_size_small: "TmpxTokenSize t = Some n \<Longrightarrow> t < 256"
  by (auto simp: TmpxTokenSize_def split: if_splits)

lemma encode_entries_inj:
  assumes "list_all (\<lambda>e. TmpxTokenSize (e_type e) = Some (length (e_token e))) es"
    "list_all (\<lambda>e. TmpxTokenSize (e_type e) = Some (length (e_token e))) es'"
    "length es = length es'" "encode_entries es = encode_entries es'"
  shows "es = (es' :: tmpx_entry list)"
  using assms(3, 1, 2, 4)
proof (induction es es' rule: list_induct2)
  case (Cons e es e' es')
  then have enc: "char_of (e_type e) = (char_of (e_type e') :: char)"
    "e_token e @ encode_entries es = e_token e' @ encode_entries es'"
    and sizes: "TmpxTokenSize (e_type e) = Some (length (e_token e))" "TmpxTokenSize (e_type e') = Some (length (e_token e'))"
    by (simp_all add: encode_entries_def)
  have types: "e_type e = e_type e'" by (rule char_of_inj [OF enc(1)]) (rule type_size_small, rule sizes)+
  with sizes have "length (e_token e) = length (e_token e')" by simp
  with enc(2) have "e_token e = e_token e'" "encode_entries es = encode_entries es'" by simp_all
  then show ?case using Cons types by simp
qed simp

text \<open>Two plaintexts with the same bytes have the same country, entries, low 32 bits of the time and nonce.\<close>

theorem plaintext_injective:
  assumes "EncodeTmpxPlaintext country es unix (Some n) = Inr p" "EncodeTmpxPlaintext country' es' unix' (Some n') = Inr p"
    and "length n = 8" "length n' = 8"
  shows "country = country' \<and> es = es' \<and> unix mod 2 ^ 32 = unix' mod 2 ^ 32 \<and> n = n'"
proof -
  obtain r where a: "Some n = Some r" "length country = 2" "length es \<le> 255"
    "list_all (\<lambda>e. TmpxTokenSize (e_type e) = Some (length (e_token e))) es"
    "p = [char_of TmpxFormatVersion] @ be32 unix @ country @ take 8 r @ [char_of (length es)] @ encode_entries es"
    by (rule EncodeTmpxPlaintext_parts [OF assms(1)])
  obtain r' where b: "Some n' = Some r'" "length country' = 2" "length es' \<le> 255"
    "list_all (\<lambda>e. TmpxTokenSize (e_type e) = Some (length (e_token e))) es'"
    "p = [char_of TmpxFormatVersion] @ be32 unix' @ country' @ take 8 r' @ [char_of (length es')] @ encode_entries es'"
    by (rule EncodeTmpxPlaintext_parts [OF assms(2)])
  have "be32 unix = be32 unix'" "country = country'" "n = n'" "char_of (length es) = (char_of (length es') :: char)"
    "encode_entries es = encode_entries es'"
    using a b assms(3, 4) by (simp_all add: append_eq_append_conv)
  moreover have "length es = length es'" by (rule char_of_inj [OF calculation(4)]) (use a(3) b(3) in simp_all)
  ultimately have "es = es'" by (intro encode_entries_inj [OF a(4) b(4)])
  then show ?thesis using be32_inj [OF \<open>be32 unix = be32 unix'\<close>] \<open>country = country'\<close> \<open>n = n'\<close> by (intro conjI)
qed

lemma plaintext_injective_witness:
  "\<exists>p. EncodeTmpxPlaintext ''US'' [\<lparr>e_type = 6, e_token = replicate 16 CHR ''a''\<rparr>] 5 (Some ''12345678'') = Inr p \<and>
     EncodeTmpxPlaintext ''US'' [\<lparr>e_type = 6, e_token = replicate 16 CHR ''a''\<rparr>] (5 + 2 ^ 32) (Some ''12345678'') = Inr p \<and>
     (5 :: int) mod 2 ^ 32 = (5 + 2 ^ 32) mod 2 ^ 32"
proof -
  let ?e = "[\<lparr>e_type = 6, e_token = replicate 16 CHR ''a''\<rparr>]"
  have run: "EncodeTmpxPlaintext ''US'' ?e t (Some ''12345678'') =
      Inr ([char_of TmpxFormatVersion] @ be32 t @ ''US'' @ ''12345678'' @ [char_of (1 :: nat)] @ encode_entries ?e)" for t
    by (simp add: EncodeTmpxPlaintext_def TmpxTokenSize_def char_class_defs)
  have run': "EncodeTmpxPlaintext ''US'' ?e (5 + 2 ^ 32) (Some ''12345678'') = EncodeTmpxPlaintext ''US'' ?e 5 (Some ''12345678'')"
    unfolding run by (simp add: be32_def)
  have "''US'' = ''US'' \<and> ?e = ?e \<and> (5 :: int) mod 2 ^ 32 = (5 + 2 ^ 32) mod 2 ^ 32 \<and> ''12345678'' = ''12345678''"
    by (rule plaintext_injective [OF run [of 5] run' [unfolded run [of 5]]]) simp_all
  then show ?thesis using run [of 5] run' by (intro exI conjI) (assumption, simp only:, blast)
qed

end
