(* ===== verification/Identity_Decoders.thy ===== *)
theory Identity_Decoders
  imports Tmpx_Token Go_Strings
begin

text \<open>
  Identities in binary form: the decoders of \<^verbatim>\<open>src/targeting/tmpxdecoders\<close> and the decoding pass of
  the identity agent (\<^verbatim>\<open>src/targeting/identityagent/canonicalizer.go\<close>). The LiveRamp sidecar, the
  UID2 operator and SHA-256 are arguments.
\<close>

section \<open>Hexadecimal\<close>

definition hex_char :: "nat \<Rightarrow> char" where
  "hex_char n = char_of (if n < 10 then 48 + n else 87 + n)"

definition Canonical :: "string \<Rightarrow> string" where
  "Canonical b = concat (map (\<lambda>c. [hex_char (of_char c div 16), hex_char (of_char c mod 16)]) b)"

definition hex_value :: "char \<Rightarrow> nat option" where
  "hex_value c =
     (if is_digit c then Some (of_char c - 48)
      else if CHR ''a'' \<le> c \<and> c \<le> CHR ''f'' then Some (of_char c - 87)
      else if CHR ''A'' \<le> c \<and> c \<le> CHR ''F'' then Some (of_char c - 55)
      else None)"

fun hex_decode :: "string \<Rightarrow> string option" where
  "hex_decode [] = Some []"
| "hex_decode [c] = None"
| "hex_decode (c # d # s) =
     (case (hex_value c, hex_value d) of
        (Some x, Some y) \<Rightarrow> map_option (Cons (char_of (x * 16 + y))) (hex_decode s)
      | _ \<Rightarrow> None)"

section \<open>The decoders\<close>

datatype decode_error = ErrDropIdentity | DecodeFailed string

type_synonym decoder = "string \<Rightarrow> decode_error + string"

definition HashedEmail_Decode :: decoder where
  "HashedEmail_Decode userToken =
     (if length userToken \<noteq> 64 then Inl (DecodeFailed ''hashed_email: length'')
      else case hex_decode userToken of
          None \<Rightarrow> Inl (DecodeFailed ''hashed_email: invalid hex'')
        | Some out \<Rightarrow> if length out \<noteq> 32 then Inl (DecodeFailed ''hashed_email: decoded length'') else Inr out)"

definition ID5_Decode :: decoder where
  "ID5_Decode userToken = Inr userToken"

definition decodeMAIDHex :: decoder where
  "decodeMAIDHex s =
     (case hex_decode s of
        None \<Rightarrow> Inl (DecodeFailed ''maid: invalid hex'')
      | Some out \<Rightarrow> if length out \<noteq> 16 then Inl (DecodeFailed ''maid: decoded length'') else Inr out)"

definition MAID_Decode :: decoder where
  "MAID_Decode userToken =
     (if length userToken = 36 then
        (if userToken ! 8 \<noteq> CHR ''-'' \<or> userToken ! 13 \<noteq> CHR ''-'' \<or> userToken ! 18 \<noteq> CHR ''-'' \<or> userToken ! 23 \<noteq> CHR ''-''
         then Inl (DecodeFailed ''maid: misplaced separators'')
         else decodeMAIDHex (filter (\<lambda>c. c \<noteq> CHR ''-'') userToken))
      else if length userToken = 32 then decodeMAIDHex userToken
      else Inl (DecodeFailed ''maid: length''))"

datatype liveramp_error = ErrNoMapping | LiveRampFailed string

type_synonym liveramp_client = "string \<Rightarrow> liveramp_error + string"

definition rampIDLookup :: "liveramp_client \<Rightarrow> decoder" where
  "rampIDLookup client env =
     (case client env of
        Inl ErrNoMapping \<Rightarrow> Inl ErrDropIdentity
      | Inl (LiveRampFailed e) \<Rightarrow> Inl (DecodeFailed e)
      | Inr mapped \<Rightarrow> if mapped = '''' then Inl ErrDropIdentity else Inr mapped)"

datatype uid2_error = ErrNotInitialized | ErrInvalidToken | ErrVersionUnsupported | ErrScopeMismatch | ErrKeyNotFound | ErrTokenExpired
  | ErrKeysStale | UID2Failed string

type_synonym uid2_client = "string \<Rightarrow> uid2_error + string"

definition uid2Lookup :: "uid2_client \<Rightarrow> decoder" where
  "uid2Lookup client token =
     (case client token of
        Inl e \<Rightarrow>
          if e \<in> {ErrInvalidToken, ErrTokenExpired, ErrKeyNotFound, ErrVersionUnsupported, ErrScopeMismatch}
          then Inl ErrDropIdentity else Inl (DecodeFailed ''decrypt'')
      | Inr raw \<Rightarrow> if raw = [] then Inl ErrDropIdentity else Inr raw)"

record registry_options =
  LiveRampClient :: "liveramp_client option"
  UID2Client :: "uid2_client option"
  EUIDClient :: "uid2_client option"

type_synonym registry = "string \<rightharpoonup> decoder"

definition formatOnlyDecoders :: registry where
  "formatOnlyDecoders = [''maid'' \<mapsto> MAID_Decode, ''hashed_email'' \<mapsto> HashedEmail_Decode, ''id5'' \<mapsto> ID5_Decode]"

definition NewDefaultRegistry :: "registry_options \<Rightarrow> registry" where
  "NewDefaultRegistry opts =
     (let out = formatOnlyDecoders;
          out = (case LiveRampClient opts of None \<Rightarrow> out
                 | Some c \<Rightarrow> out(''rampid'' \<mapsto> rampIDLookup c, ''rampid_derived'' \<mapsto> rampIDLookup c));
          out = (case UID2Client opts of None \<Rightarrow> out | Some c \<Rightarrow> out(''uid2'' \<mapsto> uid2Lookup c))
      in case EUIDClient opts of None \<Rightarrow> out | Some c \<Rightarrow> out(''euid'' \<mapsto> uid2Lookup c))"

definition DecodeHex :: "registry \<Rightarrow> string \<Rightarrow> string \<Rightarrow> decode_error + string" where
  "DecodeHex reg uidType userToken =
     (case reg uidType of
        None \<Rightarrow> Inr ''''
      | Some dec \<Rightarrow> (case dec userToken of Inl e \<Rightarrow> Inl e | Inr b \<Rightarrow> Inr (Canonical b)))"

section \<open>World ID nullifiers\<close>

definition worldIDNullifierBytes :: nat where "worldIDNullifierBytes = 32"
definition worldIDRelyingPartyDigestBytes :: nat where "worldIDRelyingPartyDigestBytes = 16"

text \<open>The magnitude that \<^verbatim>\<open>big.Int.SetString\<close> reads in base 16: an optional sign, then at least one digit. Its
  bytes are the shortest big-endian form.\<close>

definition hex_number :: "string \<Rightarrow> nat option" where
  "hex_number s =
     (let ds = map hex_value s in
      if ds = [] \<or> list_ex (\<lambda>d. d = None) ds then None else Some (foldl (\<lambda>n d. 16 * n + the d) 0 ds))"

definition big_hex :: "string \<Rightarrow> nat option" where
  "big_hex s =
     (case s of
        [] \<Rightarrow> None
      | c # t \<Rightarrow> if c = CHR ''-'' \<or> c = CHR ''+'' then hex_number t else hex_number s)"

function big_bytes :: "nat \<Rightarrow> string" where
  "big_bytes n = (if n = 0 then [] else big_bytes (n div 256) @ [char_of (n mod 256)])"
  by pat_completeness auto
termination
  by (relation "measure id") auto

definition WorldID_Decode :: decoder where
  "WorldID_Decode nullifier =
     (let hexDigits = trim_prefix (trim_prefix (TrimSpace nullifier) ''0x'') ''0X'' in
      if hexDigits = '''' then Inl (DecodeFailed ''world_id_nullifier: empty'')
      else case big_hex hexDigits of
          None \<Rightarrow> Inl (DecodeFailed ''world_id_nullifier: not hex'')
        | Some n \<Rightarrow>
            let raw = big_bytes n in
            if length raw > worldIDNullifierBytes then Inl (DecodeFailed ''world_id_nullifier: too long'')
            else Inr (replicate (worldIDNullifierBytes - length raw) CHR 0x00 @ raw))"

definition WorldID_Token :: "(string \<Rightarrow> string) \<Rightarrow> string \<Rightarrow> string \<Rightarrow> decode_error + string" where
  "WorldID_Token sha256 relyingPartyID nullifier =
     (if relyingPartyID = '''' then Inl (DecodeFailed ''world_id_nullifier: empty relying_party_id'')
      else case WorldID_Decode nullifier of
          Inl e \<Rightarrow> Inl e
        | Inr nullifierBytes \<Rightarrow> Inr (take worldIDRelyingPartyDigestBytes (sha256 relyingPartyID) @ nullifierBytes))"

section \<open>The decoding pass\<close>

record decoded_identity =
  d_uid_type :: string
  d_bytes :: string

definition uidToTmpxTypeID :: "(string \<times> nat) list" where
  "uidToTmpxTypeID = [(''uid2'', 1), (''euid'', 2), (''id5'', 3), (''rampid'', 4), (''rampid_derived'', 5), (''maid'', 6),
     (''pairid'', 7), (''hashed_email'', 8), (''publisher_first_party'', 9), (''world_id_nullifier'', 10)]"

text \<open>A missing key reads as zero.\<close>

definition type_id :: "string \<Rightarrow> nat" where
  "type_id uid = (case map_of uidToTmpxTypeID uid of None \<Rightarrow> 0 | Some t \<Rightarrow> t)"

text \<open>Identities that are not decoded keep no bytes; the pass also yields the drop reasons it counts.\<close>

datatype drop_reason = TmpxDropUnmapped | TmpxDropNoDecoder | TmpxDropDecoderDrop | TmpxDropDecoderError | TmpxDropSizeMismatch

definition decode_one :: "registry \<Rightarrow> identity_token \<Rightarrow> drop_reason + string" where
  "decode_one decoders i =
     (case map_of uidToTmpxTypeID (uid_type i) of
        None \<Rightarrow> Inl TmpxDropUnmapped
      | Some typeID \<Rightarrow>
          (case decoders (uid_type i) of
             None \<Rightarrow> Inl TmpxDropNoDecoder
           | Some dec \<Rightarrow>
               (case dec (user_token i) of
                  Inl ErrDropIdentity \<Rightarrow> Inl TmpxDropDecoderDrop
                | Inl (DecodeFailed e) \<Rightarrow> Inl TmpxDropDecoderError
                | Inr bin \<Rightarrow>
                    if length bin \<noteq> (case TmpxTokenSize typeID of None \<Rightarrow> 0 | Some n \<Rightarrow> n) then Inl TmpxDropSizeMismatch
                    else Inr bin)))"

definition decodeIdentities :: "registry \<Rightarrow> identity_token list \<Rightarrow> decoded_identity list \<times> (drop_reason \<times> string) list" where
  "decodeIdentities decoders ids =
     (map (\<lambda>i. \<lparr>d_uid_type = uid_type i, d_bytes = (case decode_one decoders i of Inl _ \<Rightarrow> [] | Inr bin \<Rightarrow> bin)\<rparr>) ids,
      concat (map (\<lambda>i. case decode_one decoders i of Inl r \<Rightarrow> [(r, uid_type i)] | Inr _ \<Rightarrow> []) ids))"

definition audienceEligibleIdentities :: "decoded_identity list \<Rightarrow> identity_token list" where
  "audienceEligibleIdentities decoded =
     map (\<lambda>d. \<lparr>user_token = Canonical (d_bytes d), uid_type = d_uid_type d, attestation_of = None\<rparr>)
       (filter (\<lambda>d. d_bytes d \<noteq> []) decoded)"

definition decodedSuccessCount :: "decoded_identity list \<Rightarrow> nat" where
  "decodedSuccessCount decoded = length (filter (\<lambda>d. d_bytes d \<noteq> []) decoded)"

text \<open>Attested identities that were not decoded are appended as they came in.\<close>

definition serviceIdentities :: "identity_token list \<Rightarrow> decoded_identity list \<Rightarrow> identity_token list" where
  "serviceIdentities inbound decoded =
     audienceEligibleIdentities decoded @
     concat (map (\<lambda>k. let i = inbound ! k in
         if attestation_of i = None then []
         else if k < length decoded \<and> d_bytes (decoded ! k) \<noteq> [] then []
         else [\<lparr>user_token = user_token i, uid_type = uid_type i, attestation_of = attestation_of i\<rparr>]) [0..<length inbound])"


declare big_bytes.simps [simp del]

section \<open>Canonical forms\<close>

lemma hex_char_value: "n < 16 \<Longrightarrow> hex_value (hex_char n) = Some n"
  by (auto simp: hex_value_def hex_char_def char_class_defs)

lemma hex_decode_Canonical: "hex_decode (Canonical b) = Some b"
proof (induction b)
  case (Cons c b)
  have "of_char c div 16 < (16 :: nat)" using byte_less [of c] by (simp add: less_mult_imp_div_less)
  then have "hex_value (hex_char (of_char c div 16)) = Some (of_char c div 16)" "hex_value (hex_char (of_char c mod 16)) = Some (of_char c mod 16)"
    by (simp_all add: hex_char_value)
  then show ?case using Cons by (simp add: Canonical_def)
qed (simp add: Canonical_def)

lemma hex_value_to_lower: "hex_value c = Some n \<Longrightarrow> n < 16 \<and> hex_char n = to_lower c"
  by (auto simp: hex_value_def hex_char_def to_lower_def char_class_defs split: if_splits)

text \<open>The canonical form of a hexadecimal token is the token in lower case.\<close>

lemma Canonical_hex_decode: "hex_decode s = Some b \<Longrightarrow> Canonical b = map to_lower s"
proof (induction s arbitrary: b rule: hex_decode.induct)
  case (3 c d s)
  then obtain x y b' where v: "hex_value c = Some x" "hex_value d = Some y" "hex_decode s = Some b'" "b = char_of (x * 16 + y) # b'"
    by (auto split: option.splits)
  note xy = hex_value_to_lower [OF v(1)] hex_value_to_lower [OF v(2)]
  then have "of_char (char_of (x * 16 + y) :: char) = x * 16 + y" by simp
  then show ?case using "3.IH" [OF refl v(1) v(2) v(3)] xy v by (simp add: Canonical_def)
qed (simp_all add: Canonical_def)


section \<open>The decoding pass\<close>

lemma mapped_types: "map_of uidToTmpxTypeID u = Some t \<Longrightarrow> \<exists>n. TmpxTokenSize t = Some n \<and> 0 < n"
  by (auto simp: uidToTmpxTypeID_def TmpxTokenSize_def split: if_splits)

lemma decode_one_wellformed:
  "decode_one decoders i = Inr bin \<Longrightarrow> TmpxTokenSize (type_id (uid_type i)) = Some (length bin) \<and> bin \<noteq> []"
  by (auto simp: decode_one_def type_id_def split: option.splits sum.splits decode_error.splits if_splits dest: mapped_types)

lemma decoded_wellformed:
  assumes "d \<in> set (fst (decodeIdentities decoders ids))" "d_bytes d \<noteq> []"
  shows "TmpxTokenSize (type_id (d_uid_type d)) = Some (length (d_bytes d))"
  using assms by (auto simp: decodeIdentities_def split: sum.splits dest: decode_one_wellformed)

text \<open>The decoding pass keeps the order and the types of the identities; each identity either is dropped with exactly
  one recorded reason or carries the bytes of its decoder, in the size its type demands; a World ID nullifier that a
  sender asserts is always dropped.\<close>

theorem decoding_pass:
  "map d_uid_type (fst (decodeIdentities (NewDefaultRegistry opts) ids)) = map uid_type ids \<and>
   decodedSuccessCount (fst (decodeIdentities (NewDefaultRegistry opts) ids)) +
     length (snd (decodeIdentities (NewDefaultRegistry opts) ids)) = length ids \<and>
   list_all (\<lambda>d. d_bytes d = [] \<or>
       TmpxTokenSize (type_id (d_uid_type d)) = Some (length (d_bytes d)) \<and> d_uid_type d \<noteq> ''world_id_nullifier'')
     (fst (decodeIdentities (NewDefaultRegistry opts) ids))"
proof -
  let ?R = "NewDefaultRegistry opts"
  have "?R ''world_id_nullifier'' = None"
    by (simp add: NewDefaultRegistry_def formatOnlyDecoders_def Let_def split: option.split)
  then have world: "d_bytes d = []" if "d \<in> set (fst (decodeIdentities ?R ids))" "d_uid_type d = ''world_id_nullifier''" for d
    using that by (auto simp: decodeIdentities_def decode_one_def split: option.split)
  have "decodedSuccessCount (fst (decodeIdentities ?R is)) + length (snd (decodeIdentities ?R is)) = length is" for "is"
    by (induction "is")
      (auto simp: decodeIdentities_def decodedSuccessCount_def split: sum.splits dest: decode_one_wellformed)
  moreover have "map d_uid_type (fst (decodeIdentities ?R ids)) = map uid_type ids" by (simp add: decodeIdentities_def)
  ultimately show ?thesis using decoded_wellformed [of _ ?R ids] world unfolding list_all_iff by blast
qed

section \<open>Tokens of one user meet\<close>

lemma maid_dashed:
  assumes "length s = 36" "s ! 8 = CHR ''-''" "s ! 13 = CHR ''-''" "s ! 18 = CHR ''-''" "s ! 23 = CHR ''-''"
    "length (filter (\<lambda>c. c \<noteq> CHR ''-'') s) = 32"
  shows "MAID_Decode s = MAID_Decode (filter (\<lambda>c. c \<noteq> CHR ''-'') s)"
  using assms by (simp add: MAID_Decode_def)

lemma decodeMAIDHex_canonical:
  "decodeMAIDHex s = Inr b \<Longrightarrow> Canonical b = map to_lower s \<and> length b = 16"
  by (auto simp: decodeMAIDHex_def Canonical_hex_decode split: option.splits if_splits)

text \<open>The key of a device identifier or a hashed e-mail address is its hexadecimal digits in lower case, dashed or
  not, so the spellings of one identifier meet on one key and different identifiers never do.\<close>

theorem hex_keys_canonical:
  "(\<forall>s k. DecodeHex formatOnlyDecoders ''maid'' s = Inr k \<longrightarrow>
      k = map to_lower (filter (\<lambda>c. c \<noteq> CHR ''-'') s) \<and> length k = 32 \<and> DecodeHex formatOnlyDecoders ''maid'' k = Inr k) \<and>
   (\<forall>s k. DecodeHex formatOnlyDecoders ''hashed_email'' s = Inr k \<longrightarrow>
      k = map to_lower s \<and> length k = 64 \<and> DecodeHex formatOnlyDecoders ''hashed_email'' k = Inr k)"
proof -
  have len: "length (Canonical b) = 2 * length b" for b by (induction b) (simp_all add: Canonical_def)
  have plain: "filter (\<lambda>c. c \<noteq> CHR ''-'') s = s" if "hex_decode s = Some b" for s b
    using that by (induction s arbitrary: b rule: hex_decode.induct)
      (auto simp: hex_value_def char_class_defs split: option.splits if_splits)
  have maid: "k = map to_lower (filter (\<lambda>c. c \<noteq> CHR ''-'') s) \<and> length k = 32 \<and> DecodeHex formatOnlyDecoders ''maid'' k = Inr k"
    if "DecodeHex formatOnlyDecoders ''maid'' s = Inr k" for s k
  proof -
    from that obtain b where "MAID_Decode s = Inr b" and k: "k = Canonical b"
      by (auto simp: DecodeHex_def formatOnlyDecoders_def split: sum.splits)
    then have b: "hex_decode (filter (\<lambda>c. c \<noteq> CHR ''-'') s) = Some b" "length b = 16"
      by (auto simp: MAID_Decode_def decodeMAIDHex_def plain split: if_splits option.splits)
    then show ?thesis
      by (simp add: k Canonical_hex_decode [OF b(1), symmetric] len DecodeHex_def formatOnlyDecoders_def MAID_Decode_def
        decodeMAIDHex_def hex_decode_Canonical)
  qed
  have email: "k = map to_lower s \<and> length k = 64 \<and> DecodeHex formatOnlyDecoders ''hashed_email'' k = Inr k"
    if "DecodeHex formatOnlyDecoders ''hashed_email'' s = Inr k" for s k
  proof -
    from that obtain b where b: "hex_decode s = Some b" "length b = 32" and k: "k = Canonical b"
      by (auto simp: DecodeHex_def formatOnlyDecoders_def HashedEmail_Decode_def split: sum.splits if_splits option.splits)
    then show ?thesis
      by (simp add: Canonical_hex_decode [OF b(1), symmetric] len DecodeHex_def formatOnlyDecoders_def HashedEmail_Decode_def
        hex_decode_Canonical)
  qed
  show ?thesis using maid email by blast
qed

lemma hex_keys_canonical_witness:
  "DecodeHex formatOnlyDecoders ''maid'' (replicate 32 CHR ''a'') = Inr (replicate 32 CHR ''a'')"
proof -
  have "hex_decode (concat (replicate n ''AA'')) = Some (replicate n (CHR 0xAA))" for n
    by (induction n) (simp_all add: hex_value_def char_class_defs char_of_eq_iff)
  from this [of 16] have "hex_decode (replicate 32 CHR ''A'') = Some (replicate 16 (CHR 0xAA))"
    by (simp add: numeral_eq_Suc)
  then have run: "DecodeHex formatOnlyDecoders ''maid'' (replicate 32 CHR ''A'') = Inr (Canonical (replicate 16 (CHR 0xAA)))"
    by (simp add: DecodeHex_def formatOnlyDecoders_def MAID_Decode_def decodeMAIDHex_def)
  with hex_keys_canonical have "Canonical (replicate 16 (CHR 0xAA)) = map to_lower (filter (\<lambda>c. c \<noteq> CHR ''-'') (replicate 32 CHR ''A'')) \<and>
      DecodeHex formatOnlyDecoders ''maid'' (Canonical (replicate 16 (CHR 0xAA))) = Inr (Canonical (replicate 16 (CHR 0xAA)))"
    by blast
  moreover have "char_of (97 :: nat) = CHR ''a''" by (simp add: char_of_eq_iff)
  ultimately show ?thesis by (auto simp: to_lower_def char_class_defs)
qed


section \<open>Nullifiers\<close>

definition be_value :: "string \<Rightarrow> nat" where
  "be_value b = foldl (\<lambda>n c. 256 * n + of_char c) 0 b"

lemma be_value_big_bytes: "be_value (big_bytes n) = n"
proof (induction n rule: big_bytes.induct)
  case (1 n)
  show ?case
  proof (cases "n = 0")
    case False
    then show ?thesis using 1 by (subst big_bytes.simps) (simp add: be_value_def)
  qed (subst big_bytes.simps, simp add: be_value_def)
qed

lemma be_value_zeros: "be_value (replicate k CHR 0x00 @ b) = be_value b"
  by (induction k) (simp_all add: be_value_def)

text \<open>The number that a nullifier denotes.\<close>

definition nullifier_number :: "string \<Rightarrow> nat option" where
  "nullifier_number s = big_hex (trim_prefix (trim_prefix (TrimSpace s) ''0x'') ''0X'')"

lemma WorldID_Decode_number:
  assumes "WorldID_Decode s = Inr b"
  shows "length b = 32 \<and> nullifier_number s = Some (be_value b) \<and>
    b = replicate (32 - length (big_bytes (be_value b))) CHR 0x00 @ big_bytes (be_value b)"
  using assms
  by (auto simp: WorldID_Decode_def nullifier_number_def worldIDNullifierBytes_def Let_def be_value_zeros be_value_big_bytes
    split: if_splits option.splits)

text \<open>A nullifier becomes 32 bytes that denote its number, so two spellings give one token exactly when they denote the
  same number; with the digest of its relying party it is a valid token of 48 bytes.\<close>

theorem nullifier_canonical:
  "(\<forall>s s' b b'. WorldID_Decode s = Inr b \<and> WorldID_Decode s' = Inr b' \<longrightarrow>
      (b = b' \<longleftrightarrow> nullifier_number s = nullifier_number s') \<and> be_value b < 256 ^ 32) \<and>
   (\<forall>sha rp s t. WorldID_Token sha rp s = Inr t \<and> length (sha rp) = 32 \<longrightarrow>
      TmpxTokenSize (type_id ''world_id_nullifier'') = Some (length t) \<and> rp \<noteq> '''')"
proof -
  have bound: "be_value b < 256 ^ length b" for b
  proof (induction b rule: rev_induct)
    case (snoc c b)
    have "256 * be_value b + of_char c < 256 * Suc (be_value b)" using byte_less [of c] by simp
    also have "\<dots> \<le> 256 * 256 ^ length b" using snoc by (intro mult_le_mono2) simp
    finally show ?case by (simp add: be_value_def)
  qed (simp add: be_value_def)
  have "(b = b' \<longleftrightarrow> nullifier_number s = nullifier_number s') \<and> be_value b < 256 ^ 32"
    if "WorldID_Decode s = Inr b" "WorldID_Decode s' = Inr b'" for s s' b b'
    using WorldID_Decode_number [OF that(1)] WorldID_Decode_number [OF that(2)] bound [of b] by (metis option.inject)
  moreover have "TmpxTokenSize (type_id ''world_id_nullifier'') = Some (length t) \<and> rp \<noteq> ''''"
    if "WorldID_Token sha rp s = Inr t" "length (sha rp) = 32" for sha rp s t
    using that by (auto simp: WorldID_Token_def type_id_def uidToTmpxTypeID_def TmpxTokenSize_def worldIDRelyingPartyDigestBytes_def
      dest: WorldID_Decode_number split: if_splits sum.splits)
  ultimately show ?thesis by blast
qed

lemma nullifier_ten:
  "WorldID_Decode ''0x0a'' = Inr (replicate 31 CHR 0x00 @ [CHR 0x0A])" "WorldID_Decode ''0X0A'' = Inr (replicate 31 CHR 0x00 @ [CHR 0x0A])"
proof -
  have trims: "TrimSpace ''0x0a'' = ''0x0a''" "TrimSpace ''0X0A'' = ''0X0A''"
    by (rule TrimSpace_id; simp add: ident_char_def char_class_defs)+
  have ten: "big_bytes 10 = [CHR 0x0A]" by (simp add: big_bytes.simps char_of_eq_iff)
  show "WorldID_Decode ''0x0a'' = Inr (replicate 31 CHR 0x00 @ [CHR 0x0A])" "WorldID_Decode ''0X0A'' = Inr (replicate 31 CHR 0x00 @ [CHR 0x0A])"
    by (simp_all add: WorldID_Decode_def trims trim_prefix_def has_prefix_def big_hex_def hex_number_def hex_value_def char_class_defs
      ten worldIDNullifierBytes_def Let_def)
qed

lemma nullifier_canonical_witness:
  "nullifier_number ''0x0a'' = nullifier_number ''0X0A'' \<and> WorldID_Decode ''0x0a'' = WorldID_Decode ''0X0A''"
  using nullifier_canonical [THEN conjunct1, rule_format, OF conjI, OF nullifier_ten] nullifier_ten by simp

text \<open>The sign of a nullifier is ignored.\<close>

lemma nullifier_sign: "hex_number s = Some n \<Longrightarrow> big_hex (CHR ''-'' # s) = Some n"
  by (simp add: big_hex_def)

end
