(* ===== verification/Tmpx_Sealer.thy ===== *)
theory Tmpx_Sealer
  imports Identity_Decoders Verified_Identity "HOL-Library.Multiset"
begin

text \<open>
  The sealer of the identity agent (\<^verbatim>\<open>src/targeting/identityagent/tmpx.go\<close>): it selects decoded identities
  within the wire budget, seals them in a token and cuts the token into ad-server slots.
\<close>

section \<open>The sealer\<close>

record sealer =
  sl_country :: string
  sl_slot_ids :: "string list"
  sl_priority :: "string list"

definition wireBudget :: "sealer \<Rightarrow> nat" where
  "wireBudget s = max (length (sl_slot_ids s)) 1 * TmpxMaxWireBytes"

fun indexOfUIDType :: "string list \<Rightarrow> string \<Rightarrow> int" where
  "indexOfUIDType [] uid = -1"
| "indexOfUIDType (u # us) uid = (if u = uid then 0 else let i = indexOfUIDType us uid in if i < 0 then -1 else i + 1)"

definition candidates :: "sealer \<Rightarrow> decoded_identity list \<Rightarrow> decoded_identity list" where
  "candidates s decoded =
     (let survivors = filter (\<lambda>d. d_bytes d \<noteq> [] \<and> \<not> (sl_priority s \<noteq> [] \<and> indexOfUIDType (sl_priority s) (d_uid_type d) < 0)) decoded in
      if sl_priority s \<noteq> [] then sort_key (\<lambda>d. indexOfUIDType (sl_priority s) (d_uid_type d)) survivors else survivors)"

text \<open>The packing loop: \<open>used\<close> bytes of entries are packed in \<open>out\<close>; the flag tells that the budget cut the list.\<close>

fun pack :: "nat \<Rightarrow> bool \<Rightarrow> nat \<Rightarrow> decoded_identity list \<Rightarrow> tmpx_entry list \<Rightarrow> (tmpx_entry list \<times> bool) result" where
  "pack budget prioritised used [] out = Inr (out, False)"
| "pack budget prioritised used (d # ds) out =
     (let need = 1 + length (d_bytes d) in
      if TmpxWireSize TmpxMaxKidLen (used + need) > budget
      then (if \<not> prioritised then Inl ''budget exceeded and no priority'' else Inr (out, True))
      else pack budget prioritised (used + need) ds (out @ [\<lparr>e_type = type_id (d_uid_type d), e_token = d_bytes d\<rparr>]))"

definition selectEntries :: "sealer \<Rightarrow> decoded_identity list \<Rightarrow> tmpx_entry list result" where
  "selectEntries s decoded =
     (let survivors = candidates s decoded in
      if survivors = [] then Inr []
      else case pack (wireBudget s) (sl_priority s \<noteq> []) 0 survivors [] of
          Inl e \<Rightarrow> Inl e
        | Inr (entries, overflowed) \<Rightarrow>
            if entries = [] \<and> overflowed then Inl ''budget cannot fit the highest-priority entry'' else Inr entries)"

definition SealDecoded ::
  "suite \<Rightarrow> sealer \<Rightarrow> string option \<Rightarrow> tmpx_recipient option \<Rightarrow> decoded_identity list \<Rightarrow> int \<Rightarrow> string option \<Rightarrow> string option \<Rightarrow>
   string result" where
  "SealDecoded c s ctx_err recipient decoded unix nonce ephemeral =
     (case ctx_err of
        Some e \<Rightarrow> Inl e
      | None \<Rightarrow>
          (case recipient of
             None \<Rightarrow> Inl ''no recipient published''
           | Some r \<Rightarrow>
               (case selectEntries s decoded of
                  Inl e \<Rightarrow> Inl e
                | Inr entries \<Rightarrow>
                    if entries = [] then Inr ''''
                    else (case EncodeTmpxPlaintext (sl_country s) entries unix nonce of
                        Inl e \<Rightarrow> Inl e
                      | Inr plaintext \<Rightarrow> SealTmpx c r '''' plaintext ephemeral))))"

text \<open>One chunk per slot, in slot order.\<close>

fun cut_slots :: "string list \<Rightarrow> string \<Rightarrow> tmpx_chunk list" where
  "cut_slots [] token = []"
| "cut_slots (i # is) token =
     (if token = [] then [] else \<lparr>slot_id = i, chunk_value = take TmpxMaxWireBytes token\<rparr> # cut_slots is (drop TmpxMaxWireBytes token))"

definition ChunkEntries :: "sealer \<Rightarrow> string \<Rightarrow> tmpx_chunk list" where
  "ChunkEntries s token =
     (if token = '''' \<or> sl_slot_ids s = [] then []
      else if length token > length (sl_slot_ids s) * TmpxMaxWireBytes then []
      else cut_slots (sl_slot_ids s) token)"

section \<open>The entries of the plaintext\<close>

definition entry_of :: "decoded_identity \<Rightarrow> tmpx_entry" where
  "entry_of d = \<lparr>e_type = type_id (d_uid_type d), e_token = d_bytes d\<rparr>"

definition entry_bytes :: "decoded_identity list \<Rightarrow> nat" where
  "entry_bytes ds = sum_list (map (\<lambda>d. 1 + length (d_bytes d)) ds)"

lemma entry_bytes_simps [simp]:
  "entry_bytes [] = 0" "entry_bytes (d # ds) = 1 + length (d_bytes d) + entry_bytes ds"
  by (simp_all add: entry_bytes_def)

lemma length_encode_entries: "length (encode_entries (map entry_of ds)) = entry_bytes ds"
  by (induction ds) (simp_all add: encode_entries_def entry_of_def)

text \<open>The packing loop stops at the first identity that does not fit.\<close>

lemma pack_prefix:
  assumes "pack budget prioritised used ds out = Inr (es, ovf)"
  shows "\<exists>k \<le> length ds. es = out @ map entry_of (take k ds) \<and> (ovf \<longleftrightarrow> k < length ds) \<and> (ovf \<longrightarrow> prioritised) \<and>
      (0 < k \<longrightarrow> TmpxWireSize TmpxMaxKidLen (used + entry_bytes (take k ds)) \<le> budget) \<and>
      (k < length ds \<longrightarrow> budget < TmpxWireSize TmpxMaxKidLen (used + entry_bytes (take (Suc k) ds)))"
  using assms
proof (induction budget prioritised used ds out rule: pack.induct)
  case (1 budget prioritised used out)
  then show ?case by auto
next
  case (2 budget prioritised used d ds out)
  let ?need = "1 + length (d_bytes d)"
  show ?case
  proof (cases "TmpxWireSize TmpxMaxKidLen (used + ?need) > budget")
    case True
    then show ?thesis using "2.prems" by (intro exI [of _ 0]) (auto simp: Let_def split: if_splits)
  next
    case False
    with "2.prems" have "pack budget prioritised (used + ?need) ds (out @ [\<lparr>e_type = type_id (d_uid_type d), e_token = d_bytes d\<rparr>]) =
        Inr (es, ovf)"
      by (simp add: Let_def)
    note ih = "2.IH" [OF refl False this, folded entry_of_def]
    obtain k where k: "k \<le> length ds" "es = (out @ [entry_of d]) @ map entry_of (take k ds)" "ovf \<longleftrightarrow> k < length ds"
      "ovf \<longrightarrow> prioritised"
      "0 < k \<longrightarrow> TmpxWireSize TmpxMaxKidLen (used + ?need + entry_bytes (take k ds)) \<le> budget"
      "k < length ds \<longrightarrow> budget < TmpxWireSize TmpxMaxKidLen (used + ?need + entry_bytes (take (Suc k) ds))"
      using ih by blast
    then show ?thesis using False by (intro exI [of _ "Suc k"]) (cases k; auto simp: ac_simps)
  qed
qed

lemma selectEntries_prefix:
  assumes "selectEntries s decoded = Inr es" "es \<noteq> []"
  shows "\<exists>k \<le> length (candidates s decoded). 0 < k \<and> es = map entry_of (take k (candidates s decoded)) \<and>
      TmpxWireSize TmpxMaxKidLen (entry_bytes (take k (candidates s decoded))) \<le> wireBudget s \<and>
      (k < length (candidates s decoded) \<longrightarrow> sl_priority s \<noteq> [] \<and>
         wireBudget s < TmpxWireSize TmpxMaxKidLen (entry_bytes (take (Suc k) (candidates s decoded))))"
proof -
  from assms obtain ovf where p: "pack (wireBudget s) (sl_priority s \<noteq> []) 0 (candidates s decoded) [] = Inr (es, ovf)"
    by (auto simp: selectEntries_def Let_def split: if_splits sum.splits)
  from pack_prefix [OF p] obtain k where "k \<le> length (candidates s decoded)" "es = map entry_of (take k (candidates s decoded))"
    "ovf \<longleftrightarrow> k < length (candidates s decoded)" "ovf \<longrightarrow> sl_priority s \<noteq> []"
    "0 < k \<longrightarrow> TmpxWireSize TmpxMaxKidLen (entry_bytes (take k (candidates s decoded))) \<le> wireBudget s"
    "k < length (candidates s decoded) \<longrightarrow>
       wireBudget s < TmpxWireSize TmpxMaxKidLen (entry_bytes (take (Suc k) (candidates s decoded)))"
    by auto
  moreover have "0 < k" using assms(2) calculation(2) by (cases k) auto
  ultimately show ?thesis by auto
qed


section \<open>The carrier\<close>

lemma le_EncodedLen: "n \<le> EncodedLen n"
  using DecodedLen_EncodedLen [of n] by (simp add: DecodedLen_def)

text \<open>A sealed token is the selected entries in a plaintext in an envelope.\<close>

lemma SealDecoded_parts:
  assumes "SealDecoded c s ctx_err recipient decoded unix nonce eph = Inr token" "token \<noteq> ''''"
  obtains r es pt where "recipient = Some r" "selectEntries s decoded = Inr es" "es \<noteq> []"
    "EncodeTmpxPlaintext (sl_country s) es unix nonce = Inr pt" "SealTmpx c r '''' pt eph = Inr token"
  using assms by (auto simp: SealDecoded_def split: option.splits sum.splits if_splits)

lemma sealed_within_budget:
  assumes suite: "sound_suite c" and key: "r_public r = Some (pub c skR)" and n: "length n = 8"
    and seal: "SealDecoded c s None (Some r) decoded unix (Some n) eph = Inr token" "token \<noteq> ''''"
  obtains es pt where "selectEntries s decoded = Inr es" "es \<noteq> []"
    "EncodeTmpxPlaintext (sl_country s) es unix (Some n) = Inr pt" "length token \<le> wireBudget s"
    "SealTmpx c r '''' pt eph = Inr token" "length pt + 1 \<le> length token"
proof -
  obtain r' es pt where parts: "Some r = Some r'" "selectEntries s decoded = Inr es" "es \<noteq> []"
    "EncodeTmpxPlaintext (sl_country s) es unix (Some n) = Inr pt" "SealTmpx c r' '''' pt eph = Inr token"
    by (rule SealDecoded_parts [OF seal])
  obtain k where k: "es = map entry_of (take k (candidates s decoded))"
    "TmpxWireSize TmpxMaxKidLen (entry_bytes (take k (candidates s decoded))) \<le> wireBudget s"
    using selectEntries_prefix [OF parts(2, 3)] by blast
  have r: "r' = r" using parts(1) by simp
  note seal' = parts(5) [unfolded r]
  have kid: "length (r_kid r) \<le> TmpxMaxKidLen"
    by (rule SealTmpx_wire [OF seal']) (blast dest: kid_no_dot)
  have pt: "length pt = TmpxHeaderBytes + entry_bytes (take k (candidates s decoded))"
    using length_plaintext [OF parts(4) n] length_encode_entries k(1) by simp
  have wire: "length token = length (r_kid r) + 1 + EncodedLen (length pt + TmpxHPKEOverheadBytes)"
    by (rule sealed_length [OF suite seal' key])
  have "length token \<le> wireBudget s" "length pt + 1 \<le> length token"
    using k(2) kid wire pt le_EncodedLen [of "length pt + TmpxHPKEOverheadBytes"] by (simp_all add: TmpxWireSize_def ac_simps)
  then show ?thesis by (intro that [OF parts(2, 3, 4)] seal')
qed

lemma cut_slots_spec:
  "length token \<le> length ids * TmpxMaxWireBytes \<Longrightarrow>
   concat (map chunk_value (cut_slots ids token)) = token \<and>
   list_all (\<lambda>ch. chunk_value ch \<noteq> [] \<and> length (chunk_value ch) \<le> TmpxMaxWireBytes) (cut_slots ids token) \<and>
   map slot_id (cut_slots ids token) = take (length (cut_slots ids token)) ids"
proof (induction ids arbitrary: token)
  case (Cons i ids)
  show ?case
  proof (cases "token = []")
    case False
    have "length (drop TmpxMaxWireBytes token) \<le> length ids * TmpxMaxWireBytes" using Cons.prems by simp
    then show ?thesis using Cons.IH [of "drop TmpxMaxWireBytes token"] False by (simp add: TmpxMaxWireBytes_def)
  qed simp
qed simp

lemma carrier_opens:
  assumes "sound_suite c" "r_public r = Some (pub c skR)" "length n = 8"
    and "SealDecoded c s None (Some r) decoded unix (Some n) eph = Inr token" "token \<noteq> ''''" "sl_slot_ids s \<noteq> []"
  shows "concat (map chunk_value (ChunkEntries s token)) = token \<and>
    list_all (\<lambda>ch. chunk_value ch \<noteq> [] \<and> length (chunk_value ch) \<le> 255) (ChunkEntries s token) \<and>
    map slot_id (ChunkEntries s token) = take (length (ChunkEntries s token)) (sl_slot_ids s) \<and>
    (length (sl_slot_ids s) \<le> TmpxMaxSlots \<longrightarrow>
      (\<exists>es pt. selectEntries s decoded = Inr es \<and> EncodeTmpxPlaintext (sl_country s) es unix (Some n) = Inr pt \<and>
         OpenTmpx c (Some skR) '''' (concat (map chunk_value (ChunkEntries s token))) = Inr (pt, r_kid r)))"
proof -
  obtain es pt where parts: "selectEntries s decoded = Inr es" "es \<noteq> []"
    "EncodeTmpxPlaintext (sl_country s) es unix (Some n) = Inr pt" "length token \<le> wireBudget s"
    "SealTmpx c r '''' pt eph = Inr token" "length pt + 1 \<le> length token"
    by (rule sealed_within_budget [OF assms(1-5)])
  have fits: "length token \<le> length (sl_slot_ids s) * TmpxMaxWireBytes"
    using parts(4) assms(6) by (simp add: wireBudget_def max_absorb1 Suc_le_eq)
  then have chunks: "ChunkEntries s token = cut_slots (sl_slot_ids s) token" using assms(5, 6) by (simp add: ChunkEntries_def)
  have "OpenTmpx c (Some skR) '''' token = Inr (pt, r_kid r)" if "length (sl_slot_ids s) \<le> TmpxMaxSlots"
  proof -
    have "length token \<le> TmpxMaxReassembledWireBytes"
      unfolding TmpxMaxReassembledWireBytes_def by (rule le_trans [OF fits mult_le_mono1 [OF that]])
    then show ?thesis unfolding OpenTmpx_def
      using parts(6) by (intro seal_open [OF assms(1) parts(5) assms(2)])
        (simp_all add: TmpxMaxReassembledWireBytes_def TmpxMaxSlots_def TmpxMaxWireBytes_def)
  qed
  then show ?thesis using cut_slots_spec [OF fits] parts(1, 3) unfolding chunks by (simp add: TmpxMaxWireBytes_def)
qed

text \<open>C19: a token sealed for a recipient fits the configured ad-server slots: its chunks go to the first slots in order,
  each non-empty and at most 255 bytes, and together they are the token. With at most two slots, what the receiver
  reassembles opens with the recipient's key to the plaintext of the selected identities.\<close>

theorem carrier_delivers:
  assumes "sound_suite c" "r_public r = Some (pub c skR)" "length n = 8"
    and "SealDecoded c s None (Some r) decoded unix (Some n) eph = Inr token" "token \<noteq> ''''" "sl_slot_ids s \<noteq> []"
  shows "concat (map chunk_value (ChunkEntries s token)) = token \<and>
    list_all (\<lambda>ch. chunk_value ch \<noteq> [] \<and> length (chunk_value ch) \<le> 255) (ChunkEntries s token) \<and>
    map slot_id (ChunkEntries s token) = take (length (ChunkEntries s token)) (sl_slot_ids s) \<and>
    (length (sl_slot_ids s) \<le> TmpxMaxSlots \<longrightarrow>
      (\<exists>es pt. selectEntries s decoded = Inr es \<and> EncodeTmpxPlaintext (sl_country s) es unix (Some n) = Inr pt \<and>
         OpenTmpx c (Some skR) '''' (concat (map chunk_value (ChunkEntries s token))) = Inr (pt, r_kid r)))"
  by (rule carrier_opens [OF assms])


definition plain_suite :: suite where
  "plain_suite = \<lparr>pub = (\<lambda>a. take 32 (a @ replicate 32 CHR ''0'')), ecdh = (\<lambda>a b. Some (replicate 32 CHR ''s'')),
     hkdf_extract = (\<lambda>ikm salt. Some (replicate 32 CHR ''p'')), hkdf_expand = (\<lambda>prk info len. Some (replicate len CHR ''k'')),
     aead_seal = (\<lambda>k n m aad. m @ replicate 16 CHR ''t''), aead_open = (\<lambda>k n ct aad. Some (take (length ct - 16) ct))\<rparr>"

lemma plain_suite_sound: "sound_suite plain_suite"
  by (auto simp: sound_suite_def plain_suite_def)

lemma carrier_delivers_witness:
  "\<exists>token pt. SealDecoded plain_suite \<lparr>sl_country = ''US'', sl_slot_ids = [''a'', ''b''], sl_priority = []\<rparr> None
       (Some \<lparr>r_kid = ''k1'', r_public = Some (pub plain_suite ''sk'')\<rparr>)
       [\<lparr>d_uid_type = ''maid'', d_bytes = replicate 16 CHR ''m''\<rparr>] 5 (Some ''12345678'') (Some ''e'') = Inr token \<and>
     OpenTmpx plain_suite (Some ''sk'') ''''
       (concat (map chunk_value (ChunkEntries \<lparr>sl_country = ''US'', sl_slot_ids = [''a'', ''b''], sl_priority = []\<rparr> token))) =
       Inr (pt, ''k1'')"
proof -
  let ?s = "\<lparr>sl_country = ''US'', sl_slot_ids = [''a'', ''b''], sl_priority = []\<rparr>"
  let ?r = "\<lparr>r_kid = ''k1'', r_public = Some (pub plain_suite ''sk'')\<rparr>"
  let ?d = "[\<lparr>d_uid_type = ''maid'', d_bytes = replicate 16 CHR ''m''\<rparr>]"
  have "selectEntries ?s ?d = Inr [\<lparr>e_type = 6, e_token = replicate 16 CHR ''m''\<rparr>]"
    by (simp add: selectEntries_def candidates_def wireBudget_def TmpxMaxWireBytes_def TmpxWireSize_def EncodedLen_def
      TmpxMaxKidLen_def TmpxHeaderBytes_def TmpxHPKEOverheadBytes_def type_id_def uidToTmpxTypeID_def)
  moreover obtain pt where "EncodeTmpxPlaintext ''US'' [\<lparr>e_type = 6, e_token = replicate 16 CHR ''m''\<rparr>] 5 (Some ''12345678'') = Inr pt"
    by (simp add: EncodeTmpxPlaintext_def TmpxTokenSize_def char_class_defs)
  moreover obtain token where "SealTmpx plain_suite ?r '''' pt (Some ''e'') = Inr token" "token \<noteq> ''''"
    by (simp add: SealTmpx_def hpkeSealBase_def plain_suite_def dhkemExtractAndExpand_def key_schedule_def labeledExtract_def
      labeledExpand_def Let_def validateTmpxKid_def TmpxMaxKidLen_def isTmpxKidChar_def char_class_defs)
  ultimately have run: "SealDecoded plain_suite ?s None (Some ?r) ?d 5 (Some ''12345678'') (Some ''e'') = Inr token" "token \<noteq> ''''"
    by (simp_all add: SealDecoded_def)
  show ?thesis
    using carrier_delivers [where skR = "''sk''", OF plain_suite_sound _ _ run] run(1) by (auto simp: TmpxMaxSlots_def)
qed


section \<open>Selection\<close>

definition ranked :: "sealer \<Rightarrow> decoded_identity \<Rightarrow> bool" where
  "ranked s d \<longleftrightarrow> sl_priority s = [] \<or> d_uid_type d \<in> set (sl_priority s)"

lemma indexOfUIDType_mem: "indexOfUIDType us u < 0 \<longleftrightarrow> u \<notin> set us"
  by (induction us) (auto simp: Let_def)

lemma candidates_mem: "set (candidates s decoded) = {d \<in> set decoded. d_bytes d \<noteq> [] \<and> ranked s d}"
  by (auto simp: candidates_def ranked_def indexOfUIDType_mem Let_def)

text \<open>The order in which identities are packed: by priority when there is one, otherwise as they came in.\<close>

lemma candidates_order:
  "(sl_priority s = [] \<longrightarrow> candidates s decoded = filter (\<lambda>d. d_bytes d \<noteq> []) decoded) \<and>
   sorted (map (\<lambda>d. indexOfUIDType (sl_priority s) (d_uid_type d)) (candidates s decoded)) \<or> sl_priority s = []"
  by (auto simp: candidates_def)

lemma wire_mono: "m \<le> n \<Longrightarrow> TmpxWireSize kl m \<le> TmpxWireSize kl n"
proof -
  have "EncodedLen i = (8 * i + 5) div 6" for i
  proof -
    have "8 * i + 5 = (i mod 3 * 8 + 5) + (i div 3 * 4) * 6" using div_mult_mod_eq [of i 3] by linarith
    then show ?thesis by (simp add: EncodedLen_def del: mult.assoc)
  qed
  then have "EncodedLen i \<le> EncodedLen j" if "i \<le> j" for i j using that by (simp add: div_le_mono)
  then show "m \<le> n \<Longrightarrow> ?thesis" by (simp add: TmpxWireSize_def)
qed

lemma entry_bytes_take_mono: "j \<le> k \<Longrightarrow> entry_bytes (take j ds) \<le> entry_bytes (take k ds)"
proof (induction ds arbitrary: j k)
  case (Cons d ds)
  then show ?case by (cases j; cases k) auto
qed simp

text \<open>Packing fails only without a priority, at a prefix that does not fit.\<close>

lemma pack_fails:
  "pack budget prioritised used ds out = Inl e \<Longrightarrow>
   \<not> prioritised \<and> ds \<noteq> [] \<and> budget < TmpxWireSize TmpxMaxKidLen (used + entry_bytes ds)"
proof (induction budget prioritised used ds out rule: pack.induct)
  case (2 budget prioritised used d ds out)
  let ?need = "1 + length (d_bytes d)"
  show ?case
  proof (cases "TmpxWireSize TmpxMaxKidLen (used + ?need) > budget")
    case True
    have "TmpxWireSize TmpxMaxKidLen (used + ?need) \<le> TmpxWireSize TmpxMaxKidLen (used + entry_bytes (d # ds))"
      by (rule wire_mono) simp
    with True "2.prems" show ?thesis by (auto simp: Let_def split: if_splits)
  next
    case False
    with "2.prems" "2.IH" [OF refl False] show ?thesis by (simp add: Let_def add.assoc)
  qed
qed simp

lemma candidates_mset: "mset (candidates s decoded) = mset (filter (\<lambda>d. d_bytes d \<noteq> [] \<and> ranked s d) decoded)"
proof -
  have "(\<lambda>d. d_bytes d \<noteq> [] \<and> \<not> (sl_priority s \<noteq> [] \<and> indexOfUIDType (sl_priority s) (d_uid_type d) < 0)) =
      (\<lambda>d. d_bytes d \<noteq> [] \<and> ranked s d)"
    by (auto simp: ranked_def indexOfUIDType_mem)
  then show ?thesis by (simp add: candidates_def Let_def)
qed

definition fits_budget :: "sealer \<Rightarrow> decoded_identity list \<Rightarrow> bool" where
  "fits_budget s ds \<longleftrightarrow> TmpxWireSize TmpxMaxKidLen (entry_bytes ds) \<le> wireBudget s"

lemma selected:
  assumes "selectEntries s decoded = Inr es"
  shows "\<exists>k \<le> length (candidates s decoded). es = map entry_of (take k (candidates s decoded)) \<and>
     (0 < k \<longrightarrow> fits_budget s (take k (candidates s decoded))) \<and>
     (k < length (candidates s decoded) \<longrightarrow> 0 < k \<and> sl_priority s \<noteq> [] \<and> \<not> fits_budget s (take (Suc k) (candidates s decoded)))"
proof (cases "es = []")
  case True
  have "candidates s decoded = []"
  proof (rule ccontr)
    assume ne: "candidates s decoded \<noteq> []"
    with assms True obtain ovf where p: "pack (wireBudget s) (sl_priority s \<noteq> []) 0 (candidates s decoded) [] = Inr (es, ovf)"
      and no: "\<not> ovf"
      by (auto simp: selectEntries_def Let_def split: sum.splits if_splits)
    from pack_prefix [OF p] ne True no show False by auto
  qed
  with True show ?thesis by simp
next
  case False
  from selectEntries_prefix [OF assms False] show ?thesis by (auto simp: fits_budget_def not_le)
qed

lemma not_selected:
  assumes "selectEntries s decoded = Inl e"
  shows "candidates s decoded \<noteq> [] \<and> \<not> fits_budget s (if sl_priority s = [] then candidates s decoded else take 1 (candidates s decoded))"
proof (cases "pack (wireBudget s) (sl_priority s \<noteq> []) 0 (candidates s decoded) []")
  case (Inl f)
  with pack_fails [OF Inl] assms show ?thesis by (simp add: fits_budget_def)
next
  case (Inr p)
  obtain es ovf where p: "pack (wireBudget s) (sl_priority s \<noteq> []) 0 (candidates s decoded) [] = Inr (es, ovf)"
    using Inr by (cases p) simp
  with assms have "candidates s decoded \<noteq> []" "es = []" "ovf"
    by (auto simp: selectEntries_def Let_def split: if_splits)
  with pack_prefix [OF p] show ?thesis by (fastforce simp: fits_budget_def)
qed

text \<open>C20: what a token carries. The candidates are exactly the decoded identities with bytes and, under a
  priority, a ranked type, in the order they came in or, under a priority, by rank. A successful
  selection is a prefix of them that fits the wire budget of the slots and is cut only when a priority
  is configured and one identity more would not fit, never down to nothing. Selection fails only when
  it must: without a priority when all of them together do not fit, with one when not even the first
  does.\<close>

theorem selection_maximal:
  fixes s :: sealer and decoded :: "decoded_identity list"
  defines "ranked_ids \<equiv> candidates s decoded"
  shows "mset ranked_ids = mset (filter (\<lambda>d. d_bytes d \<noteq> [] \<and> (sl_priority s = [] \<or> d_uid_type d \<in> set (sl_priority s))) decoded) \<and>
     (if sl_priority s = [] then ranked_ids = filter (\<lambda>d. d_bytes d \<noteq> []) decoded
      else sorted (map (\<lambda>d. indexOfUIDType (sl_priority s) (d_uid_type d)) ranked_ids)) \<and>
     (\<forall>es. selectEntries s decoded = Inr es \<longrightarrow>
        (\<exists>k \<le> length ranked_ids. es = map entry_of (take k ranked_ids) \<and>
           (0 < k \<longrightarrow> TmpxWireSize TmpxMaxKidLen (entry_bytes (take k ranked_ids)) \<le> wireBudget s) \<and>
           (k < length ranked_ids \<longrightarrow> 0 < k \<and> sl_priority s \<noteq> [] \<and>
              wireBudget s < TmpxWireSize TmpxMaxKidLen (entry_bytes (take (Suc k) ranked_ids))))) \<and>
     (\<forall>e. selectEntries s decoded = Inl e \<longrightarrow> ranked_ids \<noteq> [] \<and>
        wireBudget s < TmpxWireSize TmpxMaxKidLen (entry_bytes (if sl_priority s = [] then ranked_ids else take 1 ranked_ids)))"
proof (intro conjI allI impI)
  show "mset ranked_ids = mset (filter (\<lambda>d. d_bytes d \<noteq> [] \<and> (sl_priority s = [] \<or> d_uid_type d \<in> set (sl_priority s))) decoded)"
    unfolding ranked_ids_def candidates_mset ranked_def ..
  show "if sl_priority s = [] then ranked_ids = filter (\<lambda>d. d_bytes d \<noteq> []) decoded
      else sorted (map (\<lambda>d. indexOfUIDType (sl_priority s) (d_uid_type d)) ranked_ids)"
    by (simp add: ranked_ids_def candidates_def Let_def)
next
  fix es assume "selectEntries s decoded = Inr es"
  from selected [OF this] show "\<exists>k \<le> length ranked_ids. es = map entry_of (take k ranked_ids) \<and>
      (0 < k \<longrightarrow> TmpxWireSize TmpxMaxKidLen (entry_bytes (take k ranked_ids)) \<le> wireBudget s) \<and>
      (k < length ranked_ids \<longrightarrow> 0 < k \<and> sl_priority s \<noteq> [] \<and>
         wireBudget s < TmpxWireSize TmpxMaxKidLen (entry_bytes (take (Suc k) ranked_ids)))"
    unfolding ranked_ids_def fits_budget_def not_le .
next
  fix e assume "selectEntries s decoded = Inl e"
  note failed = not_selected [OF this, folded ranked_ids_def, unfolded fits_budget_def not_le]
  from failed show "ranked_ids \<noteq> []" ..
  from failed show "wireBudget s < TmpxWireSize TmpxMaxKidLen
      (entry_bytes (if sl_priority s = [] then ranked_ids else take 1 ranked_ids))" ..
qed

lemma selection_maximal_witness:
  "\<exists>es k. selectEntries \<lparr>sl_country = ''US'', sl_slot_ids = [''a''], sl_priority = [''maid'', ''rampid_derived'']\<rparr>
       [\<lparr>d_uid_type = ''rampid_derived'', d_bytes = replicate 48 CHR ''r''\<rparr>, \<lparr>d_uid_type = ''rampid_derived'', d_bytes = replicate 48 CHR ''s''\<rparr>,
        \<lparr>d_uid_type = ''rampid_derived'', d_bytes = replicate 48 CHR ''t''\<rparr>, \<lparr>d_uid_type = ''maid'', d_bytes = replicate 16 CHR ''m''\<rparr>] = Inr es \<and>
     map e_type es = [6, 5, 5] \<and> length es = min k 4"
proof -
  let ?s = "\<lparr>sl_country = ''US'', sl_slot_ids = [''a''], sl_priority = [''maid'', ''rampid_derived'']\<rparr>"
  let ?r = "\<lambda>c. \<lparr>d_uid_type = ''rampid_derived'', d_bytes = replicate 48 c\<rparr>"
  let ?ds = "[?r CHR ''r'', ?r CHR ''s'', ?r CHR ''t'', \<lparr>d_uid_type = ''maid'', d_bytes = replicate 16 CHR ''m''\<rparr>]"
  have c: "candidates ?s ?ds = [\<lparr>d_uid_type = ''maid'', d_bytes = replicate 16 CHR ''m''\<rparr>, ?r CHR ''r'', ?r CHR ''s'', ?r CHR ''t'']"
    by (simp add: candidates_def Let_def)
  have run: "selectEntries ?s ?ds = Inr (map entry_of (take 3 (candidates ?s ?ds)))"
    unfolding selectEntries_def Let_def c
    by (simp add: wireBudget_def TmpxMaxWireBytes_def TmpxWireSize_def EncodedLen_def
      TmpxMaxKidLen_def TmpxHeaderBytes_def TmpxHPKEOverheadBytes_def type_id_def uidToTmpxTypeID_def entry_of_def)
  have all: "\<forall>es. selectEntries ?s ?ds = Inr es \<longrightarrow> (\<exists>k \<le> length (candidates ?s ?ds). es = map entry_of (take k (candidates ?s ?ds)))"
    using selection_maximal [of ?s ?ds] by blast
  from all [rule_format, OF run] obtain k where
    k: "map entry_of (take 3 (candidates ?s ?ds)) = map entry_of (take k (candidates ?s ?ds))" by blast
  have "length (map entry_of (take k (candidates ?s ?ds))) = min k 4" by (simp add: c)
  then have "length (map entry_of (take 3 (candidates ?s ?ds))) = min k 4" by (simp only: k)
  moreover have "map e_type (map entry_of (take 3 (candidates ?s ?ds))) = [6, 5, 5]"
    by (simp add: c entry_of_def type_id_def uidToTmpxTypeID_def)
  ultimately show ?thesis using run by (intro exI conjI) assumption+
qed

section \<open>Sealing what was decoded\<close>

lemma list_all_entries:
  assumes "list_all (\<lambda>d. d_bytes d \<noteq> [] \<longrightarrow> TmpxTokenSize (type_id (d_uid_type d)) = Some (length (d_bytes d))) decoded"
    "selectEntries s decoded = Inr es"
  shows "list_all (\<lambda>e. TmpxTokenSize (e_type e) = Some (length (e_token e))) es"
proof (cases "es = []")
  case False
  from selectEntries_prefix [OF assms(2) False] obtain k where "es = map entry_of (take k (candidates s decoded))" by blast
  then show ?thesis using assms(1) candidates_mem [of s decoded]
    by (auto simp: list_all_iff entry_of_def dest!: in_set_takeD)
qed simp

lemma type_size_bounds: "TmpxTokenSize t = Some n \<Longrightarrow> 16 \<le> n"
  by (auto simp: TmpxTokenSize_def split: if_splits)

lemma entry_count:
  "list_all (\<lambda>e. TmpxTokenSize (e_type e) = Some (length (e_token e))) (map entry_of ds) \<Longrightarrow> 17 * length ds \<le> entry_bytes ds"
  by (induction ds) (auto simp: entry_of_def dest: type_size_bounds)

text \<open>With a published key and a working cipher suite, sealing what the decoding pass and verification yield fails for no
  other reason than the budget, as long as at most two slots are configured.\<close>

theorem sealing_succeeds:
  assumes "list_all (\<lambda>d. d_bytes d \<noteq> [] \<longrightarrow> TmpxTokenSize (type_id (d_uid_type d)) = Some (length (d_bytes d))) decoded"
    and "selectEntries s decoded = Inr es" "length (sl_slot_ids s) \<le> TmpxMaxSlots"
    and "length (sl_country s) = 2" "list_all is_upper (sl_country s)"
    and "validateTmpxKid (r_kid r) = None" "r_public r = Some pk" "\<And>pt. hpkeSealBase c pk e '''' '''' pt \<noteq> None"
  shows "\<exists>token. SealDecoded c s None (Some r) decoded unix (Some n) (Some e) = Inr token \<and> (token = '''' \<longleftrightarrow> es = [])"
proof (cases "es = []")
  case False
  from selectEntries_prefix [OF assms(2) False] obtain k where k: "es = map entry_of (take k (candidates s decoded))"
    "TmpxWireSize TmpxMaxKidLen (entry_bytes (take k (candidates s decoded))) \<le> wireBudget s"
    by blast
  have "max (length (sl_slot_ids s)) 1 \<le> 2" using assms(3) by (simp add: TmpxMaxSlots_def)
  then have "wireBudget s \<le> 2 * 255" unfolding wireBudget_def TmpxMaxWireBytes_def by (rule mult_le_mono1)
  then have budget: "entry_bytes (take k (candidates s decoded)) \<le> 510"
    using k(2) le_EncodedLen [of "TmpxHeaderBytes + TmpxHPKEOverheadBytes + entry_bytes (take k (candidates s decoded))"]
    by (simp add: TmpxWireSize_def)
  note valid = list_all_entries [OF assms(1, 2)]
  have "length es \<le> 255" using entry_count [of "take k (candidates s decoded)"] valid budget by (simp add: k(1))
  then obtain pt where "EncodeTmpxPlaintext (sl_country s) es unix (Some n) = Inr pt"
    using assms(4, 5) valid by (auto simp: EncodeTmpxPlaintext_def list_ex_iff list_all_iff)
  moreover obtain enc ct where "hpkeSealBase c pk e '''' '''' pt = Some (enc, ct)" using assms(8) [of pt] by auto
  ultimately have "SealDecoded c s None (Some r) decoded unix (Some n) (Some e) = Inr (r_kid r @ ''.'' @ b64_encode (enc @ ct))"
    using assms(2, 6, 7) False by (simp add: SealDecoded_def SealTmpx_def)
  then show ?thesis using False by simp
qed (use assms in \<open>simp add: SealDecoded_def\<close>)


lemma sealing_succeeds_witness:
  "\<exists>token. SealDecoded plain_suite \<lparr>sl_country = ''US'', sl_slot_ids = [''a''], sl_priority = []\<rparr> None
     (Some \<lparr>r_kid = ''k1'', r_public = Some ''pk''\<rparr>) [\<lparr>d_uid_type = ''maid'', d_bytes = replicate 16 CHR ''m''\<rparr>]
     5 (Some ''12345678'') (Some ''e'') = Inr token \<and> (token = '''' \<longleftrightarrow> [\<lparr>e_type = 6, e_token = replicate 16 CHR ''m''\<rparr>] = [])"
proof (rule sealing_succeeds [where pk = "''pk''"])
  show "selectEntries \<lparr>sl_country = ''US'', sl_slot_ids = [''a''], sl_priority = []\<rparr> [\<lparr>d_uid_type = ''maid'', d_bytes = replicate 16 CHR ''m''\<rparr>] =
      Inr [\<lparr>e_type = 6, e_token = replicate 16 CHR ''m''\<rparr>]"
    by (simp add: selectEntries_def candidates_def wireBudget_def TmpxMaxWireBytes_def TmpxWireSize_def EncodedLen_def
      TmpxMaxKidLen_def TmpxHeaderBytes_def TmpxHPKEOverheadBytes_def type_id_def uidToTmpxTypeID_def)
qed (simp_all add: type_id_def uidToTmpxTypeID_def TmpxTokenSize_def TmpxMaxSlots_def validateTmpxKid_def TmpxMaxKidLen_def
  isTmpxKidChar_def char_class_defs hpkeSealBase_def plain_suite_def dhkemExtractAndExpand_def key_schedule_def labeledExtract_def
  labeledExpand_def Let_def)


section \<open>Verified identities and configuration\<close>

definition verifiedIdentityEntries :: "(string \<Rightarrow> string) \<Rightarrow> verified_identity list \<Rightarrow> decoded_identity list" where
  "verifiedIdentityEntries sha256 verified =
     concat (map (\<lambda>vi.
       if vi_nullifier vi = '''' then []
       else case WorldID_Token sha256 (vi_relying_party vi) (vi_nullifier vi) of
           Inl e \<Rightarrow> []
         | Inr b \<Rightarrow> [\<lparr>d_uid_type = ''world_id_nullifier'', d_bytes = b\<rparr>]) verified)"

fun parse_priority :: "string list \<Rightarrow> string list \<Rightarrow> string list result" where
  "parse_priority [] out = Inr out"
| "parse_priority (p # ps) out =
     (let name = TrimSpace p in
      if name = '''' then parse_priority ps out
      else if map_of uidToTmpxTypeID name = None then Inl ''not a TMPX-encodable uid_type''
      else if name \<in> set out then Inl ''appears more than once''
      else parse_priority ps (out @ [name]))"

definition parseTmpxPriority :: "string \<Rightarrow> string list result" where
  "parseTmpxPriority s =
     (let s = TrimSpace s in if s = '''' then Inr [] else parse_priority (split_on CHR '','' s) [])"

record tmpx_config =
  EncryptJWKSURL :: string
  tc_country :: string
  tc_slot_ids :: "string list"
  tc_priority :: string

text \<open>\<open>fetch\<close> is the result of the first key fetch: whether a recipient is published, or an error.\<close>

definition NewTMPXSealerWithOptions :: "tmpx_config \<Rightarrow> bool result \<Rightarrow> sealer option result" where
  "NewTMPXSealerWithOptions cfg fetch =
     (if EncryptJWKSURL cfg = '''' \<and> tc_country cfg = '''' \<and> tc_priority cfg = '''' then Inr None
      else if EncryptJWKSURL cfg = '''' \<or> tc_country cfg = '''' then Inl ''TMPX requires TMPX_ENCRYPT_JWKS_URL and TMPX_COUNTRY''
      else case fetch of
          Inl e \<Rightarrow> Inl e
        | Inr published \<Rightarrow>
            if \<not> published then Inl ''no adcp_use=tmpx-encrypt key''
            else case parseTmpxPriority (tc_priority cfg) of
                Inl e \<Rightarrow> Inl e
              | Inr order \<Rightarrow>
                  Inr (Some \<lparr>sl_country = tc_country cfg, sl_slot_ids = tc_slot_ids cfg, sl_priority = order\<rparr>))"

lemma parse_priority_spec:
  "parse_priority ps out = Inr order \<Longrightarrow> distinct out \<Longrightarrow> set out \<subseteq> dom (map_of uidToTmpxTypeID) \<Longrightarrow>
   distinct order \<and> set order \<subseteq> dom (map_of uidToTmpxTypeID)"
  by (induction ps out rule: parse_priority.induct) (auto simp: Let_def dom_def split: if_splits)

lemma sealer_priority:
  "NewTMPXSealerWithOptions cfg fetch = Inr (Some s) \<Longrightarrow> distinct (sl_priority s) \<and> set (sl_priority s) \<subseteq> dom (map_of uidToTmpxTypeID)"
  by (auto simp: NewTMPXSealerWithOptions_def parseTmpxPriority_def Let_def split: if_splits sum.splits
    dest!: parse_priority_spec [where out = "[]", simplified])

lemma verified_entry:
  "d \<in> set (verifiedIdentityEntries sha256 verified) \<Longrightarrow>
   d_uid_type d = ''world_id_nullifier'' \<and> (\<exists>vi \<in> set verified. WorldID_Token sha256 (vi_relying_party vi) (vi_nullifier vi) = Inr (d_bytes d))"
  by (force simp: verifiedIdentityEntries_def split: if_splits sum.splits)

lemma WorldID_Token_length:
  "WorldID_Token sha256 rp s = Inr t \<Longrightarrow> length (sha256 rp) = 32 \<Longrightarrow> length t = 48"
  by (auto simp: WorldID_Token_def worldIDRelyingPartyDigestBytes_def dest: WorldID_Decode_number split: if_splits sum.splits)

lemma sealed_types:
  "map_of uidToTmpxTypeID u = Some 10 \<Longrightarrow> u = ''world_id_nullifier''"
  by (auto simp: uidToTmpxTypeID_def split: if_splits)

lemma entries_origin:
  assumes "selectEntries s (fst (decodeIdentities (NewDefaultRegistry opts) ids) @ verifiedIdentityEntries sha256 verified) = Inr es"
  shows "list_all (\<lambda>e. (e_type e = 10 \<longrightarrow>
        (\<exists>vi \<in> set verified. WorldID_Token sha256 (vi_relying_party vi) (vi_nullifier vi) = Inr (e_token e))) \<and>
      (e_type e \<noteq> 10 \<longrightarrow> (\<exists>i \<in> set ids. decode_one (NewDefaultRegistry opts) i = Inr (e_token e) \<and> type_id (uid_type i) = e_type e))) es"
proof (cases "es = []")
  case False
  let ?ds = "fst (decodeIdentities (NewDefaultRegistry opts) ids)" and ?vs = "verifiedIdentityEntries sha256 verified"
  from selectEntries_prefix [OF assms False] obtain k where es: "es = map entry_of (take k (candidates s (?ds @ ?vs)))" by blast
  have inbound: "e_type (entry_of d) \<noteq> 10 \<and> (\<exists>i \<in> set ids. decode_one (NewDefaultRegistry opts) i = Inr (d_bytes d) \<and>
      type_id (uid_type i) = e_type (entry_of d))" if "d \<in> set ?ds" "d_bytes d \<noteq> []" for d
  proof -
    have world: "NewDefaultRegistry opts ''world_id_nullifier'' = None"
      by (simp add: NewDefaultRegistry_def formatOnlyDecoders_def Let_def split: option.split)
    from that obtain i where i: "i \<in> set ids" "d_uid_type d = uid_type i" "decode_one (NewDefaultRegistry opts) i = Inr (d_bytes d)"
      by (auto simp: decodeIdentities_def split: sum.splits)
    then obtain t where "map_of uidToTmpxTypeID (uid_type i) = Some t" "NewDefaultRegistry opts (uid_type i) \<noteq> None"
      by (auto simp: decode_one_def split: option.splits)
    with world sealed_types [of "uid_type i"] have "type_id (uid_type i) \<noteq> 10" by (auto simp: type_id_def)
    then show ?thesis using i by (auto simp: entry_of_def)
  qed
  have "e_type (entry_of d) = 10 \<and> (\<exists>vi \<in> set verified. WorldID_Token sha256 (vi_relying_party vi) (vi_nullifier vi) = Inr (d_bytes d))"
    if "d \<in> set ?vs" for d
    using verified_entry [OF that] by (simp add: entry_of_def type_id_def uidToTmpxTypeID_def)
  then have "(e_type e = 10 \<longrightarrow> (\<exists>vi \<in> set verified. WorldID_Token sha256 (vi_relying_party vi) (vi_nullifier vi) = Inr (e_token e))) \<and>
      (e_type e \<noteq> 10 \<longrightarrow> (\<exists>i \<in> set ids. decode_one (NewDefaultRegistry opts) i = Inr (e_token e) \<and> type_id (uid_type i) = e_type e))"
    if "e \<in> set es" for e
    using that inbound candidates_mem [of s "?ds @ ?vs"]
    by (auto simp: es entry_of_def dest!: in_set_takeD)
  then show ?thesis unfolding list_all_iff by blast
qed simp

text \<open>A World ID entry is sealed only for an identity that the verified-identity stage accepted: every entry of type 10 is
  the token of one of its identities, and every other entry is an identity that was decoded.\<close>

theorem world_id_only_verified:
  assumes "selectEntries s (fst (decodeIdentities (NewDefaultRegistry opts) ids) @ verifiedIdentityEntries sha256 verified) = Inr es"
  shows "list_all (\<lambda>e. (e_type e = 10 \<longrightarrow>
        (\<exists>vi \<in> set verified. WorldID_Token sha256 (vi_relying_party vi) (vi_nullifier vi) = Inr (e_token e))) \<and>
      (e_type e \<noteq> 10 \<longrightarrow> (\<exists>i \<in> set ids. decode_one (NewDefaultRegistry opts) i = Inr (e_token e) \<and> type_id (uid_type i) = e_type e))) es"
  by (rule entries_origin [OF assms])

lemma world_id_only_verified_witness:
  "\<exists>es. selectEntries \<lparr>sl_country = ''US'', sl_slot_ids = [''a''], sl_priority = []\<rparr>
     (fst (decodeIdentities (NewDefaultRegistry \<lparr>LiveRampClient = None, UID2Client = None, EUIDClient = None\<rparr>)
         [\<lparr>user_token = ''0x0a'', uid_type = ''world_id_nullifier'', attestation_of = None\<rparr>]) @
       verifiedIdentityEntries (\<lambda>_. replicate 32 CHR ''d'') [\<lparr>vi_nullifier = ''0x0a'', vi_relying_party = ''rp'', vi_claims = []\<rparr>]) = Inr es \<and>
     map e_type es = [10] \<and> list_all (\<lambda>e. e_type e = 10 \<longrightarrow> WorldID_Token (\<lambda>_. replicate 32 CHR ''d'') ''rp'' ''0x0a'' = Inr (e_token e)) es"
proof -
  let ?s = "\<lparr>sl_country = ''US'', sl_slot_ids = [''a''], sl_priority = []\<rparr>"
  let ?R = "\<lparr>LiveRampClient = None, UID2Client = None, EUIDClient = None\<rparr>"
  let ?ids = "[\<lparr>user_token = ''0x0a'', uid_type = ''world_id_nullifier'', attestation_of = None\<rparr>]"
  let ?vi = "[\<lparr>vi_nullifier = ''0x0a'', vi_relying_party = ''rp'', vi_claims = []\<rparr>]"
  let ?t = "replicate 16 CHR ''d'' @ replicate 31 CHR 0x00 @ [CHR 0x0A]"
  have "WorldID_Token (\<lambda>_. replicate 32 CHR ''d'') ''rp'' ''0x0a'' = Inr ?t"
    by (simp add: WorldID_Token_def nullifier_ten worldIDRelyingPartyDigestBytes_def)
  then have "verifiedIdentityEntries (\<lambda>_. replicate 32 CHR ''d'') ?vi = [\<lparr>d_uid_type = ''world_id_nullifier'', d_bytes = ?t\<rparr>]"
    by (simp add: verifiedIdentityEntries_def)
  moreover have "fst (decodeIdentities (NewDefaultRegistry ?R) ?ids) = [\<lparr>d_uid_type = ''world_id_nullifier'', d_bytes = []\<rparr>]"
    by (simp add: decodeIdentities_def decode_one_def NewDefaultRegistry_def formatOnlyDecoders_def uidToTmpxTypeID_def)
  ultimately have run: "selectEntries ?s (fst (decodeIdentities (NewDefaultRegistry ?R) ?ids) @
      verifiedIdentityEntries (\<lambda>_. replicate 32 CHR ''d'') ?vi) = Inr [\<lparr>e_type = 10, e_token = ?t\<rparr>]"
    by (simp add: selectEntries_def candidates_def wireBudget_def TmpxMaxWireBytes_def TmpxWireSize_def EncodedLen_def
      TmpxMaxKidLen_def TmpxHeaderBytes_def TmpxHPKEOverheadBytes_def type_id_def uidToTmpxTypeID_def)
  show ?thesis
    using world_id_only_verified [OF run] by (intro exI [of _ "[\<lparr>e_type = 10, e_token = ?t\<rparr>]"] conjI run) simp_all
qed

end
