(* ===== verification/Identity_Handler.thy ===== *)
theory Identity_Handler
  imports Identity_Service Tmpx_Sealer TMP_Validate
begin

text \<open>
  The HTTP handler of the identity agent (\<^verbatim>\<open>src/targeting/identityagent/handler.go\<close>): it rejects bad
  requests, decodes the identities once, runs the pipeline and answers with the eligible packages and, when some package
  is eligible, the chunks of a sealed token. The evaluation is an argument; reading and parsing the body is an outcome.
\<close>

section \<open>The handler\<close>

datatype request_body = BodyTooLarge | BodyNotJSON | Body identity_request

record identity_handler =
  ih_canonicalizer :: "registry option"
  ih_tmpx :: "(sealer \<times> registry) option"
  ih_response_ttl :: int
  ih_majors :: "int list"
  ih_versions :: "string list"
  ih_require_consent :: bool

text \<open>What happens around one request: whether its deadline had passed after the evaluation, what sealing finds, and whether
  the answer could be written.\<close>

record handler_env =
  he_deadline :: bool
  he_suite :: suite
  he_sha256 :: "string \<Rightarrow> string"
  he_ctx_err :: "string option"
  he_recipient :: "tmpx_recipient option"
  he_unix :: int
  he_nonce :: "string option"
  he_ephemeral :: "string option"
  he_written :: bool

record error_response =
  er_request_id :: string
  er_code :: string
  er_message :: string

datatype reply = ErrorReply nat error_response | MatchReply provider_identity_response

definition minServeWindowSec :: int where "minServeWindowSec = 1"
definition maxServeWindowSec :: int where "maxServeWindowSec = 300"

definition serveWindowSeconds :: "int \<Rightarrow> int" where
  "serveWindowSeconds ttl =
     (let seconds = ttl sdiv 1000000000 in
      if seconds > maxServeWindowSec then maxServeWindowSec
      else if seconds < minServeWindowSec then minServeWindowSec
      else seconds)"

definition errorCodeForStatus :: "status \<Rightarrow> string" where
  "errorCodeForStatus st =
     (case st of StatusTimeout \<Rightarrow> ''timeout'' | StatusProviderUnavailable \<Rightarrow> ''provider_unavailable'' | StatusOK \<Rightarrow> ''internal_error'')"

definition status_label :: "status \<Rightarrow> string" where
  "status_label st =
     (case st of StatusTimeout \<Rightarrow> ''timeout'' | StatusProviderUnavailable \<Rightarrow> ''provider_unavailable'' | StatusOK \<Rightarrow> '''')"

definition writeError :: "string \<Rightarrow> nat \<Rightarrow> string \<Rightarrow> string \<Rightarrow> reply" where
  "writeError requestID st code message = ErrorReply st \<lparr>er_request_id = requestID, er_code = code, er_message = message\<rparr>"

definition buildServiceRequest :: "identity_handler \<Rightarrow> identity_request \<Rightarrow> identity_request \<times> decoded_identity list option" where
  "buildServiceRequest h req =
     (case ih_canonicalizer h of
        None \<Rightarrow> (req, None)
      | Some reg \<Rightarrow>
          let decoded = fst (decodeIdentities reg (im_identities req)) in
          (req\<lparr>im_identities := serviceIdentities (im_identities req) decoded\<rparr>, Some decoded))"

definition version_refused :: "identity_handler \<Rightarrow> identity_request \<Rightarrow> bool" where
  "version_refused h req \<longleftrightarrow>
     (if im_adcp_version req \<noteq> '''' \<and> ih_versions h \<noteq> [] then im_adcp_version req \<notin> set (ih_versions h)
      else im_adcp_major_version req \<noteq> 0 \<and> im_adcp_major_version req \<notin> set (ih_majors h))"

definition admit :: "identity_handler \<Rightarrow> request_body \<Rightarrow> (reply \<times> string) + identity_request" where
  "admit h body =
     (case body of
        BodyTooLarge \<Rightarrow> Inl (writeError '''' 413 ''invalid_request'' ''request body too large'', ''body_too_large'')
      | BodyNotJSON \<Rightarrow> Inl (writeError '''' 400 ''invalid_request'' ''request body is not valid JSON'', ''bad_request'')
      | Body req0 \<Rightarrow>
          let refuse = Inl (writeError (SafeRequestIDForEcho (im_request_id req0)) 400 ''invalid_request'' ''invalid request'', ''bad_request'') in
          case ValidateIdentityRequest req0 of
            Inl e \<Rightarrow> refuse
          | Inr req \<Rightarrow>
              if version_refused h req then refuse
              else if ih_require_consent h \<and> im_consent req = [] then refuse
              else Inr req)"

text \<open>Sealing happens only for a non-empty answer; a failure or an empty token leaves the answer without chunks.\<close>

definition seal_chunks ::
  "identity_handler \<Rightarrow> handler_env \<Rightarrow> identity_request \<Rightarrow> decoded_identity list option \<Rightarrow> verified_identity list \<Rightarrow> string list \<Rightarrow>
   tmpx_chunk list" where
  "seal_chunks h env req decoded verified eligible =
     (case ih_tmpx h of
        None \<Rightarrow> []
      | Some (s, decoders) \<Rightarrow>
          if eligible = [] then []
          else
            let seal = (case decoded of None \<Rightarrow> fst (decodeIdentities decoders (im_identities req)) | Some d \<Rightarrow> d) @
                  verifiedIdentityEntries (he_sha256 env) verified in
            case SealDecoded (he_suite env) s (he_ctx_err env) (he_recipient env) seal (he_unix env) (he_nonce env) (he_ephemeral env) of
              Inl e \<Rightarrow> []
            | Inr token \<Rightarrow> if token \<noteq> '''' then ChunkEntries s token else [])"

definition ServeHTTP ::
  "identity_handler \<Rightarrow> (identity_request \<Rightarrow> decode_summary \<Rightarrow> identity_result) \<Rightarrow> handler_env \<Rightarrow> request_body \<Rightarrow> reply \<times> string" where
  "ServeHTTP h evaluate env body =
     (case admit h body of
        Inl refused \<Rightarrow> refused
      | Inr req \<Rightarrow>
          let (serviceReq, decoded) = buildServiceRequest h req;
              result = evaluate serviceReq (case decoded of
                  None \<Rightarrow> \<lparr>WireCount = 0, SuccessCount = 0\<rparr>
                | Some d \<Rightarrow> \<lparr>WireCount = length (im_identities req), SuccessCount = decodedSuccessCount d\<rparr>);
              terminal = (if he_deadline env then StatusTimeout else res_status result) in
          if terminal \<noteq> StatusOK
          then (writeError (SafeRequestIDForEcho (im_request_id req)) 200 (errorCodeForStatus terminal) (errorCodeForStatus terminal),
                status_label terminal)
          else
            let eligible = map fst (filter snd (eligibility result)) in
            (MatchReply \<lparr>pi_adcp_version = '''', pi_adcp_major_version = 0, pi_type = TypeIdentityMatchResponse,
                 pi_request_id = res_request_id result, pi_eligible_package_ids = eligible,
                 pi_serve_window_sec = serveWindowSeconds (ih_response_ttl h),
                 pi_tmpx_chunks = seal_chunks h env req decoded (res_verified result) eligible\<rparr>,
             if he_written env then ''ok'' else ''write_error''))"

section \<open>Refusals\<close>

lemma serveWindow_bounds: "1 \<le> serveWindowSeconds ttl \<and> serveWindowSeconds ttl \<le> 300"
  by (simp add: serveWindowSeconds_def Let_def minServeWindowSec_def maxServeWindowSec_def)

lemma echo_safe:
  "SafeRequestIDForEcho x = '''' \<or> validateEchoID ''request_id'' (SafeRequestIDForEcho x) = None"
  "SafeRequestIDForEcho x \<in> {'''', x}"
  by (auto simp: SafeRequestIDForEcho_def)

lemma admit_accepts:
  "admit h body = Inr req \<longleftrightarrow>
   (\<exists>req0. body = Body req0 \<and> ValidateIdentityRequest req0 = Inr req \<and> \<not> version_refused h req \<and>
     (ih_require_consent h \<longrightarrow> im_consent req \<noteq> []))"
  by (auto simp: admit_def Let_def split: request_body.splits sum.splits if_splits)

definition safe_refusal :: "request_body \<Rightarrow> reply \<Rightarrow> bool" where
  "safe_refusal body r \<longleftrightarrow> (\<exists>st e. r = ErrorReply st e \<and> er_code e = ''invalid_request'' \<and>
     (er_request_id e = '''' \<or> validateEchoID ''request_id'' (er_request_id e) = None) \<and>
     (case body of BodyTooLarge \<Rightarrow> st = 413 \<and> er_request_id e = '''' | BodyNotJSON \<Rightarrow> st = 400 \<and> er_request_id e = ''''
      | Body req0 \<Rightarrow> st = 400 \<and> er_request_id e \<in> {'''', im_request_id req0}))"

lemma admit_refuses:
  assumes "admit h body = Inl (r, label)"
  shows "safe_refusal body r"
proof (cases body)
  case (Body req0)
  have "r = writeError (SafeRequestIDForEcho (im_request_id req0)) 400 ''invalid_request'' ''invalid request''"
    using assms by (simp add: Body admit_def Let_def split: sum.splits if_splits)
  then show ?thesis using echo_safe [of "im_request_id req0"] by (simp add: safe_refusal_def writeError_def Body)
qed (use assms in \<open>auto simp: admit_def safe_refusal_def writeError_def\<close>)

lemma validated_fields:
  "ValidateIdentityRequest req0 = Inr req \<Longrightarrow> identity_request_error req = None \<and> im_request_id req = im_request_id req0"
  by (auto simp: ValidateIdentityRequest_def normalize_country_def Let_def split: option.splits if_splits)



section \<open>Eligibility, from the wire to the stores\<close>

text \<open>A match comes from an evaluation of the service request.\<close>

lemma match_parts:
  assumes "fst (ServeHTTP h evaluate env body) = MatchReply resp"
  obtains req serviceReq decoded result where "admit h body = Inr req" "buildServiceRequest h req = (serviceReq, decoded)"
    "result = evaluate serviceReq (case decoded of None \<Rightarrow> \<lparr>WireCount = 0, SuccessCount = 0\<rparr>
       | Some d \<Rightarrow> \<lparr>WireCount = length (im_identities req), SuccessCount = decodedSuccessCount d\<rparr>)"
    "res_status result = StatusOK" "pi_eligible_package_ids resp = map fst (filter snd (eligibility result))"
    "pi_request_id resp = res_request_id result"
    "pi_tmpx_chunks resp = seal_chunks h env req decoded (res_verified result) (pi_eligible_package_ids resp)"
proof (cases "admit h body")
  case (Inr req)
  obtain serviceReq decoded where b: "buildServiceRequest h req = (serviceReq, decoded)" by fastforce
  show ?thesis
    by (rule that [OF Inr b refl])
      (use assms in \<open>auto simp: ServeHTTP_def Inr b writeError_def Let_def split: if_splits\<close>)
qed (use assms in \<open>auto simp: ServeHTTP_def admit_def writeError_def Let_def split: request_body.splits sum.splits if_splits\<close>)

lemma service_tokens:
  assumes "decode_one reg i = Inr bin" "i \<in> set ids"
  shows "Canonical bin \<in> set (map user_token (serviceIdentities ids (fst (decodeIdentities reg ids))))"
proof -
  have "\<lparr>d_uid_type = uid_type i, d_bytes = bin\<rparr> \<in> set (fst (decodeIdentities reg ids))"
    using assms by (force simp: decodeIdentities_def)
  moreover have "bin \<noteq> []" using decode_one_wellformed [OF assms(1)] by simp
  ultimately show ?thesis by (force simp: serviceIdentities_def audienceEligibleIdentities_def)
qed

lemma success_count:
  "decodedSuccessCount (fst (decodeIdentities reg ids)) = length (filter (\<lambda>i. \<not> isl (decode_one reg i)) ids)"
  by (induction ids) (auto simp: decodedSuccessCount_def decodeIdentities_def split: sum.splits dest: decode_one_wellformed)

text \<open>The identities that decode, in canonical form.\<close>

definition canonical_tokens :: "registry \<Rightarrow> identity_token list \<Rightarrow> string list" where
  "canonical_tokens reg ids = concat (map (\<lambda>i. case decode_one reg i of Inl _ \<Rightarrow> [] | Inr b \<Rightarrow> [Canonical b]) ids)"

lemma concat_nth_if:
  "concat (map (\<lambda>k. if P (xs ! k) then [xs ! k] else []) [0..<length xs]) = filter P xs"
proof -
  have "map (\<lambda>k. if P (xs ! k) then [xs ! k] else []) [0..<length xs] = map (\<lambda>x. if P x then [x] else []) xs"
    by (rule nth_equalityI) simp_all
  moreover have "concat (map (\<lambda>x. if P x then [x] else []) xs) = filter P xs" by (induction xs) simp_all
  ultimately show ?thesis by simp
qed

lemma service_token_set:
  "set (map user_token (serviceIdentities ids (fst (decodeIdentities reg ids)))) =
     set (canonical_tokens reg ids) \<union> user_token ` {i \<in> set ids. isl (decode_one reg i) \<and> attestation_of i \<noteq> None}"
proof -
  let ?ds = "fst (decodeIdentities reg ids)"
  have len: "length ?ds = length ids" by (simp add: decodeIdentities_def)
  have bytes: "d_bytes (?ds ! k) \<noteq> [] \<longleftrightarrow> \<not> isl (decode_one reg (ids ! k))" if "k < length ids" for k
    using that by (auto simp: decodeIdentities_def split: sum.splits dest: decode_one_wellformed)
  have kept: "map (\<lambda>k. let i = ids ! k in
         if attestation_of i = None then []
         else if k < length ?ds \<and> d_bytes (?ds ! k) \<noteq> [] then []
         else [\<lparr>user_token = user_token i, uid_type = uid_type i, attestation_of = attestation_of i\<rparr>]) [0..<length ids] =
      map (\<lambda>k. if isl (decode_one reg (ids ! k)) \<and> attestation_of (ids ! k) \<noteq> None then [ids ! k] else []) [0..<length ids]"
    by (rule map_cong) (auto simp: Let_def len bytes)
  note raw = concat_nth_if [of "\<lambda>i. isl (decode_one reg i) \<and> attestation_of i \<noteq> None" ids]
  have "map user_token (audienceEligibleIdentities ?ds) = canonical_tokens reg ids"
    by (induction ids) (auto simp: audienceEligibleIdentities_def decodeIdentities_def canonical_tokens_def
        split: sum.split dest: decode_one_wellformed)
  then have canon: "user_token ` set (audienceEligibleIdentities ?ds) = set (canonical_tokens reg ids)"
    by (metis set_map)
  show ?thesis unfolding serviceIdentities_def set_append map_append image_Un set_map kept raw canon set_filter ..
qed

lemma capped_mono: "set is \<subseteq> set js \<Longrightarrow> is_capped Hash t st is seller p \<Longrightarrow> is_capped Hash t st js seller p"
  by (auto simp: is_capped_def list_ex_iff)

lemma decodable_lengths:
  assumes "\<not> undecodable strict [] \<lparr>WireCount = length ids, SuccessCount = length (filter P ids)\<rparr>" "ids \<noteq> []"
  shows "(\<exists>i \<in> set ids. P i) \<and> (strict \<longrightarrow> list_all P ids)"
proof -
  have "length (filter P ids) \<noteq> 0" "strict \<longrightarrow> \<not> length (filter P ids) < length ids"
    using assms by (simp_all add: undecodable_def)
  moreover have "list_all P ids" if "\<not> length (filter P ids) < length ids"
    using that length_filter_less [of _ ids P] by (auto simp: list_all_iff)
  ultimately show ?thesis by (auto simp: filter_empty_conv)
qed

text \<open>C16: with canonicalisation on, a package that the handler answers as eligible is registered for the seller and was
  requested; when a verified identity stands for the user, the package is not capped for it; otherwise some identity of the request decoded (in strict mode all of them) and
  the package is capped for none of the decoded ones in canonical form; its rule holds of the tokens of the service request,
  which are exactly the canonical forms of the identities that decoded and the tokens, as they came in, of those that did not
  decode but carry an attestation; and what it demands of a verified human or an age is met.\<close>

theorem handler_eligible_sound:
  assumes coh: "coherent snap" and caps: "truthful (healthy_caps t st) (is_fcap s)"
    and members: "\<forall>store. is_engine_audience s = Some store \<longrightarrow> truthful (store_members Hash ast) store"
    and eval: "evaluate = EvaluateWithDecode Hash canon parse_time Open now snap s sched"
    and canonicalizer: "ih_canonicalizer h = Some reg"
    and reply: "fst (ServeHTTP h evaluate env body) = MatchReply resp" "p \<in> set (pi_eligible_package_ids resp)"
  shows "\<exists>req rule. admit h body = Inr req \<and>
    (let serviceReq = req\<lparr>im_identities := serviceIdentities (im_identities req) (fst (decodeIdentities reg (im_identities req)))\<rparr>;
         verified = fst (runVerifiedIdentityStage parse_time Open now (is_vid s) serviceReq);
         seller = canonicalizeSellerAgentURL canon (im_seller_agent_url req) in
     config_Lookup canon snap seller p = Some rule \<and> (im_package_ids req = [] \<or> p \<in> set (im_package_ids req)) \<and>
     (if verified \<noteq> [] then \<not> is_capped Hash t st (map CapKey verified) seller p else
       (\<exists>i \<in> set (im_identities req). \<not> isl (decode_one reg i)) \<and>
       (is_strict s \<longrightarrow> list_all (\<lambda>i. \<not> isl (decode_one reg i)) (im_identities req)) \<and>
       \<not> is_capped Hash t st (canonical_tokens reg (im_identities req)) seller p) \<and>
     rule_holds rule (member_of Hash ast serviceReq) \<and>
     set (map user_token (im_identities serviceReq)) = set (canonical_tokens reg (im_identities req)) \<union>
       user_token ` {i \<in> set (im_identities req). isl (decode_one reg i) \<and> attestation_of i \<noteq> None} \<and>
     \<not> rejects_verified (package_requirement (is_vid s) (im_country req) [p \<mapsto> identity_config rule] p) verified)"
proof -
  obtain req serviceReq decoded result where m: "admit h body = Inr req" "buildServiceRequest h req = (serviceReq, decoded)"
    "result = evaluate serviceReq (case decoded of None \<Rightarrow> \<lparr>WireCount = 0, SuccessCount = 0\<rparr>
       | Some d \<Rightarrow> \<lparr>WireCount = length (im_identities req), SuccessCount = decodedSuccessCount d\<rparr>)"
    "pi_eligible_package_ids resp = map fst (filter snd (eligibility result))"
    by (rule match_parts [OF reply(1)])
  define ids where "ids = im_identities req"
  define sreq where "sreq = req\<lparr>im_identities := serviceIdentities ids (fst (decodeIdentities reg ids))\<rparr>"
  define verified where "verified = fst (runVerifiedIdentityStage parse_time Open now (is_vid s) sreq)"
  define seller where "seller = canonicalizeSellerAgentURL canon (im_seller_agent_url req)"
  have b: "serviceReq = sreq" "decoded = Some (fst (decodeIdentities reg ids))"
    using m(2) canonicalizer by (simp_all add: buildServiceRequest_def Let_def sreq_def ids_def)
  have fields: "im_seller_agent_url sreq = im_seller_agent_url req" "im_package_ids sreq = im_package_ids req" "im_country sreq = im_country req"
    by (simp_all add: sreq_def)
  let ?sum = "\<lparr>WireCount = length ids, SuccessCount = length (filter (\<lambda>i. \<not> isl (decode_one reg i)) ids)\<rparr>"
  have res: "result = EvaluateWithDecode Hash canon parse_time Open now snap s sched sreq ?sum"
    using m(3) by (simp add: eval b success_count ids_def)
  have e: "(p, True) \<in> set (eligibility result)" using reply(2) m(4) by auto
  obtain rule where rule: "config_Lookup canon snap seller p = Some rule" "im_package_ids req = [] \<or> p \<in> set (im_package_ids req)"
    "\<not> is_capped Hash t st (cap_identities sreq verified) seller p" "\<not> undecodable (is_strict s) verified ?sum"
    "rule_holds rule (member_of Hash ast sreq)"
    "\<not> rejects_verified (package_requirement (is_vid s) (im_country req) [p \<mapsto> identity_config rule] p) verified"
    using eligible_gates [OF coh caps members res e verified_def, of seller] unfolding fields seller_def by blast
  have ne: "ids \<noteq> []"
    using m(1) validated_fields by (auto simp: admit_accepts ids_def identity_request_error_def fails_def dest!: validated_fields)
  have open_case: "(\<exists>i \<in> set ids. \<not> isl (decode_one reg i)) \<and> (is_strict s \<longrightarrow> list_all (\<lambda>i. \<not> isl (decode_one reg i)) ids) \<and>
      \<not> is_capped Hash t st (canonical_tokens reg ids) seller p" if "verified = []"
  proof -
    have "set (canonical_tokens reg ids) \<subseteq> set (cap_identities sreq verified)"
      using service_tokens [of reg _ _ ids] that
      by (auto simp: canonical_tokens_def cap_identities_def sreq_def split: sum.splits)
    then have "\<not> is_capped Hash t st (canonical_tokens reg ids) seller p" using capped_mono rule(3) by blast
    then show ?thesis using decodable_lengths [OF rule(4) [unfolded that] ne] by blast
  qed
  have "\<not> is_capped Hash t st (map CapKey verified) seller p" if "verified \<noteq> []"
    using rule(3) that by (simp add: cap_identities_def)
  moreover have "set (map user_token (im_identities sreq)) = set (canonical_tokens reg ids) \<union>
      user_token ` {i \<in> set ids. isl (decode_one reg i) \<and> attestation_of i \<noteq> None}"
    unfolding sreq_def using service_token_set [of ids reg] by (simp del: set_map)
  ultimately show ?thesis
    by (intro exI [of _ req] exI [of _ rule], unfold Let_def)
      (use m(1) rule open_case in \<open>auto simp: ids_def sreq_def verified_def seller_def\<close>)
qed

definition demo_handler :: identity_handler where
  "demo_handler = \<lparr>ih_canonicalizer = Some formatOnlyDecoders,
     ih_tmpx = Some (\<lparr>sl_country = ''US'', sl_slot_ids = [''a''], sl_priority = []\<rparr>, formatOnlyDecoders),
     ih_response_ttl = 60000000000, ih_majors = [3], ih_versions = [], ih_require_consent = True\<rparr>"

definition demo_body_request :: identity_request where
  "demo_body_request = TMP_Validate.sample_identity_request\<lparr>im_country := ''DE'', im_seller_agent_url := ''s'', im_package_ids := [''p'', ''q''],
     im_identities := [\<lparr>user_token = replicate 32 CHR ''a'', uid_type = ''id5'', attestation_of = None\<rparr>]\<rparr>"

definition demo_env :: handler_env where
  "demo_env = \<lparr>he_deadline = False, he_suite = plain_suite, he_sha256 = (\<lambda>_. replicate 32 CHR ''d''), he_ctx_err = None,
     he_recipient = Some \<lparr>r_kid = ''k1'', r_public = Some (pub plain_suite ''sk'')\<rparr>, he_unix = 5, he_nonce = Some ''12345678'',
     he_ephemeral = Some ''e'', he_written = True\<rparr>"

definition demo_evaluate :: "identity_request \<Rightarrow> decode_summary \<Rightarrow> identity_result" where
  "demo_evaluate = EvaluateWithDecode id (\<lambda>_. None) (\<lambda>_. None) (\<lambda>_ _. None) 0 demo_snapshot demo_service (FcapFirst False)"

lemma demo_admit: "admit demo_handler (Body demo_body_request) = Inr demo_body_request"
  by code_simp

lemma demo_decoded:
  "decodeIdentities formatOnlyDecoders (im_identities demo_body_request) =
     ([\<lparr>d_uid_type = ''id5'', d_bytes = replicate 32 CHR ''a''\<rparr>], [])"
  by (simp add: demo_body_request_def decodeIdentities_def decode_one_def formatOnlyDecoders_def uidToTmpxTypeID_def
    ID5_Decode_def TmpxTokenSize_def)

lemma demo_service_request:
  "buildServiceRequest demo_handler demo_body_request =
     (demo_body_request\<lparr>im_identities := [\<lparr>user_token = Canonical (replicate 32 CHR ''a''), uid_type = ''id5'', attestation_of = None\<rparr>]\<rparr>,
      Some [\<lparr>d_uid_type = ''id5'', d_bytes = replicate 32 CHR ''a''\<rparr>])"
proof -
  have h: "ih_canonicalizer demo_handler = Some formatOnlyDecoders" by (simp add: demo_handler_def)
  have "serviceIdentities (im_identities demo_body_request) [\<lparr>d_uid_type = ''id5'', d_bytes = replicate 32 CHR ''a''\<rparr>] =
      [\<lparr>user_token = Canonical (replicate 32 CHR ''a''), uid_type = ''id5'', attestation_of = None\<rparr>]"
    by (simp add: serviceIdentities_def audienceEligibleIdentities_def demo_body_request_def)
  then show ?thesis by (simp add: buildServiceRequest_def h demo_decoded)
qed

lemma demo_result:
  assumes "sreq = fst (buildServiceRequest demo_handler demo_body_request)"
  shows "eligibility (demo_evaluate sreq \<lparr>WireCount = 1, SuccessCount = 1\<rparr>) = [(''p'', False), (''q'', True)] \<and>
    res_status (demo_evaluate sreq \<lparr>WireCount = 1, SuccessCount = 1\<rparr>) = StatusOK \<and>
    res_verified (demo_evaluate sreq \<lparr>WireCount = 1, SuccessCount = 1\<rparr>) = []"
proof -
  have s: "im_package_ids sreq = [''p'', ''q'']" "im_seller_agent_url sreq = ''s''" "im_country sreq = ''DE''"
    "im_identities sreq = [\<lparr>user_token = Canonical (replicate 32 CHR ''a''), uid_type = ''id5'', attestation_of = None\<rparr>]"
    unfolding assms demo_service_request by (simp_all add: demo_body_request_def)
  have res: "ResolveRequest (\<lambda>_. None) demo_snapshot ''s'' (im_package_ids sreq) = ([''p'', ''q''], demo_configs)"
    using demo_facts(2) by (simp add: s demo_request_def)
  have seller: "''s'' = canonicalizeSellerAgentURL (\<lambda>_. None) (im_seller_agent_url sreq)"
    by (simp add: s canonicalizeSellerAgentURL_def)
  have vid: "runVerifiedIdentityStage (\<lambda>_. None) (\<lambda>_ _. None) 0 (is_vid demo_service) sreq = ([], OutcomePass)"
    by (simp add: demo_service_def stage_without_verifier)
  have caps: "cap_identities sreq [] = [Canonical (replicate 32 CHR ''a'')]" by (simp add: cap_identities_def s)
  have und: "\<not> undecodable (is_strict demo_service) [] \<lparr>WireCount = 1, SuccessCount = 1\<rparr>" by code_simp
  have gate: "computeVerifiedIdentityGate (is_vid demo_service) sreq demo_configs [''p'', ''q''] [] = []"
  proof -
    have "computeVerifiedIdentityGate (is_vid demo_service) sreq demo_configs [''p'', ''q''] [] =
        computeVerifiedIdentityGate (is_vid demo_service) demo_request demo_configs [''p'', ''q''] []"
      by (simp add: computeVerifiedIdentityGate_def package_requirement_def demo_service_def)
    then show ?thesis by (simp add: demo_gates)
  qed
  have targets: "target_of demo_configs ''q'' = None" "target_of demo_configs ''p'' = Some \<lparr>all_of = [''a''], some_of = [], none_of_segs = []\<rparr>"
    by code_simp+
  have "eligibility (demo_evaluate sreq \<lparr>WireCount = 1, SuccessCount = 1\<rparr>) = map (\<lambda>p. (p, \<not> is_capped id 0 (\<lambda>_. Map.empty) (cap_identities sreq []) ''s'' p \<and>
      rule_holds (target_of demo_configs p) (member_of id (\<lambda>_. Map.empty) sreq) \<and>
      p \<notin> set (computeVerifiedIdentityGate (is_vid demo_service) sreq demo_configs [''p'', ''q''] []) \<and>
      \<not> (FcapFirst False = AudienceFirst True \<and> packagesWithSegmentRules demo_configs [''p'', ''q''] \<noteq> [] \<and>
        list_all (\<lambda>p. \<not> rule_holds (target_of demo_configs p) (member_of id (\<lambda>_. Map.empty) sreq))
          (packagesWithSegmentRules demo_configs [''p'', ''q''])))) [''p'', ''q''] \<and>
    res_status (demo_evaluate sreq \<lparr>WireCount = 1, SuccessCount = 1\<rparr>) = (if OutcomePass = OutcomeError then StatusProviderUnavailable else StatusOK)"
    by (rule evaluate_schedules [OF demo_facts(6-8) res _ seller vid und _ _ _ refl refl])
      (simp_all add: caps demo_evaluate_def MaxInt_def Suc_le_eq div_greater_zero_iff)
  moreover have "res_verified (demo_evaluate sreq \<lparr>WireCount = 1, SuccessCount = 1\<rparr>) = []"
    by (simp add: demo_evaluate_def EvaluateWithDecode_def seller [symmetric] res vid Let_def)
  ultimately show ?thesis
    by (simp add: caps gate targets is_capped_def IsCapped_def field_exists_def rule_holds_def member_of_def is_member_def s)
qed

lemma demo_reply:
  "\<exists>resp. fst (ServeHTTP demo_handler demo_evaluate demo_env (Body demo_body_request)) = MatchReply resp \<and>
     pi_eligible_package_ids resp = [''q'']"
proof -
  have "length (im_identities demo_body_request) = 1" by (simp add: demo_body_request_def)
  then show ?thesis
    using demo_result [OF refl]
    by (simp add: ServeHTTP_def demo_admit demo_service_request demo_env_def decodedSuccessCount_def Let_def)
qed

lemma handler_eligible_sound_witness:
  "\<exists>rule. config_Lookup (\<lambda>_. None) demo_snapshot ''s'' ''q'' = Some rule \<and>
     \<not> is_capped id 0 (\<lambda>_. Map.empty) (canonical_tokens formatOnlyDecoders (im_identities demo_body_request)) ''s'' ''q''"
proof -
  obtain resp where resp: "fst (ServeHTTP demo_handler demo_evaluate demo_env (Body demo_body_request)) = MatchReply resp"
    "''q'' \<in> set (pi_eligible_package_ids resp)"
    using demo_reply by force
  have coh: "coherent demo_snapshot" unfolding demo_snapshot_def by (rule buildSnapshot_coherent) code_simp
  have c: "truthful (healthy_caps 0 (\<lambda>_. Map.empty)) (is_fcap demo_service)"
    "\<forall>store. is_engine_audience demo_service = Some store \<longrightarrow> truthful (store_members id (\<lambda>_. Map.empty)) store"
    "ih_canonicalizer demo_handler = Some formatOnlyDecoders"
    by (simp_all add: demo_facts truthful_refl demo_handler_def)
  have vid: "fst (runVerifiedIdentityStage (\<lambda>_. None) (\<lambda>_ _. None) 0 (is_vid demo_service) req) = []" for req
    by (simp add: demo_service_def stage_without_verifier)
  have seller: "canonicalizeSellerAgentURL (\<lambda>_. None) (im_seller_agent_url demo_body_request) = ''s''"
    by (simp add: canonicalizeSellerAgentURL_def demo_body_request_def)
  show ?thesis
    using handler_eligible_sound [OF coh c(1,2) demo_evaluate_def c(3) resp]
    by (auto simp: demo_admit vid seller Let_def)
qed

section \<open>The sealed answer\<close>

text \<open>C17: chunks are sent only beside an eligible package. They fit their slots, and with at most two slots they reassemble to a
  token that the recipient's key opens to a plaintext of selected identities: those that the request asserted and a decoder
  accepted, and, as World ID entries, only identities that the verified-identity stage accepted.\<close>

theorem handler_tmpx_sound:
  assumes "ih_canonicalizer h = Some (NewDefaultRegistry opts)" "ih_tmpx h = Some (s, decoders)"
    and "sound_suite (he_suite env)" "he_recipient env = Some r" "r_public r = Some (pub (he_suite env) skR)"
    and "he_nonce env = Some n" "length n = 8" "length (sl_slot_ids s) \<le> TmpxMaxSlots"
    and reply: "fst (ServeHTTP h evaluate env body) = MatchReply resp" "pi_tmpx_chunks resp \<noteq> []"
  shows "pi_eligible_package_ids resp \<noteq> [] \<and> list_all (\<lambda>ch. length (chunk_value ch) \<le> 255) (pi_tmpx_chunks resp) \<and>
    map slot_id (pi_tmpx_chunks resp) = take (length (pi_tmpx_chunks resp)) (sl_slot_ids s) \<and>
    (\<exists>req es pt verified. admit h body = Inr req \<and>
       EncodeTmpxPlaintext (sl_country s) es (he_unix env) (Some n) = Inr pt \<and>
       OpenTmpx (he_suite env) (Some skR) '''' (concat (map chunk_value (pi_tmpx_chunks resp))) = Inr (pt, r_kid r) \<and>
       verified = res_verified (evaluate (fst (buildServiceRequest h req)) \<lparr>WireCount = length (im_identities req),
         SuccessCount = decodedSuccessCount (fst (decodeIdentities (NewDefaultRegistry opts) (im_identities req)))\<rparr>) \<and>
       list_all (\<lambda>e. (e_type e = 10 \<longrightarrow> (\<exists>vi \<in> set verified.
             WorldID_Token (he_sha256 env) (vi_relying_party vi) (vi_nullifier vi) = Inr (e_token e))) \<and>
           (e_type e \<noteq> 10 \<longrightarrow> (\<exists>i \<in> set (im_identities req).
             decode_one (NewDefaultRegistry opts) i = Inr (e_token e) \<and> type_id (uid_type i) = e_type e))) es)"
proof -
  obtain req serviceReq decoded result where m: "admit h body = Inr req" "buildServiceRequest h req = (serviceReq, decoded)"
    "result = evaluate serviceReq (case decoded of None \<Rightarrow> \<lparr>WireCount = 0, SuccessCount = 0\<rparr>
       | Some d \<Rightarrow> \<lparr>WireCount = length (im_identities req), SuccessCount = decodedSuccessCount d\<rparr>)"
    "pi_tmpx_chunks resp = seal_chunks h env req decoded (res_verified result) (pi_eligible_package_ids resp)"
    by (rule match_parts [OF reply(1)])
  let ?ds = "fst (decodeIdentities (NewDefaultRegistry opts) (im_identities req))"
  let ?seal = "?ds @ verifiedIdentityEntries (he_sha256 env) (res_verified result)"
  have d: "decoded = Some ?ds" using m(2) assms(1) by (simp add: buildServiceRequest_def Let_def)
  have ne: "pi_eligible_package_ids resp \<noteq> []"
    using reply(2) m(4) assms(2) by (auto simp: seal_chunks_def)
  from reply(2) m(4) obtain token where token:
    "SealDecoded (he_suite env) s (he_ctx_err env) (Some r) ?seal (he_unix env) (Some n) (he_ephemeral env) = Inr token"
    "token \<noteq> ''''" "pi_tmpx_chunks resp = ChunkEntries s token"
    using assms(2,4,6) ne by (auto simp: seal_chunks_def d Let_def split: sum.splits if_splits)
  have slots: "sl_slot_ids s \<noteq> []" using reply(2) token(3) by (auto simp: ChunkEntries_def)
  have ctx: "he_ctx_err env = None" using token(1) by (auto simp: SealDecoded_def split: option.splits)
  note carrier = carrier_opens [OF assms(3,5,7) token(1) [unfolded ctx] token(2) slots]
  from carrier assms(8) obtain es pt where open_pt: "selectEntries s ?seal = Inr es"
    "EncodeTmpxPlaintext (sl_country s) es (he_unix env) (Some n) = Inr pt"
    "OpenTmpx (he_suite env) (Some skR) '''' (concat (map chunk_value (ChunkEntries s token))) = Inr (pt, r_kid r)"
    by blast
  have res: "res_verified result = res_verified (evaluate (fst (buildServiceRequest h req)) \<lparr>WireCount = length (im_identities req),
         SuccessCount = decodedSuccessCount ?ds\<rparr>)"
    using m(2,3) by (simp add: d)
  have fits: "list_all (\<lambda>ch. length (chunk_value ch) \<le> 255) (ChunkEntries s token)" using carrier by (auto simp: list_all_iff)
  show ?thesis
    unfolding token(3) using ne fits carrier m(1) open_pt entries_origin [OF open_pt(1), unfolded res] by blast
qed

lemma demo_sealed:
  "\<exists>token. SealDecoded plain_suite \<lparr>sl_country = ''US'', sl_slot_ids = [''a''], sl_priority = []\<rparr> None
     (Some \<lparr>r_kid = ''k1'', r_public = Some (pub plain_suite ''sk'')\<rparr>) [\<lparr>d_uid_type = ''id5'', d_bytes = replicate 32 CHR ''a''\<rparr>]
     5 (Some ''12345678'') (Some ''e'') = Inr token \<and> token \<noteq> ''''"
proof -
  have sel: "selectEntries \<lparr>sl_country = ''US'', sl_slot_ids = [''a''], sl_priority = []\<rparr> [\<lparr>d_uid_type = ''id5'', d_bytes = replicate 32 CHR ''a''\<rparr>] =
      Inr [\<lparr>e_type = 3, e_token = replicate 32 CHR ''a''\<rparr>]"
    by (simp add: selectEntries_def candidates_def wireBudget_def TmpxMaxWireBytes_def TmpxWireSize_def EncodedLen_def
      TmpxMaxKidLen_def TmpxHeaderBytes_def TmpxHPKEOverheadBytes_def type_id_def uidToTmpxTypeID_def)
  obtain pt where pt: "EncodeTmpxPlaintext ''US'' [\<lparr>e_type = 3, e_token = replicate 32 CHR ''a''\<rparr>] 5 (Some ''12345678'') = Inr pt"
    by (simp add: EncodeTmpxPlaintext_def TmpxTokenSize_def char_class_defs)
  obtain token where "SealTmpx plain_suite \<lparr>r_kid = ''k1'', r_public = Some (pub plain_suite ''sk'')\<rparr> '''' pt (Some ''e'') = Inr token" "token \<noteq> ''''"
    by (simp add: SealTmpx_def hpkeSealBase_def plain_suite_def dhkemExtractAndExpand_def key_schedule_def labeledExtract_def
      labeledExpand_def Let_def validateTmpxKid_def TmpxMaxKidLen_def isTmpxKidChar_def char_class_defs)
  then show ?thesis using sel pt by (simp add: SealDecoded_def)
qed

lemma handler_tmpx_sound_witness:
  "\<exists>resp es pt. fst (ServeHTTP demo_handler demo_evaluate demo_env (Body demo_body_request)) = MatchReply resp \<and>
     EncodeTmpxPlaintext ''US'' es 5 (Some ''12345678'') = Inr pt \<and>
     OpenTmpx plain_suite (Some ''sk'') '''' (concat (map chunk_value (pi_tmpx_chunks resp))) = Inr (pt, ''k1'')"
proof -
  let ?R = "\<lparr>LiveRampClient = None, UID2Client = None, EUIDClient = None\<rparr>"
  let ?s = "\<lparr>sl_country = ''US'', sl_slot_ids = [''a''], sl_priority = []\<rparr>"
  let ?r = "\<lparr>r_kid = ''k1'', r_public = Some (pub plain_suite ''sk'')\<rparr>"
  have c: "ih_canonicalizer demo_handler = Some (NewDefaultRegistry ?R)"
    by (simp add: demo_handler_def NewDefaultRegistry_def)
  have t: "ih_tmpx demo_handler = Some (?s, formatOnlyDecoders)" by (simp add: demo_handler_def)
  have env: "he_suite demo_env = plain_suite" "he_recipient demo_env = Some ?r" "he_nonce demo_env = Some ''12345678''"
    "he_unix demo_env = 5" "he_deadline demo_env = False"
    by (simp_all add: demo_env_def)
  obtain token where token: "SealDecoded plain_suite ?s None (Some ?r) [\<lparr>d_uid_type = ''id5'', d_bytes = replicate 32 CHR ''a''\<rparr>]
     5 (Some ''12345678'') (Some ''e'') = Inr token" "token \<noteq> ''''"
    using demo_sealed by blast
  have one: "length (im_identities demo_body_request) = 1" by (simp add: demo_body_request_def)
  obtain resp where resp: "fst (ServeHTTP demo_handler demo_evaluate demo_env (Body demo_body_request)) = MatchReply resp"
    "pi_eligible_package_ids resp = [''q'']"
    using demo_reply by blast
  have "pi_tmpx_chunks resp = seal_chunks demo_handler demo_env demo_body_request
      (Some [\<lparr>d_uid_type = ''id5'', d_bytes = replicate 32 CHR ''a''\<rparr>]) [] [''q'']"
  proof (rule match_parts [OF resp(1)], goal_cases)
    case (1 req sreq decoded result)
    then have "req = demo_body_request" by (simp add: demo_admit)
    with 1 have d: "decoded = Some [\<lparr>d_uid_type = ''id5'', d_bytes = replicate 32 CHR ''a''\<rparr>]"
      "sreq = fst (buildServiceRequest demo_handler demo_body_request)"
      by (simp_all add: demo_service_request)
    then have "res_verified result = []" using 1(3) demo_result [OF d(2)] one \<open>req = demo_body_request\<close>
      by (simp add: decodedSuccessCount_def)
    then show ?case using 1 d resp(2) \<open>req = demo_body_request\<close> by simp
  qed
  then have chunks: "pi_tmpx_chunks resp = ChunkEntries ?s token"
    using token by (simp add: seal_chunks_def t env verifiedIdentityEntries_def demo_env_def)
  have opened: "concat (map chunk_value (ChunkEntries ?s token)) = token"
    using carrier_opens [OF plain_suite_sound _ _ token, of "''sk''"] by simp
  have "pi_tmpx_chunks resp \<noteq> []" using opened token(2) chunks by auto
  from handler_tmpx_sound [OF c t _ env(2) _ env(3) _ _ resp(1) this, of "''sk''"] show ?thesis
    using resp(1) by (auto simp: env plain_suite_sound TmpxMaxSlots_def)
qed

end
