(* ===== verification/UID2_Client.thy ===== *)
theory UID2_Client
  imports Identity_Decoders
begin

text \<open>
  The client of a UID2 or EUID operator (\<^verbatim>\<open>src/uid2client\<close>): the key set and its refresh over an authenticated
  envelope, and the decryption of advertising tokens of versions 2, 3 and 4. AES in CBC and GCM mode is a record of functions;
  random bytes, the clock, the operator's reply and the JSON decoder are arguments.
\<close>

section \<open>Base64 as Go decodes it\<close>

definition std_value :: "char \<Rightarrow> nat option" where
  "std_value c = (if c = CHR ''+'' then Some 62 else if c = CHR ''/'' then Some 63
     else if c = CHR ''-'' \<or> c = CHR ''_'' then None else b64_value c)"

text \<open>Unlike the strict decoder of the tokens, the bits beyond the last byte are ignored.\<close>

fun lax_values :: "nat list \<Rightarrow> string option" where
  "lax_values [] = Some []"
| "lax_values [x] = None"
| "lax_values [x, y] = Some [char_of (x * 4 + y div 16)]"
| "lax_values [x, y, z] = Some [char_of (x * 4 + y div 16), char_of (y mod 16 * 16 + z div 4)]"
| "lax_values (x # y # z # w # vs) =
     map_option (\<lambda>s. [char_of (x * 4 + y div 16), char_of (y mod 16 * 16 + z div 4), char_of (z mod 4 * 64 + w)] @ s) (lax_values vs)"

definition decode_digits :: "(char \<Rightarrow> nat option) \<Rightarrow> string \<Rightarrow> string option" where
  "decode_digits val s =
     (if list_ex (\<lambda>c. val c = None) s then None else lax_values (map (\<lambda>c. the (val c)) s))"

definition drop_newlines :: "string \<Rightarrow> string" where
  "drop_newlines s = filter (\<lambda>c. c \<noteq> CHR 0x0A \<and> c \<noteq> CHR 0x0D) s"

definition decode_padded :: "(char \<Rightarrow> nat option) \<Rightarrow> string \<Rightarrow> string option" where
  "decode_padded val s =
     (let t = drop_newlines s; pads = length (takeWhile (\<lambda>c. c = CHR ''='') (rev t)) in
      if length t mod 4 \<noteq> 0 \<or> pads > 2 then None else decode_digits val (take (length t - pads) t))"

definition decodeBase64Std :: "string \<Rightarrow> string option" where
  "decodeBase64Std s =
     (case decode_padded std_value s of Some b \<Rightarrow> Some b | None \<Rightarrow> decode_digits std_value (drop_newlines s))"

definition decodeBase64URL :: "string \<Rightarrow> string option" where
  "decodeBase64URL s =
     (case decode_padded b64_value s of Some b \<Rightarrow> Some b | None \<Rightarrow> decode_digits b64_value (drop_newlines s))"

section \<open>Keys\<close>

text \<open>Instants are nanoseconds since the Unix epoch; the zero instant is the year 1.\<close>

definition unix_seconds :: "int \<Rightarrow> time" where "unix_seconds s = s * 1000000000"
definition unix_millis :: "int \<Rightarrow> time" where "unix_millis ms = ms * 1000000"
definition zero_instant :: time where "zero_instant = unix_seconds (- 62135596800)"

datatype identity_scope = ScopeUID2 | ScopeEUID

record uid2_key =
  uk_id :: int
  uk_keyset :: int
  uk_site :: int
  uk_created :: time
  uk_activates :: time
  uk_expires :: time
  uk_secret :: string

record key_store =
  ks_keys :: "int \<rightharpoonup> uid2_key"
  ks_scope :: identity_scope
  ks_latest :: time

definition isValid :: "key_store \<Rightarrow> time \<Rightarrow> bool" where
  "isValid st now \<longleftrightarrow> now < ks_latest st"

record key_json =
  kj_id :: int
  kj_keyset :: int
  kj_site :: int
  kj_created :: int
  kj_activates :: int
  kj_expires :: int
  kj_secret :: string

record refresh_body =
  rb_scope :: string
  rb_keys :: "key_json list"

fun add_keys :: "key_json list \<Rightarrow> key_store \<Rightarrow> key_store result" where
  "add_keys [] st = Inr st"
| "add_keys (k # ks) st =
     (case decode_padded std_value (kj_secret k) of
        None \<Rightarrow> Inl ''decode key secret''
      | Some secret \<Rightarrow>
          if length secret \<noteq> 32 then Inl ''key secret length''
          else
            let entry = \<lparr>uk_id = kj_id k, uk_keyset = kj_keyset k, uk_site = kj_site k, uk_created = unix_seconds (kj_created k),
                  uk_activates = unix_seconds (kj_activates k), uk_expires = unix_seconds (kj_expires k), uk_secret = secret\<rparr> in
            add_keys ks (st\<lparr>ks_keys := (ks_keys st)(kj_id k \<mapsto> entry), ks_latest := max (ks_latest st) (uk_expires entry)\<rparr>))"

text \<open>The body is \<^const>\<open>None\<close> when it is not valid JSON.\<close>

definition parseKeyRefreshResponse :: "refresh_body option \<Rightarrow> identity_scope \<Rightarrow> key_store result" where
  "parseKeyRefreshResponse body wantScope =
     (case body of
        None \<Rightarrow> Inl ''unmarshal''
      | Some b \<Rightarrow>
          (case (if rb_scope b = '''' then Some wantScope else if rb_scope b = ''UID2'' then Some ScopeUID2
                 else if rb_scope b = ''EUID'' then Some ScopeEUID else None) of
             None \<Rightarrow> Inl ''unknown identity_scope''
           | Some sc \<Rightarrow>
               if rb_keys b = [] then Inl ''no keys''
               else add_keys (rb_keys b) \<lparr>ks_keys = Map.empty, ks_scope = sc, ks_latest = zero_instant\<rparr>))"

section \<open>Tokens\<close>

text \<open>The block ciphers: raw CBC decryption of whole blocks, and GCM.\<close>

record aes =
  cbc_blocks :: "string \<Rightarrow> string \<Rightarrow> string \<Rightarrow> string"
  gcm_seal :: "string \<Rightarrow> string \<Rightarrow> string \<Rightarrow> string"
  gcm_open :: "string \<Rightarrow> string \<Rightarrow> string \<Rightarrow> string option"

definition gcmIVLen :: nat where "gcmIVLen = 12"
definition gcmTagLen :: nat where "gcmTagLen = 16"
definition cbcIVLen :: nat where "cbcIVLen = 16"

definition aes_key :: "string \<Rightarrow> bool" where
  "aes_key secret \<longleftrightarrow> length secret \<in> {16, 24, 32}"

definition gcmSeal :: "aes \<Rightarrow> string \<Rightarrow> string \<Rightarrow> string \<Rightarrow> string option" where
  "gcmSeal c secret iv plaintext = (if \<not> aes_key secret \<or> length iv \<noteq> gcmIVLen then None else Some (gcm_seal c secret iv plaintext))"

definition gcmOpen :: "aes \<Rightarrow> string \<Rightarrow> string \<Rightarrow> string \<Rightarrow> string option" where
  "gcmOpen c secret iv ct = (if \<not> aes_key secret \<or> length iv \<noteq> gcmIVLen then None else gcm_open c secret iv ct)"

definition cbcDecrypt :: "aes \<Rightarrow> string \<Rightarrow> string \<Rightarrow> string \<Rightarrow> string option" where
  "cbcDecrypt c secret iv ct =
     (if length iv \<noteq> cbcIVLen \<or> \<not> aes_key secret \<or> ct = [] \<or> length ct mod 16 \<noteq> 0 then None
      else
        let out = cbc_blocks c secret iv ct in
        if out = [] then None
        else
          let padLen = of_char (last out) in
          if padLen = 0 \<or> padLen > 16 \<or> padLen > length out then None
          else if list_ex (\<lambda>b. of_char b \<noteq> padLen) (drop (length out - padLen) out) then None
          else Some (take (length out - padLen) out))"

definition sub :: "nat \<Rightarrow> nat \<Rightarrow> string \<Rightarrow> string" where
  "sub a b s = take (b - a) (drop a s)"

definition int64_be :: "string \<Rightarrow> int" where
  "int64_be s = (let n = int (be_value s) in if n < 2 ^ 63 then n else n - 2 ^ 64)"

definition decryptV2 :: "aes \<Rightarrow> key_store \<Rightarrow> string \<Rightarrow> time \<Rightarrow> uid2_error + string" where
  "decryptV2 c st encrypted now =
     (if length encrypted < 1 + 4 + cbcIVLen then Inl ErrInvalidToken
      else case ks_keys st (int (be_value (sub 1 5 encrypted))) of
          None \<Rightarrow> Inl ErrKeyNotFound
        | Some masterKey \<Rightarrow>
            (case cbcDecrypt c (uk_secret masterKey) (sub 5 (5 + cbcIVLen) encrypted) (drop (5 + cbcIVLen) encrypted) of
               None \<Rightarrow> Inl ErrInvalidToken
             | Some masterPlain \<Rightarrow>
                 if length masterPlain < 8 + 4 + cbcIVLen then Inl ErrInvalidToken
                 else if \<not> now < unix_millis (int64_be (sub 0 8 masterPlain)) then Inl ErrTokenExpired
                 else (case ks_keys st (int (be_value (sub 8 12 masterPlain))) of
                     None \<Rightarrow> Inl ErrKeyNotFound
                   | Some siteKey \<Rightarrow>
                       (case cbcDecrypt c (uk_secret siteKey) (sub 12 (12 + cbcIVLen) masterPlain) (drop (12 + cbcIVLen) masterPlain) of
                          None \<Rightarrow> Inl ErrInvalidToken
                        | Some idPlain \<Rightarrow>
                            if length idPlain < 4 + 4 then Inl ErrInvalidToken
                            else let uidLen = be_value (sub 4 8 idPlain) in
                              if 8 + uidLen > length idPlain then Inl ErrInvalidToken
                              else (case decode_padded std_value (sub 8 (8 + uidLen) idPlain) of
                                  None \<Rightarrow> Inl ErrInvalidToken
                                | Some raw \<Rightarrow> Inr raw)))))"

definition scope_bit :: "char \<Rightarrow> identity_scope" where
  "scope_bit p = (if of_char p div 16 mod 2 = (0 :: nat) then ScopeUID2 else ScopeEUID)"

definition decryptV3OrV4 :: "aes \<Rightarrow> key_store \<Rightarrow> identity_scope \<Rightarrow> string \<Rightarrow> time \<Rightarrow> uid2_error + string" where
  "decryptV3OrV4 c st wantScope encrypted now =
     (if length encrypted < 6 + gcmIVLen + gcmTagLen then Inl ErrInvalidToken
      else if scope_bit (encrypted ! 0) \<noteq> wantScope then Inl ErrScopeMismatch
      else case ks_keys st (int (be_value (sub 2 6 encrypted))) of
          None \<Rightarrow> Inl ErrKeyNotFound
        | Some masterKey \<Rightarrow>
            (case gcmOpen c (uk_secret masterKey) (sub 6 (6 + gcmIVLen) encrypted) (drop (6 + gcmIVLen) encrypted) of
               None \<Rightarrow> Inl ErrInvalidToken
             | Some masterPlain \<Rightarrow>
                 if length masterPlain < 8 + 8 + 4 + 1 + 4 + 4 + 4 + gcmIVLen + gcmTagLen then Inl ErrInvalidToken
                 else if \<not> now < unix_millis (int64_be (sub 0 8 masterPlain)) then Inl ErrTokenExpired
                 else (case ks_keys st (int (be_value (sub 29 33 masterPlain))) of
                     None \<Rightarrow> Inl ErrKeyNotFound
                   | Some siteKey \<Rightarrow>
                       (case gcmOpen c (uk_secret siteKey) (sub 33 (33 + gcmIVLen) masterPlain) (drop (33 + gcmIVLen) masterPlain) of
                          None \<Rightarrow> Inl ErrInvalidToken
                        | Some sitePlain \<Rightarrow>
                            if length sitePlain < 36 then Inl ErrInvalidToken else Inr (drop 36 sitePlain)))))"

definition decryptToken :: "aes \<Rightarrow> key_store option \<Rightarrow> identity_scope \<Rightarrow> string \<Rightarrow> time \<Rightarrow> uid2_error + string" where
  "decryptToken c store wantScope token now =
     (case store of
        None \<Rightarrow> Inl ErrNotInitialized
      | Some st \<Rightarrow>
          if length token < 4 then Inl ErrInvalidToken
          else if \<not> isValid st now then Inl ErrKeysStale
          else
            let header = take 4 token in
            case (if list_ex (\<lambda>c. c = CHR ''-'' \<or> c = CHR ''_'') header then decodeBase64URL header else decodeBase64Std header) of
              None \<Rightarrow> Inl ErrInvalidToken
            | Some hb \<Rightarrow>
                if length hb < 2 then Inl ErrInvalidToken
                else if of_char (hb ! 0) = (2 :: nat)
                then (case decodeBase64Std token of None \<Rightarrow> Inl ErrInvalidToken | Some raw \<Rightarrow> decryptV2 c st raw now)
                else if of_char (hb ! 1) = (112 :: nat)
                then (case decodeBase64Std token of None \<Rightarrow> Inl ErrInvalidToken | Some raw \<Rightarrow> decryptV3OrV4 c st wantScope raw now)
                else if of_char (hb ! 1) = (128 :: nat)
                then (case (case decodeBase64URL token of Some raw \<Rightarrow> Some raw | None \<Rightarrow> decodeBase64Std token) of
                    None \<Rightarrow> Inl ErrInvalidToken
                  | Some raw \<Rightarrow> decryptV3OrV4 c st wantScope raw now)
                else Inl ErrVersionUnsupported)"

section \<open>Refreshing the keys\<close>

definition be64 :: "int \<Rightarrow> string" where
  "be64 x = (let n = nat (x mod 2 ^ 64) in map (\<lambda>i. char_of (n div 256 ^ (7 - i) mod 256)) [0..<8])"

text \<open>Nonce and initialisation vector are what the random source yields.\<close>

definition sealRequestEnvelope :: "aes \<Rightarrow> string \<Rightarrow> string \<Rightarrow> time \<Rightarrow> string option \<Rightarrow> string option \<Rightarrow> (string \<times> string) result" where
  "sealRequestEnvelope c secret pl now nonce iv =
     (case nonce of
        None \<Rightarrow> Inl ''generate nonce''
      | Some nonce \<Rightarrow>
          (case iv of
             None \<Rightarrow> Inl ''generate iv''
           | Some iv \<Rightarrow>
               (case gcmSeal c secret iv (be64 (now div 1000000) @ nonce @ pl) of
                  None \<Rightarrow> Inl ''seal''
                | Some sealed \<Rightarrow> Inr ([CHR 0x01] @ iv @ sealed, nonce))))"

definition openResponseEnvelope :: "aes \<Rightarrow> string \<Rightarrow> string \<Rightarrow> string \<Rightarrow> string result" where
  "openResponseEnvelope c secret base64Body wantNonce =
     (case (case decode_padded std_value base64Body of Some b \<Rightarrow> Some b | None \<Rightarrow> decode_padded b64_value base64Body) of
        None \<Rightarrow> Inl ''decode response body''
      | Some body \<Rightarrow>
          if length body < gcmIVLen + gcmTagLen then Inl ''response envelope too short''
          else (case gcmOpen c secret (take gcmIVLen body) (drop gcmIVLen body) of
              None \<Rightarrow> Inl ''decrypt response envelope''
            | Some plaintext \<Rightarrow>
                if length plaintext < 16 then Inl ''decrypted response too short''
                else if sub 8 16 plaintext \<noteq> wantNonce then Inl ''response nonce mismatch''
                else Inr (drop 16 plaintext)))"

record uid2_client_state =
  uc_secret :: string
  uc_scope :: identity_scope
  uc_store :: "key_store option"

datatype refresh_reply = RequestFailed | BodyUnreadable | Replied int string

text \<open>One refresh: \<open>post\<close> is the operator's reply to the envelope that is sent, \<open>parse\<close> the JSON decoder.\<close>

definition refreshOnce ::
  "aes \<Rightarrow> (string \<Rightarrow> refresh_body option) \<Rightarrow> uid2_client_state \<Rightarrow> time \<Rightarrow> string option \<Rightarrow> string option \<Rightarrow> (string \<Rightarrow> refresh_reply) \<Rightarrow>
   string option \<times> uid2_client_state" where
  "refreshOnce c parse cl now nonce iv post =
     (case sealRequestEnvelope c (uc_secret cl) [] now nonce iv of
        Inl e \<Rightarrow> (Some e, cl)
      | Inr (envelope, n) \<Rightarrow>
          (case post envelope of
             RequestFailed \<Rightarrow> (Some ''post'', cl)
           | BodyUnreadable \<Rightarrow> (Some ''read refresh response'', cl)
           | Replied st body \<Rightarrow>
               if st \<noteq> 200 then (Some ''refresh returned HTTP status'', cl)
               else (case openResponseEnvelope c (uc_secret cl) body n of
                   Inl e \<Rightarrow> (Some e, cl)
                 | Inr plain \<Rightarrow>
                     (case parseKeyRefreshResponse (parse plain) (uc_scope cl) of
                        Inl e \<Rightarrow> (Some e, cl)
                      | Inr store \<Rightarrow>
                          if ks_scope store \<noteq> uc_scope cl then (Some ''operator advertises another scope'', cl)
                          else (None, cl\<lparr>uc_store := Some store\<rparr>)))))"

definition Decrypt :: "aes \<Rightarrow> uid2_client_state \<Rightarrow> string option \<Rightarrow> string \<Rightarrow> time \<Rightarrow> uid2_error + string" where
  "Decrypt c cl ctx_err token now =
     (case ctx_err of Some e \<Rightarrow> Inl (UID2Failed e) | None \<Rightarrow> decryptToken c (uc_store cl) (uc_scope cl) token now)"

definition reasonFor :: "uid2_error option \<Rightarrow> string" where
  "reasonFor err =
     (case err of
        None \<Rightarrow> ''success'' | Some ErrInvalidToken \<Rightarrow> ''invalid'' | Some ErrTokenExpired \<Rightarrow> ''expired''
      | Some ErrKeyNotFound \<Rightarrow> ''key_not_found'' | Some ErrScopeMismatch \<Rightarrow> ''scope_mismatch'' | Some ErrKeysStale \<Rightarrow> ''keys_stale''
      | Some ErrVersionUnsupported \<Rightarrow> ''version_unsupported'' | Some ErrNotInitialized \<Rightarrow> ''not_initialized''
      | Some (UID2Failed e) \<Rightarrow> (if e = ''context canceled'' \<or> e = ''context deadline exceeded'' then ''cancelled'' else ''unknown''))"

record uid2_config =
  cf_operator_url :: string
  cf_api_key :: string
  cf_client_secret :: string
  cf_scope :: "identity_scope option"

text \<open>The operator, the key and the secret after defaults. An unknown scope matters only without an operator URL.\<close>

definition trim_right_slash :: "string \<Rightarrow> string" where
  "trim_right_slash s = rev (dropWhile (\<lambda>c. c = CHR ''/'') (rev s))"

definition resolve :: "uid2_config \<Rightarrow> (string \<times> string \<times> string) result" where
  "resolve cfg =
     (if TrimSpace (cf_api_key cfg) = '''' then Inl ''APIKey is required''
      else if TrimSpace (cf_client_secret cfg) = '''' then Inl ''ClientSecret is required''
      else case decode_padded std_value (cf_client_secret cfg) of
          None \<Rightarrow> Inl ''ClientSecret must be base64-encoded''
        | Some secret \<Rightarrow>
            if length secret \<noteq> 32 then Inl ''ClientSecret must decode to 32 bytes''
            else
              let url = trim_right_slash (cf_operator_url cfg) in
              case (if url \<noteq> '''' then Some url
                    else map_option (\<lambda>sc. case sc of ScopeUID2 \<Rightarrow> ''https://prod.uidapi.com'' | ScopeEUID \<Rightarrow> ''https://prod.euid.eu'') (cf_scope cfg)) of
                None \<Rightarrow> Inl ''unknown IdentityScope''
              | Some url \<Rightarrow>
                  if \<not> has_prefix url ''http://'' \<and> \<not> has_prefix url ''https://'' then Inl ''OperatorURL must include a scheme''
                  else Inr (url, TrimSpace (cf_api_key cfg), secret))"

section \<open>Base64 round trips\<close>

lemma lax_of_strict: "b64_values vs = Some s \<Longrightarrow> lax_values vs = Some s"
  by (induction vs arbitrary: s rule: b64_values.induct) (auto split: if_splits)

lemma decode_digits_encode: "decode_digits b64_value (b64_encode s) = Some s"
proof -
  have v: "b64_value c \<noteq> None" if "c \<in> set (b64_encode s)" for c
    using that by (auto simp: b64_encode_sextets dest!: sextets_less b64_digit_value)
  have "map (\<lambda>c. the (b64_value c)) (b64_encode s) = sextets s"
    by (auto simp: b64_encode_sextets comp_def intro!: map_idI dest!: sextets_less b64_digit_value)
  moreover have "lax_values (sextets s) = Some s" by (rule lax_of_strict [OF sextets_values])
  moreover have "\<not> list_ex (\<lambda>c. b64_value c = None) (b64_encode s)" using v by (auto simp: list_ex_iff)
  ultimately show ?thesis unfolding decode_digits_def by (simp only: if_False)
qed

lemma encode_chars:
  assumes "c \<in> set (b64_encode s)"
  shows "c \<noteq> CHR 0x0A \<and> c \<noteq> CHR 0x0D \<and> c \<noteq> CHR ''=''"
proof -
  from assms obtain v where "c = b64_digit v" "v < 64" by (auto simp: b64_encode_sextets dest: sextets_less)
  then have "b64_value c = Some v" "c \<noteq> CHR 0x0A \<and> c \<noteq> CHR 0x0D" using b64_digit_value b64_digit_plain by auto
  moreover have "b64_value (CHR ''='') = None" by (simp add: b64_value_def char_class_defs)
  ultimately show ?thesis by auto
qed

lemma encode_value: "c \<in> set (b64_encode s) \<Longrightarrow> b64_value c \<noteq> None"
  by (auto simp: b64_encode_sextets dest!: sextets_less b64_digit_value)

lemma no_pads: "CHR ''='' \<notin> set t \<Longrightarrow> takeWhile (\<lambda>c. c = CHR ''='') (rev t) = []"
  by (cases t rule: rev_cases) auto

lemma drop_newlines_encode: "drop_newlines (b64_encode s) = b64_encode s"
  using encode_chars by (auto simp: drop_newlines_def filter_id_conv)

lemma decodeBase64URL_encode: "decodeBase64URL (b64_encode s) = Some s"
proof -
  have "takeWhile (\<lambda>c. c = CHR ''='') (rev (b64_encode s)) = []"
    by (rule no_pads) (use encode_chars [of "CHR ''=''" s] in blast)
  then have "decode_padded b64_value (b64_encode s) = None \<or> decode_padded b64_value (b64_encode s) = Some s"
    by (simp add: decode_padded_def drop_newlines_encode Let_def decode_digits_encode)
  then show ?thesis by (auto simp: decodeBase64URL_def drop_newlines_encode decode_digits_encode)
qed

text \<open>The first four digits hold the first three bytes, also for the reader of the standard alphabet when they are alphanumeric.\<close>

lemma take4_encode: "take 4 (b64_encode (a # b # c # s)) = b64_encode [a, b, c]"
  by (simp add: Let_def)

lemma header_decodes:
  assumes "header = b64_encode [a, b, c]"
  shows "(if list_ex (\<lambda>c. c = CHR ''-'' \<or> c = CHR ''_'') header then decodeBase64URL header else decodeBase64Std header) = Some [a, b, c]"
proof (cases "list_ex (\<lambda>c. c = CHR ''-'' \<or> c = CHR ''_'') header")
  case False
  have alike: "std_value x = b64_value x" if "x \<in> set header" for x
  proof -
    have "x \<noteq> CHR ''-''" "x \<noteq> CHR ''_''" using False that by (auto simp: list_ex_iff)
    moreover have "b64_value x \<noteq> None" using encode_value that assms by blast
    moreover have "b64_value (CHR ''+'') = None" "b64_value (CHR ''/'') = None" by (simp_all add: b64_value_def char_class_defs)
    ultimately show ?thesis by (auto simp: std_value_def)
  qed
  have digits: "decode_digits std_value header = Some [a, b, c]"
  proof -
    have "list_ex (\<lambda>c. std_value c = None) header = list_ex (\<lambda>c. b64_value c = None) header"
      using alike by (auto simp: list_ex_iff)
    moreover have "map (\<lambda>c. the (std_value c)) header = map (\<lambda>c. the (b64_value c)) header" using alike by simp
    ultimately have "decode_digits std_value header = decode_digits b64_value header" unfolding decode_digits_def by (simp only:)
    then show ?thesis by (simp only: assms decode_digits_encode)
  qed
  have "takeWhile (\<lambda>c. c = CHR ''='') (rev header) = []"
    by (rule no_pads) (use encode_chars [of "CHR ''=''" "[a, b, c]"] assms in blast)
  then have "decode_padded std_value header = None \<or> decode_padded std_value header = Some [a, b, c]"
    using digits drop_newlines_encode [of "[a, b, c]"] by (simp add: decode_padded_def Let_def assms)
  then have "decodeBase64Std header = Some [a, b, c]"
    using digits drop_newlines_encode [of "[a, b, c]"] by (auto simp: decodeBase64Std_def assms)
  then show ?thesis using False by simp
next
  case True
  then show ?thesis using decodeBase64URL_encode [of "[a, b, c]"] unfolding assms by (simp only: if_True)
qed

section \<open>Big-endian numbers\<close>

lemma be_value_snoc: "be_value (xs @ [c]) = 256 * be_value xs + of_char c"
  by (simp add: be_value_def)

lemma be_value_digits: "be_value (map (\<lambda>i. char_of (n div 256 ^ (k - 1 - i) mod 256)) [0..<k]) = n mod 256 ^ k"
proof (induction k arbitrary: n)
  case (Suc k)
  have "map (\<lambda>i. char_of (n div 256 ^ (Suc k - 1 - i) mod 256) :: char) [0..<k] =
      map (\<lambda>i. char_of (n div 256 div 256 ^ (k - 1 - i) mod 256)) [0..<k]"
  proof (rule map_cong [OF refl])
    fix i assume "i \<in> set [0..<k]"
    then have "Suc k - 1 - i = Suc (k - 1 - i)" by simp
    then have "n div 256 ^ (Suc k - 1 - i) = n div 256 div 256 ^ (k - 1 - i)" by (simp add: div_mult2_eq)
    then show "(char_of (n div 256 ^ (Suc k - 1 - i) mod 256) :: char) = char_of (n div 256 div 256 ^ (k - 1 - i) mod 256)"
      by (simp only:)
  qed
  note init = this
  have "be_value (map (\<lambda>i. char_of (n div 256 ^ (Suc k - 1 - i) mod 256)) [0..<Suc k]) = 256 * (n div 256 mod 256 ^ k) + n mod 256"
    unfolding upt_Suc_append [OF le0] map_append list.map init be_value_snoc Suc.IH by simp
  also have "\<dots> = n mod 256 ^ Suc k" by (simp add: mod_mult2_eq)
  finally show ?case .
qed (simp add: be_value_def)

lemma be_value_be64: "be_value (be64 x) = nat (x mod 2 ^ 64)"
proof -
  have "x mod 2 ^ 64 < 2 ^ 64" "0 \<le> x mod 2 ^ 64" by simp_all
  then have "nat (x mod 2 ^ 64) < 256 ^ 8" by (simp add: nat_less_iff)
  then have "nat (x mod 2 ^ 64) mod 256 ^ 8 = nat (x mod 2 ^ 64)" by (rule mod_less)
  moreover have "be64 x = map (\<lambda>i. char_of (nat (x mod 2 ^ 64) div 256 ^ (8 - 1 - i) mod 256)) [0..<8]" by (simp add: be64_def Let_def)
  ultimately show ?thesis by (simp only: be_value_digits)
qed

lemma length_be64 [simp]: "length (be64 x) = 8"
  by (simp add: be64_def Let_def)

lemma int64_be64: "- (2 ^ 63) \<le> x \<Longrightarrow> x < 2 ^ 63 \<Longrightarrow> int64_be (be64 x) = x"
proof -
  assume x: "- (2 ^ 63) \<le> x" "x < 2 ^ 63"
  show ?thesis
  proof (cases "0 \<le> x")
    case True
    then have "x mod 2 ^ 64 = x" using x by (intro mod_pos_pos_trivial) simp_all
    then show ?thesis using True x by (simp add: int64_be_def be_value_be64)
  next
    case False
    have "(x + 2 ^ 64) mod 2 ^ 64 = x + 2 ^ 64" using x False by (intro mod_pos_pos_trivial) simp_all
    then have "x mod 2 ^ 64 = x + 2 ^ 64" by simp
    then show ?thesis using False x by (simp add: int64_be_def be_value_be64)
  qed
qed

lemma be_value_be32: "0 \<le> x \<Longrightarrow> x < 2 ^ 32 \<Longrightarrow> int (be_value (be32 x)) = x"
proof -
  assume x: "0 \<le> x" "x < 2 ^ 32"
  have less: "nat x < 256 ^ 4" using x by (simp add: nat_less_iff)
  then have top: "nat x div 2 ^ 24 < 256" by simp
  have digits: "be32 x = map (\<lambda>i. char_of (nat x div 256 ^ (4 - 1 - i) mod 256)) [0..<4]"
    using x top by (simp add: be32_def Let_def upt_rec)
  have "nat x mod 256 ^ 4 = nat x" using less by (rule mod_less)
  then show ?thesis unfolding digits be_value_digits using x by simp
qed

section \<open>Tokens of an operator\<close>

text \<open>A token as an operator builds it (version 4, on the wire without padding), over any seal function.\<close>

record v4_fields =
  v4_prefix :: char
  v4_master_id :: int
  v4_site_id :: int
  v4_iv :: string
  v4_site_iv :: string
  v4_expiry :: int
  v4_middle :: string
  v4_site_fields :: string

definition v4_token :: "aes \<Rightarrow> string \<Rightarrow> string \<Rightarrow> v4_fields \<Rightarrow> string \<Rightarrow> string" where
  "v4_token c masterSecret siteSecret f raw =
     b64_encode ([v4_prefix f, char_of (128 :: nat)] @ be32 (v4_master_id f) @ v4_iv f @
       gcm_seal c masterSecret (v4_iv f)
         (be64 (v4_expiry f) @ v4_middle f @ be32 (v4_site_id f) @ v4_site_iv f @
          gcm_seal c siteSecret (v4_site_iv f) (v4_site_fields f @ raw)))"

definition v4_wellformed :: "v4_fields \<Rightarrow> bool" where
  "v4_wellformed f \<longleftrightarrow> of_char (v4_prefix f) \<noteq> (2 :: nat) \<and> 0 \<le> v4_master_id f \<and> v4_master_id f < 2 ^ 32 \<and>
     0 \<le> v4_site_id f \<and> v4_site_id f < 2 ^ 32 \<and> length (v4_iv f) = 12 \<and> length (v4_site_iv f) = 12 \<and>
     - (2 ^ 63) \<le> v4_expiry f \<and> v4_expiry f < 2 ^ 63 \<and> length (v4_middle f) = 21 \<and> length (v4_site_fields f) = 36"

definition sound_gcm :: "aes \<Rightarrow> bool" where
  "sound_gcm c \<longleftrightarrow> (\<forall>k iv m. gcm_open c k iv (gcm_seal c k iv m) = Some m \<and> length (gcm_seal c k iv m) = length m + 16)"

lemma sub_append: "length xs = a \<Longrightarrow> length ys = b - a \<Longrightarrow> sub a b (xs @ ys @ zs) = ys"
  by (simp add: sub_def)

lemma decrypt_v4_payload:
  assumes gcm: "sound_gcm c" and f: "v4_wellformed f"
    and keys: "ks_keys st (v4_master_id f) = Some mk" "ks_keys st (v4_site_id f) = Some sk"
    and secrets: "length (uk_secret mk) = 32" "length (uk_secret sk) = 32"
  shows "decryptV3OrV4 c st want ([v4_prefix f, v] @ be32 (v4_master_id f) @ v4_iv f @
       gcm_seal c (uk_secret mk) (v4_iv f)
         (be64 (v4_expiry f) @ v4_middle f @ be32 (v4_site_id f) @ v4_site_iv f @
          gcm_seal c (uk_secret sk) (v4_site_iv f) (v4_site_fields f @ raw))) now =
    (if scope_bit (v4_prefix f) \<noteq> want then Inl ErrScopeMismatch
     else if \<not> now < unix_millis (v4_expiry f) then Inl ErrTokenExpired else Inr raw)"
proof -
  let ?site = "gcm_seal c (uk_secret sk) (v4_site_iv f) (v4_site_fields f @ raw)"
  let ?plain = "be64 (v4_expiry f) @ v4_middle f @ be32 (v4_site_id f) @ v4_site_iv f @ ?site"
  let ?enc = "[v4_prefix f, v] @ be32 (v4_master_id f) @ v4_iv f @ gcm_seal c (uk_secret mk) (v4_iv f) ?plain"
  have len: "length (gcm_seal c k iv m) = length m + 16" and opens: "gcm_open c k iv (gcm_seal c k iv m) = Some m" for k iv m
    using gcm by (simp_all add: sound_gcm_def)
  note lens = f [unfolded v4_wellformed_def]
  have outer: "\<not> length ?enc < 6 + gcmIVLen + gcmTagLen" "?enc ! 0 = v4_prefix f"
    "sub 2 6 ?enc = be32 (v4_master_id f)" "sub 6 (6 + gcmIVLen) ?enc = v4_iv f"
    "drop (6 + gcmIVLen) ?enc = gcm_seal c (uk_secret mk) (v4_iv f) ?plain"
    using lens by (simp_all add: len gcmIVLen_def gcmTagLen_def sub_def)
  have inner: "\<not> length ?plain < 8 + 8 + 4 + 1 + 4 + 4 + 4 + gcmIVLen + gcmTagLen" "sub 0 8 ?plain = be64 (v4_expiry f)"
    "sub 29 33 ?plain = be32 (v4_site_id f)" "sub 33 (33 + gcmIVLen) ?plain = v4_site_iv f" "drop (33 + gcmIVLen) ?plain = ?site"
    using lens by (simp_all add: len gcmIVLen_def gcmTagLen_def sub_def)
  have ids: "int (be_value (be32 (v4_master_id f))) = v4_master_id f" "int (be_value (be32 (v4_site_id f))) = v4_site_id f"
    "int64_be (be64 (v4_expiry f)) = v4_expiry f"
    using lens by (simp_all add: be_value_be32 int64_be64)
  have opened: "gcmOpen c (uk_secret mk) (v4_iv f) (gcm_seal c (uk_secret mk) (v4_iv f) ?plain) = Some ?plain"
    "gcmOpen c (uk_secret sk) (v4_site_iv f) ?site = Some (v4_site_fields f @ raw)"
    using secrets lens by (simp_all add: gcmOpen_def aes_key_def opens gcmIVLen_def)
  show ?thesis
    unfolding decryptV3OrV4_def if_not_P [OF outer(1)] outer(2-5) ids keys option.case opened if_not_P [OF inner(1)] inner(2-5)
    using lens by simp
qed

text \<open>C27: a client with a store that is not stale, holding the master and the site key of a token of version 4 that
  its operator sealed: it yields the raw identity exactly while the token has not expired and its scope is the client's,
  and otherwise says which of the two failed; with a stale store nothing is opened. (Tokens of version 2 carry no
  scope and are not covered here.)\<close>

theorem v4_token_opens:
  assumes "sound_gcm c" "v4_wellformed f"
    and "ks_keys st (v4_master_id f) = Some mk" "ks_keys st (v4_site_id f) = Some sk"
    and "length (uk_secret mk) = 32" "length (uk_secret sk) = 32"
  shows "decryptToken c (Some st) want (v4_token c (uk_secret mk) (uk_secret sk) f raw) now =
    (if \<not> isValid st now then Inl ErrKeysStale
     else if scope_bit (v4_prefix f) \<noteq> want then Inl ErrScopeMismatch
     else if \<not> now < unix_millis (v4_expiry f) then Inl ErrTokenExpired
     else Inr raw)"
proof -
  obtain b1 b2 b3 b4 where id: "be32 (v4_master_id f) = [b1, b2, b3, b4]" unfolding be32_def Let_def by blast
  define rest where "rest = [b2, b3, b4] @ v4_iv f @ gcm_seal c (uk_secret mk) (v4_iv f)
         (be64 (v4_expiry f) @ v4_middle f @ be32 (v4_site_id f) @ v4_site_iv f @
          gcm_seal c (uk_secret sk) (v4_site_iv f) (v4_site_fields f @ raw))"
  let ?tok = "v4_token c (uk_secret mk) (uk_secret sk) f raw"
  let ?enc = "v4_prefix f # char_of (128 :: nat) # b1 # rest"
  have tok: "?tok = b64_encode ?enc" by (simp add: v4_token_def id rest_def)
  have four: "\<not> length ?tok < 4" unfolding tok by (simp add: Let_def)
  have header: "take 4 ?tok = b64_encode [v4_prefix f, char_of (128 :: nat), b1]" unfolding tok by (rule take4_encode)
  have url: "decodeBase64URL ?tok = Some ?enc" unfolding tok by (rule decodeBase64URL_encode)
  have prefix: "of_char (v4_prefix f) \<noteq> (2 :: nat)" using assms(2) by (simp add: v4_wellformed_def)
  have payload: "decryptV3OrV4 c st want ?enc now = (if scope_bit (v4_prefix f) \<noteq> want then Inl ErrScopeMismatch
     else if \<not> now < unix_millis (v4_expiry f) then Inl ErrTokenExpired else Inr raw)"
    using decrypt_v4_payload [OF assms, of want "char_of 128" raw now] by (simp add: id rest_def)
  show ?thesis
    using prefix four url payload header_decodes [OF header] by (simp add: decryptToken_def Let_def)
qed

definition plain_aes :: aes where
  "plain_aes = \<lparr>cbc_blocks = (\<lambda>k iv ct. ct), gcm_seal = (\<lambda>k iv m. m @ replicate 16 CHR ''t''),
     gcm_open = (\<lambda>k iv ct. Some (take (length ct - 16) ct))\<rparr>"

lemma plain_aes_sound: "sound_gcm plain_aes"
  by (simp add: sound_gcm_def plain_aes_def)

definition sample_store :: key_store where
  "sample_store = \<lparr>ks_keys = [7 \<mapsto> \<lparr>uk_id = 7, uk_keyset = 1, uk_site = 0, uk_created = 0, uk_activates = 0, uk_expires = 100,
      uk_secret = replicate 32 CHR ''k''\<rparr>], ks_scope = ScopeUID2, ks_latest = 100\<rparr>"

definition sample_fields :: v4_fields where
  "sample_fields = \<lparr>v4_prefix = CHR 0x03, v4_master_id = 7, v4_site_id = 7, v4_iv = replicate 12 CHR ''i'', v4_site_iv = replicate 12 CHR ''j'',
     v4_expiry = 1, v4_middle = replicate 21 CHR ''m'', v4_site_fields = replicate 36 CHR ''f''\<rparr>"

lemma v4_token_opens_witness:
  "decryptToken plain_aes (Some sample_store) ScopeUID2
     (v4_token plain_aes (replicate 32 CHR ''k'') (replicate 32 CHR ''k'') sample_fields ''raw id'') 50 = Inr ''raw id''"
proof -
  have w: "v4_wellformed sample_fields" by (simp add: v4_wellformed_def sample_fields_def)
  obtain mk where mk: "ks_keys sample_store (v4_master_id sample_fields) = Some mk" "ks_keys sample_store (v4_site_id sample_fields) = Some mk"
    "uk_secret mk = replicate 32 CHR ''k''"
    by (simp add: sample_store_def sample_fields_def)
  then have "length (uk_secret mk) = 32" by simp
  from v4_token_opens [OF plain_aes_sound w mk(1,2) this this, of ScopeUID2 "''raw id''" 50] show ?thesis
    by (simp add: mk(3) isValid_def sample_store_def sample_fields_def scope_bit_def unix_millis_def)
qed

section \<open>Refreshes\<close>

definition store_ok :: "key_store \<Rightarrow> bool" where
  "store_ok st \<longleftrightarrow> (\<forall>i k. ks_keys st i = Some k \<longrightarrow> uk_id k = i \<and> length (uk_secret k) = 32 \<and> uk_expires k \<le> ks_latest st)"

lemma add_keys_ok:
  "add_keys ks st = Inr st' \<Longrightarrow> store_ok st \<Longrightarrow>
   store_ok st' \<and> ks_scope st' = ks_scope st \<and> dom (ks_keys st') = dom (ks_keys st) \<union> kj_id ` set ks"
proof (induction ks st rule: add_keys.induct)
  case (2 k ks st)
  then obtain secret where s: "decode_padded std_value (kj_secret k) = Some secret" "length secret = 32"
    by (auto simp: Let_def split: option.splits if_splits)
  let ?entry = "\<lparr>uk_id = kj_id k, uk_keyset = kj_keyset k, uk_site = kj_site k, uk_created = unix_seconds (kj_created k),
     uk_activates = unix_seconds (kj_activates k), uk_expires = unix_seconds (kj_expires k), uk_secret = secret\<rparr>"
  let ?st = "st\<lparr>ks_keys := (ks_keys st)(kj_id k \<mapsto> ?entry), ks_latest := max (ks_latest st) (uk_expires ?entry)\<rparr>"
  have "store_ok ?st"
    using "2.prems"(2) s(2) by (auto simp: store_ok_def max.coboundedI1)
  moreover have rest: "add_keys ks ?st = Inr st'" using "2.prems"(1) s by (simp add: Let_def)
  have ih: "store_ok st' \<and> ks_scope st' = ks_scope ?st \<and> dom (ks_keys st') = dom (ks_keys ?st) \<union> kj_id ` set ks" if "store_ok ?st"
    by (rule "2.IH" [OF s(1)]) (use s(2) rest that in simp_all)
  ultimately show ?case by auto
qed simp

lemma parse_ok:
  assumes "parseKeyRefreshResponse body want = Inr st"
  shows "store_ok st \<and> (\<exists>b. body = Some b \<and> rb_keys b \<noteq> [] \<and> dom (ks_keys st) = kj_id ` set (rb_keys b))"
proof -
  from assms obtain b sc where b: "body = Some b" "rb_keys b \<noteq> []"
    "add_keys (rb_keys b) \<lparr>ks_keys = Map.empty, ks_scope = sc, ks_latest = zero_instant\<rparr> = Inr st"
    by (auto simp: parseKeyRefreshResponse_def split: option.splits if_splits)
  have "store_ok \<lparr>ks_keys = Map.empty, ks_scope = sc, ks_latest = zero_instant\<rparr>" by (simp add: store_ok_def)
  from add_keys_ok [OF b(3) this] b show ?thesis by auto
qed

text \<open>What a client relies on.\<close>

definition client_ok :: "uid2_client_state \<Rightarrow> bool" where
  "client_ok cl \<longleftrightarrow> (case uc_store cl of None \<Rightarrow> True | Some st \<Rightarrow> store_ok st \<and> ks_scope st = uc_scope cl \<and> dom (ks_keys st) \<noteq> {})"

lemma refresh_step:
  assumes "refreshOnce c parse cl now nonce iv post = (err, cl')"
  shows "(err \<noteq> None \<and> cl' = cl) \<or>
    (err = None \<and> (\<exists>n i sealed body st plain. nonce = Some n \<and> iv = Some i \<and>
       gcmSeal c (uc_secret cl) i (be64 (now div 1000000) @ n) = Some sealed \<and>
       post ([CHR 0x01] @ i @ sealed) = Replied 200 body \<and> openResponseEnvelope c (uc_secret cl) body n = Inr plain \<and>
       parseKeyRefreshResponse (parse plain) (uc_scope cl) = Inr st \<and> ks_scope st = uc_scope cl \<and>
       cl' = cl\<lparr>uc_store := Some st\<rparr>))"
  using assms
  by (auto simp: refreshOnce_def sealRequestEnvelope_def split: sum.splits option.splits refresh_reply.splits if_splits prod.splits)

type_synonym refresh_event = "time \<times> string option \<times> string option \<times> (string \<Rightarrow> refresh_reply)"

definition run_refresh :: "aes \<Rightarrow> (string \<Rightarrow> refresh_body option) \<Rightarrow> refresh_event list \<Rightarrow> uid2_client_state \<Rightarrow> uid2_client_state" where
  "run_refresh c parse evs cl = foldl (\<lambda>cl (now, nonce, iv, post). snd (refreshOnce c parse cl now nonce iv post)) cl evs"

text \<open>A reply carries a nonce when the client's secret opens it to a plaintext with that nonce.\<close>

definition reply_for :: "aes \<Rightarrow> string \<Rightarrow> string \<Rightarrow> string \<Rightarrow> string \<Rightarrow> bool" where
  "reply_for c secret n body plain \<longleftrightarrow>
     (\<exists>raw ts. (decode_padded std_value body = Some raw \<or> decode_padded b64_value body = Some raw) \<and>
        gcm_open c secret (take 12 raw) (drop 12 raw) = Some (ts @ n @ plain) \<and> length ts = 8)"

lemma open_reply:
  assumes "openResponseEnvelope c secret body n = Inr plain"
  shows "reply_for c secret n body plain"
proof -
  from assms obtain raw pt where raw: "decode_padded std_value body = Some raw \<or> decode_padded b64_value body = Some raw"
    "gcmOpen c secret (take gcmIVLen raw) (drop gcmIVLen raw) = Some pt" "\<not> length pt < 16" "sub 8 16 pt = n" "plain = drop 16 pt"
    by (auto simp: openResponseEnvelope_def split: option.splits if_splits)
  have "pt = take 8 pt @ sub 8 16 pt @ drop 16 pt"
    by (simp add: sub_def flip: take_add) (metis append_take_drop_id drop_drop numeral_Bit0 take_add)
  moreover have "gcm_open c secret (take 12 raw) (drop 12 raw) = Some pt" "length (take 8 pt) = 8"
    using raw(2,3) by (simp_all add: gcmOpen_def gcmIVLen_def split: if_splits)
  ultimately show ?thesis unfolding reply_for_def using raw(1,4,5) by metis
qed

definition last_good :: "aes \<Rightarrow> (string \<Rightarrow> refresh_body option) \<Rightarrow> uid2_client_state \<Rightarrow> refresh_event list \<Rightarrow> key_store \<Rightarrow> bool" where
  "last_good c parse cl evs st \<longleftrightarrow>
     (\<exists>now n i post envelope body plain. (now, Some n, Some i, post) \<in> set evs \<and> post envelope = Replied 200 body \<and>
        reply_for c (uc_secret cl) n body plain \<and> parseKeyRefreshResponse (parse plain) (uc_scope cl) = Inr st \<and>
        ks_scope st = uc_scope cl)"

text \<open>C28: after any history of refreshes the client is well-formed and serves the key set it had or the one of a refresh that
  succeeded, the last one if the last refresh succeeded; a refresh succeeds only on a reply that the client's secret authenticates and
  that repeats the nonce of this very request, for the client's scope, with keys of 32 bytes; a failed one changes nothing.\<close>

theorem refresh_keeps_last_good:
  "client_ok cl \<Longrightarrow>
   client_ok (run_refresh c parse evs cl) \<and>
   (run_refresh c parse evs cl = cl \<or>
    (\<exists>st. run_refresh c parse evs cl = cl\<lparr>uc_store := Some st\<rparr> \<and> last_good c parse cl evs st)) \<and>
   (case refreshOnce c parse (run_refresh c parse evs cl) now nonce iv post of
      (Some e, cl') \<Rightarrow> cl' = run_refresh c parse evs cl
    | (None, cl') \<Rightarrow> \<exists>st. cl' = cl\<lparr>uc_store := Some st\<rparr> \<and> last_good c parse cl [(now, nonce, iv, post)] st)"
proof -
  assume cl: "client_ok cl"
  have step: "(err \<noteq> None \<and> cl' = cl1) \<or>
      (err = None \<and> client_ok cl' \<and> (\<exists>st. cl' = cl\<lparr>uc_store := Some st\<rparr> \<and> last_good c parse cl [(now, nonce, iv, post)] st))"
    if r: "refreshOnce c parse cl1 now nonce iv post = (err, cl')" and same: "uc_secret cl1 = uc_secret cl" "uc_scope cl1 = uc_scope cl"
    for cl1 now nonce iv post err cl'
  proof (cases "err = None")
    case True
    with refresh_step [OF r] obtain n i sealed body st plain where ok: "nonce = Some n" "iv = Some i"
      "post ([CHR 0x01] @ i @ sealed) = Replied 200 body" "openResponseEnvelope c (uc_secret cl1) body n = Inr plain"
      "parseKeyRefreshResponse (parse plain) (uc_scope cl1) = Inr st" "ks_scope st = uc_scope cl1" "cl' = cl1\<lparr>uc_store := Some st\<rparr>"
      by blast
    have cl': "cl' = cl\<lparr>uc_store := Some st\<rparr>" using ok(7) same by (cases cl; cases cl1) simp
    have "client_ok cl'" using parse_ok [OF ok(5)] ok(6) same by (auto simp: client_ok_def cl')
    moreover have "last_good c parse cl [(now, nonce, iv, post)] st"
      unfolding last_good_def using ok(1-6) open_reply [OF ok(4)] unfolding same by auto
    ultimately show ?thesis using True cl' by blast
  qed (use refresh_step [OF r] in blast)
  have hist: "client_ok (run_refresh c parse evs cl) \<and> (run_refresh c parse evs cl = cl \<or>
      (\<exists>st. run_refresh c parse evs cl = cl\<lparr>uc_store := Some st\<rparr> \<and> last_good c parse cl evs st))" for evs
  proof (induction evs rule: rev_induct)
    case (snoc ev evs)
    obtain now nonce iv post where ev: "ev = (now, nonce, iv, post)" by (cases ev)
    let ?cl = "run_refresh c parse evs cl"
    obtain err cl' where r: "refreshOnce c parse ?cl now nonce iv post = (err, cl')" by fastforce
    have run: "run_refresh c parse (evs @ [ev]) cl = cl'" using r by (simp add: run_refresh_def ev)
    have mono: "last_good c parse cl es st \<Longrightarrow> set es \<subseteq> set es' \<Longrightarrow> last_good c parse cl es' st" for es es' st
      unfolding last_good_def by blast
    have same: "uc_secret ?cl = uc_secret cl" "uc_scope ?cl = uc_scope cl" using snoc by auto
    from step [OF r same] show ?case
    proof
      assume "err \<noteq> None \<and> cl' = ?cl"
      then show ?thesis unfolding run using snoc mono [of evs _ "evs @ [ev]"] by auto
    next
      assume "err = None \<and> client_ok cl' \<and> (\<exists>st. cl' = cl\<lparr>uc_store := Some st\<rparr> \<and> last_good c parse cl [(now, nonce, iv, post)] st)"
      then show ?thesis unfolding run using mono [of "[ev]" _ "evs @ [ev]"] by (auto simp: ev)
    qed
  qed (simp add: run_refresh_def cl)
  have same: "uc_secret (run_refresh c parse evs cl) = uc_secret cl" "uc_scope (run_refresh c parse evs cl) = uc_scope cl"
    using hist [of evs] by auto
  obtain err cl' where r: "refreshOnce c parse (run_refresh c parse evs cl) now nonce iv post = (err, cl')" by fastforce
  from step [OF r same] hist [of evs] show ?thesis unfolding r by (cases err) auto
qed

lemma refresh_keeps_last_good_witness:
  "let cl = \<lparr>uc_secret = replicate 32 CHR ''s'', uc_scope = ScopeUID2, uc_store = Some sample_store\<rparr> in
   run_refresh plain_aes (\<lambda>_. None) [(0, Some ''12345678'', Some (replicate 12 CHR ''i''), \<lambda>_. RequestFailed)] cl = cl \<and> client_ok cl"
proof -
  let ?cl = "\<lparr>uc_secret = replicate 32 CHR ''s'', uc_scope = ScopeUID2, uc_store = Some sample_store\<rparr>"
  have ok: "client_ok ?cl" by (auto simp: client_ok_def store_ok_def sample_store_def)
  have "refreshOnce plain_aes (\<lambda>_. None) ?cl 0 (Some ''12345678'') (Some (replicate 12 CHR ''i'')) (\<lambda>_. RequestFailed) = (Some ''post'', ?cl)"
    by (simp add: refreshOnce_def sealRequestEnvelope_def gcmSeal_def aes_key_def gcmIVLen_def)
  with refresh_keeps_last_good [OF ok, of plain_aes "\<lambda>_. None" "[]" 0 "Some ''12345678''" "Some (replicate 12 CHR ''i'')" "\<lambda>_. RequestFailed"] ok
  show ?thesis by (simp add: run_refresh_def Let_def)
qed

end
