(* ===== verification/Package_Configs.thy ===== *)
theory Package_Configs
  imports Key_Store Signal_Targeting
begin

text \<open>
  The context-side configuration of packages: the entities of \<^verbatim>\<open>src/targeting/entity.go\<close>, the bitmaps of
  \<^verbatim>\<open>src/targeting/primitives.go\<close> and the store of \<^verbatim>\<open>src/targeting/pkgconfigstore/pkgconfigstore.go\<close>. \<open>encoding/json\<close> is a pair
  of functions at the raw struct types; the renaming of a legacy key on top of it is modelled. The locale
  \<open>config_source\<close> is what the engine relies on: one read of many packages answers as many reads of one.
\<close>

section \<open>Bitmaps and property lists\<close>

type_synonym bitmap = "string list"

definition NewMapBitmap :: "string list \<Rightarrow> bitmap" where
  "NewMapBitmap vs = remdups vs"

definition MapBitmap_Contains :: "bitmap \<Rightarrow> string \<Rightarrow> bool" where
  "MapBitmap_Contains m v \<longleftrightarrow> v \<in> set m"

record property_list =
  pl_global :: "bitmap option"
  pl_by_package :: "(string \<times> bitmap) list option"

definition ContainsGlobal :: "property_list \<Rightarrow> string \<Rightarrow> bool" where
  "ContainsGlobal p rid \<longleftrightarrow> (case pl_global p of None \<Rightarrow> True | Some bm \<Rightarrow> MapBitmap_Contains bm rid)"

definition ContainsPackage :: "property_list \<Rightarrow> string \<Rightarrow> string \<Rightarrow> bool" where
  "ContainsPackage p packageID rid \<longleftrightarrow>
     (case pl_by_package p of
        None \<Rightarrow> True
      | Some m \<Rightarrow> (case map_of m packageID of None \<Rightarrow> True | Some bm \<Rightarrow> MapBitmap_Contains bm rid))"

section \<open>Entities\<close>

text \<open>A nil map is \<^const>\<open>None\<close>; an absent raw message is \<^const>\<open>None\<close>.\<close>

type_synonym strings = "(string \<times> string) list"

record offer_config =
  oc_deal_id :: string
  oc_brand :: "json option"
  oc_price :: offer_price
  oc_summary :: string
  oc_manifest_type :: string
  oc_creative_data :: "strings option"

record package_config =
  pg_package_id :: string
  pg_media_buy_id :: string
  pg_topic_targets :: bool
  pg_property_rids :: "string list"
  pg_emit_segments :: "string list"
  pg_context_signals :: "profile option"
  pg_offers :: "offer_config list"
  pg_brand :: "json option"
  pg_price :: offer_price
  pg_summary :: string
  pg_manifest_type :: string
  pg_creative_manifest :: "json option"
  pg_creative_data :: "strings option"
  pg_bitmap :: "bitmap option"

definition MaterializePropertyBitmap :: "package_config \<Rightarrow> package_config" where
  "MaterializePropertyBitmap c =
     (if pg_property_rids c = [] then c\<lparr>pg_bitmap := None\<rparr> else c\<lparr>pg_bitmap := Some (NewMapBitmap (pg_property_rids c))\<rparr>)"

definition ContainsPropertyRID :: "package_config \<Rightarrow> string \<Rightarrow> bool" where
  "ContainsPropertyRID c rid \<longleftrightarrow>
     (if pg_property_rids c = [] then True
      else case pg_bitmap c of
          Some bm \<Rightarrow> MapBitmap_Contains bm rid
        | None \<Rightarrow> rid \<in> set (pg_property_rids c))"

text \<open>What \<^verbatim>\<open>json.Unmarshal\<close> fills at the raw types: the struct without its own method and the legacy \<^verbatim>\<open>macros\<close>
  map. The offers of a package are decoded by their own method.\<close>

type_synonym raw_offer = "offer_config \<times> strings option"
type_synonym raw_config = "package_config \<times> raw_offer list \<times> strings option"

definition legacy :: "strings option \<Rightarrow> strings option \<Rightarrow> strings option" where
  "legacy current macros = (if current = None \<and> macros \<noteq> None then macros else current)"

definition OfferConfig_UnmarshalJSON :: "raw_offer \<Rightarrow> offer_config" where
  "OfferConfig_UnmarshalJSON r = (case r of (c, macros) \<Rightarrow> c\<lparr>oc_creative_data := legacy (oc_creative_data c) macros\<rparr>)"

definition PackageConfig_UnmarshalJSON :: "raw_config \<Rightarrow> package_config" where
  "PackageConfig_UnmarshalJSON r =
     (case r of (c, offers, macros) \<Rightarrow>
        c\<lparr>pg_offers := map OfferConfig_UnmarshalJSON offers, pg_creative_data := legacy (pg_creative_data c) macros, pg_bitmap := None\<rparr>)"

record config_codec =
  marshal_config :: "package_config \<Rightarrow> string result"
  unmarshal_config :: "string \<Rightarrow> raw_config option"

section \<open>The store\<close>

definition ConfigKey :: "string \<Rightarrow> string" where
  "ConfigKey packageID = ''config:pkg:'' @ packageID @ '':context''"

text \<open>The argument of \<^verbatim>\<open>Put\<close> may be nil.\<close>

definition Put_config :: "config_codec \<Rightarrow> store_fault \<Rightarrow> package_config option \<Rightarrow> kv \<Rightarrow> kv \<times> string option" where
  "Put_config J f c st =
     (case c of None \<Rightarrow> (st, Some ''pkgconfigstore: config is required'')
      | Some c \<Rightarrow>
          if pg_package_id c = '''' then (st, Some ''pkgconfigstore: package_id is required'')
          else case Profile_Validate (pg_context_signals c) of
              Some e \<Rightarrow> (st, Some (''pkgconfigstore: '' @ e))
            | None \<Rightarrow>
                (case marshal_config J c of
                   Inl e \<Rightarrow> (st, Some (''pkgconfigstore: marshal: '' @ e))
                 | Inr raw \<Rightarrow>
                     (case attempt f (kv_Set (ConfigKey (pg_package_id c)) raw) st of
                        (st1, Some e) \<Rightarrow> (st1, Some (''pkgconfigstore: persist: '' @ e))
                      | (st1, None) \<Rightarrow> (st1, None))))"

definition Remove_config :: "store_fault \<Rightarrow> string \<Rightarrow> kv \<Rightarrow> kv \<times> string option" where
  "Remove_config f packageID st =
     (if packageID = '''' then (st, Some ''pkgconfigstore: package_id is required'') else attempt f (Del [ConfigKey packageID]) st)"

definition decodeConfig :: "config_codec \<Rightarrow> string \<Rightarrow> package_config result" where
  "decodeConfig J raw =
     (case unmarshal_config J raw of
        None \<Rightarrow> Inl ''pkgconfigstore: decode''
      | Some r \<Rightarrow> Inr (MaterializePropertyBitmap (PackageConfig_UnmarshalJSON r)))"

definition Get_config :: "config_codec \<Rightarrow> store_fault \<Rightarrow> kv \<Rightarrow> string \<Rightarrow> package_config option result" where
  "Get_config J f st packageID =
     (if packageID = '''' then Inl ''pkgconfigstore: package_id is required''
      else case f of Some e \<Rightarrow> Inl e
        | None \<Rightarrow>
            (case kv_Get (ConfigKey packageID) st of
               None \<Rightarrow> Inr None
             | Some raw \<Rightarrow>
                 if raw = '''' then Inr None
                 else (case decodeConfig J raw of Inl e \<Rightarrow> Inl e | Inr c \<Rightarrow> Inr (Some c))))"

definition decoded_or_none :: "config_codec \<Rightarrow> string \<Rightarrow> package_config option" where
  "decoded_or_none J raw =
     (if raw = '''' then None else case decodeConfig J raw of Inl e \<Rightarrow> None | Inr c \<Rightarrow> Some c)"

text \<open>The answer of the store is an argument: a backend may answer with the wrong number of values.\<close>

definition MGet_config :: "config_codec \<Rightarrow> (string list \<Rightarrow> string list result) \<Rightarrow> string list \<Rightarrow> package_config option list result" where
  "MGet_config J store_MGet packageIDs =
     (if packageIDs = [] then Inr []
      else case store_MGet (map ConfigKey packageIDs) of
          Inl e \<Rightarrow> Inl e
        | Inr vals \<Rightarrow>
            if length vals \<noteq> length packageIDs then Inl ''pkgconfigstore: MGET returned a misaligned answer''
            else Inr (map (decoded_or_none J) vals))"

definition kv_MGet :: "store_fault \<Rightarrow> kv \<Rightarrow> string list \<Rightarrow> string list result" where
  "kv_MGet f st keys = (case f of Some e \<Rightarrow> Inl e | None \<Rightarrow> Inr (MGet keys st))"

section \<open>What the engine relies on\<close>

locale config_source =
  fixes get_one :: "string \<Rightarrow> package_config option result"
    and get_many :: "string list \<Rightarrow> package_config option list result"
  assumes aligned: "get_many ids = Inr cs \<Longrightarrow> length cs = length ids"
    and agrees: "get_many ids = Inr cs \<Longrightarrow> i < length ids \<Longrightarrow> ids ! i \<noteq> '''' \<Longrightarrow>
      get_one (ids ! i) = Inr (cs ! i) \<or> ((\<exists>e. get_one (ids ! i) = Inl e) \<and> cs ! i = None)"
begin

text \<open>Reading one by one and skipping the errors gives what one read of all gives.\<close>

lemma batch_is_pointwise:
  assumes "get_many ids = Inr cs" "'''' \<notin> set ids"
  shows "cs = map (\<lambda>i. case get_one i of Inl e \<Rightarrow> None | Inr c \<Rightarrow> c) ids"
proof (rule nth_equalityI)
  fix i assume "i < length cs"
  with aligned [OF assms(1)] have i: "i < length ids" by simp
  with assms(2) have "ids ! i \<noteq> ''''" by (metis nth_mem)
  from agrees [OF assms(1) i this] i show "cs ! i = map (\<lambda>i. case get_one i of Inl e \<Rightarrow> None | Inr c \<Rightarrow> c) ids ! i"
    by auto
qed (use aligned [OF assms(1)] in simp)

end

lemma kv_MGet_config:
  "MGet_config J (kv_MGet None st) ids = Inr (map (\<lambda>i. decoded_or_none J (case kv_Get (ConfigKey i) st of None \<Rightarrow> '''' | Some v \<Rightarrow> v)) ids)"
  by (simp add: MGet_config_def kv_MGet_def MGet_def kv_Get_def)

lemma Get_decoded:
  "i \<noteq> '''' \<Longrightarrow> d = decoded_or_none J (case kv_Get (ConfigKey i) st of None \<Rightarrow> '''' | Some v \<Rightarrow> v) \<Longrightarrow>
   Get_config J None st i = Inr d \<or> ((\<exists>e. Get_config J None st i = Inl e) \<and> d = None)"
  by (auto simp: Get_config_def decoded_or_none_def split: option.split sum.split)

text \<open>Both readers over one store, whatever fails on the batch side.\<close>

interpretation pkg_reader: config_source "Get_config J None st" "MGet_config J (kv_MGet f st)"
  for J f st
proof
  fix ids cs assume m: "MGet_config J (kv_MGet f st) ids = Inr cs"
  then have c: "cs = map (\<lambda>i. decoded_or_none J (case kv_Get (ConfigKey i) st of None \<Rightarrow> '''' | Some v \<Rightarrow> v)) ids"
    by (cases f) (auto simp: kv_MGet_config, simp add: MGet_config_def kv_MGet_def split: if_splits)
  then show "length cs = length ids" by simp
  fix i assume "i < length ids" "ids ! i \<noteq> ''''"
  with c show "Get_config J None st (ids ! i) = Inr (cs ! i) \<or> ((\<exists>e. Get_config J None st (ids ! i) = Inl e) \<and> cs ! i = None)"
    by (intro Get_decoded) simp_all
qed

section \<open>Gates and round trips\<close>

text \<open>The bitmap, when present, is that of the list, so both ways of checking agree.\<close>

definition bitmap_fits :: "package_config \<Rightarrow> bool" where
  "bitmap_fits c \<longleftrightarrow> (case pg_bitmap c of None \<Rightarrow> True | Some bm \<Rightarrow> set bm = set (pg_property_rids c))"

lemma Materialize_fits: "bitmap_fits (MaterializePropertyBitmap c)"
  by (simp add: bitmap_fits_def MaterializePropertyBitmap_def NewMapBitmap_def)

lemma ContainsPropertyRID_spec:
  "bitmap_fits c \<Longrightarrow> ContainsPropertyRID c rid \<longleftrightarrow> pg_property_rids c = [] \<or> rid \<in> set (pg_property_rids c)"
  by (auto simp: ContainsPropertyRID_def bitmap_fits_def MapBitmap_Contains_def split: option.splits)

lemma decoded_fits: "decodeConfig J raw = Inr c \<Longrightarrow> bitmap_fits c"
  by (auto simp: decodeConfig_def Materialize_fits split: option.splits)

lemma Get_fits: "Get_config J f st i = Inr (Some c) \<Longrightarrow> bitmap_fits c"
  by (auto simp: Get_config_def decoded_fits split: if_splits option.splits sum.splits)

definition config_roundtrips :: "config_codec \<Rightarrow> package_config \<Rightarrow> bool" where
  "config_roundtrips J c \<longleftrightarrow>
     (case marshal_config J c of
        Inl e \<Rightarrow> False
      | Inr raw \<Rightarrow> raw \<noteq> '''' \<and> unmarshal_config J raw = Some (c\<lparr>pg_bitmap := None\<rparr>, map (\<lambda>p. (p, None)) (pg_offers c), None))"

lemma reread: "PackageConfig_UnmarshalJSON (c\<lparr>pg_bitmap := None\<rparr>, map (\<lambda>p. (p, None)) (pg_offers c), None) = c\<lparr>pg_bitmap := None\<rparr>"
  by (simp add: PackageConfig_UnmarshalJSON_def OfferConfig_UnmarshalJSON_def legacy_def comp_def)

lemma Put_then_Get:
  assumes "config_roundtrips J c" "Put_config J f (Some c) st = (st', None)"
  shows "Get_config J None st' (pg_package_id c) = Inr (Some (MaterializePropertyBitmap (c\<lparr>pg_bitmap := None\<rparr>)))"
    "Profile_Validate (pg_context_signals c) = None"
    "k \<noteq> ConfigKey (pg_package_id c) \<Longrightarrow> kv_Get k st' = kv_Get k st"
  using assms by (cases f; auto simp: Put_config_def config_roundtrips_def Get_config_def decodeConfig_def reread attempt_def kv.get_put
      split: if_splits option.splits sum.splits)+

lemma Put_refuses_unsafe:
  "Profile_Validate (pg_context_signals c) \<noteq> None \<Longrightarrow> fst (Put_config J f (Some c) st) = st \<and> snd (Put_config J f (Some c) st) \<noteq> None"
  by (auto simp: Put_config_def)

lemma Remove_then_Get: "i \<noteq> '''' \<Longrightarrow> Get_config J None (fst (Remove_config None i st)) i = Inr None"
  by (simp add: Remove_config_def Get_config_def kv.get_del)

text \<open>The legacy key fills an absent map only.\<close>

lemma legacy_spec: "legacy current macros = (case current of None \<Rightarrow> macros | Some m \<Rightarrow> Some m)"
  by (cases current; cases macros) (auto simp: legacy_def)

end
