(* ===== verification/Topic_Store.thy ===== *)
theory Topic_Store
  imports Key_Store Signal_Targeting
begin

text \<open>
  Content topics of artifacts and packages, \<^verbatim>\<open>src/targeting/topicstore/topicstore.go\<close>, over the key-value surface of
  \<^verbatim>\<open>Key_Store\<close>. Every access can fail, a fault being an argument of the operation that makes the access. The main
  results: keys of valid taxonomies never meet, and the store refines a map from (side, taxonomy, id) to sets of
  topics, whatever the history of writes and faults. A nil store is not modelled.
\<close>

section \<open>Taxonomies and keys\<close>

definition taxonomy_char :: "char \<Rightarrow> bool" where
  "taxonomy_char c \<longleftrightarrow> (CHR ''a'' \<le> c \<and> c \<le> CHR ''z'') \<or> (CHR ''A'' \<le> c \<and> c \<le> CHR ''Z'') \<or>
     (CHR ''0'' \<le> c \<and> c \<le> CHR ''9'') \<or> c = CHR ''_'' \<or> c = CHR ''-'' \<or> c = CHR ''.''"

definition Taxonomy_Validate :: "taxonomy \<Rightarrow> string option" where
  "Taxonomy_Validate t =
     (if tax_source t = '''' then Some ''topicstore: taxonomy.source must be non-empty''
      else if tax_id t < 0 then Some ''topicstore: taxonomy.id must be non-negative''
      else if \<not> list_all taxonomy_char (tax_source t) then Some ''topicstore: taxonomy.source contains invalid character''
      else None)"

definition ArtifactKey :: "taxonomy \<Rightarrow> string \<Rightarrow> string" where
  "ArtifactKey tax ref = ''topics:artifact:'' @ tax_string tax @ '':'' @ ref"

definition PackageKey :: "taxonomy \<Rightarrow> string \<Rightarrow> string" where
  "PackageKey tax pkgID = ''topics:package:'' @ tax_string tax @ '':'' @ pkgID"

definition NamespaceTopic :: "taxonomy \<Rightarrow> string \<Rightarrow> string" where
  "NamespaceTopic tax topic = tax_string tax @ '':'' @ topic"

definition NamespaceTopics :: "taxonomy \<Rightarrow> string list \<Rightarrow> string list" where
  "NamespaceTopics tax ts = (let prefix = tax_string tax @ '':'' in map (\<lambda>t. prefix @ t) ts)"

section \<open>The writer\<close>

definition artifact_guard :: "taxonomy \<Rightarrow> string \<Rightarrow> string option" where
  "artifact_guard tax ref =
     (case Taxonomy_Validate tax of Some e \<Rightarrow> Some e
      | None \<Rightarrow> if ref = '''' then Some ''topicstore: artifact ref must be non-empty'' else None)"

definition package_guard :: "taxonomy \<Rightarrow> string \<Rightarrow> string option" where
  "package_guard tax pkgID =
     (case Taxonomy_Validate tax of Some e \<Rightarrow> Some e
      | None \<Rightarrow> if pkgID = '''' then Some ''topicstore: package id must be non-empty'' else None)"

definition SetArtifactTopics :: "store_fault \<Rightarrow> store_fault \<Rightarrow> taxonomy \<Rightarrow> string \<Rightarrow> string list \<Rightarrow> kv \<Rightarrow> kv \<times> string option" where
  "SetArtifactTopics del_fault add_fault tax ref ts st =
     (case artifact_guard tax ref of Some e \<Rightarrow> (st, Some e)
      | None \<Rightarrow>
          let key = ArtifactKey tax ref in
          (case attempt del_fault (Del [key]) st of
             (st1, Some e) \<Rightarrow> (st1, Some (''topicstore: clear artifact topics: '' @ e))
           | (st1, None) \<Rightarrow>
               if ts = [] then (st1, None)
               else (case attempt add_fault (SetAdd key ts) st1 of
                       (st2, Some e) \<Rightarrow> (st2, Some (''topicstore: write artifact topics: '' @ e))
                     | (st2, None) \<Rightarrow> (st2, None))))"

definition AddArtifactTopics :: "store_fault \<Rightarrow> taxonomy \<Rightarrow> string \<Rightarrow> string list \<Rightarrow> kv \<Rightarrow> kv \<times> string option" where
  "AddArtifactTopics f tax ref ts st =
     (case artifact_guard tax ref of Some e \<Rightarrow> (st, Some e)
      | None \<Rightarrow> if ts = [] then (st, None) else attempt f (SetAdd (ArtifactKey tax ref) ts) st)"

definition RemoveArtifact :: "store_fault \<Rightarrow> taxonomy \<Rightarrow> string \<Rightarrow> kv \<Rightarrow> kv \<times> string option" where
  "RemoveArtifact f tax ref st =
     (case artifact_guard tax ref of Some e \<Rightarrow> (st, Some e)
      | None \<Rightarrow> attempt f (Del [ArtifactKey tax ref]) st)"

definition SetPackageTopics :: "store_fault \<Rightarrow> store_fault \<Rightarrow> taxonomy \<Rightarrow> string \<Rightarrow> string list \<Rightarrow> kv \<Rightarrow> kv \<times> string option" where
  "SetPackageTopics del_fault add_fault tax pkgID ts st =
     (case package_guard tax pkgID of Some e \<Rightarrow> (st, Some e)
      | None \<Rightarrow>
          let key = PackageKey tax pkgID in
          (case attempt del_fault (Del [key]) st of
             (st1, Some e) \<Rightarrow> (st1, Some (''topicstore: clear package topics: '' @ e))
           | (st1, None) \<Rightarrow>
               if ts = [] then (st1, None)
               else (case attempt add_fault (SetAdd key ts) st1 of
                       (st2, Some e) \<Rightarrow> (st2, Some (''topicstore: write package topics: '' @ e))
                     | (st2, None) \<Rightarrow> (st2, None))))"

definition AddPackageTopics :: "store_fault \<Rightarrow> taxonomy \<Rightarrow> string \<Rightarrow> string list \<Rightarrow> kv \<Rightarrow> kv \<times> string option" where
  "AddPackageTopics f tax pkgID ts st =
     (case package_guard tax pkgID of Some e \<Rightarrow> (st, Some e)
      | None \<Rightarrow> if ts = [] then (st, None) else attempt f (SetAdd (PackageKey tax pkgID) ts) st)"

definition RemovePackageTopics :: "store_fault \<Rightarrow> taxonomy \<Rightarrow> string \<Rightarrow> string list \<Rightarrow> kv \<Rightarrow> kv \<times> string option" where
  "RemovePackageTopics f tax pkgID ts st =
     (case package_guard tax pkgID of Some e \<Rightarrow> (st, Some e)
      | None \<Rightarrow> if ts = [] then (st, None) else attempt f (SetRemove (PackageKey tax pkgID) ts) st)"

definition RemovePackage :: "store_fault \<Rightarrow> taxonomy \<Rightarrow> string \<Rightarrow> kv \<Rightarrow> kv \<times> string option" where
  "RemovePackage f tax pkgID st =
     (case package_guard tax pkgID of Some e \<Rightarrow> (st, Some e)
      | None \<Rightarrow> attempt f (Del [PackageKey tax pkgID]) st)"

text \<open>A batch goes through its entries in the order the runtime picks and stops at the first error. Each entry
  carries the faults of its two writes.\<close>

type_synonym batch_entry = "string \<times> string list \<times> store_fault \<times> store_fault"

fun artifact_batch :: "taxonomy \<Rightarrow> batch_entry list \<Rightarrow> kv \<Rightarrow> kv \<times> string option" where
  "artifact_batch tax [] st = (st, None)"
| "artifact_batch tax ((ref, ts, f1, f2) # es) st =
     (case SetArtifactTopics f1 f2 tax ref ts st of
        (st1, Some e) \<Rightarrow> (st1, Some (''topicstore: artifact '' @ ref @ '': '' @ e))
      | (st1, None) \<Rightarrow> artifact_batch tax es st1)"

definition SetArtifactTopicsBatch :: "taxonomy \<Rightarrow> batch_entry list \<Rightarrow> kv \<Rightarrow> kv \<times> string option" where
  "SetArtifactTopicsBatch tax es st =
     (case Taxonomy_Validate tax of Some e \<Rightarrow> (st, Some e) | None \<Rightarrow> artifact_batch tax es st)"

fun package_batch :: "taxonomy \<Rightarrow> batch_entry list \<Rightarrow> kv \<Rightarrow> kv \<times> string option" where
  "package_batch tax [] st = (st, None)"
| "package_batch tax ((pkgID, ts, f1, f2) # es) st =
     (case SetPackageTopics f1 f2 tax pkgID ts st of
        (st1, Some e) \<Rightarrow> (st1, Some (''topicstore: package '' @ pkgID @ '': '' @ e))
      | (st1, None) \<Rightarrow> package_batch tax es st1)"

definition SetPackageTopicsBatch :: "taxonomy \<Rightarrow> batch_entry list \<Rightarrow> kv \<Rightarrow> kv \<times> string option" where
  "SetPackageTopicsBatch tax es st =
     (case Taxonomy_Validate tax of Some e \<Rightarrow> (st, Some e) | None \<Rightarrow> package_batch tax es st)"

section \<open>The reader\<close>

definition reading :: "store_fault \<Rightarrow> 'a \<Rightarrow> 'a result" where
  "reading f x = (case f of None \<Rightarrow> Inr x | Some e \<Rightarrow> Inl e)"

definition ArtifactTopics :: "store_fault \<Rightarrow> taxonomy \<Rightarrow> string \<Rightarrow> kv \<Rightarrow> string list result" where
  "ArtifactTopics f tax ref st =
     (case artifact_guard tax ref of Some e \<Rightarrow> Inl e | None \<Rightarrow> reading f (SetMembers (ArtifactKey tax ref) st))"

definition PackageTopics :: "store_fault \<Rightarrow> taxonomy \<Rightarrow> string \<Rightarrow> kv \<Rightarrow> string list result" where
  "PackageTopics f tax pkgID st =
     (case package_guard tax pkgID of Some e \<Rightarrow> Inl e | None \<Rightarrow> reading f (SetMembers (PackageKey tax pkgID) st))"

definition IntersectArtifactPackage :: "store_fault \<Rightarrow> taxonomy \<Rightarrow> string \<Rightarrow> string \<Rightarrow> kv \<Rightarrow> string list result" where
  "IntersectArtifactPackage f tax pkgID ref st =
     (case package_guard tax pkgID of Some e \<Rightarrow> Inl e
      | None \<Rightarrow>
          if ref = '''' then Inl ''topicstore: artifact ref must be non-empty''
          else reading f (SetIntersect [PackageKey tax pkgID, ArtifactKey tax ref] st))"

section \<open>Keys of valid taxonomies\<close>

lemma taxonomy_char_no_colon: "\<not> taxonomy_char CHR '':''"
  by (simp add: taxonomy_char_def less_eq_char_def)

lemma valid_source_no_colon: "Taxonomy_Validate t = None \<Longrightarrow> CHR '':'' \<notin> set (tax_source t)"
  using taxonomy_char_no_colon by (auto simp: Taxonomy_Validate_def list_all_iff split: if_splits)

lemma Itoa_no_colon: "CHR '':'' \<notin> set (Itoa i)"
  using itoa_digits [of "CHR '':''"] by (auto simp: Itoa_def is_digit_def)

lemma Itoa_nonneg_inj: "0 \<le> i \<Longrightarrow> 0 \<le> j \<Longrightarrow> Itoa i = Itoa j \<longleftrightarrow> i = j"
  by (auto simp: Itoa_def itoa_inj)

lemma tax_prefix_inj:
  assumes "Taxonomy_Validate t = None" "Taxonomy_Validate t' = None"
  shows "tax_string t @ CHR '':'' # r = tax_string t' @ CHR '':'' # r' \<longleftrightarrow> t = t' \<and> r = r'"
proof -
  have "0 \<le> tax_id t" "0 \<le> tax_id t'" using assms by (auto simp: Taxonomy_Validate_def split: if_splits)
  with assms show ?thesis
    by (auto simp: tax_string_def sep_inj valid_source_no_colon Itoa_no_colon Itoa_nonneg_inj)
qed

text \<open>The two sides of the store under one name.\<close>

datatype topic_side = Artifact_Side | Package_Side

fun topic_key :: "topic_side \<Rightarrow> taxonomy \<Rightarrow> string \<Rightarrow> string" where
  "topic_key Artifact_Side tax ref = ArtifactKey tax ref"
| "topic_key Package_Side tax pkgID = PackageKey tax pkgID"

lemma topic_key_inj:
  "Taxonomy_Validate t = None \<Longrightarrow> Taxonomy_Validate t' = None \<Longrightarrow>
   topic_key sd t r = topic_key sd' t' r' \<longleftrightarrow> sd = sd' \<and> t = t' \<and> r = r'"
  by (cases sd; cases sd') (simp_all add: ArtifactKey_def PackageKey_def tax_prefix_inj)

lemma NamespaceTopic_inj:
  "Taxonomy_Validate t = None \<Longrightarrow> Taxonomy_Validate t' = None \<Longrightarrow>
   NamespaceTopic t x = NamespaceTopic t' x' \<longleftrightarrow> t = t' \<and> x = x'"
  by (simp add: NamespaceTopic_def tax_prefix_inj)

lemma NamespaceTopics_map: "NamespaceTopics tax ts = map (NamespaceTopic tax) ts"
  by (simp add: NamespaceTopics_def NamespaceTopic_def)

text \<open>Without the allowlist a colon in the source lets two taxonomies share a key.\<close>

lemma colon_source_collides:
  "ArtifactKey \<lparr>tax_source = ''a'', tax_id = 1\<rparr> ''2:x'' = ArtifactKey \<lparr>tax_source = ''a:1'', tax_id = 2\<rparr> ''x''"
  by code_simp

section \<open>Histories of writes\<close>

datatype topic_op =
    OpSet topic_side taxonomy string "string list" store_fault store_fault
  | OpAdd topic_side taxonomy string "string list" store_fault
  | OpRemoveTopics taxonomy string "string list" store_fault
  | OpRemove topic_side taxonomy string store_fault
  | OpBatch topic_side taxonomy "batch_entry list"

fun run_op :: "topic_op \<Rightarrow> kv \<Rightarrow> kv \<times> string option" where
  "run_op (OpSet Artifact_Side tax i ts f1 f2) st = SetArtifactTopics f1 f2 tax i ts st"
| "run_op (OpSet Package_Side tax i ts f1 f2) st = SetPackageTopics f1 f2 tax i ts st"
| "run_op (OpAdd Artifact_Side tax i ts f) st = AddArtifactTopics f tax i ts st"
| "run_op (OpAdd Package_Side tax i ts f) st = AddPackageTopics f tax i ts st"
| "run_op (OpRemoveTopics tax i ts f) st = RemovePackageTopics f tax i ts st"
| "run_op (OpRemove Artifact_Side tax i f) st = RemoveArtifact f tax i st"
| "run_op (OpRemove Package_Side tax i f) st = RemovePackage f tax i st"
| "run_op (OpBatch Artifact_Side tax es) st = SetArtifactTopicsBatch tax es st"
| "run_op (OpBatch Package_Side tax es) st = SetPackageTopicsBatch tax es st"

definition run_ops :: "topic_op list \<Rightarrow> kv \<Rightarrow> kv" where
  "run_ops ops st = fold (\<lambda>op s. fst (run_op op s)) ops st"

text \<open>The specification: a map from side, taxonomy and id to a set of topics. An operation on an invalid taxonomy or
  an empty id changes nothing; a replacement whose second write fails leaves the empty set.\<close>

type_synonym topic_map = "topic_side \<times> taxonomy \<times> string \<Rightarrow> string set"

definition spec_set :: "topic_side \<Rightarrow> taxonomy \<Rightarrow> string \<Rightarrow> string list \<Rightarrow> store_fault \<Rightarrow> store_fault \<Rightarrow> topic_map \<Rightarrow> topic_map" where
  "spec_set sd tax i ts f1 f2 m =
     (if i = '''' \<or> f1 \<noteq> None then m
      else if f2 \<noteq> None then m((sd, tax, i) := {})
      else m((sd, tax, i) := set ts))"

fun spec_batch :: "topic_side \<Rightarrow> taxonomy \<Rightarrow> batch_entry list \<Rightarrow> topic_map \<Rightarrow> topic_map" where
  "spec_batch sd tax [] m = m"
| "spec_batch sd tax ((i, ts, f1, f2) # es) m =
     (if i = '''' \<or> f1 \<noteq> None \<or> (f2 \<noteq> None \<and> ts \<noteq> []) then spec_set sd tax i ts f1 f2 m
      else spec_batch sd tax es (spec_set sd tax i ts f1 f2 m))"

fun spec_op :: "topic_op \<Rightarrow> topic_map \<Rightarrow> topic_map" where
  "spec_op (OpSet sd tax i ts f1 f2) m = (if Taxonomy_Validate tax \<noteq> None then m else spec_set sd tax i ts f1 f2 m)"
| "spec_op (OpAdd sd tax i ts f) m =
     (if Taxonomy_Validate tax \<noteq> None \<or> i = '''' \<or> f \<noteq> None then m else m((sd, tax, i) := m (sd, tax, i) \<union> set ts))"
| "spec_op (OpRemoveTopics tax i ts f) m =
     (if Taxonomy_Validate tax \<noteq> None \<or> i = '''' \<or> f \<noteq> None then m
      else m((Package_Side, tax, i) := m (Package_Side, tax, i) - set ts))"
| "spec_op (OpRemove sd tax i f) m =
     (if Taxonomy_Validate tax \<noteq> None \<or> i = '''' \<or> f \<noteq> None then m else m((sd, tax, i) := {}))"
| "spec_op (OpBatch sd tax es) m = (if Taxonomy_Validate tax \<noteq> None then m else spec_batch sd tax es m)"

definition represents :: "kv \<Rightarrow> topic_map \<Rightarrow> bool" where
  "represents st m \<longleftrightarrow>
     (\<forall>sd tax i. Taxonomy_Validate tax = None \<and> i \<noteq> '''' \<longrightarrow> set (SetMembers (topic_key sd tax i) st) = m (sd, tax, i))"

lemma representsD:
  "represents st m \<Longrightarrow> Taxonomy_Validate tax = None \<Longrightarrow> i \<noteq> '''' \<Longrightarrow> set (SetMembers (topic_key sd tax i) st) = m (sd, tax, i)"
  by (simp add: represents_def)

lemmas topic_store_laws = kv.members_add kv.members_remove kv.members_del topic_key_inj

lemma represents_del:
  "represents st m \<Longrightarrow> Taxonomy_Validate tax = None \<Longrightarrow> represents (Del [topic_key sd tax i] st) (m((sd, tax, i) := {}))"
  by (auto simp: represents_def topic_store_laws)

lemma represents_add:
  "represents st m \<Longrightarrow> Taxonomy_Validate tax = None \<Longrightarrow> i \<noteq> '''' \<Longrightarrow>
   represents (SetAdd (topic_key sd tax i) ts st) (m((sd, tax, i) := m (sd, tax, i) \<union> set ts))"
  by (auto simp: represents_def topic_store_laws)

lemma represents_remove:
  "represents st m \<Longrightarrow> Taxonomy_Validate tax = None \<Longrightarrow> i \<noteq> '''' \<Longrightarrow>
   represents (SetRemove (topic_key sd tax i) ts st) (m((sd, tax, i) := m (sd, tax, i) - set ts))"
  by (auto simp: represents_def topic_store_laws)

lemma represents_replace:
  assumes "represents st m" "Taxonomy_Validate tax = None" "i \<noteq> ''''"
  shows "represents (SetAdd (topic_key sd tax i) ts (Del [topic_key sd tax i] st)) (m((sd, tax, i) := set ts))"
  using represents_add [OF represents_del [OF assms(1,2), of sd i] assms(2,3), of sd ts] by simp

lemmas topic_writes = SetArtifactTopics_def SetPackageTopics_def AddArtifactTopics_def AddPackageTopics_def
  RemovePackageTopics_def RemoveArtifact_def RemovePackage_def artifact_guard_def package_guard_def attempt_def Let_def
  topic_key.simps [symmetric]

lemma represents_set:
  assumes "represents st m" "Taxonomy_Validate tax = None"
  shows "represents (fst (run_op (OpSet sd tax i ts f1 f2) st)) (spec_set sd tax i ts f1 f2 m)"
  using assms represents_replace [OF assms] represents_del [OF assms]
  by (cases sd; cases f1; cases f2; cases "ts = []") (auto simp: topic_writes spec_set_def simp del: topic_key.simps)

lemma set_outcome:
  "i \<noteq> '''' \<Longrightarrow> Taxonomy_Validate tax = None \<Longrightarrow>
   snd (run_op (OpSet sd tax i ts f1 f2) st) = None \<longleftrightarrow> f1 = None \<and> (f2 = None \<or> ts = [])"
  "Taxonomy_Validate tax = None \<Longrightarrow> i = '''' \<Longrightarrow> run_op (OpSet sd tax i ts f1 f2) st = (st, snd (run_op (OpSet sd tax i ts f1 f2) st))"
  "Taxonomy_Validate tax = None \<Longrightarrow> i = '''' \<Longrightarrow> snd (run_op (OpSet sd tax i ts f1 f2) st) \<noteq> None"
  by (cases sd; cases f1; cases f2; auto simp: topic_writes simp del: topic_key.simps)+

lemma run_batch_step:
  "Taxonomy_Validate tax = None \<Longrightarrow>
   fst (run_op (OpBatch sd tax ((i, ts, f1, f2) # es)) st) =
     (if snd (run_op (OpSet sd tax i ts f1 f2) st) = None
      then fst (run_op (OpBatch sd tax es) (fst (run_op (OpSet sd tax i ts f1 f2) st)))
      else fst (run_op (OpSet sd tax i ts f1 f2) st))"
  by (cases sd) (auto simp: SetArtifactTopicsBatch_def SetPackageTopicsBatch_def split: prod.split option.split)

lemma represents_batch:
  assumes "represents st m" "Taxonomy_Validate tax = None"
  shows "represents (fst (run_op (OpBatch sd tax es) st)) (spec_batch sd tax es m)"
  using assms(1)
proof (induction es arbitrary: st m)
  case Nil
  then show ?case using assms(2) by (cases sd) (simp_all add: SetArtifactTopicsBatch_def SetPackageTopicsBatch_def)
next
  case (Cons e es)
  obtain i ts f1 f2 where e: "e = (i, ts, f1, f2)" by (cases e)
  note step = represents_set [OF Cons.prems assms(2), of sd i ts f1 f2]
  show ?case
    using step Cons.IH [OF step] assms(2) set_outcome [where i = i and tax = tax and sd = sd and ts = ts and ?f1.0 = f1 and ?f2.0 = f2 and st = st]
    by (cases "i = ''''") (auto simp: e run_batch_step)
qed

lemma represents_invalid:
  "Taxonomy_Validate tax \<noteq> None \<Longrightarrow> fst (run_op (OpSet sd tax i ts f1 f2) st) = st"
  "Taxonomy_Validate tax \<noteq> None \<Longrightarrow> fst (run_op (OpAdd sd tax i ts f1) st) = st"
  "Taxonomy_Validate tax \<noteq> None \<Longrightarrow> fst (run_op (OpRemoveTopics tax i ts f1) st) = st"
  "Taxonomy_Validate tax \<noteq> None \<Longrightarrow> fst (run_op (OpRemove sd tax i f1) st) = st"
  "Taxonomy_Validate tax \<noteq> None \<Longrightarrow> fst (run_op (OpBatch sd tax es) st) = st"
  by (cases sd; auto simp: topic_writes SetArtifactTopicsBatch_def SetPackageTopicsBatch_def simp del: topic_key.simps)+

lemma represents_add_op:
  "represents st m \<Longrightarrow> represents (fst (run_op (OpAdd sd tax i ts f) st)) (spec_op (OpAdd sd tax i ts f) m)"
proof (cases "Taxonomy_Validate tax = None \<and> i \<noteq> '''' \<and> f = None")
  case True
  assume "represents st m"
  with True have "represents (SetAdd (topic_key sd tax i) ts st) (m((sd, tax, i) := m (sd, tax, i) \<union> set ts))"
    by (intro represents_add) auto
  with True \<open>represents st m\<close> show ?thesis
    by (cases sd; cases "ts = []") (auto simp: topic_writes simp del: topic_key.simps)
next
  case False
  assume "represents st m"
  with False show ?thesis by (cases sd; cases f) (auto simp: topic_writes split: option.splits simp del: topic_key.simps)
qed

lemma represents_remove_op:
  "represents st m \<Longrightarrow> represents (fst (run_op (OpRemoveTopics tax i ts f) st)) (spec_op (OpRemoveTopics tax i ts f) m)"
proof (cases "Taxonomy_Validate tax = None \<and> i \<noteq> '''' \<and> f = None")
  case True
  assume "represents st m"
  with True have "represents (SetRemove (topic_key Package_Side tax i) ts st) (m((Package_Side, tax, i) := m (Package_Side, tax, i) - set ts))"
    by (intro represents_remove) auto
  with True \<open>represents st m\<close> show ?thesis
    by (cases "ts = []") (auto simp: topic_writes simp del: topic_key.simps)
next
  case False
  assume "represents st m"
  with False show ?thesis by (cases f) (auto simp: topic_writes split: option.splits simp del: topic_key.simps)
qed

lemma represents_delete_op:
  "represents st m \<Longrightarrow> represents (fst (run_op (OpRemove sd tax i f) st)) (spec_op (OpRemove sd tax i f) m)"
  using represents_del [of st m tax sd i]
  by (cases sd; cases f; cases "Taxonomy_Validate tax") (auto simp: topic_writes simp del: topic_key.simps)

lemma represents_op: "represents st m \<Longrightarrow> represents (fst (run_op op st)) (spec_op op m)"
  by (cases op)
    (simp_all only: represents_add_op represents_remove_op represents_delete_op,
     auto simp: represents_invalid represents_set represents_batch simp del: run_op.simps)

lemma represents_ops: "represents st m \<Longrightarrow> represents (run_ops ops st) (fold spec_op ops m)"
  unfolding run_ops_def by (induction ops arbitrary: st m) (simp_all add: represents_op)

lemma represents_empty: "represents kv_empty (\<lambda>_. {})"
  by (simp add: represents_def kv_empty_def SetMembers_def)

text \<open>C26: whatever sequence of writes ran, with failing accesses and partial batches among them, the readers answer
  what a map from side, taxonomy and id to sets of topics holds after the same operations: an operation
  on one artifact or package under one taxonomy never shows under another one, a replacement that failed
  between its two writes leaves no topics, and the intersection is that of the two sets.\<close>

theorem topics_refine:
  assumes "Taxonomy_Validate tax = None" "ref \<noteq> ''''" "pkgID \<noteq> ''''"
  shows "(\<exists>ts. ArtifactTopics None tax ref (run_ops ops kv_empty) = Inr ts \<and> set ts = fold spec_op ops (\<lambda>_. {}) (Artifact_Side, tax, ref)) \<and>
    (\<exists>ts. PackageTopics None tax pkgID (run_ops ops kv_empty) = Inr ts \<and> set ts = fold spec_op ops (\<lambda>_. {}) (Package_Side, tax, pkgID)) \<and>
    (\<exists>ts. IntersectArtifactPackage None tax pkgID ref (run_ops ops kv_empty) = Inr ts \<and>
       set ts = fold spec_op ops (\<lambda>_. {}) (Package_Side, tax, pkgID) \<inter> fold spec_op ops (\<lambda>_. {}) (Artifact_Side, tax, ref))"
proof -
  note rep = represents_ops [OF represents_empty, of ops, THEN representsD, OF assms(1)]
  from rep [OF assms(2), of Artifact_Side] rep [OF assms(3), of Package_Side] assms show ?thesis
    by (simp add: ArtifactTopics_def PackageTopics_def IntersectArtifactPackage_def artifact_guard_def package_guard_def
        reading_def SetIntersect_two)
qed

definition topics_history :: "taxonomy \<Rightarrow> topic_op list" where
  "topics_history tax =
     [OpBatch Artifact_Side tax [(''u'', [''1'', ''2''], None, None), ('''', [''9''], None, None), (''v'', [''3''], None, None)],
      OpAdd Package_Side tax ''p'' [''2'', ''3''] None, OpSet Package_Side tax ''q'' [''2''] None (Some ''down''),
      OpRemoveTopics tax ''p'' [''3''] None]"

lemma iab_valid: "Taxonomy_Validate \<lparr>tax_source = ''iab'', tax_id = 7\<rparr> = None"
  by code_simp

theorem topics_refine_witness:
  "(\<exists>ts. PackageTopics None \<lparr>tax_source = ''iab'', tax_id = 7\<rparr> ''p''
      (run_ops (topics_history \<lparr>tax_source = ''iab'', tax_id = 7\<rparr>) kv_empty) = Inr ts \<and> set ts = {''2''}) \<and>
   (\<exists>ts. IntersectArtifactPackage None \<lparr>tax_source = ''iab'', tax_id = 7\<rparr> ''p'' ''u''
      (run_ops (topics_history \<lparr>tax_source = ''iab'', tax_id = 7\<rparr>) kv_empty) = Inr ts \<and> set ts = {''2''})"
  using topics_refine [OF iab_valid, of "''u''" "''p''" "topics_history \<lparr>tax_source = ''iab'', tax_id = 7\<rparr>"]
  by (simp add: topics_history_def spec_set_def iab_valid insert_Diff_if)

end
