(* ===== verification/Context_Engine.thy ===== *)
theory Context_Engine
  imports Package_Configs Topic_Store
begin

text \<open>
  The context-match engine, \<^verbatim>\<open>src/targeting/engine.go\<close> with \<^verbatim>\<open>context_storage.go\<close> and the signal stage of
  \<^verbatim>\<open>engine_signals.go\<close>. The storage is a record of the answers of one request, errors included; the context is the
  record of what the checks of its error see. URL canonicalisation, the URL hash and the clock are fields of the
  engine. Metrics and logs are not modelled. The main results: with healthy storage the offers are exactly those
  of the candidates that pass every gate; whatever fails, an offer comes only from a candidate with proof.
\<close>

section \<open>Storage and engine\<close>

text \<open>\<^verbatim>\<open>ContextStorage\<close>; the batched read is optional.\<close>

record context_storage =
  es_ActivePackages :: "string \<Rightarrow> string \<Rightarrow> string \<Rightarrow> string \<Rightarrow> int \<Rightarrow> string list result"
  es_ContextConfig :: "string \<Rightarrow> package_config option result"
  es_ContextConfigs :: "(string list \<Rightarrow> package_config option list result) option"
  es_ArtifactTopics :: "taxonomy \<Rightarrow> string \<Rightarrow> string list result"
  es_PackageTopics :: "taxonomy \<Rightarrow> string \<Rightarrow> string list result"
  es_IsPropertySuppressed :: "string \<Rightarrow> string \<Rightarrow> bool result"
  es_IsGeoSuppressed :: "string \<Rightarrow> string \<Rightarrow> bool result"
  es_SignalMGet :: "string list \<Rightarrow> string list result"

record engine =
  en_provider :: string
  en_properties :: property_list
  en_storage :: context_storage
  en_accepted :: "taxonomy list"
  en_now :: int
  en_Canonicalize :: "string \<Rightarrow> string result"
  en_HashURL :: "string \<Rightarrow> string"

definition acceptsTaxonomy :: "engine \<Rightarrow> taxonomy \<Rightarrow> bool" where
  "acceptsTaxonomy e tax \<longleftrightarrow> tax \<in> set (en_accepted e)"

text \<open>\<^verbatim>\<open>ctx.Err()\<close> at the start, after a failed listing, before each single read of a config and before each candidate.\<close>

record ctx_checks =
  cx_start :: "string option"
  cx_active :: "string option"
  cx_preload :: "nat \<Rightarrow> string option"
  cx_loop :: "nat \<Rightarrow> string option"

record context_result =
  rs_request_id :: string
  rs_offers :: "offer list"
  rs_signals :: signals

text \<open>An index past a misaligned batch panics.\<close>

datatype eval_error = CtxErr string | IndexPanic

section \<open>The request\<close>

definition taxonomy_of :: "context_signals \<Rightarrow> taxonomy" where
  "taxonomy_of sigs = \<lparr>tax_source = taxonomy_source sigs, tax_id = taxonomy_id sigs\<rparr>"

definition publisherTopicsByTaxonomy :: "engine \<Rightarrow> context_request \<Rightarrow> (taxonomy \<times> string list) list" where
  "publisherTopicsByTaxonomy e req =
     (case cm_context_signals req of
        None \<Rightarrow> []
      | Some sigs \<Rightarrow>
          if topics sigs = [] then []
          else if \<not> acceptsTaxonomy e (taxonomy_of sigs) then []
          else [(taxonomy_of sigs, topics sigs)])"

definition extractArtifactKeys :: "context_request \<Rightarrow> string list" where
  "extractArtifactKeys req = map ref_value (filter (\<lambda>r. ref_type r = ''url'' \<or> ref_type r = ''url_hash'') (cm_artifact_refs req))"

definition haveTopicSource :: "context_request \<Rightarrow> bool" where
  "haveTopicSource req \<longleftrightarrow> extractArtifactKeys req \<noteq> [] \<or>
     (case cm_context_signals req of None \<Rightarrow> False | Some sigs \<Rightarrow> topics sigs \<noteq> [])"

definition candidateSet :: "string list \<Rightarrow> string list \<Rightarrow> string list" where
  "candidateSet activeIDs requested = (if requested = [] then activeIDs else filter (\<lambda>i. i \<in> set activeIDs) requested)"

definition hasOverlap :: "string list \<Rightarrow> string list \<Rightarrow> bool" where
  "hasOverlap a b \<longleftrightarrow> list_ex (\<lambda>x. x \<in> set b) a"

section \<open>The gates of one package\<close>

definition matchesPropertyBitmap :: "engine \<Rightarrow> package_config \<Rightarrow> string \<Rightarrow> string \<Rightarrow> bool" where
  "matchesPropertyBitmap e c rid pkgID \<longleftrightarrow>
     (if \<not> ContainsPropertyRID c rid then False else ContainsPackage (en_properties e) pkgID rid)"

fun check_publisher :: "context_storage \<Rightarrow> string \<Rightarrow> (taxonomy \<times> string list) list \<Rightarrow> bool result" where
  "check_publisher s pkgID [] = Inr False"
| "check_publisher s pkgID ((tax, pub) # rest) =
     (case es_PackageTopics s tax pkgID of
        Inl err \<Rightarrow> Inl err
      | Inr pkgTopics \<Rightarrow>
          if pkgTopics = [] then check_publisher s pkgID rest
          else if hasOverlap pkgTopics pub then Inr True
          else check_publisher s pkgID rest)"

text \<open>The two nested loops, over the pairs of an artifact and an accepted taxonomy.\<close>

fun check_artifacts :: "context_storage \<Rightarrow> string \<Rightarrow> (string \<times> taxonomy) list \<Rightarrow> bool result" where
  "check_artifacts s pkgID [] = Inr False"
| "check_artifacts s pkgID ((artifact, tax) # rest) =
     (case es_ArtifactTopics s tax artifact of
        Inl err \<Rightarrow> Inl err
      | Inr artTopics \<Rightarrow>
          if artTopics = [] then check_artifacts s pkgID rest
          else case es_PackageTopics s tax pkgID of
              Inl err \<Rightarrow> Inl err
            | Inr pkgTopics \<Rightarrow>
                if pkgTopics = [] then check_artifacts s pkgID rest
                else if hasOverlap pkgTopics artTopics then Inr True
                else check_artifacts s pkgID rest)"

definition checkTopicMatch :: "engine \<Rightarrow> string \<Rightarrow> string list \<Rightarrow> (taxonomy \<times> string list) list \<Rightarrow> bool result" where
  "checkTopicMatch e pkgID artifacts pub =
     (case check_publisher (en_storage e) pkgID pub of
        Inl err \<Rightarrow> Inl err
      | Inr True \<Rightarrow> Inr True
      | Inr False \<Rightarrow> check_artifacts (en_storage e) pkgID (List.product artifacts (en_accepted e)))"

definition topicsPass :: "engine \<Rightarrow> context_request \<Rightarrow> package_config \<Rightarrow> string \<Rightarrow> bool" where
  "topicsPass e req c pkgID \<longleftrightarrow>
     (if \<not> pg_topic_targets c then True
      else if en_accepted e = [] then False
      else if haveTopicSource req then
        (case checkTopicMatch e pkgID (extractArtifactKeys req) (publisherTopicsByTaxonomy e req) of Inl err \<Rightarrow> False | Inr matched \<Rightarrow> matched)
      else True)"

section \<open>Offers\<close>

text \<open>The zero price: an amount whose number has no nonzero digit before its exponent, no currency, no model. (A number
  that only underflows to zero counts as nonzero here.)\<close>

definition zero_number :: "string \<Rightarrow> bool" where
  "zero_number s \<longleftrightarrow> list_all (\<lambda>c. c \<notin> set ''123456789'') (takeWhile (\<lambda>c. c \<noteq> CHR ''e'' \<and> c \<noteq> CHR ''E'') s)"

definition offerPricePtr :: "offer_price \<Rightarrow> offer_price option" where
  "offerPricePtr p = (if zero_number (price_amount p) \<and> price_currency p = '''' \<and> price_model p = '''' then None else Some p)"

definition strings_of :: "strings option \<Rightarrow> (string \<times> string) list" where
  "strings_of m = (case m of None \<Rightarrow> [] | Some xs \<Rightarrow> xs)"

definition buildOffersFromContextConfig :: "string \<Rightarrow> package_config \<Rightarrow> offer list" where
  "buildOffersFromContextConfig pkgID c =
     (if pg_offers c \<noteq> [] then
        map (\<lambda>x. \<lparr>package_id = pkgID, seller_agent = None, brand = oc_brand x, price = offerPricePtr (oc_price x), summary = oc_summary x,
          creative_manifest = None, creative_data = strings_of (oc_creative_data x)\<rparr>) (pg_offers c)
      else
        [\<lparr>package_id = pkgID, seller_agent = None, brand = pg_brand c, price = offerPricePtr (pg_price c), summary = pg_summary c,
          creative_manifest = pg_creative_manifest c, creative_data = strings_of (pg_creative_data c)\<rparr>])"

section \<open>Evaluation\<close>

definition hasAnySignalProfile :: "package_config option list \<Rightarrow> bool" where
  "hasAnySignalProfile configs \<longleftrightarrow> list_ex (\<lambda>c. case c of None \<Rightarrow> False | Some c \<Rightarrow> \<not> IsEmpty (pg_context_signals c)) configs"

text \<open>One by one: a context that is done leaves the rest nil, an error or a missing config leaves nil.\<close>

fun preload_each :: "(nat \<Rightarrow> string option) \<Rightarrow> (string \<Rightarrow> package_config option result) \<Rightarrow> nat \<Rightarrow> string list \<Rightarrow> package_config option list" where
  "preload_each ctx get i [] = []"
| "preload_each ctx get i (p # ps) =
     (case ctx i of
        Some err \<Rightarrow> replicate (length (p # ps)) None
      | None \<Rightarrow> (case get p of Inl err \<Rightarrow> None | Inr c \<Rightarrow> c) # preload_each ctx get (Suc i) ps)"

definition preloadContextConfigs :: "engine \<Rightarrow> ctx_checks \<Rightarrow> string list \<Rightarrow> package_config option list" where
  "preloadContextConfigs e cx ids =
     (if ids = [] then []
      else case es_ContextConfigs (en_storage e) of
          Some batch \<Rightarrow> (case batch ids of Inl err \<Rightarrow> replicate (length ids) None | Inr configs \<Rightarrow> configs)
        | None \<Rightarrow> preload_each (cx_preload cx) (es_ContextConfig (en_storage e)) 0 ids)"

definition profile_of :: "package_config option \<Rightarrow> profile option" where
  "profile_of c = (case c of None \<Rightarrow> None | Some c \<Rightarrow> pg_context_signals c)"

text \<open>The body of the loop over the candidates.\<close>

fun eval_loop ::
  "(nat \<Rightarrow> string option) \<Rightarrow> (string \<Rightarrow> package_config \<Rightarrow> bool) \<Rightarrow> package_config option list \<Rightarrow> nat \<Rightarrow> string list \<Rightarrow>
   offer list \<Rightarrow> string list \<Rightarrow> eval_error + offer list \<times> string list" where
  "eval_loop ctx gates configs i [] offers segments = Inr (offers, segments)"
| "eval_loop ctx gates configs i (p # ps) offers segments =
     (case ctx i of
        Some err \<Rightarrow> Inl (CtxErr err)
      | None \<Rightarrow>
          if length configs \<le> i then Inl IndexPanic
          else case configs ! i of
              None \<Rightarrow> eval_loop ctx gates configs (Suc i) ps offers segments
            | Some c \<Rightarrow>
                if gates p c
                then eval_loop ctx gates configs (Suc i) ps (offers @ buildOffersFromContextConfig p c) (segments @ pg_emit_segments c)
                else eval_loop ctx gates configs (Suc i) ps offers segments)"

text \<open>The three gates in their order; the signal data are read once for all candidates.\<close>

definition package_gates :: "engine \<Rightarrow> context_request \<Rightarrow> lookup_data \<Rightarrow> fetched result \<Rightarrow> string \<Rightarrow> package_config \<Rightarrow> bool" where
  "package_gates e req data fetch pkgID c \<longleftrightarrow>
     (if \<not> matchesPropertyBitmap e c (cm_property_rid req) pkgID then False
      else if \<not> signalsPass (pg_context_signals c) data fetch then False
      else topicsPass e req c pkgID)"

definition Evaluate :: "engine \<Rightarrow> ctx_checks \<Rightarrow> context_request \<Rightarrow> eval_error + context_result" where
  "Evaluate e cx req =
     (case cx_start cx of
        Some err \<Rightarrow> Inl (CtxErr err)
      | None \<Rightarrow>
          let s = en_storage e;
              rid = cm_property_rid req;
              nothing = Inr \<lparr>rs_request_id = cm_request_id req, rs_offers = [], rs_signals = []\<rparr>;
              country = str_at (cm_geo req) ''country'' in
          if \<not> ContainsGlobal (en_properties e) rid then nothing
          else if es_IsPropertySuppressed s (en_provider e) rid = Inr True then nothing
          else if country \<noteq> '''' \<and> es_IsGeoSuppressed s (en_provider e) country = Inr True then nothing
          else case (if cm_seller_agent_url req \<noteq> '''' then en_Canonicalize e (cm_seller_agent_url req) else Inr '''') of
              Inl err \<Rightarrow> nothing
            | Inr seller \<Rightarrow>
                (case es_ActivePackages s seller (cm_property_id req) country (cm_placement_id req) (en_now e) of
                   Inl err \<Rightarrow> (case cx_active cx of Some err \<Rightarrow> Inl (CtxErr err) | None \<Rightarrow> nothing)
                 | Inr active \<Rightarrow>
                     let cands = candidateSet active (cm_package_ids req) in
                     if cands = [] then nothing
                     else
                       let configs = preloadContextConfigs e cx cands;
                           anyProfile = hasAnySignalProfile configs;
                           data = (if anyProfile then extractSignalLookupData (en_HashURL e) (en_accepted e) req country else []);
                           fetch = (if anyProfile then fetchSignalsForCandidates (es_SignalMGet s) (map profile_of configs) data
                                    else Inr Map.empty) in
                       case eval_loop (cx_loop cx) (package_gates e req data fetch) configs 0 cands [] [] of
                         Inl err \<Rightarrow> Inl err
                       | Inr (offers, segments) \<Rightarrow>
                           Inr \<lparr>rs_request_id = cm_request_id req, rs_offers = offers,
                             rs_signals = (if segments = [] then [] else [(''segments'', SStrings segments)])\<rparr>))"

section \<open>The loop\<close>

definition served :: "(string \<Rightarrow> package_config \<Rightarrow> bool) \<Rightarrow> string \<Rightarrow> package_config option \<Rightarrow> offer list" where
  "served gates p c = (case c of None \<Rightarrow> [] | Some c \<Rightarrow> if gates p c then buildOffersFromContextConfig p c else [])"

definition emitted :: "(string \<Rightarrow> package_config \<Rightarrow> bool) \<Rightarrow> string \<Rightarrow> package_config option \<Rightarrow> string list" where
  "emitted gates p c = (case c of None \<Rightarrow> [] | Some c \<Rightarrow> if gates p c then pg_emit_segments c else [])"

lemma eval_loop_result:
  assumes "\<And>k. ctx k = None" "length configs = i + length ps"
  shows "eval_loop ctx gates configs i ps os ss =
    Inr (os @ concat (map2 (served gates) ps (drop i configs)), ss @ concat (map2 (emitted gates) ps (drop i configs)))"
  using assms(2)
proof (induction ps arbitrary: i os ss)
  case (Cons p ps)
  then have "drop i configs = configs ! i # drop (Suc i) configs" by (simp add: Cons_nth_drop_Suc)
  with Cons show ?case by (auto simp: assms(1) served_def emitted_def split: option.split)
qed simp

lemma eval_loop_sound:
  "eval_loop ctx gates configs i ps os ss = Inr (os', ss') \<Longrightarrow> x \<in> set os' \<Longrightarrow>
   x \<in> set os \<or> (\<exists>k c. k < length ps \<and> i + k < length configs \<and> configs ! (i + k) = Some c \<and> gates (ps ! k) c \<and>
     x \<in> set (buildOffersFromContextConfig (ps ! k) c))"
proof (induction ps arbitrary: i os ss)
  case (Cons p ps)
  have ctx: "ctx i = None" and len: "i < length configs"
    using Cons.prems(1) by (auto split: option.splits if_splits)
  have shift: "x \<in> set os \<or> (\<exists>k c. k < length (p # ps) \<and> i + k < length configs \<and> configs ! (i + k) = Some c \<and> gates ((p # ps) ! k) c \<and>
      x \<in> set (buildOffersFromContextConfig ((p # ps) ! k) c))"
    if "x \<in> set os \<or> (\<exists>k c. k < length ps \<and> Suc i + k < length configs \<and> configs ! (Suc i + k) = Some c \<and> gates (ps ! k) c \<and>
      x \<in> set (buildOffersFromContextConfig (ps ! k) c))"
    using that
  proof (elim disjE exE)
    fix k c assume "k < length ps \<and> Suc i + k < length configs \<and> configs ! (Suc i + k) = Some c \<and> gates (ps ! k) c \<and>
      x \<in> set (buildOffersFromContextConfig (ps ! k) c)"
    then show ?thesis by (intro disjI2 exI [of _ "Suc k"] exI [of _ c]) simp
  qed simp
  consider "configs ! i = None" | c where "configs ! i = Some c" "\<not> gates p c" | c where "configs ! i = Some c" "gates p c"
    by (cases "configs ! i") auto
  then show ?case
  proof cases
    case (3 c)
    with Cons.prems(1) ctx len
    have "eval_loop ctx gates configs (Suc i) ps (os @ buildOffersFromContextConfig p c) (ss @ pg_emit_segments c) = Inr (os', ss')"
      by simp
    from Cons.IH [OF this Cons.prems(2)]
    consider "x \<in> set os" | "x \<in> set (buildOffersFromContextConfig p c)"
      | k c where "k < length ps" "Suc i + k < length configs" "configs ! (Suc i + k) = Some c" "gates (ps ! k) c"
          "x \<in> set (buildOffersFromContextConfig (ps ! k) c)"
      by auto
    then show ?thesis
    proof cases
      case 2
      with 3 len show ?thesis by (intro disjI2 exI [of _ 0] exI [of _ c]) simp
    next
      case (3 k c)
      then show ?thesis by (intro disjI2 exI [of _ "Suc k"] exI [of _ c]) simp
    qed simp
  next
    case 1
    with Cons.prems(1) ctx len have "eval_loop ctx gates configs (Suc i) ps os ss = Inr (os', ss')" by simp
    from shift [OF Cons.IH [OF this Cons.prems(2)]] show ?thesis .
  next
    case (2 c)
    with Cons.prems(1) ctx len have "eval_loop ctx gates configs (Suc i) ps os ss = Inr (os', ss')" by simp
    from shift [OF Cons.IH [OF this Cons.prems(2)]] show ?thesis .
  qed
qed simp

section \<open>Topics\<close>

definition overlap_read :: "context_storage \<Rightarrow> taxonomy \<Rightarrow> string \<Rightarrow> string list \<Rightarrow> bool" where
  "overlap_read s tax pkgID ts \<longleftrightarrow> (\<exists>pt. es_PackageTopics s tax pkgID = Inr pt \<and> set pt \<inter> set ts \<noteq> {})"

definition topic_proof :: "engine \<Rightarrow> context_request \<Rightarrow> string \<Rightarrow> bool" where
  "topic_proof e req pkgID \<longleftrightarrow>
     (\<exists>sigs. cm_context_signals req = Some sigs \<and> acceptsTaxonomy e (taxonomy_of sigs) \<and>
        overlap_read (en_storage e) (taxonomy_of sigs) pkgID (topics sigs)) \<or>
     (\<exists>r\<in>set (extractArtifactKeys req). \<exists>tax\<in>set (en_accepted e). \<exists>ts. es_ArtifactTopics (en_storage e) tax r = Inr ts \<and>
        overlap_read (en_storage e) tax pkgID ts)"

lemma hasOverlap_iff: "hasOverlap a b \<longleftrightarrow> set a \<inter> set b \<noteq> {}"
  by (auto simp: hasOverlap_def list_ex_iff)

lemma check_publisher_sound:
  "check_publisher s pkgID ps = Inr True \<Longrightarrow> \<exists>(tax, ts)\<in>set ps. overlap_read s tax pkgID ts"
  by (induction s pkgID ps rule: check_publisher.induct)
    (fastforce simp: overlap_read_def hasOverlap_iff split: sum.splits if_splits)+

lemma check_artifacts_sound:
  "check_artifacts s pkgID ps = Inr True \<Longrightarrow> \<exists>(r, tax)\<in>set ps. \<exists>ts. es_ArtifactTopics s tax r = Inr ts \<and> overlap_read s tax pkgID ts"
  by (induction s pkgID ps rule: check_artifacts.induct)
    (fastforce simp: overlap_read_def hasOverlap_iff split: sum.splits if_splits)+

lemma publisher_topics_set:
  "(tax, ts) \<in> set (publisherTopicsByTaxonomy e req) \<longleftrightarrow>
     (\<exists>sigs. cm_context_signals req = Some sigs \<and> ts = topics sigs \<and> topics sigs \<noteq> [] \<and> tax = taxonomy_of sigs \<and> acceptsTaxonomy e tax)"
  by (cases "cm_context_signals req") (auto simp: publisherTopicsByTaxonomy_def)

lemma topicsPass_sound:
  "topicsPass e req c pkgID \<Longrightarrow> pg_topic_targets c \<Longrightarrow> en_accepted e \<noteq> [] \<and> (haveTopicSource req \<longrightarrow> topic_proof e req pkgID)"
  by (auto simp: topicsPass_def checkTopicMatch_def topic_proof_def publisher_topics_set
      dest!: check_publisher_sound check_artifacts_sound split: if_splits sum.splits bool.splits)

text \<open>With every read of the request's artifacts and of the package under the accepted taxonomies answered, the two
  loops decide the existence of a proof.\<close>

definition topics_answered :: "engine \<Rightarrow> context_request \<Rightarrow> string \<Rightarrow> bool" where
  "topics_answered e req p \<longleftrightarrow>
     (\<forall>tax\<in>set (en_accepted e). (\<exists>ts. es_PackageTopics (en_storage e) tax p = Inr ts) \<and>
        (\<forall>r\<in>set (extractArtifactKeys req). \<exists>ts. es_ArtifactTopics (en_storage e) tax r = Inr ts))"

lemma check_publisher_exact:
  "\<forall>(tax, ts)\<in>set ps. \<exists>pt. es_PackageTopics s tax pkgID = Inr pt \<Longrightarrow>
   check_publisher s pkgID ps = Inr (\<exists>(tax, ts)\<in>set ps. overlap_read s tax pkgID ts)"
proof (induction s pkgID ps rule: check_publisher.induct)
  case (2 s pkgID tax pub rest)
  from 2(3) obtain pt where "es_PackageTopics s tax pkgID = Inr pt" by auto
  with 2 show ?case by (auto simp: overlap_read_def hasOverlap_iff)
qed simp

lemma check_artifacts_exact:
  "\<forall>(r, tax)\<in>set ps. (\<exists>at. es_ArtifactTopics s tax r = Inr at) \<and> (\<exists>pt. es_PackageTopics s tax pkgID = Inr pt) \<Longrightarrow>
   check_artifacts s pkgID ps =
     Inr (\<exists>(r, tax)\<in>set ps. \<exists>ts. es_ArtifactTopics s tax r = Inr ts \<and> overlap_read s tax pkgID ts)"
proof (induction s pkgID ps rule: check_artifacts.induct)
  case (2 s pkgID r tax rest)
  from 2(4) obtain pt at where "es_PackageTopics s tax pkgID = Inr pt" "es_ArtifactTopics s tax r = Inr at" by auto
  with 2 show ?case by (auto simp: overlap_read_def hasOverlap_iff)
qed simp

lemma topicsPass_exact:
  assumes "pg_topic_targets c \<Longrightarrow> topics_answered e req pkgID"
  shows "topicsPass e req c pkgID \<longleftrightarrow>
    (pg_topic_targets c \<longrightarrow> en_accepted e \<noteq> [] \<and> (haveTopicSource req \<longrightarrow> topic_proof e req pkgID))"
proof (cases "pg_topic_targets c")
  case True
  let ?s = "en_storage e"
  have "overlap_read ?s tax pkgID [] = False" for tax by (simp add: overlap_read_def)
  then have pub: "(\<exists>(tax, ts)\<in>set (publisherTopicsByTaxonomy e req). overlap_read ?s tax pkgID ts) \<longleftrightarrow>
      (\<exists>sigs. cm_context_signals req = Some sigs \<and> acceptsTaxonomy e (taxonomy_of sigs) \<and> overlap_read ?s (taxonomy_of sigs) pkgID (topics sigs))"
    by (auto simp: publisher_topics_set Bex_def; metis)
  have "check_publisher ?s pkgID (publisherTopicsByTaxonomy e req) =
      Inr (\<exists>(tax, ts)\<in>set (publisherTopicsByTaxonomy e req). overlap_read ?s tax pkgID ts)"
    by (rule check_publisher_exact) (use assms [OF True] in \<open>auto simp: topics_answered_def publisher_topics_set acceptsTaxonomy_def\<close>)
  moreover have "check_artifacts ?s pkgID (List.product (extractArtifactKeys req) (en_accepted e)) =
      Inr (\<exists>(r, tax)\<in>set (List.product (extractArtifactKeys req) (en_accepted e)).
        \<exists>ts. es_ArtifactTopics ?s tax r = Inr ts \<and> overlap_read ?s tax pkgID ts)"
    by (rule check_artifacts_exact) (use assms [OF True] in \<open>auto simp: topics_answered_def\<close>)
  ultimately show ?thesis
    by (auto simp: topicsPass_def checkTopicMatch_def topic_proof_def pub split: bool.splits)
qed (simp add: topicsPass_def)

section \<open>What an evaluation answers\<close>

definition req_country :: "context_request \<Rightarrow> string" where
  "req_country req = str_at (cm_geo req) ''country''"

text \<open>The request is not stopped before the listing; \<open>seller\<close> is the canonical seller.\<close>

definition open_request :: "engine \<Rightarrow> context_request \<Rightarrow> string \<Rightarrow> bool" where
  "open_request e req seller \<longleftrightarrow>
     ContainsGlobal (en_properties e) (cm_property_rid req) \<and>
     es_IsPropertySuppressed (en_storage e) (en_provider e) (cm_property_rid req) \<noteq> Inr True \<and>
     (req_country req = '''' \<or> es_IsGeoSuppressed (en_storage e) (en_provider e) (req_country req) \<noteq> Inr True) \<and>
     (if cm_seller_agent_url req = '''' then seller = '''' else en_Canonicalize e (cm_seller_agent_url req) = Inr seller)"

definition listing :: "engine \<Rightarrow> context_request \<Rightarrow> string \<Rightarrow> string list result" where
  "listing e req seller =
     es_ActivePackages (en_storage e) seller (cm_property_id req) (req_country req) (cm_placement_id req) (en_now e)"

definition request_data :: "engine \<Rightarrow> context_request \<Rightarrow> lookup_data" where
  "request_data e req = extractSignalLookupData (en_HashURL e) (en_accepted e) req (req_country req)"

text \<open>The config of a candidate as the storage answered it.\<close>

definition config_read :: "context_storage \<Rightarrow> string \<Rightarrow> package_config \<Rightarrow> bool" where
  "config_read s p c \<longleftrightarrow>
     (case es_ContextConfigs s of
        None \<Rightarrow> es_ContextConfig s p = Inr (Some c)
      | Some batch \<Rightarrow> \<exists>ids cs k. batch ids = Inr cs \<and> k < length ids \<and> ids ! k = p \<and> k < length cs \<and> cs ! k = Some c)"

lemma preload_each_nth:
  "k < length ps \<Longrightarrow> preload_each ctx get i ps ! k = Some c \<Longrightarrow> get (ps ! k) = Inr (Some c)"
proof (induction ps arbitrary: i k)
  case (Cons p ps)
  then show ?case by (cases k) (auto split: option.splits sum.splits simp: nth_Cons')
qed simp

lemma preload_each_length [simp]: "length (preload_each ctx get i ps) = length ps"
  by (induction ps arbitrary: i) (auto split: option.split)

lemma preload_read:
  assumes "k < length ids" "k < length (preloadContextConfigs e cx ids)" "preloadContextConfigs e cx ids ! k = Some c"
  shows "config_read (en_storage e) (ids ! k) c"
proof (cases "es_ContextConfigs (en_storage e)")
  case None
  with assms show ?thesis by (auto simp: preloadContextConfigs_def config_read_def dest: preload_each_nth split: if_splits)
next
  case (Some batch)
  with assms obtain cs where "batch ids = Inr cs" "preloadContextConfigs e cx ids = cs"
    by (auto simp: preloadContextConfigs_def split: if_splits sum.splits)
  with Some assms show ?thesis by (auto simp: config_read_def)
qed

text \<open>The package has no profile, or its profile accepts by values the signal store answered for the profile's
  own keys.\<close>

definition signal_proof :: "engine \<Rightarrow> context_request \<Rightarrow> package_config \<Rightarrow> bool" where
  "signal_proof e req c \<longleftrightarrow> IsEmpty (pg_context_signals c) \<or>
     read_accepts (es_SignalMGet (en_storage e)) (pg_context_signals c) (request_data e req)"

lemma Evaluate_open:
  assumes "Evaluate e cx req = Inr r" "rs_offers r \<noteq> []"
  obtains seller active cands configs data fetch where
    "open_request e req seller" "listing e req seller = Inr active" "cands = candidateSet active (cm_package_ids req)"
    "configs = preloadContextConfigs e cx cands" "data = (if hasAnySignalProfile configs then request_data e req else [])"
    "fetch = (if hasAnySignalProfile configs then fetchSignalsForCandidates (es_SignalMGet (en_storage e)) (map profile_of configs) data
       else Inr Map.empty)"
    "\<exists>segments. eval_loop (cx_loop cx) (package_gates e req data fetch) configs 0 cands [] [] = Inr (rs_offers r, segments)"
  using assms
  by (auto simp: Evaluate_def open_request_def listing_def request_data_def req_country_def Let_def
      split: option.splits sum.splits if_splits prod.splits)

lemma built_package_id: "x \<in> set (buildOffersFromContextConfig p c) \<Longrightarrow> package_id x = p"
  by (auto simp: buildOffersFromContextConfig_def split: if_splits)

lemma candidate_iff: "p \<in> set (candidateSet active ids) \<longleftrightarrow> p \<in> set active \<and> (ids = [] \<or> p \<in> set ids)"
  by (auto simp: candidateSet_def)

lemma has_profile: "Some c \<in> set configs \<Longrightarrow> \<not> IsEmpty (pg_context_signals c) \<Longrightarrow> hasAnySignalProfile configs"
  by (force simp: hasAnySignalProfile_def list_ex_iff)

text \<open>Whatever the storage and the context do, an offer comes only from a package that the storage listed as active for
  the canonical seller, that the request did not exclude, whose property is handled and not known to be
  suppressed, whose stored config admits the property, whose signal profile, if it has one, accepts by values that were read for its keys,
  and which, when it targets topics, shares a topic of an accepted taxonomy with the request or its artifacts
  by answers that were read; it is built from that config and carries that package id.\<close>

lemma offers_sound:
  assumes "Evaluate e cx req = Inr r" "x \<in> set (rs_offers r)"
  shows "\<exists>seller active c. open_request e req seller \<and> listing e req seller = Inr active \<and> package_id x \<in> set active \<and>
    (cm_package_ids req = [] \<or> package_id x \<in> set (cm_package_ids req)) \<and>
    config_read (en_storage e) (package_id x) c \<and> x \<in> set (buildOffersFromContextConfig (package_id x) c) \<and>
    ContainsPropertyRID c (cm_property_rid req) \<and> ContainsPackage (en_properties e) (package_id x) (cm_property_rid req) \<and>
    signal_proof e req c \<and>
    (pg_topic_targets c \<longrightarrow> en_accepted e \<noteq> [] \<and> (haveTopicSource req \<longrightarrow> topic_proof e req (package_id x)))"
proof -
  from assms(2) have "rs_offers r \<noteq> []" by auto
  from Evaluate_open [OF assms(1) this] obtain seller active cands configs data fetch segments where
    o: "open_request e req seller" "listing e req seller = Inr active" "cands = candidateSet active (cm_package_ids req)"
    "configs = preloadContextConfigs e cx cands" "data = (if hasAnySignalProfile configs then request_data e req else [])"
    "fetch = (if hasAnySignalProfile configs then fetchSignalsForCandidates (es_SignalMGet (en_storage e)) (map profile_of configs) data
       else Inr Map.empty)"
    "eval_loop (cx_loop cx) (package_gates e req data fetch) configs 0 cands [] [] = Inr (rs_offers r, segments)"
    by metis
  from eval_loop_sound [OF o(7) assms(2)] obtain k c where k: "k < length cands" "k < length configs" "configs ! k = Some c"
    "package_gates e req data fetch (cands ! k) c" "x \<in> set (buildOffersFromContextConfig (cands ! k) c)"
    by auto
  have p: "package_id x = cands ! k" using built_package_id [OF k(5)] .
  have "signal_proof e req c"
  proof (cases "IsEmpty (pg_context_signals c)")
    case False
    with k(2,3) have "hasAnySignalProfile configs" by (metis has_profile nth_mem)
    with False k(4) o(5,6) obtain got where
      got: "fetchSignalsForCandidates (es_SignalMGet (en_storage e)) (map profile_of configs) (request_data e req) = Inr got"
        "MatchProfile (pg_context_signals c) (request_data e req) got = Inr True"
      unfolding package_gates_def signalsPass_def by (auto split: if_splits sum.splits)
    have "profile_of (configs ! k) \<in> set (map profile_of configs)" using k(2) by simp
    then have "pg_context_signals c \<in> set (map profile_of configs)" by (simp add: k(3) profile_of_def)
    from fetch_reads [OF got(1) this False got(2)] show ?thesis by (simp add: signal_proof_def)
  qed (simp add: signal_proof_def)
  moreover have "config_read (en_storage e) (cands ! k) c" using preload_read [of k cands e cx c] k(1-3) o(4) by simp
  moreover have "cands ! k \<in> set cands" using k(1) by simp
  then have "package_id x \<in> set active \<and> (cm_package_ids req = [] \<or> package_id x \<in> set (cm_package_ids req))"
    unfolding p o(3) candidate_iff .
  ultimately show ?thesis
    using o(1,2) k(4,5) p topicsPass_sound [of e req c "cands ! k"]
    by (auto simp: package_gates_def matchesPropertyBitmap_def split: if_splits intro!: exI [of _ seller] exI [of _ active] exI [of _ c])
qed

section \<open>Exactness with healthy storage\<close>

definition configs_answered :: "engine \<Rightarrow> (string \<Rightarrow> package_config option) \<Rightarrow> bool" where
  "configs_answered e cfg_of \<longleftrightarrow>
     (case es_ContextConfigs (en_storage e) of
        None \<Rightarrow> \<forall>p. es_ContextConfig (en_storage e) p = Inr (cfg_of p) \<or> ((\<exists>err. es_ContextConfig (en_storage e) p = Inl err) \<and> cfg_of p = None)
      | Some batch \<Rightarrow> \<forall>ids. batch ids = Inr (map cfg_of ids))"

definition calm :: "ctx_checks \<Rightarrow> bool" where
  "calm cx \<longleftrightarrow> cx_start cx = None \<and> cx_active cx = None \<and> (\<forall>k. cx_preload cx k = None \<and> cx_loop cx k = None)"

text \<open>For a request: the topics of its artifacts and of every package that targets topics are answered under the
  accepted taxonomies, and so are all configs and signals.\<close>

definition healthy :: "engine \<Rightarrow> context_request \<Rightarrow> (string \<Rightarrow> package_config option) \<Rightarrow> (string \<Rightarrow> string) \<Rightarrow> bool" where
  "healthy e req cfg_of sg \<longleftrightarrow>
     (\<forall>p c. cfg_of p = Some c \<and> pg_topic_targets c \<longrightarrow> topics_answered e req p) \<and> configs_answered e cfg_of \<and>
     es_SignalMGet (en_storage e) = (\<lambda>ks. Inr (map sg ks))"

text \<open>The declarative gate of a package: its config, the property, its profile against the stored values, its topics. The
  last argument says whether the plan of the signals of all candidates stays within its cap.\<close>

definition admits :: "engine \<Rightarrow> context_request \<Rightarrow> (string \<Rightarrow> string) \<Rightarrow> bool \<Rightarrow> string \<Rightarrow> package_config \<Rightarrow> bool" where
  "admits e req sg planned p c \<longleftrightarrow>
     ContainsPropertyRID c (cm_property_rid req) \<and> ContainsPackage (en_properties e) p (cm_property_rid req) \<and>
     (IsEmpty (pg_context_signals c) \<or> planned \<and> profile_accepts sg (request_data e req) (pg_context_signals c)) \<and>
     (pg_topic_targets c \<longrightarrow> en_accepted e \<noteq> [] \<and> (haveTopicSource req \<longrightarrow> topic_proof e req p))"

definition plan_fits :: "engine \<Rightarrow> context_request \<Rightarrow> package_config option list \<Rightarrow> bool" where
  "plan_fits e req configs \<longleftrightarrow>
     \<not> (request_data e req \<noteq> [] \<and> isl (PlanLookup (filter (\<lambda>p. \<not> IsEmpty p) (map profile_of configs)) (request_data e req)))"

lemma preload_each_answered:
  assumes "\<And>k. ctx k = None" "\<And>p. get p = Inr (f p) \<or> ((\<exists>err. get p = Inl err) \<and> f p = None)"
  shows "preload_each ctx get i ps = map f ps"
proof (induction ps arbitrary: i)
  case (Cons p ps)
  with assms(1) assms(2) [of p] show ?case by (auto split: sum.split)
qed simp

lemma preload_answered: "configs_answered e f \<Longrightarrow> calm cx \<Longrightarrow> preloadContextConfigs e cx ids = map f ids"
  by (auto simp: preloadContextConfigs_def configs_answered_def calm_def intro: preload_each_answered split: option.splits)

lemma gates_exact:
  assumes "healthy e req cfg_of sg" "Some c \<in> set configs" "cfg_of p = Some c"
    and "data = (if hasAnySignalProfile configs then request_data e req else [])"
    and "fetch = (if hasAnySignalProfile configs then fetchSignalsForCandidates (es_SignalMGet (en_storage e)) (map profile_of configs) data
       else Inr Map.empty)"
  shows "package_gates e req data fetch p c \<longleftrightarrow> admits e req sg (plan_fits e req configs) p c"
proof -
  have "signalsPass (pg_context_signals c) data fetch \<longleftrightarrow>
      IsEmpty (pg_context_signals c) \<or> plan_fits e req configs \<and> profile_accepts sg (request_data e req) (pg_context_signals c)"
  proof (cases "IsEmpty (pg_context_signals c)")
    case False
    have "pg_context_signals c \<in> set (map profile_of configs)" using assms(2) by (force simp: profile_of_def)
    with False signals_batch_transparent [of "pg_context_signals c" "map profile_of configs" "request_data e req" sg]
      has_profile [OF assms(2)] assms(1,4,5) show ?thesis
      by (simp add: healthy_def plan_fits_def)
  qed (simp add: signalsPass_def)
  moreover have "pg_topic_targets c \<Longrightarrow> topics_answered e req p" using assms(1,3) by (auto simp: healthy_def)
  ultimately show ?thesis
    by (auto simp: package_gates_def admits_def matchesPropertyBitmap_def topicsPass_exact)
qed

definition offers_of :: "(string \<Rightarrow> package_config \<Rightarrow> bool) \<Rightarrow> (string \<Rightarrow> package_config option) \<Rightarrow> string list \<Rightarrow> offer list" where
  "offers_of ok cfg_of ids = concat (map (\<lambda>p. served ok p (cfg_of p)) ids)"

definition segments_of :: "(string \<Rightarrow> package_config \<Rightarrow> bool) \<Rightarrow> (string \<Rightarrow> package_config option) \<Rightarrow> string list \<Rightarrow> string list" where
  "segments_of ok cfg_of ids = concat (map (\<lambda>p. emitted ok p (cfg_of p)) ids)"

lemma loop_map:
  "map2 f ids (map g ids) = map (\<lambda>p. f p (g p)) ids"
  by (induction ids) simp_all

definition ideal_answer :: "engine \<Rightarrow> context_request \<Rightarrow> (string \<Rightarrow> package_config option) \<Rightarrow> (string \<Rightarrow> string) \<Rightarrow> string list \<Rightarrow> context_result" where
  "ideal_answer e req cfg_of sg ids =
     (let ok = admits e req sg (plan_fits e req (map cfg_of ids)); segments = segments_of ok cfg_of ids in
      \<lparr>rs_request_id = cm_request_id req, rs_offers = offers_of ok cfg_of ids,
        rs_signals = (if segments = [] then [] else [(''segments'', SStrings segments)])\<rparr>)"

lemma served_cong: "(\<And>c. f p = Some c \<Longrightarrow> ok p c = ok' p c) \<Longrightarrow> served ok p (f p) = served ok' p (f p) \<and> emitted ok p (f p) = emitted ok' p (f p)"
  by (auto simp: served_def emitted_def split: option.split)

lemma loop_exact:
  assumes "healthy e req cfg_of sg" "calm cx" "configs = map cfg_of ids"
    and "data = (if hasAnySignalProfile configs then request_data e req else [])"
    and "fetch = (if hasAnySignalProfile configs then fetchSignalsForCandidates (es_SignalMGet (en_storage e)) (map profile_of configs) data
       else Inr Map.empty)"
  shows "eval_loop (cx_loop cx) (package_gates e req data fetch) configs 0 ids [] [] =
    Inr (offers_of (admits e req sg (plan_fits e req configs)) cfg_of ids, segments_of (admits e req sg (plan_fits e req configs)) cfg_of ids)"
proof -
  have "served (package_gates e req data fetch) p (cfg_of p) = served (admits e req sg (plan_fits e req configs)) p (cfg_of p) \<and>
      emitted (package_gates e req data fetch) p (cfg_of p) = emitted (admits e req sg (plan_fits e req configs)) p (cfg_of p)"
    if "p \<in> set ids" for p
  proof (rule served_cong)
    fix c assume c: "cfg_of p = Some c"
    with that assms(3) have "Some c \<in> set configs" by force
    from gates_exact [OF assms(1) this c assms(4,5)]
    show "package_gates e req data fetch p c = admits e req sg (plan_fits e req configs) p c" .
  qed
  then have "map (\<lambda>p. served (package_gates e req data fetch) p (cfg_of p)) ids =
      map (\<lambda>p. served (admits e req sg (plan_fits e req configs)) p (cfg_of p)) ids"
    "map (\<lambda>p. emitted (package_gates e req data fetch) p (cfg_of p)) ids =
      map (\<lambda>p. emitted (admits e req sg (plan_fits e req configs)) p (cfg_of p)) ids"
    by simp_all
  with eval_loop_result [of "cx_loop cx" configs 0 ids "package_gates e req data fetch" "[]" "[]"] assms(2,3) show ?thesis
    by (simp add: calm_def loop_map offers_of_def segments_of_def)
qed

lemma Evaluate_run:
  assumes "open_request e req seller" "listing e req seller = Inr active" "candidateSet active (cm_package_ids req) \<noteq> []" "calm cx"
    and "configs = preloadContextConfigs e cx (candidateSet active (cm_package_ids req))"
    and "data = (if hasAnySignalProfile configs then request_data e req else [])"
    and "fetch = (if hasAnySignalProfile configs then fetchSignalsForCandidates (es_SignalMGet (en_storage e)) (map profile_of configs) data
       else Inr Map.empty)"
  shows "Evaluate e cx req =
    (case eval_loop (cx_loop cx) (package_gates e req data fetch) configs 0 (candidateSet active (cm_package_ids req)) [] [] of
       Inl err \<Rightarrow> Inl err
     | Inr (offers, segments) \<Rightarrow> Inr \<lparr>rs_request_id = cm_request_id req, rs_offers = offers,
         rs_signals = (if segments = [] then [] else [(''segments'', SStrings segments)])\<rparr>)"
  using assms(1-4) unfolding assms(5-7)
  by (auto simp: Evaluate_def open_request_def listing_def request_data_def req_country_def calm_def Let_def)

text \<open>C23: with a context that is not cancelled and a storage that answers, an open request gets exactly the offers and
  segments of its candidates that the declarative gate admits, in the order of the request's package list, or of
  the listing when the request names none; a request that is not open gets none, and so does a failed listing.\<close>

theorem Evaluate_exact:
  assumes "healthy e req cfg_of sg" "calm cx"
  shows "(\<forall>seller active. open_request e req seller \<and> listing e req seller = Inr active \<longrightarrow>
       Evaluate e cx req = Inr (ideal_answer e req cfg_of sg (candidateSet active (cm_package_ids req)))) \<and>
    (\<forall>seller err. open_request e req seller \<and> listing e req seller = Inl err \<longrightarrow>
       Evaluate e cx req = Inr \<lparr>rs_request_id = cm_request_id req, rs_offers = [], rs_signals = []\<rparr>) \<and>
    ((\<forall>seller. \<not> open_request e req seller) \<longrightarrow>
       Evaluate e cx req = Inr \<lparr>rs_request_id = cm_request_id req, rs_offers = [], rs_signals = []\<rparr>)"
proof (intro conjI allI impI; (elim conjE)?)
  fix seller active assume o: "open_request e req seller" "listing e req seller = Inr active"
  let ?ids = "candidateSet active (cm_package_ids req)"
  show "Evaluate e cx req = Inr (ideal_answer e req cfg_of sg ?ids)"
  proof (cases "?ids = []")
    case True
    with o assms(2) show ?thesis
      by (auto simp: Evaluate_def open_request_def listing_def req_country_def calm_def ideal_answer_def offers_of_def segments_of_def Let_def)
  next
    case False
    define configs where "configs = preloadContextConfigs e cx ?ids"
    define data where "data = (if hasAnySignalProfile configs then request_data e req else [])"
    define fetch where "fetch = (if hasAnySignalProfile configs
      then fetchSignalsForCandidates (es_SignalMGet (en_storage e)) (map profile_of configs) data else Inr Map.empty)"
    have c: "configs = map cfg_of ?ids" using assms by (simp add: configs_def healthy_def preload_answered)
    from loop_exact [OF assms c data_def fetch_def] show ?thesis
      unfolding Evaluate_run [OF o False assms(2) configs_def data_def fetch_def] by (simp add: c ideal_answer_def Let_def)
  qed
next
  fix seller err assume "open_request e req seller" "listing e req seller = Inl err"
  with assms(2) show "Evaluate e cx req = Inr \<lparr>rs_request_id = cm_request_id req, rs_offers = [], rs_signals = []\<rparr>"
    by (auto simp: Evaluate_def open_request_def listing_def req_country_def calm_def Let_def)
next
  assume none: "\<forall>seller. \<not> open_request e req seller"
  define seller where "seller = (if cm_seller_agent_url req \<noteq> '''' then en_Canonicalize e (cm_seller_agent_url req) else Inr '''')"
  show "Evaluate e cx req = Inr \<lparr>rs_request_id = cm_request_id req, rs_offers = [], rs_signals = []\<rparr>"
  proof (cases seller)
    case (Inr u)
    with spec [OF none, of u] assms(2) show ?thesis
      by (auto simp: Evaluate_def open_request_def req_country_def calm_def Let_def seller_def split: if_splits)
  qed (use assms(2) in \<open>simp add: Evaluate_def calm_def Let_def seller_def\<close>)
qed

section \<open>A small engine\<close>

definition demo_config :: "bool \<Rightarrow> package_config" where
  "demo_config targets = \<lparr>pg_package_id = '''', pg_media_buy_id = '''', pg_topic_targets = targets, pg_property_rids = [''r1''],
     pg_emit_segments = [''s''], pg_context_signals = None, pg_offers = [], pg_brand = None,
     pg_price = \<lparr>price_amount = ''0'', price_currency = '''', price_model = ''''\<rparr>, pg_summary = ''hello'', pg_manifest_type = '''',
     pg_creative_manifest = None, pg_creative_data = None, pg_bitmap = Some [''r1'']\<rparr>"

definition demo_cfg_of :: "string \<Rightarrow> package_config option" where
  "demo_cfg_of p = (if p = ''p1'' then Some (demo_config False) else if p = ''p2'' \<or> p = ''p3'' then Some (demo_config True) else None)"

text \<open>One artifact has topic 7, which package \<open>p2\<close> targets; the geo suppressions cannot be read.\<close>

definition demo_storage :: context_storage where
  "demo_storage =
     \<lparr>es_ActivePackages = (\<lambda>_ _ _ _ _. Inr [''p1'', ''p2'', ''p3'', ''p4'']), es_ContextConfig = (\<lambda>p. Inr (demo_cfg_of p)), es_ContextConfigs = None,
      es_ArtifactTopics = (\<lambda>_ r. Inr (if r = ''u'' then [''7''] else [])), es_PackageTopics = (\<lambda>_ p. Inr (if p = ''p2'' then [''7''] else [])),
      es_IsPropertySuppressed = (\<lambda>_ _. Inr False), es_IsGeoSuppressed = (\<lambda>_ _. Inl ''down''), es_SignalMGet = (\<lambda>ks. Inr (map (\<lambda>_. '''') ks))\<rparr>"

definition demo_engine :: engine where
  "demo_engine = \<lparr>en_provider = ''acme'', en_properties = \<lparr>pl_global = Some [''r1''], pl_by_package = None\<rparr>, en_storage = demo_storage,
     en_accepted = [\<lparr>tax_source = ''iab'', tax_id = 7\<rparr>], en_now = 0, en_Canonicalize = Inr, en_HashURL = id\<rparr>"

definition demo_checks :: ctx_checks where
  "demo_checks = \<lparr>cx_start = None, cx_active = None, cx_preload = (\<lambda>_. None), cx_loop = (\<lambda>_. None)\<rparr>"

definition demo_request :: context_request where
  "demo_request = signal_request\<lparr>cm_property_rid := ''r1'', cm_seller_agent_url := ''https://s'', cm_geo := [(''country'', JStr ''DE'')],
     cm_artifact_refs := [\<lparr>ref_type = ''url'', ref_value = ''u''\<rparr>]\<rparr>"

lemma demo_evaluates:
  "case Evaluate demo_engine demo_checks demo_request of Inl _ \<Rightarrow> False
   | Inr r \<Rightarrow> map package_id (rs_offers r) = [''p1'', ''p2''] \<and> rs_signals r = [(''segments'', SStrings [''s'', ''s''])]"
  by code_simp

lemma demo_outcome:
  obtains r where "Evaluate demo_engine demo_checks demo_request = Inr r" "map package_id (rs_offers r) = [''p1'', ''p2'']"
  using demo_evaluates by (auto split: sum.splits)

lemma demo_healthy: "healthy demo_engine req demo_cfg_of (\<lambda>_. '''')" "calm demo_checks"
  by (simp_all add: healthy_def topics_answered_def configs_answered_def demo_engine_def demo_storage_def calm_def demo_checks_def)

theorem offers_sound_witness: "\<exists>c. config_read demo_storage ''p2'' c \<and> (pg_topic_targets c \<longrightarrow> topic_proof demo_engine demo_request ''p2'')"
proof -
  obtain r where r: "Evaluate demo_engine demo_checks demo_request = Inr r" "map package_id (rs_offers r) = [''p1'', ''p2'']"
    by (rule demo_outcome)
  then obtain a b where "rs_offers r = [a, b]" "package_id b = ''p2''" by (auto simp: map_eq_Cons_conv)
  moreover have "haveTopicSource demo_request" by code_simp
  moreover have "en_storage demo_engine = demo_storage" by (simp add: demo_engine_def)
  ultimately show ?thesis using offers_sound [OF r(1), of b] by auto
qed

theorem Evaluate_exact_witness:
  "map package_id (rs_offers (ideal_answer demo_engine demo_request demo_cfg_of (\<lambda>_. '''') [''p1'', ''p2'', ''p3'', ''p4''])) = [''p1'', ''p2'']"
proof -
  have "open_request demo_engine demo_request ''https://s''" by code_simp
  moreover have "listing demo_engine demo_request ''https://s'' = Inr [''p1'', ''p2'', ''p3'', ''p4'']" by code_simp
  moreover have "candidateSet [''p1'', ''p2'', ''p3'', ''p4''] (cm_package_ids demo_request) = [''p1'', ''p2'', ''p3'', ''p4'']" by code_simp
  ultimately have "Evaluate demo_engine demo_checks demo_request =
      Inr (ideal_answer demo_engine demo_request demo_cfg_of (\<lambda>_. '''') [''p1'', ''p2'', ''p3'', ''p4''])"
    using Evaluate_exact [OF demo_healthy, of demo_request] by metis
  with demo_evaluates show ?thesis by simp
qed

end
