(* ===== verification/Media_Buys.thy ===== *)
theory Media_Buys
  imports Key_Store
begin

text \<open>
  Media buys of the context agent, \<^verbatim>\<open>src/targeting/mediabuystore/mediabuystore.go\<close>, over the key-value surface of
  \<^verbatim>\<open>Key_Store\<close>: a payload per buy and one set of buy ids per seller. \<open>encoding/json\<close> is a pair of functions; what is
  used of it is that the payload of a buy decodes to that buy. The clock is an instant in nanoseconds since
  the Unix epoch, dates are the days of the proleptic Gregorian calendar as \<^verbatim>\<open>time.Parse\<close> reads them. The main
  result: after any history of writes, failing accesses included, a reader answers what a map of buys and a
  map of indexes holds. Loggers and nil stores are not modelled, nor is the caching reader.
\<close>

section \<open>Records and keys\<close>

record media_buy_package =
  mp_package_id :: string
  mp_media_buy_id :: string
  mp_format_ids :: "string list"
  mp_placement_ids :: "string list"

record media_buy =
  mb_media_buy_id :: string
  mb_seller_agent_url :: string
  mb_start_date :: string
  mb_end_date :: string
  mb_countries :: "string list"
  mb_property_ids :: "string list"
  mb_packages :: "media_buy_package list"

text \<open>\<^verbatim>\<open>json.Marshal\<close> and \<^verbatim>\<open>json.Unmarshal\<close> at the type of a buy; an undecodable payload is \<^const>\<open>None\<close>.\<close>

record buy_codec =
  marshal_buy :: "media_buy \<Rightarrow> string result"
  unmarshal_buy :: "string \<Rightarrow> media_buy option"

definition SellerSetKey :: "string \<Rightarrow> string" where
  "SellerSetKey sellerAgentURL = ''mediabuy:seller:'' @ sellerAgentURL"

definition MediaBuyKey :: "string \<Rightarrow> string" where
  "MediaBuyKey mediaBuyID = ''mediabuy:'' @ mediaBuyID"

section \<open>The writer\<close>

definition Put_buy :: "buy_codec \<Rightarrow> store_fault \<Rightarrow> store_fault \<Rightarrow> media_buy \<Rightarrow> kv \<Rightarrow> kv \<times> string option" where
  "Put_buy J set_fault add_fault mb st =
     (if mb_media_buy_id mb = '''' then (st, Some ''mediabuystore: media_buy_id is required'')
      else if mb_seller_agent_url mb = '''' then (st, Some ''mediabuystore: seller_agent_url is required'')
      else case marshal_buy J mb of
          Inl e \<Rightarrow> (st, Some (''mediabuystore: marshal: '' @ e))
        | Inr payload \<Rightarrow>
            (case attempt set_fault (kv_Set (MediaBuyKey (mb_media_buy_id mb)) payload) st of
               (st1, Some e) \<Rightarrow> (st1, Some (''mediabuystore: persist media buy: '' @ e))
             | (st1, None) \<Rightarrow>
                 (case attempt add_fault (SetAdd (SellerSetKey (mb_seller_agent_url mb)) [mb_media_buy_id mb]) st1 of
                    (st2, Some e) \<Rightarrow> (st2, Some (''mediabuystore: index media buy under seller: '' @ e))
                  | (st2, None) \<Rightarrow> (st2, None))))"

definition Remove_buy :: "store_fault \<Rightarrow> store_fault \<Rightarrow> string \<Rightarrow> string \<Rightarrow> kv \<Rightarrow> kv \<times> string option" where
  "Remove_buy rem_fault del_fault sellerAgentURL mediaBuyID st =
     (if sellerAgentURL = '''' then (st, Some ''mediabuystore: seller_agent_url is required'')
      else if mediaBuyID = '''' then (st, Some ''mediabuystore: media_buy_id is required'')
      else case attempt rem_fault (SetRemove (SellerSetKey sellerAgentURL) [mediaBuyID]) st of
          (st1, Some e) \<Rightarrow> (st1, Some (''mediabuystore: deindex media buy: '' @ e))
        | (st1, None) \<Rightarrow>
            (case attempt del_fault (Del [MediaBuyKey mediaBuyID]) st1 of
               (st2, Some e) \<Rightarrow> (st2, Some (''mediabuystore: delete media buy: '' @ e))
             | (st2, None) \<Rightarrow> (st2, None)))"

section \<open>Dates\<close>

text \<open>The layout \<open>2006-01-02\<close>: four digits, a dash, two digits, a dash, two digits and nothing else, with a month of the
  year and a day of that month.\<close>

definition leap :: "nat \<Rightarrow> bool" where
  "leap y \<longleftrightarrow> y mod 4 = 0 \<and> (y mod 100 \<noteq> 0 \<or> y mod 400 = 0)"

definition days_in :: "nat \<Rightarrow> nat \<Rightarrow> nat" where
  "days_in m y = (if m = 2 then if leap y then 29 else 28 else if m \<in> {4, 6, 9, 11} then 30 else 31)"

definition digits :: "string \<Rightarrow> nat option" where
  "digits s = (if list_all is_digit s then Some (digits_value s) else None)"

definition parse_date :: "string \<Rightarrow> (nat \<times> nat \<times> nat) option" where
  "parse_date s =
     (if length s \<noteq> 10 \<or> s ! 4 \<noteq> CHR ''-'' \<or> s ! 7 \<noteq> CHR ''-'' then None
      else case (digits (take 4 s), digits (take 2 (drop 5 s)), digits (drop 8 s)) of
          (Some y, Some m, Some d) \<Rightarrow>
            if m < 1 \<or> 12 < m \<or> d < 1 \<or> days_in m y < d then None else Some (y, m, d)
        | _ \<Rightarrow> None)"

definition days_before_year :: "nat \<Rightarrow> int" where
  "days_before_year y =
     (if y = 0 then 0 else 366 + 365 * (int y - 1) + (int y - 1) div 4 - (int y - 1) div 100 + (int y - 1) div 400)"

definition days_before_month :: "nat \<Rightarrow> nat \<Rightarrow> nat" where
  "days_before_month y m = sum_list (map (\<lambda>k. days_in k y) [1..<m])"

text \<open>Days since 1970-01-01; day 719528 of the year 0 is the epoch.\<close>

definition date_day :: "nat \<times> nat \<times> nat \<Rightarrow> int" where
  "date_day = (\<lambda>(y, m, d). days_before_year y + int (days_before_month y m) + int d - 1 - 719528)"

definition day_ns :: int where "day_ns = 86400000000000"

definition isActive :: "media_buy \<Rightarrow> int \<Rightarrow> bool" where
  "isActive mb now =
     (let today = now div day_ns in
      (mb_start_date mb = '''' \<or> (case parse_date (mb_start_date mb) of None \<Rightarrow> False | Some d \<Rightarrow> \<not> today < date_day d)) \<and>
      (mb_end_date mb = '''' \<or> (case parse_date (mb_end_date mb) of None \<Rightarrow> False | Some d \<Rightarrow> \<not> today > date_day d)))"

section \<open>The reader\<close>

definition matchesGeo :: "media_buy \<Rightarrow> string \<Rightarrow> bool" where
  "matchesGeo mb country \<longleftrightarrow> mb_countries mb = [] \<or> country \<in> set (mb_countries mb)"

definition matchesProperty :: "media_buy \<Rightarrow> string \<Rightarrow> bool" where
  "matchesProperty mb propertyID \<longleftrightarrow> mb_property_ids mb = [] \<or> propertyID \<in> set (mb_property_ids mb)"

definition matchesPlacement :: "media_buy_package \<Rightarrow> string \<Rightarrow> bool" where
  "matchesPlacement pkg placementID \<longleftrightarrow>
     placementID = '''' \<or> mp_placement_ids pkg = [] \<or> placementID \<in> set (mp_placement_ids pkg)"

definition MediaBuyIDsForSeller :: "store_fault \<Rightarrow> string \<Rightarrow> kv \<Rightarrow> string list result" where
  "MediaBuyIDsForSeller f sellerAgentURL st =
     (if sellerAgentURL = '''' then Inl ''mediabuystore: seller_agent_url is required''
      else case f of Some e \<Rightarrow> Inl e | None \<Rightarrow> Inr (SetMembers (SellerSetKey sellerAgentURL) st))"

text \<open>No such buy is \<^const>\<open>None\<close> without an error, as an empty payload is.\<close>

definition MediaBuy :: "buy_codec \<Rightarrow> store_fault \<Rightarrow> string \<Rightarrow> kv \<Rightarrow> media_buy option result" where
  "MediaBuy J f mediaBuyID st =
     (if mediaBuyID = '''' then Inl ''mediabuystore: media_buy_id is required''
      else case f of Some e \<Rightarrow> Inl e
        | None \<Rightarrow>
            (case kv_Get (MediaBuyKey mediaBuyID) st of
               None \<Rightarrow> Inr None
             | Some raw \<Rightarrow>
                 if raw = '''' then Inr None
                 else (case unmarshal_buy J raw of
                         None \<Rightarrow> Inl ''mediabuystore: corrupt media-buy payload''
                       | Some mb \<Rightarrow> Inr (Some mb))))"

text \<open>The packages of one payload that may serve; missing and corrupt payloads give none.\<close>

definition payload_packages :: "buy_codec \<Rightarrow> string \<Rightarrow> string \<Rightarrow> string \<Rightarrow> int \<Rightarrow> string \<Rightarrow> media_buy_package list" where
  "payload_packages J propertyID country placementID now raw =
     (if raw = '''' then []
      else case unmarshal_buy J raw of
          None \<Rightarrow> []
        | Some mb \<Rightarrow>
            if \<not> isActive mb now \<or> \<not> matchesGeo mb country \<or> \<not> matchesProperty mb propertyID then []
            else filter (\<lambda>pkg. matchesPlacement pkg placementID) (mb_packages mb))"

definition ActivePackages ::
  "buy_codec \<Rightarrow> store_fault \<Rightarrow> store_fault \<Rightarrow> string \<Rightarrow> string \<Rightarrow> string \<Rightarrow> string \<Rightarrow> int \<Rightarrow> kv \<Rightarrow> media_buy_package list result" where
  "ActivePackages J ids_fault get_fault sellerAgentURL propertyID country placementID now st =
     (case MediaBuyIDsForSeller ids_fault sellerAgentURL st of
        Inl e \<Rightarrow> Inl e
      | Inr ids \<Rightarrow>
          if ids = [] then Inr []
          else case get_fault of
              Some e \<Rightarrow> Inl e
            | None \<Rightarrow> Inr (concat (map (payload_packages J propertyID country placementID now) (MGet (map MediaBuyKey ids) st))))"

section \<open>The calendar\<close>

lemma parse_date_valid:
  "parse_date s = Some (y, m, d) \<Longrightarrow> 1 \<le> m \<and> m \<le> 12 \<and> 1 \<le> d \<and> d \<le> days_in m y"
  by (auto simp: parse_date_def split: if_splits option.splits)

lemma days_before_Suc: "days_before_year (Suc k) = int (366 + 365 * k + k div 4 + k div 400) - int (k div 100)"
  by (simp add: days_before_year_def zdiv_int)

lemma leap_count:
  fixes a4 a100 a400 b4 b100 b400 :: nat
  assumes "a4 = b4 + (if p4 then 1 else 0)" "a100 = b100 + (if p100 then 1 else 0)" "a400 = b400 + (if p400 then 1 else 0)"
    and "p400 \<Longrightarrow> p100" "p100 \<Longrightarrow> p4"
  shows "int (366 + 365 * Suc k + a4 + a400) - int a100 =
    int (366 + 365 * k + b4 + b400) - int b100 + (if p4 \<and> (\<not> p100 \<or> p400) then 366 else 365)"
  using assms(4,5) unfolding assms(1-3) by (cases p4; cases p100; cases p400) simp_all

lemma year_step: "days_before_year (Suc y) = days_before_year y + (if leap y then 366 else 365)"
proof (cases y)
  case (Suc k)
  have q: "Suc k div n = k div n + (if Suc k mod n = 0 then 1 else 0)" for n by (simp add: div_Suc)
  have d: "(100::nat) dvd 400" "(4::nat) dvd 100" by simp_all
  have i: "Suc k mod 400 = 0 \<Longrightarrow> Suc k mod 100 = 0" "Suc k mod 100 = 0 \<Longrightarrow> Suc k mod 4 = 0"
    using d [THEN dvd_trans, of "Suc k"] by (simp_all only: dvd_eq_mod_eq_0)
  show ?thesis unfolding Suc days_before_Suc leap_def by (rule leap_count [OF q q q i])
qed (simp add: days_before_year_def leap_def)

lemma month_step: "1 \<le> m \<Longrightarrow> days_before_month y (Suc m) = days_before_month y m + days_in m y"
  by (simp add: days_before_month_def)

lemma month_mono: "m \<le> m' \<Longrightarrow> 1 \<le> m \<Longrightarrow> days_before_month y m \<le> days_before_month y m'"
proof (induction m' rule: dec_induct)
  case (step n)
  then show ?case using month_step [of n y] by simp
qed simp

lemma year_length: "days_before_month y 13 = (if leap y then 366 else 365)"
  by (simp add: days_before_month_def days_in_def upt_rec)

lemma in_month: "1 \<le> m \<Longrightarrow> m < m' \<Longrightarrow> d \<le> days_in m y \<Longrightarrow> days_before_month y m + d \<le> days_before_month y m'"
  using month_step [of m y] month_mono [of "Suc m" m' y] by simp

lemma in_year: "1 \<le> m \<Longrightarrow> m \<le> 12 \<Longrightarrow> d \<le> days_in m y \<Longrightarrow> days_before_month y m + d \<le> (if leap y then 366 else 365)"
  using in_month [of m 13 d y] by (simp add: year_length)

lemma year_mono: "y \<le> y' \<Longrightarrow> days_before_year y \<le> days_before_year y'"
proof (induction y' rule: dec_induct)
  case (step n)
  then show ?case using year_step [of n] by (simp split: if_splits)
qed simp

definition date_before :: "nat \<times> nat \<times> nat \<Rightarrow> nat \<times> nat \<times> nat \<Rightarrow> bool" where
  "date_before = (\<lambda>(y, m, d) (y', m', d'). y < y' \<or> y = y' \<and> (m < m' \<or> m = m' \<and> d < d'))"

definition valid_date :: "nat \<times> nat \<times> nat \<Rightarrow> bool" where
  "valid_date = (\<lambda>(y, m, d). 1 \<le> m \<and> m \<le> 12 \<and> 1 \<le> d \<and> d \<le> days_in m y)"

lemma date_day_less:
  assumes "valid_date a" "valid_date b" "date_before a b"
  shows "date_day a < date_day b"
proof -
  obtain y m d y' m' d' where ab: "a = (y, m, d)" "b = (y', m', d')" by (cases a; cases b) auto
  note v = assms(1,2) [unfolded ab valid_date_def, simplified]
  consider "y < y'" | "y = y'" "m < m'" | "y = y'" "m = m'" "d < d'" using assms(3) by (auto simp: ab date_before_def)
  then show ?thesis
  proof cases
    case 1
    with v in_year [of m d y] year_step [of y] year_mono [of "Suc y" y'] show ?thesis
      by (simp add: ab date_day_def split: if_splits)
  next
    case 2
    with v in_month [of m m' d y] show ?thesis by (simp add: ab date_day_def)
  qed (simp add: ab date_day_def)
qed

lemma date_day_iff:
  assumes "valid_date a" "valid_date b"
  shows "date_day a < date_day b \<longleftrightarrow> date_before a b"
proof (cases "date_before a b")
  case False
  then have "a = b \<or> date_before b a" by (auto simp: date_before_def split: prod.splits)
  with date_day_less [OF assms(2,1)] False show ?thesis by auto
qed (use date_day_less [OF assms] in simp)

lemma date_day_epoch: "date_day (1970, 1, 1) = 0" "date_day (2000, 2, 29) = 11016"
  by code_simp+

lemma div_less_mult: "0 < k \<Longrightarrow> n div k < j \<longleftrightarrow> n < j * k" for k n j :: int
proof
  assume k: "0 < k" and "n div k < j"
  then have "(n div k + 1) * k \<le> j * k" by simp
  moreover have "n < (n div k + 1) * k" unfolding distrib_right using pos_mod_bound [OF k, of n] div_mult_mod_eq [of n k] by linarith
  ultimately show "n < j * k" by simp
next
  assume k: "0 < k" and "n < j * k"
  show "n div k < j"
  proof (rule ccontr)
    assume "\<not> n div k < j"
    with k have "j * k \<le> n div k * k" by simp
    moreover have "n div k * k \<le> n" using pos_mod_sign [OF k, of n] div_mult_mod_eq [of n k] by linarith
    ultimately show False using \<open>n < j * k\<close> by simp
  qed
qed

text \<open>A buy runs from the first instant of its first day up to the first instant after its last day; a date that
  does not parse stops it, an absent one does not bound it.\<close>

lemma isActive_window:
  "isActive mb now \<longleftrightarrow>
     (mb_start_date mb = '''' \<or> (\<exists>d. parse_date (mb_start_date mb) = Some d \<and> date_day d * day_ns \<le> now)) \<and>
     (mb_end_date mb = '''' \<or> (\<exists>d. parse_date (mb_end_date mb) = Some d \<and> now < (date_day d + 1) * day_ns))"
proof -
  have "\<not> now div day_ns < k \<longleftrightarrow> k * day_ns \<le> now" "\<not> now div day_ns > k \<longleftrightarrow> now < (k + 1) * day_ns" for k
    using div_less_mult [of day_ns now k] div_less_mult [of day_ns now "k + 1"] by (auto simp: day_ns_def)
  then show ?thesis unfolding isActive_def Let_def by (auto split: option.split)
qed

section \<open>Histories of writes\<close>

datatype buy_op =
    OpPut media_buy store_fault store_fault
  | OpRemoveBuy string string store_fault store_fault

fun run_buy_op :: "buy_codec \<Rightarrow> buy_op \<Rightarrow> kv \<Rightarrow> kv \<times> string option" where
  "run_buy_op J (OpPut mb f1 f2) st = Put_buy J f1 f2 mb st"
| "run_buy_op J (OpRemoveBuy seller i f1 f2) st = Remove_buy f1 f2 seller i st"

definition run_buy_ops :: "buy_codec \<Rightarrow> buy_op list \<Rightarrow> kv \<Rightarrow> kv" where
  "run_buy_ops J ops st = fold (\<lambda>op s. fst (run_buy_op J op s)) ops st"

text \<open>The specification: the payload of every buy and the ids listed for every seller.\<close>

record buy_spec =
  payloads :: "string \<rightharpoonup> media_buy"
  listed :: "string \<Rightarrow> string set"

definition no_buys :: buy_spec where
  "no_buys = \<lparr>payloads = Map.empty, listed = (\<lambda>_. {})\<rparr>"

fun spec_buy_op :: "buy_op \<Rightarrow> buy_spec \<Rightarrow> buy_spec" where
  "spec_buy_op (OpPut mb f1 f2) b =
     (if mb_media_buy_id mb = '''' \<or> mb_seller_agent_url mb = '''' \<or> f1 \<noteq> None then b
      else let b = b\<lparr>payloads := (payloads b)(mb_media_buy_id mb \<mapsto> mb)\<rparr> in
        if f2 \<noteq> None then b
        else b\<lparr>listed := (listed b)(mb_seller_agent_url mb := insert (mb_media_buy_id mb) (listed b (mb_seller_agent_url mb)))\<rparr>)"
| "spec_buy_op (OpRemoveBuy seller i f1 f2) b =
     (if seller = '''' \<or> i = '''' \<or> f1 \<noteq> None then b
      else let b = b\<lparr>listed := (listed b)(seller := listed b seller - {i})\<rparr> in
        if f2 \<noteq> None then b else b\<lparr>payloads := (payloads b)(i := None)\<rparr>)"

text \<open>An id that starts with \<open>seller:\<close> would make the key of a payload the key of an index.\<close>

definition plain_id :: "string \<Rightarrow> bool" where
  "plain_id i \<longleftrightarrow> take 7 i \<noteq> ''seller:''"

definition codec_ok :: "buy_codec \<Rightarrow> media_buy \<Rightarrow> bool" where
  "codec_ok J mb \<longleftrightarrow> (case marshal_buy J mb of Inl e \<Rightarrow> False | Inr raw \<Rightarrow> raw \<noteq> '''' \<and> unmarshal_buy J raw = Some mb)"

fun op_ok :: "buy_codec \<Rightarrow> buy_op \<Rightarrow> bool" where
  "op_ok J (OpPut mb f1 f2) \<longleftrightarrow> plain_id (mb_media_buy_id mb) \<and> codec_ok J mb"
| "op_ok J (OpRemoveBuy seller i f1 f2) \<longleftrightarrow> plain_id i"

lemma buy_key_inj [simp]:
  "MediaBuyKey i = MediaBuyKey j \<longleftrightarrow> i = j" "SellerSetKey s = SellerSetKey t \<longleftrightarrow> s = t"
  by (simp_all add: MediaBuyKey_def SellerSetKey_def)

lemma key_separate: "plain_id i \<Longrightarrow> MediaBuyKey i \<noteq> SellerSetKey s" "plain_id i \<Longrightarrow> SellerSetKey s \<noteq> MediaBuyKey i"
  by (auto simp: MediaBuyKey_def SellerSetKey_def plain_id_def)

fun payload_at :: "buy_codec \<Rightarrow> string option \<Rightarrow> media_buy option \<Rightarrow> bool" where
  "payload_at J None b \<longleftrightarrow> b = None"
| "payload_at J (Some raw) None \<longleftrightarrow> False"
| "payload_at J (Some raw) (Some mb) \<longleftrightarrow> raw \<noteq> '''' \<and> unmarshal_buy J raw = Some mb"

definition holds :: "buy_codec \<Rightarrow> kv \<Rightarrow> buy_spec \<Rightarrow> bool" where
  "holds J st b \<longleftrightarrow>
     (\<forall>seller. set (SetMembers (SellerSetKey seller) st) = listed b seller) \<and>
     (\<forall>i. payload_at J (kv_Get (MediaBuyKey i) st) (payloads b i))"

lemmas buy_store_laws = kv.members_add kv.members_remove kv.members_del kv.members_put kv.get_put kv.get_add kv.get_remove kv.get_del

lemma holds_op:
  assumes "holds J st b" "op_ok J op"
  shows "holds J (fst (run_buy_op J op st)) (spec_buy_op op b)"
proof (cases op)
  case (OpPut mb f1 f2)
  then obtain raw where "marshal_buy J mb = Inr raw" "raw \<noteq> ''''" "unmarshal_buy J raw = Some mb"
    using assms(2) by (auto simp: codec_ok_def split: sum.splits)
  with OpPut assms show ?thesis
    by (cases f1; cases f2) (auto simp: Put_buy_def holds_def attempt_def Let_def buy_store_laws)
next
  case (OpRemoveBuy seller i f1 f2)
  with assms key_separate [of i] show ?thesis
    by (cases f1; cases f2) (auto simp: Remove_buy_def holds_def attempt_def Let_def buy_store_laws)
qed

lemma holds_ops: "holds J st b \<Longrightarrow> list_all (op_ok J) ops \<Longrightarrow> holds J (run_buy_ops J ops st) (fold spec_buy_op ops b)"
  unfolding run_buy_ops_def by (induction ops arbitrary: st b) (simp_all add: holds_op)

lemma holds_empty: "holds J kv_empty no_buys"
  by (simp add: holds_def kv_empty_def no_buys_def SetMembers_def kv_Get_def)

section \<open>What a reader answers\<close>

lemma payload_packages_empty [simp]: "payload_packages J p c pl now '''' = []"
  by (simp add: payload_packages_def)

lemma payload_packages_set:
  assumes "payload_at J (kv_Get (MediaBuyKey i) st) m"
  shows "set (payload_packages J p c pl now (case kv_strings st (MediaBuyKey i) of None \<Rightarrow> '''' | Some v \<Rightarrow> v)) =
    {pkg. \<exists>mb. m = Some mb \<and> isActive mb now \<and> matchesGeo mb c \<and> matchesProperty mb p \<and> pkg \<in> set (mb_packages mb) \<and>
       matchesPlacement pkg pl}"
  using assms by (cases "kv_strings st (MediaBuyKey i)"; cases m) (auto simp: kv_Get_def payload_packages_def)

lemma ActivePackages_spec:
  assumes "holds J st b" "seller \<noteq> ''''"
  shows "\<exists>ps. ActivePackages J None None seller p c pl now st = Inr ps \<and>
    set ps = {pkg. \<exists>i\<in>listed b seller. \<exists>mb. payloads b i = Some mb \<and> isActive mb now \<and> matchesGeo mb c \<and>
       matchesProperty mb p \<and> pkg \<in> set (mb_packages mb) \<and> matchesPlacement pkg pl}"
proof -
  have ids: "set (SetMembers (SellerSetKey seller) st) = listed b seller"
    and at: "payload_at J (kv_Get (MediaBuyKey i) st) (payloads b i)" for i
    using assms(1) by (simp_all add: holds_def)
  show ?thesis
    using assms(2) by (auto simp: ActivePackages_def MediaBuyIDsForSeller_def MGet_def ids payload_packages_set [OF at]
        simp flip: ids)
qed

lemma MediaBuy_spec: "holds J st b \<Longrightarrow> i \<noteq> '''' \<Longrightarrow> MediaBuy J None i st = Inr (payloads b i)"
proof -
  assume "holds J st b" "i \<noteq> ''''"
  then have "payload_at J (kv_Get (MediaBuyKey i) st) (payloads b i)" by (simp add: holds_def)
  with \<open>i \<noteq> ''''\<close> show ?thesis
    by (cases "kv_Get (MediaBuyKey i) st"; cases "payloads b i") (auto simp: MediaBuy_def)
qed

text \<open>C24: after any history of puts and removals, failing writes among them, a lookup answers the last buy put under
  the id and not removed since, and the active packages of a seller are exactly the packages willing to
  serve the placement in the buys listed for the seller that run today, in this country and on this property;
  a store that cannot be read gives an error and no packages. Ids must not start with \<open>seller:\<close>.\<close>

theorem buys_refine:
  assumes "list_all (op_ok J) ops" "seller \<noteq> ''''" "i \<noteq> ''''"
  shows "MediaBuy J None i (run_buy_ops J ops kv_empty) = Inr (payloads (fold spec_buy_op ops no_buys) i) \<and>
    (\<exists>ps. ActivePackages J None None seller p c pl now (run_buy_ops J ops kv_empty) = Inr ps \<and>
       set ps = {pkg. \<exists>j\<in>listed (fold spec_buy_op ops no_buys) seller. \<exists>mb. payloads (fold spec_buy_op ops no_buys) j = Some mb \<and>
         isActive mb now \<and> matchesGeo mb c \<and> matchesProperty mb p \<and> pkg \<in> set (mb_packages mb) \<and> matchesPlacement pkg pl}) \<and>
    (\<forall>e f. \<exists>e'. ActivePackages J (Some e) f seller p c pl now (run_buy_ops J ops kv_empty) = Inl e')"
  using holds_ops [OF holds_empty assms(1)] assms(2,3)
  by (auto simp: MediaBuy_spec ActivePackages_spec ActivePackages_def [of J "Some e" for e] MediaBuyIDsForSeller_def)

definition sample_buy :: "string \<Rightarrow> media_buy" where
  "sample_buy seller =
     \<lparr>mb_media_buy_id = ''b1'', mb_seller_agent_url = seller, mb_start_date = ''2026-02-28'', mb_end_date = ''2026-03-01'',
      mb_countries = [''DE''], mb_property_ids = [],
      mb_packages = [\<lparr>mp_package_id = ''p1'', mp_media_buy_id = ''b1'', mp_format_ids = [], mp_placement_ids = []\<rparr>,
        \<lparr>mp_package_id = ''p2'', mp_media_buy_id = ''b1'', mp_format_ids = [], mp_placement_ids = [''top'']\<rparr>]\<rparr>"

text \<open>A codec that knows the two versions of the sample.\<close>

definition sample_codec :: buy_codec where
  "sample_codec = \<lparr>marshal_buy = (\<lambda>mb. Inr (if mb_seller_agent_url mb = ''s'' then ''1'' else ''2'')),
     unmarshal_buy = (\<lambda>raw. if raw = ''1'' then Some (sample_buy ''s'') else if raw = ''2'' then Some (sample_buy ''t'') else None)\<rparr>"

definition sample_buy_ops :: "buy_op list" where
  "sample_buy_ops = [OpPut (sample_buy ''s'') None None, OpPut (sample_buy ''t'') None (Some ''down''), OpRemoveBuy ''t'' ''b1'' (Some ''down'') None]"

lemma sample_buy_facts:
  "list_all (op_ok sample_codec) sample_buy_ops" "isActive (sample_buy s) (20513 * day_ns)" "\<not> isActive (sample_buy s) (20514 * day_ns)"
  "matchesGeo (sample_buy s) ''DE''" "matchesProperty (sample_buy s) p" "mb_media_buy_id (sample_buy s) = ''b1''"
  "mb_seller_agent_url (sample_buy s) = s"
  by code_simp+

theorem buys_refine_witness:
  "\<exists>ps. ActivePackages sample_codec None None ''s'' ''site'' ''DE'' ''side'' (20513 * day_ns)
      (run_buy_ops sample_codec sample_buy_ops kv_empty) = Inr ps \<and> mp_package_id ` set ps = {''p1''}"
proof -
  have b: "fold spec_buy_op sample_buy_ops no_buys = \<lparr>payloads = [''b1'' \<mapsto> sample_buy ''t''], listed = (\<lambda>_. {})(''s'' := {''b1''})\<rparr>"
    by (simp add: sample_buy_ops_def no_buys_def sample_buy_facts Let_def)
  have "''s'' \<noteq> ''''" "''b1'' \<noteq> ''''" by simp_all
  from buys_refine [OF sample_buy_facts(1) this, of "''site''" "''DE''" "''side''" "20513 * day_ns", THEN conjunct2, THEN conjunct1, unfolded b]
  obtain ps where "ActivePackages sample_codec None None ''s'' ''site'' ''DE'' ''side'' (20513 * day_ns)
      (run_buy_ops sample_codec sample_buy_ops kv_empty) = Inr ps"
    and ps: "set ps = {pkg. pkg \<in> set (mb_packages (sample_buy ''t'')) \<and> matchesPlacement pkg ''side''}"
    by (auto simp: sample_buy_facts)
  moreover have "mp_package_id ` set ps = {''p1''}" unfolding ps by (auto simp: sample_buy_def matchesPlacement_def image_def conj_disj_distribR ex_disj_distrib)
  ultimately show ?thesis by blast
qed

text \<open>The index entry of the former seller stays when a buy is put again under another one, and readers never
  compare the seller of the payload: the former seller still sees the packages.\<close>

lemma former_seller_still_sees:
  "(case ActivePackages sample_codec None None ''s'' '''' ''DE'' '''' (20513 * day_ns)
      (run_buy_ops sample_codec [OpPut (sample_buy ''s'') None None, OpPut (sample_buy ''t'') None None] kv_empty) of
      Inl e \<Rightarrow> False | Inr ps \<Rightarrow> map mp_package_id ps = [''p1'', ''p2'']) \<and>
   (case MediaBuy sample_codec None ''b1''
      (run_buy_ops sample_codec [OpPut (sample_buy ''s'') None None, OpPut (sample_buy ''t'') None None] kv_empty) of
      Inr (Some mb) \<Rightarrow> mb_seller_agent_url mb = ''t'' | _ \<Rightarrow> False)"
  by code_simp

text \<open>Removing a buy whose id starts with \<open>seller:\<close> deletes the index of that seller.\<close>

lemma seller_prefixed_id_drops_index:
  "SetMembers (SellerSetKey ''s'') (run_buy_ops sample_codec [OpPut (sample_buy ''s'') None None, OpRemoveBuy ''x'' ''seller:s'' None None] kv_empty) = []"
  by code_simp

end
