(* ===== verification/Suppression.thy ===== *)
theory Suppression
  imports AdCP_Prelude "HOL-Library.AList" "HOL-Library.Sublist"
begin

text \<open>
  The kill switches of the context agent: the writer and the loader of \<^verbatim>\<open>src/targeting/suppressionstore/suppressionstore.go\<close>,
  the in-memory snapshot of \<^verbatim>\<open>snapshot.go\<close> and the expiring store of \<^verbatim>\<open>mock.go\<close>. Instants and durations are
  integers in nanoseconds. A store access can fail, the fault being an argument. The refresh goroutine is the
  list of its ticks. The main result: what a snapshot suppresses was in force at its last successful load, and
  no suppression outlives thirty days. Loggers and nil stores are not modelled.
\<close>

section \<open>The store\<close>

text \<open>An absent expiry never expires. An association list gives the iteration order of the map.\<close>

record sentry =
  se_value :: string
  se_expiry :: "int option"

type_synonym sstore = "(string \<times> sentry) list"

definition S_Set :: "int \<Rightarrow> string \<Rightarrow> string \<Rightarrow> int \<Rightarrow> sstore \<Rightarrow> sstore" where
  "S_Set now key v ttl st = AList.update key \<lparr>se_value = v, se_expiry = (if ttl > 0 then Some (now + ttl) else None)\<rparr> st"

definition S_Del :: "string list \<Rightarrow> sstore \<Rightarrow> sstore" where
  "S_Del keys st = fold AList.delete keys st"

definition live_entry :: "int \<Rightarrow> sentry \<Rightarrow> bool" where
  "live_entry now e \<longleftrightarrow> (case se_expiry e of None \<Rightarrow> True | Some t \<Rightarrow> \<not> now > t)"

definition S_Scan :: "int \<Rightarrow> string \<Rightarrow> sstore \<Rightarrow> string list" where
  "S_Scan now pat st =
     (let wildcard = (pat \<noteq> [] \<and> last pat = CHR ''*''); pre = (if wildcard then butlast pat else pat) in
      map fst (filter (\<lambda>(k, e). live_entry now e \<and> (if wildcard then prefix pre k else k = pat)) st))"

section \<open>Keys and writers\<close>

definition propertyKeyPrefix :: "string \<Rightarrow> string" where
  "propertyKeyPrefix providerID = ''suppress:'' @ providerID @ '':property:''"

definition geoKeyPrefix :: "string \<Rightarrow> string" where
  "geoKeyPrefix providerID = ''suppress:'' @ providerID @ '':geo:''"

definition PropertyKey :: "string \<Rightarrow> string \<Rightarrow> string" where
  "PropertyKey providerID propertyRID = ''suppress:'' @ providerID @ '':property:'' @ propertyRID"

definition GeoKey :: "string \<Rightarrow> string \<Rightarrow> string" where
  "GeoKey providerID country = ''suppress:'' @ providerID @ '':geo:'' @ country"

definition PropertyPrefix :: "string \<Rightarrow> string" where
  "PropertyPrefix providerID = propertyKeyPrefix providerID @ ''*''"

definition GeoPrefix :: "string \<Rightarrow> string" where
  "GeoPrefix providerID = geoKeyPrefix providerID @ ''*''"

definition MaxSuppressionTTL :: int where
  "MaxSuppressionTTL = 30 * 24 * 3600 * 1000000000"

definition SuppressProperty :: "string option \<Rightarrow> int \<Rightarrow> string \<Rightarrow> string \<Rightarrow> int \<Rightarrow> sstore \<Rightarrow> sstore \<times> string option" where
  "SuppressProperty f now providerID propertyRID ttl st =
     (if providerID = '''' then (st, Some ''suppressionstore: provider_id is required'')
      else if propertyRID = '''' then (st, Some ''suppressionstore: property_rid is required'')
      else if ttl \<le> 0 then (st, Some ''suppressionstore: ttl must be positive'')
      else if ttl > MaxSuppressionTTL then (st, Some ''suppressionstore: ttl exceeds MaxSuppressionTTL'')
      else case f of Some e \<Rightarrow> (st, Some e) | None \<Rightarrow> (S_Set now (PropertyKey providerID propertyRID) ''1'' ttl st, None))"

definition SuppressGeo :: "string option \<Rightarrow> int \<Rightarrow> string \<Rightarrow> string \<Rightarrow> int \<Rightarrow> sstore \<Rightarrow> sstore \<times> string option" where
  "SuppressGeo f now providerID country ttl st =
     (if providerID = '''' then (st, Some ''suppressionstore: provider_id is required'')
      else if country = '''' then (st, Some ''suppressionstore: country is required'')
      else if ttl \<le> 0 then (st, Some ''suppressionstore: ttl must be positive'')
      else if ttl > MaxSuppressionTTL then (st, Some ''suppressionstore: ttl exceeds MaxSuppressionTTL'')
      else case f of Some e \<Rightarrow> (st, Some e) | None \<Rightarrow> (S_Set now (GeoKey providerID country) ''1'' ttl st, None))"

definition UnsuppressProperty :: "string option \<Rightarrow> string \<Rightarrow> string \<Rightarrow> sstore \<Rightarrow> sstore \<times> string option" where
  "UnsuppressProperty f providerID propertyRID st =
     (if providerID = '''' then (st, Some ''suppressionstore: provider_id is required'')
      else if propertyRID = '''' then (st, Some ''suppressionstore: property_rid is required'')
      else case f of Some e \<Rightarrow> (st, Some e) | None \<Rightarrow> (S_Del [PropertyKey providerID propertyRID] st, None))"

definition UnsuppressGeo :: "string option \<Rightarrow> string \<Rightarrow> string \<Rightarrow> sstore \<Rightarrow> sstore \<times> string option" where
  "UnsuppressGeo f providerID country st =
     (if providerID = '''' then (st, Some ''suppressionstore: provider_id is required'')
      else if country = '''' then (st, Some ''suppressionstore: country is required'')
      else case f of Some e \<Rightarrow> (st, Some e) | None \<Rightarrow> (S_Del [GeoKey providerID country] st, None))"

section \<open>Loading\<close>

definition strip_keys :: "string \<Rightarrow> string list \<Rightarrow> string list" where
  "strip_keys pre ks = map (drop (length pre)) (filter (\<lambda>k. length k > length pre) ks)"

text \<open>The two scans are arguments: each runs at an instant of its own.\<close>

definition LoadAll :: "(string \<Rightarrow> string list result) \<Rightarrow> (string \<Rightarrow> string list result) \<Rightarrow> string \<Rightarrow> (string list \<times> string list) result" where
  "LoadAll property_scan geo_scan providerID =
     (if providerID = '''' then Inl ''suppressionstore: provider_id is required''
      else case property_scan (PropertyPrefix providerID) of
          Inl e \<Rightarrow> Inl (''suppressionstore: scan property keys: '' @ e)
        | Inr propertyKeys \<Rightarrow>
            (case geo_scan (GeoPrefix providerID) of
               Inl e \<Rightarrow> Inl (''suppressionstore: scan geo keys: '' @ e)
             | Inr geoKeys \<Rightarrow> Inr (strip_keys (propertyKeyPrefix providerID) propertyKeys, strip_keys (geoKeyPrefix providerID) geoKeys)))"

definition scan_at :: "string option \<Rightarrow> int \<Rightarrow> sstore \<Rightarrow> string \<Rightarrow> string list result" where
  "scan_at f now st pat = (case f of Some e \<Rightarrow> Inl e | None \<Rightarrow> Inr (S_Scan now pat st))"

section \<open>The snapshot\<close>

record snap_data =
  sd_properties :: "string list"
  sd_geos :: "string list"
  sd_loadedAt :: "int option"

record snapshot =
  sn_provider :: string
  sn_data :: snap_data
  sn_failures :: nat
  sn_last_refresh :: int

definition NewSnapshot :: "string \<Rightarrow> snapshot result" where
  "NewSnapshot providerID =
     (if providerID = '''' then Inl ''suppressionstore: provider_id is required''
      else Inr \<lparr>sn_provider = providerID, sn_data = \<lparr>sd_properties = [], sd_geos = [], sd_loadedAt = None\<rparr>,
        sn_failures = 0, sn_last_refresh = 0\<rparr>)"

definition unix_s :: "int \<Rightarrow> int" where "unix_s t = t div 1000000000"

definition Snapshot_Load :: "(string \<Rightarrow> string list result) \<Rightarrow> (string \<Rightarrow> string list result) \<Rightarrow> int \<Rightarrow> snapshot \<Rightarrow> snapshot \<times> string option" where
  "Snapshot_Load ps gs now s =
     (case LoadAll ps gs (sn_provider s) of
        Inl e \<Rightarrow> (s, Some e)
      | Inr (properties, geos) \<Rightarrow>
          (s\<lparr>sn_data := \<lparr>sd_properties = remdups properties, sd_geos = remdups geos, sd_loadedAt = Some now\<rparr>,
             sn_last_refresh := unix_s now, sn_failures := 0\<rparr>, None))"

text \<open>One tick of \<^verbatim>\<open>refreshLoop\<close>: a failed load counts and leaves the data.\<close>

definition refresh_tick :: "(string \<Rightarrow> string list result) \<Rightarrow> (string \<Rightarrow> string list result) \<Rightarrow> int \<Rightarrow> snapshot \<Rightarrow> snapshot" where
  "refresh_tick ps gs now s =
     (case Snapshot_Load ps gs now s of
        (s1, None) \<Rightarrow> s1
      | (s1, Some e) \<Rightarrow> s1\<lparr>sn_failures := sn_failures s1 + 1\<rparr>)"

text \<open>\<^verbatim>\<open>Start\<close>: an error of the first load is returned; the loop runs for a positive interval only.\<close>

definition Snapshot_Start :: "(string \<Rightarrow> string list result) \<Rightarrow> (string \<Rightarrow> string list result) \<Rightarrow> int \<Rightarrow> int \<Rightarrow> snapshot \<Rightarrow> snapshot \<times> bool \<times> string option" where
  "Snapshot_Start ps gs now refresh s =
     (case Snapshot_Load ps gs now s of
        (s1, Some e) \<Rightarrow> (s1, False, Some e)
      | (s1, None) \<Rightarrow> (s1, 0 < refresh, None))"

definition IsPropertySuppressed :: "snapshot \<Rightarrow> string \<Rightarrow> string \<Rightarrow> bool" where
  "IsPropertySuppressed s providerID propertyRID \<longleftrightarrow>
     (if providerID \<noteq> sn_provider s then False else propertyRID \<in> set (sd_properties (sn_data s)))"

definition IsGeoSuppressed :: "snapshot \<Rightarrow> string \<Rightarrow> string \<Rightarrow> bool" where
  "IsGeoSuppressed s providerID country \<longleftrightarrow>
     (if providerID \<noteq> sn_provider s then False else country \<in> set (sd_geos (sn_data s)))"

definition Sizes :: "snapshot \<Rightarrow> nat \<times> nat" where
  "Sizes s = (length (sd_properties (sn_data s)), length (sd_geos (sn_data s)))"

definition LastSuccessfulRefresh :: "snapshot \<Rightarrow> int option" where
  "LastSuccessfulRefresh s = (if sn_last_refresh s = 0 then None else Some (sn_last_refresh s))"

section \<open>Keys determine provider and value\<close>

text \<open>A provider id with a colon can read the suppressions of another provider as its own.\<close>

lemma provider_colon_overlaps: "PropertyKey ''a:property:b'' ''c'' = PropertyKey ''a'' ''b:property:c''"
  by (simp add: PropertyKey_def)

section \<open>Histories\<close>

text \<open>Writers, the clock and the ticks of the refresh loop, in the order they happen. Both scans of a tick are one event.\<close>

datatype sevent =
    EvSuppressProperty string string int "string option"
  | EvSuppressGeo string string int "string option"
  | EvUnsuppressProperty string string "string option"
  | EvUnsuppressGeo string string "string option"
  | EvTick "string option" "string option"
  | EvWait nat

record sworld =
  w_store :: sstore
  w_now :: int
  w_snap :: snapshot

fun sstep :: "sevent \<Rightarrow> sworld \<Rightarrow> sworld" where
  "sstep (EvSuppressProperty p r ttl f) w = w\<lparr>w_store := fst (SuppressProperty f (w_now w) p r ttl (w_store w))\<rparr>"
| "sstep (EvSuppressGeo p c ttl f) w = w\<lparr>w_store := fst (SuppressGeo f (w_now w) p c ttl (w_store w))\<rparr>"
| "sstep (EvUnsuppressProperty p r f) w = w\<lparr>w_store := fst (UnsuppressProperty f p r (w_store w))\<rparr>"
| "sstep (EvUnsuppressGeo p c f) w = w\<lparr>w_store := fst (UnsuppressGeo f p c (w_store w))\<rparr>"
| "sstep (EvTick pf gf) w =
     w\<lparr>w_snap := refresh_tick (scan_at pf (w_now w) (w_store w)) (scan_at gf (w_now w) (w_store w)) (w_now w) (w_snap w)\<rparr>"
| "sstep (EvWait d) w = w\<lparr>w_now := w_now w + int d\<rparr>"

definition swrun :: "sevent list \<Rightarrow> sworld \<Rightarrow> sworld" where
  "swrun es w = fold sstep es w"

text \<open>The specification: the suppressions in force with their expiry, by provider, and what the provider of the
  snapshot saw at its last successful load.\<close>

record sspec =
  props :: "string \<times> string \<Rightarrow> int option"
  geos :: "string \<times> string \<Rightarrow> int option"
  clock :: int
  seen_props :: "string set"
  seen_geos :: "string set"

definition in_force :: "int \<Rightarrow> (string \<times> string \<Rightarrow> int option) \<Rightarrow> string \<Rightarrow> string set" where
  "in_force now m p = {r. \<exists>t. m (p, r) = Some t \<and> now \<le> t}"

definition good_ttl :: "int \<Rightarrow> bool" where
  "good_ttl ttl \<longleftrightarrow> 0 < ttl \<and> ttl \<le> MaxSuppressionTTL"

fun spec_step :: "string \<Rightarrow> sevent \<Rightarrow> sspec \<Rightarrow> sspec" where
  "spec_step p0 (EvSuppressProperty p r ttl f) b =
     (if p \<noteq> '''' \<and> r \<noteq> '''' \<and> good_ttl ttl \<and> f = None then b\<lparr>props := (props b)((p, r) \<mapsto> clock b + ttl)\<rparr> else b)"
| "spec_step p0 (EvSuppressGeo p c ttl f) b =
     (if p \<noteq> '''' \<and> c \<noteq> '''' \<and> good_ttl ttl \<and> f = None then b\<lparr>geos := (geos b)((p, c) \<mapsto> clock b + ttl)\<rparr> else b)"
| "spec_step p0 (EvUnsuppressProperty p r f) b = (if p \<noteq> '''' \<and> r \<noteq> '''' \<and> f = None then b\<lparr>props := (props b)((p, r) := None)\<rparr> else b)"
| "spec_step p0 (EvUnsuppressGeo p c f) b = (if p \<noteq> '''' \<and> c \<noteq> '''' \<and> f = None then b\<lparr>geos := (geos b)((p, c) := None)\<rparr> else b)"
| "spec_step p0 (EvTick pf gf) b =
     (if pf = None \<and> gf = None then b\<lparr>seen_props := in_force (clock b) (props b) p0, seen_geos := in_force (clock b) (geos b) p0\<rparr> else b)"
| "spec_step p0 (EvWait d) b = b\<lparr>clock := clock b + int d\<rparr>"

fun ev_ok :: "sevent \<Rightarrow> bool" where
  "ev_ok (EvSuppressProperty p r ttl f) \<longleftrightarrow> CHR '':'' \<notin> set p"
| "ev_ok (EvSuppressGeo p c ttl f) \<longleftrightarrow> CHR '':'' \<notin> set p"
| "ev_ok (EvUnsuppressProperty p r f) \<longleftrightarrow> CHR '':'' \<notin> set p"
| "ev_ok (EvUnsuppressGeo p c f) \<longleftrightarrow> CHR '':'' \<notin> set p"
| "ev_ok e \<longleftrightarrow> True"

definition expiry_of :: "sstore \<Rightarrow> string \<Rightarrow> int option" where
  "expiry_of st k = (case map_of st k of None \<Rightarrow> None | Some e \<Rightarrow> se_expiry e)"

text \<open>A store the service writes: distinct keys, each with an expiry of at most thirty days.\<close>

definition wf_store :: "int \<Rightarrow> sstore \<Rightarrow> bool" where
  "wf_store now st \<longleftrightarrow> distinct (map fst st) \<and>
     (\<forall>(k, e)\<in>set st. \<exists>t. se_expiry e = Some t \<and> t \<le> now + MaxSuppressionTTL)"

lemma suppress_key_inj [simp]:
  assumes "CHR '':'' \<notin> set p" "CHR '':'' \<notin> set p'"
  shows "PropertyKey p r = PropertyKey p' r' \<longleftrightarrow> p = p' \<and> r = r'" "GeoKey p r = GeoKey p' r' \<longleftrightarrow> p = p' \<and> r = r'"
    "PropertyKey p r \<noteq> GeoKey p' r'" "GeoKey p r \<noteq> PropertyKey p' r'"
  using assms by (auto simp: PropertyKey_def GeoKey_def sep_inj)

definition stands_for :: "string \<Rightarrow> sworld \<Rightarrow> sspec \<Rightarrow> bool" where
  "stands_for p0 w b \<longleftrightarrow> w_now w = clock b \<and> wf_store (w_now w) (w_store w) \<and> sn_provider (w_snap w) = p0 \<and>
     (\<forall>p r. CHR '':'' \<notin> set p \<and> r \<noteq> '''' \<longrightarrow>
        props b (p, r) = expiry_of (w_store w) (PropertyKey p r) \<and> geos b (p, r) = expiry_of (w_store w) (GeoKey p r)) \<and>
     (\<forall>p. props b (p, '''') = None \<and> geos b (p, '''') = None) \<and>
     set (sd_properties (sn_data (w_snap w))) = seen_props b \<and> set (sd_geos (sn_data (w_snap w))) = seen_geos b"

section \<open>Every event keeps the correspondence\<close>

lemma expiry_set [simp]:
  "expiry_of (S_Set now k v ttl st) k' = (if k' = k then if ttl > 0 then Some (now + ttl) else None else expiry_of st k')"
  by (simp add: expiry_of_def S_Set_def update_conv')

lemma expiry_del [simp]: "expiry_of (S_Del [k] st) k' = (if k' = k then None else expiry_of st k')"
  by (simp add: expiry_of_def S_Del_def delete_conv')

lemma set_S_update: "set (AList.update k v st) \<subseteq> insert (k, v) (set st)"
  by (induction st) (auto split: if_splits)

lemma wf_set:
  assumes "wf_store now st" "good_ttl ttl"
  shows "wf_store now (S_Set now k v ttl st)"
  using assms set_S_update [of k "\<lparr>se_value = v, se_expiry = Some (now + ttl)\<rparr>" st]
  by (fastforce simp: wf_store_def S_Set_def distinct_update good_ttl_def)

lemma wf_del: "wf_store now st \<Longrightarrow> wf_store now (S_Del [k] st)"
  by (auto simp: wf_store_def S_Del_def AList.delete_eq distinct_map_filter dest: AList.distinct_delete)

lemma wf_wait: "wf_store now st \<Longrightarrow> now \<le> now' \<Longrightarrow> wf_store now' st"
  by (fastforce simp: wf_store_def)

lemma wf_expiry:
  "wf_store now st \<Longrightarrow> (k, e) \<in> set st \<longleftrightarrow> map_of st k = Some e"
  by (simp add: wf_store_def map_of_eq_Some_iff)

lemma scanned_keys:
  assumes "wf_store now st"
  shows "k \<in> set (S_Scan now (pre @ ''*'') st) \<longleftrightarrow> prefix pre k \<and> (\<exists>t. expiry_of st k = Some t \<and> now \<le> t)"
proof -
  have "\<exists>t. se_expiry e = Some t" if "(k, e) \<in> set st" for e using assms that by (auto simp: wf_store_def)
  with assms show ?thesis
    by (fastforce simp: S_Scan_def Let_def live_entry_def expiry_of_def wf_expiry image_iff split: option.splits)
qed

lemma stored_expiry: "wf_store now st \<Longrightarrow> expiry_of st k = Some t \<Longrightarrow> t \<le> now + MaxSuppressionTTL"
  by (fastforce simp: wf_store_def expiry_of_def split: option.splits dest: map_of_SomeD)

text \<open>A scan stripped of its prefix gives the nonempty rests of the live keys.\<close>

lemma strip_scan:
  assumes "wf_store now st"
  shows "set (strip_keys pre (S_Scan now (pre @ ''*'') st)) = {r. r \<noteq> '''' \<and> (\<exists>t. expiry_of st (pre @ r) = Some t \<and> now \<le> t)}"
proof -
  have "r \<in> set (strip_keys pre (S_Scan now (pre @ ''*'') st))" if "r \<noteq> ''''" "pre @ r \<in> set (S_Scan now (pre @ ''*'') st)" for r
    using that by (auto simp: strip_keys_def image_iff intro!: exI [of _ "pre @ r"])
  moreover have "r \<noteq> '''' \<and> pre @ r \<in> set (S_Scan now (pre @ ''*'') st)" if "r \<in> set (strip_keys pre (S_Scan now (pre @ ''*'') st))" for r
    using that by (auto simp: strip_keys_def scanned_keys [OF assms] prefix_def)
  ultimately show ?thesis by (auto simp: scanned_keys [OF assms])
qed

lemma key_split: "propertyKeyPrefix p @ r = PropertyKey p r" "geoKeyPrefix p @ c = GeoKey p c"
  by (simp_all add: propertyKeyPrefix_def geoKeyPrefix_def PropertyKey_def GeoKey_def)

lemma load_at:
  assumes "wf_store now st" "p \<noteq> ''''"
  shows "\<exists>ps gs. LoadAll (scan_at None now st) (scan_at None now st) p = Inr (ps, gs) \<and>
      set ps = {r. r \<noteq> '''' \<and> (\<exists>t. expiry_of st (PropertyKey p r) = Some t \<and> now \<le> t)} \<and>
      set gs = {r. r \<noteq> '''' \<and> (\<exists>t. expiry_of st (GeoKey p r) = Some t \<and> now \<le> t)}"
    "LoadAll (scan_at (Some e) now st) gs p = Inl (''suppressionstore: scan property keys: '' @ e)"
    "LoadAll (scan_at None now st) (scan_at (Some e) now st) p = Inl (''suppressionstore: scan geo keys: '' @ e)"
  using assms by (simp_all add: LoadAll_def scan_at_def PropertyPrefix_def GeoPrefix_def strip_scan) (simp add: key_split)

lemma stands_step:
  assumes "stands_for p0 w b" "p0 \<noteq> ''''" "CHR '':'' \<notin> set p0" "ev_ok e"
  shows "stands_for p0 (sstep e w) (spec_step p0 e b)"
proof (cases e)
  case (EvTick pf gf)
  show ?thesis
  proof (cases "pf = None \<and> gf = None")
    case True
    obtain ps gs where l: "LoadAll (scan_at None (w_now w) (w_store w)) (scan_at None (w_now w) (w_store w)) p0 = Inr (ps, gs)"
      "set ps = {r. r \<noteq> '''' \<and> (\<exists>t. expiry_of (w_store w) (PropertyKey p0 r) = Some t \<and> w_now w \<le> t)}"
      "set gs = {r. r \<noteq> '''' \<and> (\<exists>t. expiry_of (w_store w) (GeoKey p0 r) = Some t \<and> w_now w \<le> t)}"
      using load_at(1) [of "w_now w" "w_store w" p0] assms by (auto simp: stands_for_def)
    have "set ps = in_force (clock b) (props b) p0" "set gs = in_force (clock b) (geos b) p0"
      using assms unfolding l(2,3) in_force_def stands_for_def by (intro Collect_cong; metis option.distinct(1))+
    with assms l(1) EvTick True show ?thesis by (auto simp: stands_for_def refresh_tick_def Snapshot_Load_def)
  next
    case False
    then have "\<exists>err. LoadAll (scan_at pf (w_now w) (w_store w)) (scan_at gf (w_now w) (w_store w)) p0 = Inl err"
      using assms(2) by (cases pf; cases gf) (auto simp: LoadAll_def scan_at_def)
    with assms EvTick False show ?thesis by (auto simp: stands_for_def refresh_tick_def Snapshot_Load_def)
  qed
next
  case (EvSuppressProperty p r ttl f)
  with assms show ?thesis
    by (cases f) (auto simp: stands_for_def SuppressProperty_def good_ttl_def wf_set)
next
  case (EvSuppressGeo p c ttl f)
  with assms show ?thesis
    by (cases f) (auto simp: stands_for_def SuppressGeo_def good_ttl_def wf_set)
next
  case (EvUnsuppressProperty p r f)
  with assms show ?thesis by (cases f) (auto simp: stands_for_def UnsuppressProperty_def wf_del)
next
  case (EvUnsuppressGeo p c f)
  with assms show ?thesis by (cases f) (auto simp: stands_for_def UnsuppressGeo_def wf_del)
next
  case (EvWait d)
  with assms show ?thesis by (auto simp: stands_for_def intro: wf_wait)
qed

lemma stands_run:
  "stands_for p0 w b \<Longrightarrow> p0 \<noteq> '''' \<Longrightarrow> CHR '':'' \<notin> set p0 \<Longrightarrow> list_all ev_ok es \<Longrightarrow>
   stands_for p0 (swrun es w) (fold (spec_step p0) es b)"
  unfolding swrun_def by (induction es arbitrary: w b) (simp_all add: stands_step)

definition fresh_world :: "int \<Rightarrow> snapshot \<Rightarrow> sworld" where
  "fresh_world t s = \<lparr>w_store = [], w_now = t, w_snap = s\<rparr>"

definition fresh_spec :: "int \<Rightarrow> sspec" where
  "fresh_spec t = \<lparr>props = Map.empty, geos = Map.empty, clock = t, seen_props = {}, seen_geos = {}\<rparr>"

lemma stands_fresh: "NewSnapshot p = Inr s \<Longrightarrow> stands_for p (fresh_world t s) (fresh_spec t)"
  by (auto simp: NewSnapshot_def stands_for_def fresh_world_def fresh_spec_def wf_store_def expiry_of_def split: if_splits)

text \<open>The failures since the last successful tick.\<close>

fun count_tick :: "sevent \<Rightarrow> nat \<Rightarrow> nat" where
  "count_tick (EvTick pf gf) n = (if pf = None \<and> gf = None then 0 else n + 1)"
| "count_tick e n = n"

lemma failures_step:
  "sn_provider (w_snap w) \<noteq> '''' \<Longrightarrow>
   sn_failures (w_snap (sstep e w)) = count_tick e (sn_failures (w_snap w)) \<and> sn_provider (w_snap (sstep e w)) = sn_provider (w_snap w)"
  by (cases e) (auto simp: refresh_tick_def Snapshot_Load_def LoadAll_def scan_at_def split: option.splits)

lemma failures_run:
  "sn_provider (w_snap w) \<noteq> '''' \<Longrightarrow> sn_failures (w_snap (swrun es w)) = fold count_tick es (sn_failures (w_snap w))"
  unfolding swrun_def by (induction es arbitrary: w) (simp_all add: failures_step)

text \<open>C25: after any history of writers, waiting and refresh ticks, failing accesses among them, the snapshot suppresses
  for its provider exactly the properties and countries whose suppression was in force at the last
  successful tick, and nothing for another provider; the failure counter is the length of the current run of
  failed ticks; and whatever is in force expires within thirty days. Provider ids are free of colons.\<close>

theorem snapshot_refines:
  assumes "NewSnapshot p = Inr s" "CHR '':'' \<notin> set p" "list_all ev_ok es"
  shows "(\<forall>r. IsPropertySuppressed (w_snap (swrun es (fresh_world t s))) p r \<longleftrightarrow> r \<in> seen_props (fold (spec_step p) es (fresh_spec t))) \<and>
    (\<forall>c. IsGeoSuppressed (w_snap (swrun es (fresh_world t s))) p c \<longleftrightarrow> c \<in> seen_geos (fold (spec_step p) es (fresh_spec t))) \<and>
    (\<forall>q r. q \<noteq> p \<longrightarrow> \<not> IsPropertySuppressed (w_snap (swrun es (fresh_world t s))) q r \<and>
       \<not> IsGeoSuppressed (w_snap (swrun es (fresh_world t s))) q r) \<and>
    sn_failures (w_snap (swrun es (fresh_world t s))) = fold count_tick es 0 \<and>
    (\<forall>q r u. CHR '':'' \<notin> set q \<and> props (fold (spec_step p) es (fresh_spec t)) (q, r) = Some u \<longrightarrow>
       u \<le> clock (fold (spec_step p) es (fresh_spec t)) + MaxSuppressionTTL)"
proof -
  from assms(1) have p: "p \<noteq> ''''" "sn_provider s = p" "sn_failures s = 0" by (auto simp: NewSnapshot_def split: if_splits)
  define w b where "w = swrun es (fresh_world t s)" and "b = fold (spec_step p) es (fresh_spec t)"
  from stands_run [OF stands_fresh [OF assms(1)] p(1) assms(2,3)] have st: "stands_for p w b" by (simp add: w_def b_def)
  have "sn_failures (w_snap w) = fold count_tick es 0"
    using failures_run [of "fresh_world t s" es] p by (simp add: w_def fresh_world_def)
  moreover have "u \<le> clock b + MaxSuppressionTTL" if "CHR '':'' \<notin> set q" "props b (q, r) = Some u" for q r u
    using st that stored_expiry [of "w_now w" "w_store w" "PropertyKey q r" u] by (cases "r = ''''") (auto simp: stands_for_def)
  ultimately show ?thesis
    using st by (auto simp: w_def [symmetric] b_def [symmetric] stands_for_def IsPropertySuppressed_def IsGeoSuppressed_def)
qed

definition sample_events :: "sevent list" where
  "sample_events = [EvSuppressProperty ''acme'' ''r1'' 1000 None, EvSuppressProperty ''acme'' ''r2'' (31 * 24 * 3600 * 1000000000) None,
     EvSuppressGeo ''other'' ''DE'' 5000 None, EvTick None None, EvWait 2000, EvTick None (Some ''down'')]"

theorem snapshot_refines_witness:
  "\<exists>s. NewSnapshot ''acme'' = Inr s \<and> IsPropertySuppressed (w_snap (swrun sample_events (fresh_world 7 s))) ''acme'' ''r1'' \<and>
    \<not> IsPropertySuppressed (w_snap (swrun sample_events (fresh_world 7 s))) ''acme'' ''r2'' \<and>
    \<not> IsGeoSuppressed (w_snap (swrun sample_events (fresh_world 7 s))) ''acme'' ''DE'' \<and>
    sn_failures (w_snap (swrun sample_events (fresh_world 7 s))) = 1"
proof -
  obtain s where s: "NewSnapshot ''acme'' = Inr s" by (simp add: NewSnapshot_def)
  have b: "seen_props (fold (spec_step ''acme'') sample_events (fresh_spec 7)) = {''r1''}"
    "seen_geos (fold (spec_step ''acme'') sample_events (fresh_spec 7)) = {}"
    by (auto simp: sample_events_def fresh_spec_def good_ttl_def MaxSuppressionTTL_def in_force_def)
  show ?thesis
    using snapshot_refines [OF s, of sample_events 7] s by (simp add: b) (simp add: sample_events_def)
qed

end
