(* ===== verification/Context_Agent.thy ===== *)
theory Context_Agent
  imports Context_Engine Media_Buys Suppression TMP_Validate
begin

text \<open>
  The context agent: the storage its engine reads, \<^verbatim>\<open>src/targeting/contextagent/storage.go\<close> without caches, over the
  key-value model of the media buys, the package configs and the topics and over the suppression snapshot, and
  the HTTP handler of \<^verbatim>\<open>src/targeting/contextagent/handler.go\<close>. Decoding the body is an argument: the request or the
  reason there is none. The main results lead from the wire to the stores: an offer in an answer belongs to a
  package of a running buy of the seller, with a stored config whose gates it passed. Signature
  verification happens in front of the handler and is modelled in \<^verbatim>\<open>Request_Signing\<close>.
\<close>

section \<open>The storage\<close>

text \<open>The first occurrence of each package id, in order.\<close>

fun dedup_ids :: "string list \<Rightarrow> media_buy_package list \<Rightarrow> string list" where
  "dedup_ids seen [] = []"
| "dedup_ids seen (p # ps) =
     (if mp_package_id p \<in> set seen then dedup_ids seen ps else mp_package_id p # dedup_ids (mp_package_id p # seen) ps)"

record agent_faults =
  af_ids :: store_fault
  af_buys :: store_fault
  af_config :: store_fault
  af_configs :: store_fault
  af_artifact :: "taxonomy \<Rightarrow> string \<Rightarrow> store_fault"
  af_package :: "taxonomy \<Rightarrow> string \<Rightarrow> store_fault"

record agent_stores =
  as_buys :: kv
  as_configs :: kv
  as_topics :: kv
  as_snapshot :: snapshot
  as_signals :: "(string list \<Rightarrow> string list result) option"

definition storage_ActivePackages ::
  "buy_codec \<Rightarrow> agent_faults \<Rightarrow> kv \<Rightarrow> string \<Rightarrow> string \<Rightarrow> string \<Rightarrow> string \<Rightarrow> int \<Rightarrow> string list result" where
  "storage_ActivePackages J f st seller propertyID country placementID now =
     (case ActivePackages J (af_ids f) (af_buys f) seller propertyID country placementID now st of
        Inl e \<Rightarrow> Inl e
      | Inr pkgs \<Rightarrow> Inr (dedup_ids [] pkgs))"

definition storage_SignalMGet :: "(string list \<Rightarrow> string list result) option \<Rightarrow> string list \<Rightarrow> string list result" where
  "storage_SignalMGet signals ks =
     (if ks = [] then Inr []
      else case signals of None \<Rightarrow> Inl ''contextagent: signal store not configured'' | Some mget \<Rightarrow> mget ks)"

definition agent_storage :: "buy_codec \<Rightarrow> config_codec \<Rightarrow> agent_faults \<Rightarrow> agent_stores \<Rightarrow> context_storage" where
  "agent_storage JB JC f s =
     \<lparr>es_ActivePackages = storage_ActivePackages JB f (as_buys s),
      es_ContextConfig = Get_config JC (af_config f) (as_configs s),
      es_ContextConfigs = Some (MGet_config JC (kv_MGet (af_configs f) (as_configs s))),
      es_ArtifactTopics = (\<lambda>tax ref. ArtifactTopics (af_artifact f tax ref) tax ref (as_topics s)),
      es_PackageTopics = (\<lambda>tax p. PackageTopics (af_package f tax p) tax p (as_topics s)),
      es_IsPropertySuppressed = (\<lambda>p r. Inr (IsPropertySuppressed (as_snapshot s) p r)),
      es_IsGeoSuppressed = (\<lambda>p c. Inr (IsGeoSuppressed (as_snapshot s) p c)),
      es_SignalMGet = storage_SignalMGet (as_signals s)\<rparr>"

section \<open>The handler\<close>

datatype context_body = CtxTooLarge | CtxInvalid | CtxBody context_request

record context_handler =
  ch_engine :: engine
  ch_response_ttl :: int
  ch_majors :: "int list"
  ch_versions :: "string list"

record context_error =
  ce_request_id :: string
  ce_code :: string
  ce_message :: string

text \<open>A panic is caught by the server, which closes the connection.\<close>

datatype context_reply = CtxError nat context_error | CtxMatch provider_context_response | CtxPanic

definition context_writeError :: "string \<Rightarrow> string \<Rightarrow> string \<Rightarrow> nat \<Rightarrow> context_reply" where
  "context_writeError requestID code msg st = CtxError st \<lparr>ce_request_id = requestID, ce_code = code, ce_message = msg\<rparr>"

definition context_error_of :: "string \<Rightarrow> eval_error \<Rightarrow> context_reply" where
  "context_error_of requestID err =
     (case err of
        IndexPanic \<Rightarrow> CtxPanic
      | CtxErr e \<Rightarrow>
          if e = ''context deadline exceeded'' \<or> e = ''context canceled''
          then context_writeError requestID ''timeout'' ''request deadline exceeded'' 200
          else context_writeError requestID ''internal_error'' ''internal error'' 200)"

definition cache_ttl_secs :: "int \<Rightarrow> int option" where
  "cache_ttl_secs ttl = (let secs = ttl sdiv 1000000000 in if secs > 0 then Some secs else None)"

definition context_ServeHTTP ::
  "(string \<Rightarrow> string option) \<Rightarrow> (string \<Rightarrow> string option) \<Rightarrow> context_handler \<Rightarrow> ctx_checks \<Rightarrow> string \<Rightarrow> context_body \<Rightarrow> context_reply" where
  "context_ServeHTTP fetchable ref_url h cx meth body =
     (if meth \<noteq> ''POST'' then context_writeError '''' ''invalid_request'' ''POST required'' 405
      else case body of
          CtxTooLarge \<Rightarrow> context_writeError '''' ''invalid_request'' ''request body too large'' 413
        | CtxInvalid \<Rightarrow> context_writeError '''' ''invalid_request'' ''invalid request body'' 400
        | CtxBody req \<Rightarrow>
            (case ValidateContextRequest fetchable ref_url req of
               Some e \<Rightarrow> context_writeError (SafeRequestIDForEcho (cm_request_id req)) ''invalid_request'' ''invalid request'' 400
             | None \<Rightarrow>
                 if cm_adcp_version req \<noteq> '''' \<and> ch_versions h \<noteq> [] \<and> cm_adcp_version req \<notin> set (ch_versions h)
                 then context_writeError (cm_request_id req) ''invalid_request'' ''unsupported adcp_version'' 400
                 else if \<not> (cm_adcp_version req \<noteq> '''' \<and> ch_versions h \<noteq> []) \<and> cm_adcp_major_version req \<noteq> 0 \<and>
                      cm_adcp_major_version req \<notin> set (ch_majors h)
                 then context_writeError (cm_request_id req) ''invalid_request'' ''unsupported adcp_major_version'' 400
                 else case Evaluate (ch_engine h) cx req of
                     Inl err \<Rightarrow> context_error_of (cm_request_id req) err
                   | Inr r \<Rightarrow>
                       CtxMatch \<lparr>pc_adcp_version = '''', pc_adcp_major_version = 0, pc_type = ''context_match_response'',
                         pc_request_id = rs_request_id r, pc_offers = rs_offers r, pc_signals = rs_signals r,
                         pc_cache_ttl = cache_ttl_secs (ch_response_ttl h)\<rparr>))"

section \<open>From the stores to the listing\<close>

lemma dedup_ids_set: "set (dedup_ids seen ps) = mp_package_id ` set ps - set seen"
  by (induction seen ps rule: dedup_ids.induct) auto

lemma dedup_ids_distinct: "distinct (dedup_ids seen ps)"
  by (induction seen ps rule: dedup_ids.induct) (auto simp: dedup_ids_set)

text \<open>A listed package is one of a stored buy, listed for the seller, that runs and admits the request.\<close>

definition buy_serves :: "buy_codec \<Rightarrow> kv \<Rightarrow> string \<Rightarrow> string \<Rightarrow> string \<Rightarrow> string \<Rightarrow> int \<Rightarrow> string \<Rightarrow> bool" where
  "buy_serves J st seller propertyID country placementID now p \<longleftrightarrow>
     (\<exists>i\<in>set (SetMembers (SellerSetKey seller) st). \<exists>raw mb. kv_Get (MediaBuyKey i) st = Some raw \<and> unmarshal_buy J raw = Some mb \<and>
        isActive mb now \<and> matchesGeo mb country \<and> matchesProperty mb propertyID \<and>
        (\<exists>pkg\<in>set (mb_packages mb). mp_package_id pkg = p \<and> matchesPlacement pkg placementID))"

lemma listed_buy:
  assumes "storage_ActivePackages J f st seller propertyID country placementID now = Inr ids" "p \<in> set ids"
  shows "buy_serves J st seller propertyID country placementID now p"
proof -
  from assms obtain ps where ps: "ActivePackages J (af_ids f) (af_buys f) seller propertyID country placementID now st = Inr ps"
    "p \<in> mp_package_id ` set ps"
    by (auto simp: storage_ActivePackages_def dedup_ids_set split: sum.splits)
  then obtain i where i: "i \<in> set (SetMembers (SellerSetKey seller) st)"
    "p \<in> mp_package_id ` set (payload_packages J propertyID country placementID now (case kv_strings st (MediaBuyKey i) of None \<Rightarrow> '''' | Some v \<Rightarrow> v))"
    by (auto simp: ActivePackages_def MediaBuyIDsForSeller_def MGet_def split: if_splits option.splits sum.splits)
  then show ?thesis
    by (cases "kv_strings st (MediaBuyKey i)"; cases "unmarshal_buy J (the (kv_strings st (MediaBuyKey i)))")
      (auto simp: buy_serves_def kv_Get_def payload_packages_def split: if_splits intro!: bexI [OF _ i(1)])
qed

lemma stored_config:
  assumes "config_read (agent_storage JB JC f s) p c"
  shows "\<exists>raw. kv_Get (ConfigKey p) (as_configs s) = Some raw \<and> decodeConfig JC raw = Inr c"
proof -
  from assms obtain ids cs k where k: "MGet_config JC (kv_MGet (af_configs f) (as_configs s)) ids = Inr cs" "k < length ids" "ids ! k = p"
    "k < length cs" "cs ! k = Some c"
    by (auto simp: config_read_def agent_storage_def)
  then have "cs = map (\<lambda>i. decoded_or_none JC (case kv_Get (ConfigKey i) (as_configs s) of None \<Rightarrow> '''' | Some v \<Rightarrow> v)) ids"
    by (cases "af_configs f") (auto simp: kv_MGet_config, simp add: MGet_config_def kv_MGet_def split: if_splits)
  with k have "decoded_or_none JC (case kv_Get (ConfigKey p) (as_configs s) of None \<Rightarrow> '''' | Some v \<Rightarrow> v) = Some c" by simp
  then show ?thesis by (auto simp: decoded_or_none_def split: option.splits if_splits sum.splits)
qed

text \<open>The batched read of the agent is what the single reads of the fallback would have given.\<close>

lemma agent_batch_is_fallback:
  assumes "af_config f = None" "MGet_config JC (kv_MGet (af_configs f) (as_configs s)) ids = Inr cs" "'''' \<notin> set ids"
  shows "cs = preload_each (\<lambda>_. None) (es_ContextConfig (agent_storage JB JC f s)) 0 ids"
proof -
  have "preload_each (\<lambda>_. None) g i ids = map (\<lambda>p. case g p of Inl err \<Rightarrow> None | Inr c \<Rightarrow> c) ids" for g i
    by (rule preload_each_answered) (auto split: sum.split)
  with pkg_reader.batch_is_pointwise [OF assms(2,3)] assms(1) show ?thesis by (simp add: agent_storage_def)
qed

text \<open>Without faults the agent's storage is healthy for every request with non-empty artifact refs: valid accepted
  taxonomies, a signal store that answers, and no config stored under the empty package id.\<close>

lemma agent_healthy:
  assumes st: "en_storage e = agent_storage JB JC f s"
    and "af_configs f = None" "\<And>tax r. af_artifact f tax r = None" "\<And>tax p. af_package f tax p = None"
    and "\<forall>tax\<in>set (en_accepted e). Taxonomy_Validate tax = None" "'''' \<notin> set (extractArtifactKeys req)"
    and "as_signals s = Some (\<lambda>ks. Inr (map sg ks))" "kv_Get (ConfigKey '''') (as_configs s) = None"
  shows "healthy e req (\<lambda>i. decoded_or_none JC (case kv_Get (ConfigKey i) (as_configs s) of None \<Rightarrow> '''' | Some v \<Rightarrow> v)) sg"
proof -
  let ?cfg_of = "\<lambda>i. decoded_or_none JC (case kv_Get (ConfigKey i) (as_configs s) of None \<Rightarrow> '''' | Some v \<Rightarrow> v)"
  have "?cfg_of '''' = None" by (simp add: assms(8) decoded_or_none_def)
  then have "p \<noteq> ''''" if "?cfg_of p = Some c" for p c using that by (cases "p = ''''") simp_all
  then have "topics_answered e req p" if "?cfg_of p = Some c" for p c
    using that assms(3-6)
    by (auto simp: topics_answered_def st agent_storage_def ArtifactTopics_def PackageTopics_def artifact_guard_def
        package_guard_def reading_def split: option.split)
  moreover have "configs_answered e ?cfg_of"
    by (simp add: configs_answered_def st agent_storage_def assms(2) kv_MGet_config)
  moreover have "es_SignalMGet (en_storage e) = (\<lambda>ks. Inr (map sg ks))"
    by (rule ext) (simp add: st agent_storage_def storage_SignalMGet_def assms(7))
  ultimately show ?thesis unfolding healthy_def by blast
qed

text \<open>What the store holds for a topic set.\<close>

lemma topics_read:
  "es_ArtifactTopics (agent_storage JB JC f s) tax r = Inr ts \<Longrightarrow> ts = SetMembers (ArtifactKey tax r) (as_topics s) \<and> Taxonomy_Validate tax = None"
  "es_PackageTopics (agent_storage JB JC f s) tax p = Inr ts \<Longrightarrow> ts = SetMembers (PackageKey tax p) (as_topics s) \<and> Taxonomy_Validate tax = None"
  by (auto simp: agent_storage_def ArtifactTopics_def PackageTopics_def artifact_guard_def package_guard_def reading_def
      split: option.splits if_splits)

section \<open>From the wire to the stores\<close>

definition topic_shared :: "agent_stores \<Rightarrow> taxonomy list \<Rightarrow> context_request \<Rightarrow> string \<Rightarrow> bool" where
  "topic_shared s accepted req p \<longleftrightarrow>
     (\<exists>tax\<in>set accepted. \<exists>t\<in>set (SetMembers (PackageKey tax p) (as_topics s)).
        (\<exists>sigs. cm_context_signals req = Some sigs \<and> tax = taxonomy_of sigs \<and> t \<in> set (topics sigs)) \<or>
        (\<exists>r\<in>set (extractArtifactKeys req). t \<in> set (SetMembers (ArtifactKey tax r) (as_topics s))))"

lemma topic_proof_shared:
  "en_storage e = agent_storage JB JC f s \<Longrightarrow> topic_proof e req p \<Longrightarrow> topic_shared s (en_accepted e) req p"
  by (auto simp: topic_proof_def topic_shared_def overlap_read_def acceptsTaxonomy_def dest!: topics_read)

definition version_ok :: "context_handler \<Rightarrow> context_request \<Rightarrow> bool" where
  "version_ok h req \<longleftrightarrow>
     (if cm_adcp_version req \<noteq> '''' \<and> ch_versions h \<noteq> [] then cm_adcp_version req \<in> set (ch_versions h)
      else cm_adcp_major_version req = 0 \<or> cm_adcp_major_version req \<in> set (ch_majors h))"

lemma ServeHTTP_match:
  assumes "context_ServeHTTP fu ru h cx meth body = CtxMatch resp"
  obtains req r where "meth = ''POST''" "body = CtxBody req" "ValidateContextRequest fu ru req = None" "version_ok h req"
    "Evaluate (ch_engine h) cx req = Inr r" "pc_offers resp = rs_offers r" "pc_signals resp = rs_signals r" "pc_request_id resp = rs_request_id r"
    "pc_cache_ttl resp = cache_ttl_secs (ch_response_ttl h)"
  using assms
  by (auto simp: context_ServeHTTP_def context_writeError_def context_error_of_def version_ok_def
      split: if_splits context_body.splits option.splits sum.splits eval_error.splits)

lemma validated_seller: "ValidateContextRequest fu ru req = None \<Longrightarrow> cm_seller_agent_url req \<noteq> ''''"
  by (auto simp: ValidateContextRequest_def first_some_None fails_def split: if_splits)

text \<open>C21: from the wire to the stores: an offer in an answer was requested in a valid request of a supported version and
  belongs to a package of a stored buy that the index of the canonical seller lists, that runs now, and that admits
  country, property and placement; it is built from the package's stored config, which admits the property; the
  property is handled and neither it nor the country is suppressed in the snapshot; the config's signal profile, if
  it has one, accepts by values that the signal store answered for every key the profile consults, so a profile that
  only blocks is never passed on a read that failed; and a topic-targeting package shares a stored topic of an
  accepted taxonomy with the request, when that names any topic source.\<close>

theorem answered_offer_from_stores:
  assumes "en_storage (ch_engine h) = agent_storage JB JC f s"
    and "context_ServeHTTP fu ru h cx meth body = CtxMatch resp" "x \<in> set (pc_offers resp)"
  shows "\<exists>req seller c raw. body = CtxBody req \<and> ValidateContextRequest fu ru req = None \<and> version_ok h req \<and>
    en_Canonicalize (ch_engine h) (cm_seller_agent_url req) = Inr seller \<and>
    (cm_package_ids req = [] \<or> package_id x \<in> set (cm_package_ids req)) \<and>
    buy_serves JB (as_buys s) seller (cm_property_id req) (req_country req) (cm_placement_id req) (en_now (ch_engine h)) (package_id x) \<and>
    kv_Get (ConfigKey (package_id x)) (as_configs s) = Some raw \<and> decodeConfig JC raw = Inr c \<and>
    x \<in> set (buildOffersFromContextConfig (package_id x) c) \<and>
    (pg_property_rids c = [] \<or> cm_property_rid req \<in> set (pg_property_rids c)) \<and>
    ContainsPackage (en_properties (ch_engine h)) (package_id x) (cm_property_rid req) \<and>
    ContainsGlobal (en_properties (ch_engine h)) (cm_property_rid req) \<and>
    \<not> IsPropertySuppressed (as_snapshot s) (en_provider (ch_engine h)) (cm_property_rid req) \<and>
    (req_country req = '''' \<or> \<not> IsGeoSuppressed (as_snapshot s) (en_provider (ch_engine h)) (req_country req)) \<and>
    signal_proof (ch_engine h) req c \<and>
    (pg_topic_targets c \<and> haveTopicSource req \<longrightarrow> topic_shared s (en_accepted (ch_engine h)) req (package_id x))"
proof -
  let ?e = "ch_engine h"
  from ServeHTTP_match [OF assms(2)] obtain req r where q: "body = CtxBody req" "ValidateContextRequest fu ru req = None" "version_ok h req"
    "Evaluate ?e cx req = Inr r" "pc_offers resp = rs_offers r"
    by metis
  with assms(3) have "x \<in> set (rs_offers r)" by simp
  from offers_sound [OF q(4) this] obtain seller active c where
    o: "open_request ?e req seller" "listing ?e req seller = Inr active" "package_id x \<in> set active"
    "cm_package_ids req = [] \<or> package_id x \<in> set (cm_package_ids req)" "config_read (en_storage ?e) (package_id x) c"
    "x \<in> set (buildOffersFromContextConfig (package_id x) c)" "ContainsPropertyRID c (cm_property_rid req)"
    "ContainsPackage (en_properties ?e) (package_id x) (cm_property_rid req)" "signal_proof ?e req c"
    "pg_topic_targets c \<longrightarrow> en_accepted ?e \<noteq> [] \<and> (haveTopicSource req \<longrightarrow> topic_proof ?e req (package_id x))"
    by metis
  from stored_config [OF o(5) [unfolded assms(1)]] obtain raw where
    raw: "kv_Get (ConfigKey (package_id x)) (as_configs s) = Some raw" "decodeConfig JC raw = Inr c" by blast
  have "storage_ActivePackages JB f (as_buys s) seller (cm_property_id req) (req_country req) (cm_placement_id req) (en_now ?e) = Inr active"
    using o(2) by (simp add: listing_def assms(1) agent_storage_def)
  from listed_buy [OF this o(3)] have buy: "buy_serves JB (as_buys s) seller (cm_property_id req) (req_country req) (cm_placement_id req)
      (en_now ?e) (package_id x)" .
  have front: "en_Canonicalize ?e (cm_seller_agent_url req) = Inr seller" "ContainsGlobal (en_properties ?e) (cm_property_rid req)"
    "\<not> IsPropertySuppressed (as_snapshot s) (en_provider ?e) (cm_property_rid req)"
    "req_country req = '''' \<or> \<not> IsGeoSuppressed (as_snapshot s) (en_provider ?e) (req_country req)"
    using o(1) validated_seller [OF q(2)] by (simp_all add: open_request_def assms(1) agent_storage_def)
  have "pg_property_rids c = [] \<or> cm_property_rid req \<in> set (pg_property_rids c)"
    using o(7) ContainsPropertyRID_spec [OF decoded_fits [OF raw(2)]] by simp
  with q o(4,6,8,9,10) raw buy front topic_proof_shared [OF assms(1), of req "package_id x"] show ?thesis
    by (intro exI [of _ req] exI [of _ seller] exI [of _ c] exI [of _ raw]) simp
qed

lemma Evaluate_request_id: "Evaluate e cx req = Inr r \<Longrightarrow> rs_request_id r = cm_request_id req"
  by (auto simp: Evaluate_def Let_def split: option.splits sum.splits if_splits)

lemma validated_request_id: "ValidateContextRequest fu ru req = None \<Longrightarrow> validateEchoID ''request_id'' (cm_request_id req) = None"
  by (auto simp: ValidateContextRequest_def first_some_None fails_def split: if_splits)

lemma cache_ttl_spec: "case cache_ttl_secs ttl of None \<Rightarrow> ttl < 1000000000 | Some secs \<Rightarrow> secs > 0"
proof (cases "ttl < 1000000000")
  case False
  then have "ttl sdiv 1000000000 = ttl div 1000000000" by (simp add: signed_divide_int_def)
  moreover have "0 < ttl div 1000000000" using False by (simp add: pos_imp_zdiv_pos_iff)
  ultimately show ?thesis by (simp add: cache_ttl_secs_def)
qed (simp add: cache_ttl_secs_def Let_def split: option.split)

text \<open>A request the engine is not asked about.\<close>

definition refused_early :: "(string \<Rightarrow> string option) \<Rightarrow> (string \<Rightarrow> string option) \<Rightarrow> context_handler \<Rightarrow> string \<Rightarrow> context_body \<Rightarrow> bool" where
  "refused_early fu ru h meth body \<longleftrightarrow> meth \<noteq> ''POST'' \<or>
     (case body of CtxBody req \<Rightarrow> ValidateContextRequest fu ru req \<noteq> None \<or> \<not> version_ok h req | _ \<Rightarrow> True)"

lemma refused_answer:
  assumes "refused_early fu ru h meth body"
  shows "\<exists>st err. context_ServeHTTP fu ru (h\<lparr>ch_engine := e\<rparr>) cx meth body = CtxError st err \<and>
    context_ServeHTTP fu ru h cx' meth body = CtxError st err \<and> st \<in> {400, 405, 413} \<and> ce_code err = ''invalid_request'' \<and>
    (ce_request_id err = '''' \<or> validateEchoID ''request_id'' (ce_request_id err) = None)"
proof -
  have echo: "SafeRequestIDForEcho i = '''' \<or> validateEchoID ''request_id'' (SafeRequestIDForEcho i) = None" for i
    by (auto simp: SafeRequestIDForEcho_def)
  show ?thesis
  proof (cases "meth = ''POST''")
    case True
    show ?thesis
    proof (cases body)
      case (CtxBody req)
      show ?thesis
      proof (cases "ValidateContextRequest fu ru req")
        case None
        with assms True CtxBody have "\<not> version_ok h req" by (simp add: refused_early_def)
        with None True CtxBody validated_request_id [OF None] show ?thesis
          by (auto simp: context_ServeHTTP_def context_writeError_def version_ok_def split: if_splits)
      next
        case (Some err)
        with True CtxBody echo show ?thesis by (simp add: context_ServeHTTP_def context_writeError_def)
      qed
    qed (use True in \<open>simp_all add: context_ServeHTTP_def context_writeError_def\<close>)
  qed (simp add: context_ServeHTTP_def context_writeError_def)
qed

lemma admitted_answer:
  assumes "\<not> refused_early fu ru h meth body"
  obtains req where "body = CtxBody req" "ValidateContextRequest fu ru req = None" "version_ok h req"
    "context_ServeHTTP fu ru h cx meth body =
      (case Evaluate (ch_engine h) cx req of
         Inl err \<Rightarrow> context_error_of (cm_request_id req) err
       | Inr r \<Rightarrow> CtxMatch \<lparr>pc_adcp_version = '''', pc_adcp_major_version = 0, pc_type = ''context_match_response'',
           pc_request_id = rs_request_id r, pc_offers = rs_offers r, pc_signals = rs_signals r, pc_cache_ttl = cache_ttl_secs (ch_response_ttl h)\<rparr>)"
  using assms
  by (cases body) (auto simp: refused_early_def context_ServeHTTP_def version_ok_def split: if_splits)

text \<open>The agent's storage never answers a batch of the wrong length, so no index panics.\<close>

lemma eval_loop_no_panic: "length configs = i + length ps \<Longrightarrow> eval_loop ctx gates configs i ps os ss \<noteq> Inl IndexPanic"
  by (induction ps arbitrary: i os ss) (auto split: option.split)

lemma agent_preload_length:
  assumes "en_storage e = agent_storage JB JC f s"
  shows "length (preloadContextConfigs e cx ids) = length ids"
  using assms pkg_reader.aligned [of JC "af_configs f" "as_configs s" ids]
  by (auto simp: preloadContextConfigs_def agent_storage_def split: sum.split)

lemma panic_in_loop:
  assumes "Evaluate e cx req = Inl IndexPanic"
  shows "\<exists>gates cands. eval_loop (cx_loop cx) gates (preloadContextConfigs e cx cands) 0 cands [] [] = Inl IndexPanic"
proof (rule ccontr)
  assume none: "\<not> ?thesis"
  have "eval_loop (cx_loop cx) gates (preloadContextConfigs e cx cands) 0 cands [] [] \<noteq> Inl IndexPanic" for gates cands
    using none by blast
  with assms show False
    unfolding Evaluate_def Let_def by (auto split: option.splits if_splits sum.splits)
qed

lemma agent_never_panics: "en_storage e = agent_storage JB JC f s \<Longrightarrow> Evaluate e cx req \<noteq> Inl IndexPanic"
  using panic_in_loop [of e cx req] eval_loop_no_panic [of "preloadContextConfigs e cx cands" 0 cands for cands]
    agent_preload_length [of e JB JC f s cx]
  by auto


section \<open>A small agent\<close>

definition agent_codec :: config_codec where
  "agent_codec = \<lparr>marshal_config = (\<lambda>_. Inr ''c''), unmarshal_config = (\<lambda>raw. if raw = ''c'' then Some (demo_config False, [], None) else None)\<rparr>"

definition agent_demo_stores :: agent_stores where
  "agent_demo_stores =
     \<lparr>as_buys = run_buy_ops sample_codec [OpPut (sample_buy ''s'') None None] kv_empty,
      as_configs = fst (Put_config agent_codec None (Some ((demo_config False)\<lparr>pg_package_id := ''p1''\<rparr>)) kv_empty),
      as_topics = kv_empty,
      as_snapshot = \<lparr>sn_provider = ''acme'', sn_data = \<lparr>sd_properties = [''r9''], sd_geos = [], sd_loadedAt = Some 0\<rparr>, sn_failures = 0, sn_last_refresh = 1\<rparr>,
      as_signals = None\<rparr>"

definition agent_no_faults :: agent_faults where
  "agent_no_faults = \<lparr>af_ids = None, af_buys = None, af_config = None, af_configs = None, af_artifact = (\<lambda>_ _. None), af_package = (\<lambda>_ _. None)\<rparr>"

definition agent_handler :: context_handler where
  "agent_handler =
     \<lparr>ch_engine = \<lparr>en_provider = ''acme'', en_properties = \<lparr>pl_global = None, pl_by_package = None\<rparr>,
        en_storage = agent_storage sample_codec agent_codec agent_no_faults agent_demo_stores, en_accepted = [], en_now = 20513 * day_ns,
        en_Canonicalize = (\<lambda>_. Inr ''s''), en_HashURL = id\<rparr>,
      ch_response_ttl = 60000000000, ch_majors = [3], ch_versions = []\<rparr>"

definition agent_request :: context_request where
  "agent_request = TMP_Validate.sample_context_request\<lparr>cm_property_rid := ''r1'', cm_package_ids := []\<rparr>"

lemma agent_answers:
  "case context_ServeHTTP (\<lambda>_. None) (\<lambda>_. None) agent_handler demo_checks ''POST'' (CtxBody agent_request) of
     CtxMatch resp \<Rightarrow> map package_id (pc_offers resp) = [''p1''] \<and> pc_cache_ttl resp = Some 60 | _ \<Rightarrow> False"
  by code_simp

theorem answered_offer_from_stores_witness:
  "buy_serves sample_codec (as_buys agent_demo_stores) ''s'' (cm_property_id agent_request) (req_country agent_request)
     (cm_placement_id agent_request) (20513 * day_ns) ''p1''"
proof -
  have st: "en_storage (ch_engine agent_handler) = agent_storage sample_codec agent_codec agent_no_faults agent_demo_stores"
    and sel: "en_Canonicalize (ch_engine agent_handler) u = Inr ''s''" "en_now (ch_engine agent_handler) = 20513 * day_ns" for u
    by (simp_all add: agent_handler_def)
  obtain resp where resp: "context_ServeHTTP (\<lambda>_. None) (\<lambda>_. None) agent_handler demo_checks ''POST'' (CtxBody agent_request) = CtxMatch resp"
    "map package_id (pc_offers resp) = [''p1'']"
    using agent_answers by (auto split: context_reply.splits)
  then obtain x where "x \<in> set (pc_offers resp)" "package_id x = ''p1''" by (auto simp: map_eq_Cons_conv)
  from answered_offer_from_stores [OF st resp(1) this(1)] this(2) show ?thesis
    unfolding sel by (elim exE conjE) (simp add: sel)
qed


end
