(* ===== verification/Spec2Isabelle.thy ===== *)
theory Spec2Isabelle
  imports Router_Handlers Idempotency_Retry Version_Negotiation Signal_Targeting Key_Store Verified_Identity Identity_Config Config_Lifecycle Identity_Service Identity_Handler UID2_Client Context_Agent
begin

text \<open>
  A model of the core of \<^verbatim>\<open>adcp-go\<close>: the Trusted Match Protocol (TMP) router, the two agents a router talks to,
  the protocol package they share, the UID2 client, and the idempotency and version layers of the AdCP v3
  server.

  The program. A publisher posts a context-match or an identity-match request to the router
  (\<^verbatim>\<open>src/router/router.go\<close>). The handler bounds and decodes the body, completes property identifiers
  from a registry, validates the request (\<^verbatim>\<open>src/tmproto/validate.go\<close>), strips credentials from the
  artifact, selects the providers that may see the request, and fans out to them in one goroutine
  each. A leg first asks the response cache (context requests only), then the circuit breaker, forwards
  the part of the request the provider is entitled to, signed with a cached daily signature, and
  records the outcome. The handler merges what arrived. Beside the requests, discovery replaces the
  provider set, draining takes a provider out of service, and health checks feed the breaker.

  A provider runs an agent. The context agent (\<^verbatim>\<open>src/targeting/contextagent\<close>) lists the packages of the running media
  buys of the seller, loads their configs and offers those whose property, signal and topic gates admit
  the request. The identity agent (\<^verbatim>\<open>src/targeting/identityagent\<close>) decodes identity tokens, evaluates frequency caps,
  audiences and verified identities, and seals an exposure token for the eligible packages. Both read
  key-value stores that writer services fill, and snapshots that background loops refresh.

  The router.

  \<^item> \<^verbatim>\<open>AdCP_Prelude\<close>, \<^verbatim>\<open>Go_Strings\<close>: results as sums, 64-bit wrap-around, byte-string helpers, first-error
    combinators, \<^verbatim>\<open>strings.TrimSpace\<close>.
  \<^item> \<^verbatim>\<open>TMP_Types\<close> (\<^verbatim>\<open>tmproto/types_gen.go\<close>, \<^verbatim>\<open>identity.go\<close>, \<^verbatim>\<open>artifact.go\<close>): a struct is a record, a pointer an
    option, a free JSON value the datatype \<open>json\<close>.
  \<^item> \<^verbatim>\<open>TMP_Validate\<close> (\<^verbatim>\<open>tmproto/validate.go\<close>, \<^verbatim>\<open>validate_ladder.go\<close>, \<^verbatim>\<open>artifact.go\<close>): a validator returns the
    first error message or none. What an accepted request satisfies; what stripping removes.
  \<^item> \<^verbatim>\<open>Glob_Match\<close> and \<^verbatim>\<open>Provider_Filter\<close> (\<^verbatim>\<open>router/filter.go\<close>): the backtracking scan of a glob against its
    meaning, and the provider selection rule.
  \<^item> \<^verbatim>\<open>Provider_Config\<close> (\<^verbatim>\<open>router/config.go\<close>, \<^verbatim>\<open>safedial.go\<close>): registrations and the guard against internal
    addresses.
  \<^item> \<^verbatim>\<open>Provider_Health\<close> (\<^verbatim>\<open>router/health.go\<close>): the breaker as operations on a map of statistics, and its
    atomic loads, stores and swaps as a step relation.
  \<^item> \<^verbatim>\<open>Provider_Set\<close> (\<^verbatim>\<open>router/providerset.go\<close>, \<^verbatim>\<open>discovery.go\<close>, \<^verbatim>\<open>drain.go\<close>, \<^verbatim>\<open>healthcheck.go\<close>): the published
    snapshot, reconciliation entry by entry, for reports with duplicate ids too, and the drain loop over what the
    rest of the process does meanwhile.
  \<^item> \<^verbatim>\<open>Context_Cache\<close> (\<^verbatim>\<open>router/context_cache.go\<close>): lookups, stores and eviction; a hit is always something
    stored under the same coordinates and still alive.
  \<^item> \<^verbatim>\<open>Request_Signing\<close> (\<^verbatim>\<open>tmproto/signing.go\<close>, \<^verbatim>\<open>router/signing.go\<close>): the signing input, verification over two
    epochs and the signature cache.
  \<^item> \<^verbatim>\<open>Router_Registry\<close> (\<^verbatim>\<open>router/registry.go\<close>): pointers to properties are indices into a store of
    records; under stable naming the indexes answer what one map from ids to properties says, and two lemmas show what
    goes wrong without it.
  \<^item> \<^verbatim>\<open>Response_Merge\<close> (\<^verbatim>\<open>router/router.go\<close>, \<^verbatim>\<open>signals.go\<close>, \<^verbatim>\<open>slot_contract.go\<close>): both merges.
  \<^item> \<^verbatim>\<open>Router_Handlers\<close> (\<^verbatim>\<open>router/router.go\<close>): the handlers. A leg is the list of its accesses to the shared
    state; legs run in every interleaving, and a circuit check is
    one access there (\<^verbatim>\<open>Provider_Health\<close> splits it into its load and swap). Every call of a leg follows a check that
    found the circuit closed; every refusal has its status, code and echo.

  The context agent.

  \<^item> \<^verbatim>\<open>Key_Store\<close> (\<^verbatim>\<open>targeting/mediabuystore/mock.go\<close>, \<^verbatim>\<open>topicstore/mock.go\<close>): sets and strings by key. An access
    that can fail takes its fault as an argument.
  \<^item> \<^verbatim>\<open>Signal_Targeting\<close> (\<^verbatim>\<open>targeting/signalstore/signalstore.go\<close>, \<^verbatim>\<open>engine_signals.go\<close>): signal profiles and their keys. The
    odometer of the expansion takes the product of the sizes as fuel, which \<open>odometer_product\<close> shows to be enough.
    One batched read decides as single reads would; \<open>read_accepts\<close> says that a profile accepts by values that were
    read without error.
  \<^item> \<^verbatim>\<open>Topic_Store\<close> (\<^verbatim>\<open>targeting/topicstore\<close>), \<^verbatim>\<open>Media_Buys\<close> (\<^verbatim>\<open>mediabuystore\<close>), \<^verbatim>\<open>Package_Configs\<close> (\<^verbatim>\<open>entity.go\<close>,
    \<^verbatim>\<open>primitives.go\<close>, \<^verbatim>\<open>pkgconfigstore\<close>) and \<^verbatim>\<open>Suppression\<close> (\<^verbatim>\<open>suppressionstore\<close>): writers, readers and
    snapshots. After any history of operations, failing ones included, readers answer what an abstract map
    holds; dates are days of the Gregorian calendar, expiries are instants.
  \<^item> \<^verbatim>\<open>Context_Engine\<close> (\<^verbatim>\<open>targeting/engine.go\<close>): the evaluation over a record of storage answers. Exactness with healthy
    storage, soundness whatever fails.
  \<^item> \<^verbatim>\<open>Context_Agent\<close> (\<^verbatim>\<open>targeting/contextagent/storage.go\<close>, \<^verbatim>\<open>handler.go\<close>): the storage over the stores above and the HTTP
    handler; what an offer in an answer implies about the stores.

  The identity agent.

  \<^item> \<^verbatim>\<open>Identity_Targeting\<close> (\<^verbatim>\<open>targeting/identity_config.go\<close>, \<^verbatim>\<open>identity_engine.go\<close>, \<^verbatim>\<open>audience\<close>, \<^verbatim>\<open>fcap\<close>): segment rules,
    audience memberships and frequency caps.
  \<^item> \<^verbatim>\<open>Verified_Identity\<close> (\<^verbatim>\<open>targeting/verified_identity.go\<close>, \<^verbatim>\<open>verified_identity_receiver.go\<close>): attestations and sealed
    credentials, the checks around the proof verifier, the gate.
  \<^item> \<^verbatim>\<open>Identity_Config\<close> and \<^verbatim>\<open>Config_Lifecycle\<close> (\<^verbatim>\<open>targeting/identityconfig\<close>): snapshots and deltas, the retried first load
    (a \<^theory_text>\<open>partial_function\<close> whose termination is proved for every bound that is set, with instants below
    \<open>2^62\<close>), and the start and stop of the refresh loop as steps.
  \<^item> \<^verbatim>\<open>Identity_Service\<close> (\<^verbatim>\<open>targeting/identityagent/service.go\<close>): the pipeline; its two parallel stages run under a schedule.
  \<^item> \<^verbatim>\<open>Tmpx_Token\<close> (\<^verbatim>\<open>tmproto/tmpx.go\<close>, \<^verbatim>\<open>tmpx_open.go\<close>), \<^verbatim>\<open>Identity_Decoders\<close> (\<^verbatim>\<open>targeting/tmpxdecoders\<close>), \<^verbatim>\<open>Tmpx_Sealer\<close>
    (\<^verbatim>\<open>targeting/identityagent/tmpx.go\<close>): plaintext, envelope and wire form over a record of cipher primitives, of which
    \<open>sound_suite\<close> states that opening inverts sealing; decoding of identities; selection, sealing and slots.
  \<^item> \<^verbatim>\<open>Identity_Handler\<close> (\<^verbatim>\<open>targeting/identityagent/handler.go\<close>): admission, evaluation (an argument), sealing and answers,
    composed with the pipeline in the end-to-end properties.
  \<^item> \<^verbatim>\<open>UID2_Client\<close> (\<^verbatim>\<open>uid2client\<close>): keys, tokens and refresh envelopes over a record of AES functions with the law
    \<open>sound_gcm\<close>; instants are unbounded integers.

  AdCP v3.

  \<^item> \<^verbatim>\<open>Idempotency_Backend\<close>, \<^verbatim>\<open>Idempotency_Store\<close>, \<^verbatim>\<open>Idempotency_System\<close>, \<^verbatim>\<open>Idempotency_Retry\<close> (\<^verbatim>\<open>adcp/v3/idempotency\<close>): a wrapped
    call is a machine whose steps are its accesses to the backend; five accesses suffice for every call. Calls,
    sweeps and faults interleave freely; at most one run takes effect, and replays are sound.
  \<^item> \<^verbatim>\<open>Version_Negotiation\<close> (\<^verbatim>\<open>adcp/v3/version.go\<close>): parsing, ordering and selection of releases.

  Interfaces. A locale states what a client relies on, and is interpreted on the model's own operations in the
  theory that provides them: \<open>inflight_counter\<close>, \<open>provider_registry\<close>, \<open>response_cache\<close>, \<open>claim_backend\<close>, \<open>set_store\<close>
  and its extension \<open>string_store\<close>, \<open>config_source\<close>.

  Parameters. The network, clocks, the JSON codec, ciphers, signatures and hashes, URL parsing and
  canonicalisation, the resolver and goroutine scheduling are arguments of the definitions: an answer, a
  clock reading, a function, or an order of arrival over which the theorems quantify.

  Not modelled. Logging and metrics sinks other than the events of a leg; HTTP plumbing, servers, commands and
  the parsing of environments and configuration files; LRU decorators around a third-party cache, and the
  Redis, Valkey and PostgreSQL adapters, whose semantics is that of the server; the identity-match signing
  input (a hash of canonical JSON); HTTP message signatures and key directories of \<^verbatim>\<open>adcp/v3/signing\<close>; generated
  client types, the v2 packages, the property registry client and the reference agents.
\<close>

end
